(* ===== verification/Prelude.thy ===== *)
theory Prelude
  imports Main "HOL-Library.Signed_Division"
begin

text \<open>
  Shared notions of the development: the C++ view of strings and machine integers, the
  standard-library conversions \<open>strtol\<close> and decimal printing, and generic facts on lists and
  maps that several components use.

  Strings are lists of bytes (\<open>char list\<close>); \<open>c_str\<close> is what a C function sees of a
  \<open>std::string\<close>.  Machine integers are \<open>int\<close>s with the conversion to a width written out
  (\<open>cast_s\<close>, \<open>cast_u\<close>), or words of HOL-Library where the code works on bits.  C++ division
  and remainder round towards zero: they are \<open>sdiv\<close> and \<open>smod\<close>.
\<close>

section \<open>Rule collections\<close>

named_theorems frame \<open>fields an operation leaves alone\<close>
named_theorems inv_intro \<open>operations preserve the invariant of their component\<close>

section \<open>Machine integers\<close>

text \<open>Conversion of an integer value to a signed or unsigned type of \<open>w\<close> bits.\<close>

definition cast_s :: "nat \<Rightarrow> int \<Rightarrow> int" where
  "cast_s w x = (x + 2 ^ (w - 1)) mod 2 ^ w - 2 ^ (w - 1)"

definition cast_u :: "nat \<Rightarrow> int \<Rightarrow> int" where
  "cast_u w x = x mod 2 ^ w"

definition fits_s :: "nat \<Rightarrow> int \<Rightarrow> bool" where
  "fits_s w x \<longleftrightarrow> - (2 ^ (w - 1)) \<le> x \<and> x < 2 ^ (w - 1)"

definition fits_u :: "nat \<Rightarrow> int \<Rightarrow> bool" where
  "fits_u w x \<longleftrightarrow> 0 \<le> x \<and> x < 2 ^ w"

lemma two_halves: "0 < w \<Longrightarrow> (2::int) ^ w = 2 ^ (w - 1) + 2 ^ (w - 1)"
  by (cases w) simp_all

lemma cast_s_id: "0 < w \<Longrightarrow> fits_s w x \<Longrightarrow> cast_s w x = x"
  using two_halves [of w] by (simp add: cast_s_def fits_s_def)

lemma cast_u_id: "fits_u w x \<Longrightarrow> cast_u w x = x"
  by (simp add: cast_u_def fits_u_def)

lemma cast_s_fits: "0 < w \<Longrightarrow> fits_s w (cast_s w x)"
proof -
  assume w: "0 < w"
  have "0 \<le> (x + 2 ^ (w - 1)) mod 2 ^ w" and "(x + 2 ^ (w - 1)) mod 2 ^ w < 2 ^ w"
    by simp_all
  then show ?thesis
    using two_halves [OF w] unfolding fits_s_def cast_s_def by linarith
qed

section \<open>C strings and characters\<close>

definition nul :: char where "nul = CHR 0x00"

text \<open>The characters a C function sees of a string: those before the first NUL byte.\<close>

definition c_str :: "string \<Rightarrow> string" where
  "c_str s = takeWhile (\<lambda>c. c \<noteq> nul) s"

lemma c_str_id: "nul \<notin> set s \<Longrightarrow> c_str s = s"
  unfolding c_str_def by (induction s) auto

lemma c_str_no_nul: "nul \<notin> set (c_str s)"
  unfolding c_str_def by (auto dest: set_takeWhileD)

lemma c_str_c_str [simp]: "c_str (c_str s) = c_str s"
  by (rule c_str_id [OF c_str_no_nul])

definition code :: "char \<Rightarrow> int" where
  "code c = of_char c"

text \<open>The value of a plain \<open>char\<close>, which is signed on the supported platforms.\<close>

definition schar :: "char \<Rightarrow> int" where
  "schar c = cast_s 8 (code c)"

definition is_space :: "char \<Rightarrow> bool" where
  "is_space c \<longleftrightarrow> code c = 32 \<or> (9 \<le> code c \<and> code c \<le> 13)"

definition is_digit :: "char \<Rightarrow> bool" where
  "is_digit c \<longleftrightarrow> 48 \<le> code c \<and> code c \<le> 57"

definition is_alpha :: "char \<Rightarrow> bool" where
  "is_alpha c \<longleftrightarrow> (65 \<le> code c \<and> code c \<le> 90) \<or> (97 \<le> code c \<and> code c \<le> 122)"

definition to_upper :: "char \<Rightarrow> char" where
  "to_upper c = (if 97 \<le> code c \<and> code c \<le> 122 then char_of (code c - 32) else c)"

definition digit_val :: "char \<Rightarrow> int" where
  "digit_val c = code c - 48"

definition digit_char :: "nat \<Rightarrow> char" where
  "digit_char d = char_of (48 + d)"

lemma code_range: "0 \<le> code c \<and> code c < 256"
proof -
  have "code c = code c mod 256" by (simp add: code_def)
  then show ?thesis by presburger
qed

lemma code_inj: "code a = code b \<longleftrightarrow> a = b"
  by (simp add: code_def)

lemma code_digit_char: "d < 10 \<Longrightarrow> code (digit_char d) = 48 + int d"
proof -
  assume "d < 10"
  then have "of_char (char_of (48 + d)) = ((48 + d) mod 256 :: nat)"
    by (simp only: of_char_of)
  with \<open>d < 10\<close> have "of_char (char_of (48 + d) :: char) = (48 + d :: nat)" by simp
  then have "int (of_char (char_of (48 + d) :: char)) = int (48 + d)" by simp
  then show ?thesis unfolding code_def digit_char_def of_nat_of_char by simp
qed

lemma is_digit_digit_char [simp]: "d < 10 \<Longrightarrow> is_digit (digit_char d)"
  by (simp add: is_digit_def code_digit_char)

lemma digit_val_digit_char [simp]: "d < 10 \<Longrightarrow> digit_val (digit_char d) = int d"
  by (simp add: digit_val_def code_digit_char)

lemma code_to_upper: "code (to_upper c) = (if 97 \<le> code c \<and> code c \<le> 122 then code c - 32 else code c)"
proof (cases "97 \<le> code c \<and> code c \<le> 122")
  case True
  have "code (char_of (code c - 32)) = (code c - 32) mod 256"
    unfolding code_def by (simp only: of_char_of)
  with True code_range [of c] have "code (char_of (code c - 32)) = code c - 32" by simp
  with True show ?thesis unfolding to_upper_def by (simp only: if_True simp_thms)
next
  case False
  then show ?thesis by (auto simp: to_upper_def)
qed

lemma to_upper_idem [simp]: "to_upper (to_upper c) = to_upper c"
proof -
  have "\<not> (97 \<le> code (to_upper c) \<and> code (to_upper c) \<le> 122)"
    by (auto simp: code_to_upper)
  then show ?thesis by (auto simp: to_upper_def)
qed

section \<open>Decimal numbers: printing and \<open>strtol\<close>\<close>

text \<open>Printing a number as \<open>operator<<\<close> of an output stream does.\<close>

fun show_nat :: "nat \<Rightarrow> string" where
  "show_nat n = (if n < 10 then [digit_char n] else show_nat (n div 10) @ [digit_char (n mod 10)])"

declare show_nat.simps [simp del]

definition show_int :: "int \<Rightarrow> string" where
  "show_int x = (if x < 0 then CHR ''-'' # show_nat (nat (- x)) else show_nat (nat x))"

definition digits_val :: "string \<Rightarrow> int" where
  "digits_val ds = foldl (\<lambda>v c. v * 10 + digit_val c) 0 ds"

lemma show_nat_props:
  "show_nat n \<noteq> [] \<and> (\<forall>c \<in> set (show_nat n). is_digit c) \<and> digits_val (show_nat n) = int n"
proof (induction n rule: show_nat.induct)
  case (1 n)
  show ?case
  proof (cases "n < 10")
    case True
    then show ?thesis by (simp add: show_nat.simps [of n] digits_val_def)
  next
    case False
    with 1 have IH: "show_nat (n div 10) \<noteq> []" "\<forall>c \<in> set (show_nat (n div 10)). is_digit c"
        "digits_val (show_nat (n div 10)) = int (n div 10)" by auto
    have eq: "show_nat n = show_nat (n div 10) @ [digit_char (n mod 10)]"
      using False by (simp add: show_nat.simps [of n])
    have "digits_val (show_nat n) = int (n div 10) * 10 + int (n mod 10)"
      using IH(3) by (simp add: eq digits_val_def)
    also have "\<dots> = int n" by presburger
    finally show ?thesis using IH by (auto simp: eq)
  qed
qed

lemma show_nat_nonempty [simp]: "show_nat n \<noteq> []"
  using show_nat_props by blast

lemma show_nat_digits: "c \<in> set (show_nat n) \<Longrightarrow> is_digit c"
  using show_nat_props by blast

lemma digits_val_show_nat [simp]: "digits_val (show_nat n) = int n"
  using show_nat_props by blast

text \<open>
  \<open>strtol(s, &end, 10)\<close> and \<open>strtoll\<close>, both 64 bits wide: white space, an optional sign and
  digits.  The result is the value (clamped to the range of the type), the characters from
  \<open>end\<close> on, and whether \<open>errno\<close> became ERANGE.  Without a digit nothing is converted and
  \<open>end\<close> is the start of the string.
\<close>

definition long_min :: int where "long_min = - (2 ^ 63)"
definition long_max :: int where "long_max = 2 ^ 63 - 1"

fun split_sign :: "string \<Rightarrow> bool \<times> string" where
  "split_sign [] = (False, [])"
| "split_sign (c # cs) =
     (if c = CHR ''-'' then (True, cs) else if c = CHR ''+'' then (False, cs) else (False, c # cs))"

definition strtol10 :: "string \<Rightarrow> int \<times> string \<times> bool" where
  "strtol10 s =
     (case split_sign (dropWhile is_space s) of (neg, t) \<Rightarrow>
        let ds = takeWhile is_digit t; rest = dropWhile is_digit t;
            v = (if neg then - digits_val ds else digits_val ds)
        in if ds = [] then (0, s, False)
           else if v < long_min then (long_min, rest, True)
           else if long_max < v then (long_max, rest, True)
           else (v, rest, False))"

lemma is_digit_not_space: "is_digit c \<Longrightarrow> \<not> is_space c"
  by (auto simp: is_digit_def is_space_def)

lemma code_minus [simp]: "code CHR ''-'' = 45" and code_plus [simp]: "code CHR ''+'' = 43"
  by (simp_all add: code_def)

lemma is_digit_not_sign: "is_digit c \<Longrightarrow> c \<noteq> CHR ''-'' \<and> c \<noteq> CHR ''+''"
  by (auto simp: is_digit_def)

lemma split_sign_digits: "(\<forall>c \<in> set ds. is_digit c) \<Longrightarrow> split_sign ds = (False, ds)"
  by (cases ds) (auto dest: is_digit_not_sign)

lemma strtol10_digits:
  assumes "\<forall>c \<in> set ds. is_digit c" and "ds \<noteq> []" and "digits_val ds \<le> long_max" and "0 \<le> digits_val ds"
  shows "strtol10 ds = (digits_val ds, [], False)"
proof -
  have d: "dropWhile is_space ds = ds"
    using assms by (cases ds) (auto dest: is_digit_not_space)
  have t: "takeWhile is_digit ds = ds" "dropWhile is_digit ds = []"
    using assms(1) by (simp_all add: takeWhile_eq_all_conv dropWhile_eq_Nil_conv)
  show ?thesis
    using assms by (simp add: strtol10_def d split_sign_digits t Let_def long_min_def)
qed

lemma strtol10_show_int:
  assumes "fits_s 64 v"
  shows "strtol10 (show_int v) = (v, [], False)"
proof (cases "v < 0")
  case False
  then show ?thesis
    using assms strtol10_digits [of "show_nat (nat v)"] show_nat_digits
    by (auto simp: show_int_def fits_s_def long_max_def)
next
  case True
  let ?ds = "show_nat (nat (- v))"
  have t: "takeWhile is_digit ?ds = ?ds" "dropWhile is_digit ?ds = []"
    using show_nat_digits by (auto simp: takeWhile_eq_all_conv dropWhile_eq_Nil_conv)
  have "\<not> is_space (CHR ''-'')" by (simp add: is_space_def)
  then have s: "dropWhile is_space (CHR ''-'' # ?ds) = CHR ''-'' # ?ds"
    by (rule dropWhile.simps(2) [THEN trans, OF if_not_P])
  show ?thesis
    using True assms
    unfolding show_int_def strtol10_def if_P [OF True] s
    by (simp add: t Let_def fits_s_def long_min_def long_max_def)
qed

section \<open>Lists and maps\<close>

text \<open>The position \<open>std::string::find\<close> or \<open>std::find\<close> returns: None stands for \<open>npos\<close>/\<open>end\<close>.\<close>

fun find_index :: "('a \<Rightarrow> bool) \<Rightarrow> 'a list \<Rightarrow> nat option" where
  "find_index P [] = None"
| "find_index P (x # xs) = (if P x then Some 0 else map_option Suc (find_index P xs))"

lemma find_index_Some:
  "find_index P xs = Some i \<Longrightarrow> i < length xs \<and> P (xs ! i) \<and> (\<forall>j < i. \<not> P (xs ! j))"
proof (induction xs arbitrary: i)
  case (Cons x xs)
  show ?case
  proof (cases "P x")
    case False
    with Cons.prems obtain j where j: "find_index P xs = Some j" "i = Suc j" by auto
    with Cons.IH False show ?thesis by (auto simp: less_Suc_eq_0_disj)
  qed (use Cons.prems in auto)
qed simp

lemma find_index_None: "find_index P xs = None \<longleftrightarrow> (\<forall>x \<in> set xs. \<not> P x)"
  by (induction xs) auto

text \<open>Removing the element at a position, as \<open>erase(it)\<close> does.\<close>

definition erase_at :: "nat \<Rightarrow> 'a list \<Rightarrow> 'a list" where
  "erase_at i xs = take i xs @ drop (Suc i) xs"

lemma set_erase_at: "set (erase_at i xs) \<subseteq> set xs"
  by (auto simp: erase_at_def dest: in_set_takeD in_set_dropD)

lemma length_erase_at: "i < length xs \<Longrightarrow> length (erase_at i xs) = length xs - 1"
  by (auto simp: erase_at_def)

lemma distinct_erase_at: "distinct xs \<Longrightarrow> distinct (erase_at i xs)"
  by (simp add: erase_at_def set_take_disj_set_drop_if_distinct)

section \<open>Searching in strings\<close>

text \<open>\<open>hay.find(needle, pos)\<close>: the first position from \<open>pos\<close> on where \<open>needle\<close> occurs.\<close>

fun find_str :: "string \<Rightarrow> string \<Rightarrow> nat option" where
  "find_str needle [] = (if needle = [] then Some 0 else None)"
| "find_str needle (c # cs) =
     (if take (length needle) (c # cs) = needle then Some 0 else map_option Suc (find_str needle cs))"

definition find_from :: "string \<Rightarrow> string \<Rightarrow> nat \<Rightarrow> nat option" where
  "find_from hay needle pos =
     (if pos \<le> length hay then map_option (\<lambda>i. pos + i) (find_str needle (drop pos hay)) else None)"

text \<open>\<open>s.substr(pos, n)\<close> for a position inside the string.\<close>

definition substr :: "string \<Rightarrow> nat \<Rightarrow> nat \<Rightarrow> string" where
  "substr s pos n = take n (drop pos s)"

lemma find_str_bound: "find_str needle hay = Some i \<Longrightarrow> i + length needle \<le> length hay"
proof (induction hay arbitrary: i)
  case (Cons c cs)
  show ?case
  proof (cases "take (length needle) (c # cs) = needle")
    case True
    then have "length needle \<le> length (c # cs)" by (metis length_take min.cobounded1)
    with True Cons.prems show ?thesis by simp
  next
    case False
    with Cons show ?thesis by auto
  qed
qed (simp split: if_split_asm)

lemma find_from_bound: "find_from hay needle pos = Some i \<Longrightarrow> pos \<le> i \<and> i + length needle \<le> length hay"
  by (auto simp: find_from_def split: if_split_asm dest: find_str_bound)

lemma find_str_char: "find_str [c] hay = (if c \<in> set hay then Some (length (takeWhile (\<lambda>x. x \<noteq> c) hay)) else None)"
  by (induction hay) auto

end
