(* ===== verification/Strings.thy ===== *)
theory Strings
  imports Prelude
begin

text \<open>
  String conversions and comparisons of the core library
  (src/src/trunk/libs/seiscomp3/core/strings.cpp).

  A \<open>bool fromString(T &value, str)\<close> of the code is a function to \<open>option\<close>: \<open>None\<close> is the
  result \<open>false\<close> (the value is left alone), \<open>Some v\<close> is \<open>true\<close> with \<open>v\<close> assigned.  All
  integer overloads share the same body, a call of \<open>strtol\<close> or \<open>strtoll\<close> and the checks of
  \<open>errno\<close> and of the end pointer; they differ in the final conversion to the target type.
\<close>

section \<open>Parsing of numbers\<close>

text \<open>
  The common body: fail on ERANGE, when the end pointer is not the end of the string, and
  when nothing was converted.  A string with an embedded NUL ends there for \<open>strtol\<close> but not
  for \<open>size()\<close>, so it fails the second check.
\<close>

definition parse_long :: "string \<Rightarrow> int option" where
  "parse_long str =
     (case strtol10 (c_str str) of (retval, endptr, erange) \<Rightarrow>
        if erange then None
        else if endptr \<noteq> [] \<or> c_str str \<noteq> str then None
        else if retval = 0 \<and> endptr = c_str str then None
        else Some retval)"

definition fromString_char :: "string \<Rightarrow> int option" where
  "fromString_char str = map_option (cast_s 8) (parse_long str)"

definition fromString_uchar :: "string \<Rightarrow> int option" where
  "fromString_uchar str = map_option (cast_u 8) (parse_long str)"

definition fromString_int :: "string \<Rightarrow> int option" where
  "fromString_int str = map_option (cast_s 32) (parse_long str)"

definition fromString_uint :: "string \<Rightarrow> int option" where
  "fromString_uint str = map_option (cast_u 32) (parse_long str)"

definition fromString_long :: "string \<Rightarrow> int option" where
  "fromString_long str = map_option (cast_s 64) (parse_long str)"

definition fromString_ulong :: "string \<Rightarrow> int option" where
  "fromString_ulong str = map_option (cast_u 64) (parse_long str)"

definition fromString_longlong :: "string \<Rightarrow> int option" where
  "fromString_longlong str = parse_long str"

definition fromString_ulonglong :: "string \<Rightarrow> int option" where
  "fromString_ulonglong str = map_option (cast_u 64) (parse_long str)"

section \<open>Comparison without case\<close>

fun compareNoCase :: "string \<Rightarrow> string \<Rightarrow> int" where
  "compareNoCase (a # as) (b # bs) =
     (if schar (to_upper a) < schar (to_upper b) then -1
      else if schar (to_upper b) < schar (to_upper a) then 1
      else compareNoCase as bs)"
| "compareNoCase [] [] = 0"
| "compareNoCase [] (b # bs) = -1"
| "compareNoCase (a # as) [] = 1"

definition fromString_bool :: "string \<Rightarrow> bool option" where
  "fromString_bool str =
     (if str = [] then None
      else if compareNoCase str ''true'' = 0 then Some True
      else if compareNoCase str ''false'' = 0 then Some False
      else map_option (\<lambda>v. v \<noteq> 0) (parse_long str))"

definition toString_bool :: "bool \<Rightarrow> string" where
  "toString_bool v = (if v then ''true'' else ''false'')"

text \<open>\<open>toString\<close> of an integer type prints it to a string stream.\<close>

definition toString_int :: "int \<Rightarrow> string" where
  "toString_int v = show_int v"

section \<open>White space\<close>

definition WHITESPACE :: string where
  "WHITESPACE = [CHR 0x09, CHR 0x0A, CHR 0x0B, CHR 0x0C, CHR 0x0D, CHR '' '']"

definition isWhitespace_char :: "char \<Rightarrow> bool" where
  "isWhitespace_char c = (if find_index (\<lambda>w. w = c) WHITESPACE = None then False else True)"

fun isWhitespace :: "string \<Rightarrow> bool" where
  "isWhitespace [] = True"
| "isWhitespace (c # cs) = (if \<not> isWhitespace_char c then False else isWhitespace cs)"

section \<open>Facts\<close>

lemma parse_long_show_int: "fits_s 64 v \<Longrightarrow> parse_long (show_int v) = Some v"
proof -
  assume v: "fits_s 64 v"
  have "\<not> is_digit nul" and "nul \<noteq> CHR ''-''"
    by (simp_all add: is_digit_def nul_def code_def)
  then have "nul \<notin> set (show_int v)"
    by (auto simp: show_int_def dest: show_nat_digits)
  then have c: "c_str (show_int v) = show_int v" by (rule c_str_id)
  have "show_int v \<noteq> []" by (simp add: show_int_def)
  then show ?thesis
    by (simp add: parse_long_def c strtol10_show_int [OF v])
qed

lemma fits_s_mono: "fits_s 32 v \<Longrightarrow> fits_s 64 v"
  by (simp add: fits_s_def)

lemma schar_eq: "schar c = (if code c < 128 then code c else code c - 256)"
proof (cases "code c < 128")
  case True
  then show ?thesis using code_range [of c] by (simp add: schar_def cast_s_def)
next
  case False
  have "(code c + 128) mod 256 = (code c - 128) mod 256"
    using mod_add_self2 [of "code c - 128" 256] by (simp add: add.commute)
  with False show ?thesis using code_range [of c] by (simp add: schar_def cast_s_def)
qed

lemma schar_inj: "schar a = schar b \<longleftrightarrow> a = b"
  using code_range [of a] code_range [of b] code_inj [of a b]
  by (auto simp: schar_eq split: if_split_asm)

text \<open>The comparison is zero exactly on strings that agree up to the case of ASCII letters.\<close>

lemma compareNoCase_zero: "compareNoCase a b = 0 \<longleftrightarrow> map to_upper a = map to_upper b"
proof (induction a b rule: compareNoCase.induct)
  case (1 a as b bs)
  then show ?case
    using schar_inj [of "to_upper a" "to_upper b"] by auto
qed simp_all

lemma compareNoCase_antisym: "compareNoCase b a = - compareNoCase a b"
  by (induction a b rule: compareNoCase.induct) auto

lemma compareNoCase_trans:
  "compareNoCase a b \<le> 0 \<Longrightarrow> compareNoCase b c \<le> 0 \<Longrightarrow> compareNoCase a c \<le> 0"
proof (induction a c arbitrary: b rule: compareNoCase.induct)
  case (1 x xs z zs)
  show ?case
  proof (cases b)
    case Nil
    with 1 show ?thesis by simp
  next
    case (Cons y ys)
    have "schar (to_upper x) \<le> schar (to_upper y)" "schar (to_upper y) \<le> schar (to_upper z)"
      using "1.prems" by (simp_all add: Cons split: if_split_asm)
    moreover have "schar (to_upper x) = schar (to_upper y) \<Longrightarrow> schar (to_upper y) = schar (to_upper z)
        \<Longrightarrow> compareNoCase xs zs \<le> 0"
      using "1.prems" by (intro "1.IH" [of ys]) (simp_all add: Cons)
    ultimately show ?thesis by simp
  qed
next
  case (4 x xs)
  then show ?case by (cases b) (simp_all split: if_split_asm)
qed simp_all

lemma isWhitespace_char_iff: "isWhitespace_char c \<longleftrightarrow> is_space c"
proof -
  have "isWhitespace_char c \<longleftrightarrow> c \<in> set WHITESPACE"
    by (auto simp: isWhitespace_char_def find_index_None)
  also have "\<dots> \<longleftrightarrow> code c \<in> {9, 10, 11, 12, 13, 32}"
    unfolding WHITESPACE_def list.set insert_iff empty_iff code_inj [of c, symmetric]
    by (simp add: code_def)
  also have "\<dots> \<longleftrightarrow> is_space c" by (auto simp: is_space_def)
  finally show ?thesis .
qed

lemma isWhitespace_iff: "isWhitespace s \<longleftrightarrow> (\<forall>c \<in> set s. is_space c)"
  by (induction s) (auto simp: isWhitespace_char_iff)

section \<open>Properties\<close>

text \<open>
  Reading back what was printed: every \<open>int\<close>, \<open>long\<close> and \<open>bool\<close> survives \<open>toString\<close> and
  \<open>fromString\<close>, an unsigned 64-bit number survives exactly when it is below 2^63 (the code parses it
  with the signed function and reports a range error), and an \<open>int\<close> is not range checked: any
  64-bit decimal number is accepted and cut to its low 32 bits.
\<close>

theorem fromString_toString:
  "(fits_s 32 v \<longrightarrow> fromString_int (toString_int v) = Some v) \<and>
   (fits_s 64 v \<longrightarrow> fromString_long (toString_int v) = Some v \<and> fromString_int (toString_int v) = Some (cast_s 32 v)) \<and>
   (fits_u 64 u \<longrightarrow> fromString_ulong (toString_int u) = (if u < 2 ^ 63 then Some u else None)) \<and>
   fromString_bool (toString_bool b) = Some b"
proof (intro conjI impI)
  show "fromString_int (toString_int v) = Some v" if "fits_s 32 v"
    using that by (simp add: fromString_int_def toString_int_def parse_long_show_int fits_s_mono cast_s_id)
  show "fromString_long (toString_int v) = Some v" "fromString_int (toString_int v) = Some (cast_s 32 v)" if "fits_s 64 v"
    using that by (simp_all add: fromString_long_def fromString_int_def toString_int_def parse_long_show_int cast_s_id)
  show "fromString_bool (toString_bool b) = Some b"
  proof -
    have "fromString_bool ''true'' = Some True" "fromString_bool ''false'' = Some False"
      by code_simp+
    then show ?thesis by (simp add: toString_bool_def)
  qed
  show "fromString_ulong (toString_int u) = (if u < 2 ^ 63 then Some u else None)" if u: "fits_u 64 u"
  proof (cases "u < 2 ^ 63")
    case True
    then show ?thesis
      using u parse_long_show_int [of u] cast_u_id [OF u]
      by (simp add: fromString_ulong_def toString_int_def fits_u_def fits_s_def)
  next
    case False
    then have s: "show_int u = show_nat (nat u)" "digits_val (show_nat (nat u)) = u" using u
      by (simp_all add: show_int_def fits_u_def)
    have d: "\<forall>c \<in> set (show_nat (nat u)). is_digit c" using show_nat_digits by blast
    then have t: "takeWhile is_digit (show_nat (nat u)) = show_nat (nat u)"
      "dropWhile is_space (show_nat (nat u)) = show_nat (nat u)"
      by (auto simp: takeWhile_eq_all_conv dropWhile_eq_self_iff dest: is_digit_not_space)
    have "nul \<notin> set (show_nat (nat u))"
      using d by (auto simp: is_digit_def nul_def code_def)
    then show ?thesis
      using False split_sign_digits [OF d]
      by (simp add: fromString_ulong_def toString_int_def parse_long_def c_str_id strtol10_def s t Let_def
          long_min_def long_max_def)
  qed
qed

theorem fromString_toString_witness:
  "fromString_int (toString_int (- 42)) = Some (- 42) \<and> fromString_int (toString_int 4294967296) = Some 0 \<and>
   fromString_ulong (toString_int (2 ^ 63)) = None"
  using fromString_toString [of "- 42" 0 True] fromString_toString [of 4294967296 "2 ^ 63" True]
  by (simp add: fits_s_def fits_u_def cast_s_def)

end
