(* ===== verification/Tokenizer.thy ===== *)
theory Tokenizer
  imports Strings
begin

text \<open>
  The quote- and escape-aware tokenizers \<open>tokenizeExt\<close>, \<open>tokenizeUnescape\<close> and \<open>splitExt\<close> of
  src/src/trunk/libs/seiscomp3/core/strings.cpp.

  A \<open>source\<close> pointer with its \<open>lenSource\<close> is the list of the characters still to be read;
  they hold no NUL, as in every call of \<open>splitExt\<close>, which measures its argument with
  \<open>strlen\<close>.  \<open>quote\<close> is \<open>None\<close> for the code's 0.  \<open>tokenizeExt\<close> returns a pointer into the
  source and a length: \<open>tok\<close> is the suffix of the source at that pointer, and the token is
  \<open>take lenTok tok\<close>.  Reading behind the terminating NUL is the fault \<open>ReadPastEnd\<close>.
\<close>

section \<open>The operations of the code\<close>

datatype fault = ReadPastEnd

definition backslash :: char where "backslash = CHR 0x5C"

text \<open>
  \<open>tokenizeExt\<close>.  In the branch of the backslash the escaped character is skipped; when the
  backslash is the last character, the increments of the \<open>for\<close> statement that follow
  \<open>continue\<close> step \<open>source\<close> over the NUL and make \<open>lenSource\<close> wrap around, so the next test
  of the loop condition reads behind the string.
\<close>

fun tokenizeExt_loop :: "string \<Rightarrow> bool \<Rightarrow> string \<Rightarrow> string \<Rightarrow> string option \<Rightarrow> nat \<Rightarrow> nat \<Rightarrow> char option
     \<Rightarrow> string \<Rightarrow> fault + (string option \<times> nat \<times> char option \<times> string)" where
  "tokenizeExt_loop delimiter trim ws quotes tok lenTok trailing quote [] =
     Inr (tok, lenTok - trailing, None, [])"
| "tokenizeExt_loop delimiter trim ws quotes tok lenTok trailing quote (c # cs) =
     (if c = backslash then
        (let tok' = (if lenTok = 0 then Some (c # cs) else tok);
             len' = (if lenTok = 0 then lenTok else lenTok + 1);
             tr' = (if lenTok = 0 then trailing else 0)
         in case cs of
              [] \<Rightarrow> Inl ReadPastEnd
            | d # ds \<Rightarrow> tokenizeExt_loop delimiter trim ws quotes tok' (len' + 1) tr' quote ds)
      else if quote = None \<and> c \<in> set delimiter then
        Inr (tok, lenTok - trailing, Some c, cs)
      else
        (let tok' = (if lenTok = 0 then Some (c # cs) else tok) in
         if quote = Some c then
           tokenizeExt_loop delimiter trim ws quotes tok' (lenTok + 1) trailing None cs
         else if quote = None \<and> c \<in> set quotes then
           tokenizeExt_loop delimiter trim ws quotes tok' (lenTok + 1) 0 (Some c) cs
         else if trim then
           (if quote = None \<and> c \<in> set ws then
              (if lenTok = 0 then tokenizeExt_loop delimiter trim ws quotes tok lenTok trailing quote cs
               else tokenizeExt_loop delimiter trim ws quotes tok' (lenTok + 1) (trailing + 1) quote cs)
            else tokenizeExt_loop delimiter trim ws quotes tok' (lenTok + 1) 0 quote cs)
         else tokenizeExt_loop delimiter trim ws quotes tok' (lenTok + 1) trailing quote cs))"

definition tokenizeExt :: "string \<Rightarrow> bool \<Rightarrow> string \<Rightarrow> string \<Rightarrow> string
     \<Rightarrow> fault + (string option \<times> nat \<times> char option \<times> string)" where
  "tokenizeExt delimiter trim ws quotes source =
     tokenizeExt_loop delimiter trim ws quotes None 0 0 None source"

text \<open>
  \<open>tokenizeUnescape\<close> builds the token in place: \<open>out\<close> is the text between \<open>tok\<close> and
  \<open>tokEnd\<close>, whose length is \<open>lenTok\<close>.  The write position never passes the read position, so
  the characters still to be read are not changed by the writes.  \<open>tok\<close> is NULL as long as
  \<open>lenTok\<close> is 0.
\<close>

fun tokenizeUnescape_loop :: "string \<Rightarrow> bool \<Rightarrow> string \<Rightarrow> string \<Rightarrow> string \<Rightarrow> nat \<Rightarrow> char option
     \<Rightarrow> string \<Rightarrow> string option \<times> char option \<times> string" where
  "tokenizeUnescape_loop delimiter trim ws quotes out trailing quote [] =
     (if out = [] then None else Some (take (length out - trailing) out), None, [])"
| "tokenizeUnescape_loop delimiter trim ws quotes out trailing quote (c # cs) =
     (if c = backslash then
        (case cs of
           [] \<Rightarrow> (Some (out @ [c]), None, [])
         | d # ds \<Rightarrow>
             (let keep = (case quote of
                            None \<Rightarrow> d \<noteq> backslash \<and> d \<notin> set quotes \<and> d \<notin> set delimiter \<and> d \<notin> set ws
                          | Some q \<Rightarrow> d \<noteq> backslash \<and> d \<noteq> q)
              in tokenizeUnescape_loop delimiter trim ws quotes
                   (if keep then out @ [c, d] else out @ [d]) 0 quote ds))
      else if quote = None \<and> c \<in> set delimiter then
        (if out = [] then None else Some (take (length out - trailing) out), Some c, cs)
      else if quote = Some c then
        tokenizeUnescape_loop delimiter trim ws quotes out 0 None cs
      else if quote = None \<and> c \<in> set quotes then
        tokenizeUnescape_loop delimiter trim ws quotes out 0 (Some c) cs
      else if trim then
        (if quote = None \<and> c \<in> set ws then
           (if out = [] then tokenizeUnescape_loop delimiter trim ws quotes out trailing quote cs
            else tokenizeUnescape_loop delimiter trim ws quotes (out @ [c]) (trailing + 1) quote cs)
         else tokenizeUnescape_loop delimiter trim ws quotes (out @ [c]) 0 quote cs)
      else tokenizeUnescape_loop delimiter trim ws quotes (out @ [c]) trailing quote cs)"

definition tokenizeUnescape :: "string \<Rightarrow> bool \<Rightarrow> string \<Rightarrow> string \<Rightarrow> string
     \<Rightarrow> string option \<times> char option \<times> string" where
  "tokenizeUnescape delimiter trim ws quotes source =
     tokenizeUnescape_loop delimiter trim ws quotes [] 0 None source"

lemma tokenizeExt_loop_rest_le:
  "tokenizeExt_loop delimiter trim ws quotes tok lenTok trailing quote src = Inr (t, n, d, rest) \<Longrightarrow>
   length rest \<le> length src"
proof (induction "length src" arbitrary: src trim tok lenTok trailing quote rule: less_induct)
  case less
  note IH = less.hyps
  show ?case
  proof (cases src)
    case (Cons c cs)
    then show ?thesis
      using less.prems
      by (auto simp: Let_def split: if_split_asm list.split_asm dest!: IH [rotated])
  qed (use less.prems in auto)
qed

lemma tokenizeExt_loop_rest:
  "tokenizeExt_loop delimiter trim ws quotes tok lenTok trailing quote src = Inr (t, n, d, rest) \<Longrightarrow>
   src \<noteq> [] \<Longrightarrow> length rest < length src"
  by (cases src) (auto simp: Let_def split: if_split_asm list.split_asm dest!: tokenizeExt_loop_rest_le)

lemma tokenizeUnescape_loop_rest_le:
  "tokenizeUnescape_loop delimiter trim ws quotes out trailing quote src = (t, d, rest) \<Longrightarrow>
   length rest \<le> length src"
proof (induction "length src" arbitrary: src trim trailing quote out rule: less_induct)
  case less
  note IH = less.hyps
  show ?case
  proof (cases src)
    case (Cons c cs)
    then show ?thesis
      using less.prems
      by (auto simp: Let_def split: if_split_asm list.split_asm dest!: IH [rotated])
  qed (use less.prems in auto)
qed

lemma tokenizeUnescape_loop_rest:
  "tokenizeUnescape_loop delimiter trim ws quotes out trailing quote src = (t, d, rest) \<Longrightarrow>
   src \<noteq> [] \<Longrightarrow> length rest < length src"
  by (cases src) (auto simp: Let_def split: if_split_asm list.split_asm dest!: tokenizeUnescape_loop_rest_le)

text \<open>
  The two loops of \<open>splitExt\<close>: they end when \<open>lenSource\<close> is 0; the delimiter found by the
  last call decides whether an empty token is appended.
\<close>

definition push_token :: "bool \<Rightarrow> string option \<Rightarrow> string list \<Rightarrow> string list" where
  "push_token compressOn tok tokens =
     (case tok of Some t \<Rightarrow> tokens @ [t]
      | None \<Rightarrow> if tokens = [] \<or> \<not> compressOn then tokens @ [[]] else tokens)"

function splitExt_ext :: "string \<Rightarrow> bool \<Rightarrow> bool \<Rightarrow> string \<Rightarrow> string \<Rightarrow> string list \<Rightarrow> char option \<Rightarrow> string
     \<Rightarrow> fault + string list" where
  "splitExt_ext delimiter compressOn trim ws quotes tokens delimFound source =
     (if source = [] then Inr (if delimFound \<noteq> None then tokens @ [[]] else tokens)
      else case tokenizeExt delimiter trim ws quotes source of
             Inl e \<Rightarrow> Inl e
           | Inr (tok, lenTok, d, rest) \<Rightarrow>
               splitExt_ext delimiter compressOn trim ws quotes
                 (push_token compressOn (map_option (take lenTok) tok) tokens) d rest)"
  by pat_completeness auto
termination splitExt_ext
  by (relation "measure (\<lambda>(_, _, _, _, _, _, _, src). length src)")
     (auto simp: tokenizeExt_def dest: tokenizeExt_loop_rest)

function splitExt_unescape :: "string \<Rightarrow> bool \<Rightarrow> bool \<Rightarrow> string \<Rightarrow> string \<Rightarrow> string list \<Rightarrow> char option \<Rightarrow> string
     \<Rightarrow> string list" where
  "splitExt_unescape delimiter compressOn trim ws quotes tokens delimFound source =
     (if source = [] then (if delimFound \<noteq> None then tokens @ [[]] else tokens)
      else case tokenizeUnescape delimiter trim ws quotes source of
             (tok, d, rest) \<Rightarrow>
               splitExt_unescape delimiter compressOn trim ws quotes
                 (push_token compressOn tok tokens) d rest)"
  by pat_completeness auto
termination splitExt_unescape
  by (relation "measure (\<lambda>(_, _, _, _, _, _, _, src). length src)")
     (auto simp: tokenizeUnescape_def dest: tokenizeUnescape_loop_rest [OF sym])

definition splitExt :: "string \<Rightarrow> string \<Rightarrow> bool \<Rightarrow> bool \<Rightarrow> bool \<Rightarrow> string \<Rightarrow> string \<Rightarrow> fault + string list" where
  "splitExt source delimiter compressOn unescape trim ws quotes =
     (if unescape
      then Inr (splitExt_unescape (c_str delimiter) compressOn trim (c_str ws) (c_str quotes) [] None (c_str source))
      else splitExt_ext (c_str delimiter) compressOn trim (c_str ws) (c_str quotes) [] None (c_str source))"

declare splitExt_ext.simps [simp del] splitExt_unescape.simps [simp del]

section \<open>Facts\<close>

text \<open>Characters that no branch but the last treats specially.\<close>

definition plain :: "string \<Rightarrow> string \<Rightarrow> char \<Rightarrow> bool" where
  "plain delimiter quotes c \<longleftrightarrow> c \<noteq> backslash \<and> c \<notin> set delimiter \<and> c \<notin> set quotes"

lemma tokenizeExt_loop_plain:
  "\<forall>c \<in> set xs. plain delimiter quotes c \<Longrightarrow>
   tokenizeExt_loop delimiter False ws quotes tok n tr None (xs @ rest) =
   tokenizeExt_loop delimiter False ws quotes (if n = 0 \<and> xs \<noteq> [] then Some (xs @ rest) else tok)
     (n + length xs) tr None rest"
  by (induction xs arbitrary: tok n) (auto simp: plain_def Let_def)

lemma tokenizeUnescape_loop_plain:
  "\<forall>c \<in> set xs. plain delimiter quotes c \<Longrightarrow>
   tokenizeUnescape_loop delimiter False ws quotes out tr None (xs @ rest) =
   tokenizeUnescape_loop delimiter False ws quotes (out @ xs) tr None rest"
  by (induction xs arbitrary: out) (auto simp: plain_def)

fun join :: "char \<Rightarrow> string list \<Rightarrow> string" where
  "join d [] = []"
| "join d [t] = t"
| "join d (t # u # ts) = t @ d # join d (u # ts)"

text \<open>A token that ends at a delimiter or at the end of the text.\<close>

lemma tokenizeExt_plain:
  assumes "\<forall>c \<in> set t. plain delimiter quotes c" and "rest = [] \<or> (\<exists>d ds. rest = d # ds \<and> d \<in> set delimiter \<and> d \<noteq> backslash)"
  shows "tokenizeExt delimiter False ws quotes (t @ rest) =
    Inr (if t = [] then None else Some (t @ rest), length t, if rest = [] then None else Some (hd rest), tl rest)"
  using assms(2) by (auto simp: tokenizeExt_def tokenizeExt_loop_plain [OF assms(1)])

lemma tokenizeUnescape_plain:
  assumes "\<forall>c \<in> set t. plain delimiter quotes c" and "rest = [] \<or> (\<exists>d ds. rest = d # ds \<and> d \<in> set delimiter \<and> d \<noteq> backslash)"
  shows "tokenizeUnescape delimiter False ws quotes (t @ rest) =
    (if t = [] then None else Some t, if rest = [] then None else Some (hd rest), tl rest)"
  using assms(2) by (auto simp: tokenizeUnescape_def tokenizeUnescape_loop_plain [OF assms(1)])

lemma splitExt_ext_join:
  assumes "\<forall>t \<in> set ts. \<forall>c \<in> set t. plain [d] quotes c" and "d \<noteq> backslash" and "ts \<noteq> []"
    and "ts = [[]] \<Longrightarrow> df \<noteq> None"
  shows "splitExt_ext [d] False False ws quotes acc df (join d ts) = Inr (acc @ ts)"
  using assms
proof (induction d ts arbitrary: acc df rule: join.induct)
  case (2 d t)
  then show ?case
    using tokenizeExt_plain [of t "[d]" quotes "[]" ws]
    by (cases "t = []") (simp_all add: splitExt_ext.simps push_token_def)
next
  case (3 d t u ts)
  have "tokenizeExt [d] False ws quotes (t @ d # join d (u # ts)) =
      Inr (if t = [] then None else Some (t @ d # join d (u # ts)), length t, Some d, join d (u # ts))"
    using tokenizeExt_plain [of t "[d]" quotes "d # join d (u # ts)" ws] 3 by simp
  then have "splitExt_ext [d] False False ws quotes acc df (join d (t # u # ts)) =
      splitExt_ext [d] False False ws quotes (acc @ [t]) (Some d) (join d (u # ts))"
    by (subst splitExt_ext.simps) (auto simp: push_token_def)
  then show ?case using 3 by simp
qed simp

lemma splitExt_unescape_join:
  assumes "\<forall>t \<in> set ts. \<forall>c \<in> set t. plain [d] quotes c" and "d \<noteq> backslash" and "ts \<noteq> []"
    and "ts = [[]] \<Longrightarrow> df \<noteq> None"
  shows "splitExt_unescape [d] False False ws quotes acc df (join d ts) = acc @ ts"
  using assms
proof (induction d ts arbitrary: acc df rule: join.induct)
  case (2 d t)
  then show ?case
    using tokenizeUnescape_plain [of t "[d]" quotes "[]" ws]
    by (cases "t = []") (simp_all add: splitExt_unescape.simps push_token_def)
next
  case (3 d t u ts)
  have "tokenizeUnescape [d] False ws quotes (t @ d # join d (u # ts)) =
      (if t = [] then None else Some t, Some d, join d (u # ts))"
    using tokenizeUnescape_plain [of t "[d]" quotes "d # join d (u # ts)" ws] 3 by simp
  then have "splitExt_unescape [d] False False ws quotes acc df (join d (t # u # ts)) =
      splitExt_unescape [d] False False ws quotes (acc @ [t]) (Some d) (join d (u # ts))"
    by (subst splitExt_unescape.simps) (auto simp: push_token_def)
  then show ?case using 3 by simp
qed simp

lemma set_join: "set (join d ts) \<subseteq> insert d (\<Union>t \<in> set ts. set t)"
  by (induction d ts rule: join.induct) auto

lemma set_c_str: "set (c_str s) \<subseteq> set s"
  by (auto simp: c_str_def dest: set_takeWhileD)

subsection \<open>Escaping\<close>

text \<open>The escaping \<open>tokenizeUnescape\<close> undoes: a backslash before every special character.\<close>

definition special :: "string \<Rightarrow> string \<Rightarrow> string \<Rightarrow> char \<Rightarrow> bool" where
  "special delimiter ws quotes c \<longleftrightarrow> c = backslash \<or> c \<in> set delimiter \<or> c \<in> set ws \<or> c \<in> set quotes"

definition escape :: "string \<Rightarrow> string \<Rightarrow> string \<Rightarrow> string \<Rightarrow> string" where
  "escape delimiter ws quotes t =
     concat (map (\<lambda>c. if special delimiter ws quotes c then [backslash, c] else [c]) t)"

lemma tokenizeUnescape_loop_escape:
  "tokenizeUnescape_loop delimiter trim ws quotes out 0 None (escape delimiter ws quotes t @ rest) =
   tokenizeUnescape_loop delimiter trim ws quotes (out @ t) 0 None rest"
proof (induction t arbitrary: out)
  case (Cons c t)
  show ?case
  proof (cases "special delimiter ws quotes c")
    case True
    then have "tokenizeUnescape_loop delimiter trim ws quotes out 0 None (escape delimiter ws quotes (c # t) @ rest) =
        tokenizeUnescape_loop delimiter trim ws quotes (out @ [c]) 0 None (escape delimiter ws quotes t @ rest)"
      by (auto simp: escape_def special_def)
    then show ?thesis using Cons by simp
  next
    case False
    then have "tokenizeUnescape_loop delimiter trim ws quotes out 0 None (escape delimiter ws quotes (c # t) @ rest) =
        tokenizeUnescape_loop delimiter trim ws quotes (out @ [c]) 0 None (escape delimiter ws quotes t @ rest)"
      by (auto simp: escape_def special_def)
    then show ?thesis using Cons by simp
  qed
qed (simp add: escape_def)

lemma tokenizeUnescape_escape:
  assumes "t \<noteq> []" and "rest = [] \<or> (\<exists>d ds. rest = d # ds \<and> d \<in> set delimiter \<and> d \<noteq> backslash)"
  shows "tokenizeUnescape delimiter trim ws quotes (escape delimiter ws quotes t @ rest) =
    (Some t, if rest = [] then None else Some (hd rest), tl rest)"
  using assms by (auto simp: tokenizeUnescape_def tokenizeUnescape_loop_escape)

lemma escape_nonempty: "t \<noteq> [] \<Longrightarrow> escape delimiter ws quotes t \<noteq> []"
  by (cases t) (auto simp: escape_def)

lemma set_escape: "set (escape delimiter ws quotes t) \<subseteq> insert backslash (set t)"
  by (auto simp: escape_def split: if_splits)

lemma splitExt_unescape_escape:
  assumes "\<forall>t \<in> set ts. t \<noteq> []" and "d \<noteq> backslash" and "ts \<noteq> []"
  shows "splitExt_unescape [d] compressOn trim ws quotes acc df (join d (map (escape [d] ws quotes) ts)) = acc @ ts"
  using assms
proof (induction d ts arbitrary: acc df rule: join.induct)
  case (2 d t)
  then show ?case
    using tokenizeUnescape_escape [of t "[]" "[d]" trim ws quotes] escape_nonempty [of t]
    by (simp add: splitExt_unescape.simps push_token_def)
next
  case (3 d t u ts)
  let ?r = "join d (map (escape [d] ws quotes) (u # ts))"
  have "tokenizeUnescape [d] trim ws quotes (escape [d] ws quotes t @ d # ?r) = (Some t, Some d, ?r)"
    using tokenizeUnescape_escape [of t "d # ?r" "[d]" trim ws quotes] 3 by simp
  then have "splitExt_unescape [d] compressOn trim ws quotes acc df (join d (map (escape [d] ws quotes) (t # u # ts))) =
      splitExt_unescape [d] compressOn trim ws quotes (acc @ [t]) (Some d) ?r"
    by (subst splitExt_unescape.simps) (auto simp: push_token_def)
  then show ?case using 3 by simp
qed simp

subsection \<open>Reads behind the end\<close>

text \<open>The text ends in a backslash that escapes nothing.\<close>

fun dangling :: "string \<Rightarrow> bool" where
  "dangling [] = False"
| "dangling [c] = (c = backslash)"
| "dangling (c # d # cs) = (if c = backslash then dangling cs else dangling (d # cs))"

lemma dangling_Cons: "c \<noteq> backslash \<Longrightarrow> dangling (c # cs) = dangling cs"
  by (cases cs) auto

lemma tokenizeExt_loop_dangling:
  "(case tokenizeExt_loop delimiter trim ws quotes tok n tr quote src of
      Inl e \<Rightarrow> dangling src | Inr (t, m, d, rest) \<Rightarrow> dangling src = dangling rest)"
proof (induction "length src" arbitrary: src trim tok n tr quote rule: less_induct)
  case less
  show ?case
  proof (cases src)
    case (Cons c cs)
    show ?thesis
    proof (cases "c = backslash")
      case True
      then show ?thesis
      proof (cases cs)
        case ds: (Cons d ds)
        have "dangling src = dangling ds" using True Cons ds by simp
        moreover have "length ds < length src" using Cons ds by simp
        ultimately have "case tokenizeExt_loop delimiter tm ws quotes tk k l q ds of
            Inl e \<Rightarrow> dangling src | Inr (t, m, d, rest) \<Rightarrow> dangling src = dangling rest" for tm tk k l q
          by (simp only: less.hyps)
        then show ?thesis
          using True Cons ds by (simp add: Let_def)
      qed (use Cons in simp)
    next
      case False
      have d: "dangling src = dangling cs" using Cons False by (simp add: dangling_Cons)
      have "length cs < length src" using Cons by simp
      then have IH: "case tokenizeExt_loop delimiter tm ws quotes tk k l q cs of
          Inl e \<Rightarrow> dangling src | Inr (t, m, d, rest) \<Rightarrow> dangling src = dangling rest" for tm tk k l q
        by (simp only: d less.hyps)
      show ?thesis
        using False Cons IH d by (simp add: Let_def)
    qed
  qed simp
qed

lemma splitExt_ext_fault:
  "splitExt_ext delimiter compressOn trim ws quotes tokens df src = Inl ReadPastEnd \<longleftrightarrow> dangling src"
proof (induction delimiter compressOn trim ws quotes tokens df src rule: splitExt_ext.induct)
  case (1 delimiter compressOn trim ws quotes tokens df src)
  have f: "x = ReadPastEnd" for x :: fault by (cases x)
  show ?case
  proof (cases "src = []")
    case True
    then show ?thesis by (simp add: splitExt_ext.simps)
  next
    case False
    have "case tokenizeExt delimiter trim ws quotes src of
        Inl e \<Rightarrow> dangling src | Inr (t, m, d, rest) \<Rightarrow> dangling src = dangling rest"
      unfolding tokenizeExt_def by (rule tokenizeExt_loop_dangling)
    then show ?thesis
      using 1 [OF False] False f
      by (subst splitExt_ext.simps) (auto split: sum.splits)
  qed
qed

section \<open>Properties\<close>

text \<open>
  splitting what was joined.  For tokens free of the delimiter, of quotes, of backslashes
  and of NUL, \<open>splitExt\<close> without compression and trimming returns exactly the tokens, empty
  ones included, in both of its modes.
\<close>

lemma splitExt_join:
  assumes "ts \<noteq> []" and "ts \<noteq> [[]]" and "d \<noteq> backslash" and "d \<noteq> nul"
    and "\<forall>t \<in> set ts. \<forall>c \<in> set t. c \<noteq> nul \<and> c \<noteq> d \<and> c \<noteq> backslash \<and> c \<notin> set quotes"
  shows "splitExt (join d ts) [d] False unescape False ws quotes = Inr ts"
proof -
  have "nul \<notin> set (join d ts)" using set_join [of d ts] assms(4,5) by blast
  then have c: "c_str (join d ts) = join d ts" "c_str [d] = [d]"
    using assms(4) by (auto intro!: c_str_id)
  have p: "\<forall>t \<in> set ts. \<forall>c \<in> set t. plain [d] (c_str quotes) c"
    using assms(5) set_c_str [of quotes] by (auto simp: plain_def)
  show ?thesis
    unfolding splitExt_def c
    using splitExt_ext_join [OF p assms(3,1)] splitExt_unescape_join [OF p assms(3,1)] assms(2) by simp
qed

lemma splitExt_join_witness:
  "splitExt (join (CHR '','') [''a'', [], ''bc'']) '','' False True False '' '' [CHR 0x22] = Inr [''a'', [], ''bc'']"
  by (rule splitExt_join) (simp_all add: backslash_def nul_def)

text \<open>
  the unescaping mode undoes the escaping of delimiters, quotes, white space and
  backslashes: any non-empty texts without NUL survive the round trip, whatever the flags for
  compression and trimming are.
\<close>

theorem splitExt_escape:
  assumes "ts \<noteq> []" and "\<forall>t \<in> set ts. t \<noteq> [] \<and> nul \<notin> set t" and "d \<noteq> backslash" and "d \<noteq> nul"
    and "nul \<notin> set ws" and "nul \<notin> set quotes"
  shows "splitExt (join d (map (escape [d] ws quotes) ts)) [d] compressOn True trim ws quotes = Inr ts"
proof -
  let ?s = "join d (map (escape [d] ws quotes) ts)"
  have "nul \<noteq> backslash" by (simp add: nul_def backslash_def)
  then have "\<forall>t \<in> set ts. nul \<notin> set (escape [d] ws quotes t)"
    using set_escape [of "[d]" ws quotes] assms(2) by blast
  then have "nul \<notin> set ?s"
    using set_join [of d "map (escape [d] ws quotes) ts"] assms(4) by auto
  then have "c_str ?s = ?s" "c_str [d] = [d]" "c_str ws = ws" "c_str quotes = quotes"
    using assms(4-6) by (auto intro!: c_str_id)
  then show ?thesis
    using splitExt_unescape_escape [of ts d compressOn trim ws quotes "[]" None] assms(1-3)
    by (simp add: splitExt_def)
qed

theorem splitExt_escape_witness:
  "splitExt (join (CHR '','') (map (escape '','' '' '' [CHR 0x22]) ['' a,b'', ''c ''])) '','' True True True '' '' [CHR 0x22]
     = Inr ['' a,b'', ''c '']"
  by (rule splitExt_escape) (simp_all add: backslash_def nul_def)

text \<open>
  without unescaping, \<open>splitExt\<close> reads behind the end of its argument exactly when the
  argument ends in a backslash that does not belong to an earlier escape.
\<close>

theorem splitExt_fault:
  "splitExt source delimiter compressOn False trim ws quotes = Inl ReadPastEnd \<longleftrightarrow> dangling (c_str source)"
  by (simp add: splitExt_def splitExt_ext_fault)

text \<open>
  a token that starts with an escape loses its last character: the length that
  \<open>tokenizeExt\<close> reports does not count the backslash it starts with.
\<close>

theorem tokenizeExt_leading_escape:
  assumes "\<forall>x \<in> set xs. plain delimiter quotes x"
  shows "tokenizeExt delimiter False ws quotes (backslash # c # xs) =
    Inr (Some (backslash # c # xs), Suc (length xs), None, [])"
  using tokenizeExt_loop_plain [OF assms, of ws "Some (backslash # c # xs)" 1 0 "[]"]
  by (simp add: tokenizeExt_def)

theorem tokenizeExt_leading_escape_witness:
  "tokenizeExt '','' False '' '' [CHR 0x22] (backslash # ''abc'') = Inr (Some (backslash # ''abc''), 3, None, [])"
  using tokenizeExt_leading_escape [of "''bc''" "'',''" "[CHR 0x22]" "'' ''" "CHR ''a''"]
  by (simp add: plain_def backslash_def)

end
