(* ===== verification/Base64.thy ===== *)
theory Base64
  imports Prelude "HOL-Library.Word"
begin

text \<open>
  The Base64 codec (src/src/trunk/libs/seiscomp3/utils/base64.cpp) on bytes, and its round
  trip.  The arrays \<open>char_array_3\<close> and \<open>char_array_4\<close> with their fill index \<open>i\<close> are the list
  of the entries filled so far; the code's byte arithmetic is arithmetic on 8-bit words.
\<close>

unbundle bit_operations_syntax

section \<open>The codec of the code\<close>

type_synonym byte = "8 word"

definition byte_of :: "char \<Rightarrow> byte" where "byte_of c = of_char c"
definition char_of_byte :: "byte \<Rightarrow> char" where "char_of_byte b = char_of (unat b)"

definition base64_chars :: string where
  "base64_chars = ''ABCDEFGHIJKLMNOPQRSTUVWXYZabcdefghijklmnopqrstuvwxyz0123456789+/''"

definition is_base64 :: "char \<Rightarrow> bool" where
  "is_base64 c \<longleftrightarrow> is_alpha c \<or> is_digit c \<or> c = CHR ''+'' \<or> c = CHR ''/''"

text \<open>The four 6-bit values of three bytes.\<close>

fun sextets :: "byte list \<Rightarrow> byte list" where
  "sextets [a, b, c] =
     [drop_bit 2 (a AND 0xfc),
      push_bit 4 (a AND 0x03) + drop_bit 4 (b AND 0xf0),
      push_bit 2 (b AND 0x0f) + drop_bit 6 (c AND 0xc0),
      c AND 0x3f]"
| "sextets _ = []"

definition encode_char :: "byte \<Rightarrow> char" where
  "encode_char x = base64_chars ! unat x"

fun encode_loop :: "byte list \<Rightarrow> string \<Rightarrow> string \<Rightarrow> string" where
  "encode_loop array3 target [] =
     (if array3 = [] then target
      else (let i = length array3;
                array4 = sextets (array3 @ replicate (3 - i) 0)
            in target @ map encode_char (take (i + 1) array4) @ replicate (3 - i) CHR ''=''))"
| "encode_loop array3 target (c # cs) =
     (let array3' = array3 @ [byte_of c] in
      if length array3' = 3
      then encode_loop [] (target @ map encode_char (sextets array3')) cs
      else encode_loop array3' target cs)"

text \<open>\<open>encodeBase64(target, bytes)\<close> appends to \<open>target\<close>.\<close>

definition encodeBase64 :: "string \<Rightarrow> string \<Rightarrow> string" where
  "encodeBase64 target bytes = encode_loop [] target bytes"

text \<open>
  \<open>base64_chars.find(c)\<close> stored in an \<open>unsigned char\<close>; \<open>npos\<close> becomes 255.
\<close>

definition decode_char :: "byte \<Rightarrow> byte" where
  "decode_char x = (case find_index (\<lambda>c. byte_of c = x) base64_chars of None \<Rightarrow> 255 | Some i \<Rightarrow> of_nat i)"

fun octets :: "byte list \<Rightarrow> byte list" where
  "octets [a, b, c, d] =
     [push_bit 2 a + drop_bit 4 (b AND 0x30),
      push_bit 4 (b AND 0xf) + drop_bit 2 (c AND 0x3c),
      push_bit 6 (c AND 0x3) + d]"
| "octets _ = []"

definition decode_flush :: "byte list \<Rightarrow> string \<Rightarrow> string" where
  "decode_flush array4 target =
     (if array4 = [] then target
      else (let i = length array4;
                array3 = octets (map decode_char (array4 @ replicate (4 - i) 0))
            in target @ map char_of_byte (take (i - 1) array3)))"

fun decode_loop :: "byte list \<Rightarrow> string \<Rightarrow> string \<Rightarrow> string" where
  "decode_loop array4 target [] = decode_flush array4 target"
| "decode_loop array4 target (c # cs) =
     (if c = CHR ''='' \<or> \<not> is_base64 c then decode_flush array4 target
      else (let array4' = array4 @ [byte_of c] in
            if length array4' = 4
            then decode_loop [] (target @ map char_of_byte (octets (map decode_char array4'))) cs
            else decode_loop array4' target cs))"

definition decodeBase64 :: "string \<Rightarrow> string \<Rightarrow> string" where
  "decodeBase64 target encoded = decode_loop [] target encoded"

declare sextets.simps [simp del] octets.simps [simp del]

section \<open>Bit-level facts\<close>

lemma byte_eqI:
  assumes "bit x 0 = bit y 0" "bit x 1 = bit y 1" "bit x 2 = bit y 2" "bit x 3 = bit y 3"
    "bit x 4 = bit y 4" "bit x 5 = bit y 5" "bit x 6 = bit y 6" "bit x 7 = bit y 7"
  shows "x = (y :: byte)"
proof (rule bit_word_eqI)
  fix n assume "n < LENGTH(8)"
  then have "n = 0 \<or> n = 1 \<or> n = 2 \<or> n = 3 \<or> n = 4 \<or> n = 5 \<or> n = 6 \<or> n = 7" by auto
  then show "bit x n = bit y n" using assms by blast
qed

lemma disjoint_add: "(a :: byte) AND b = 0 \<Longrightarrow> a + b = a OR b"
  by (rule disjunctive_add) (metis bit_and_iff bit_0_eq bot_apply bot_bool_def)

lemma sextet_add_or:
  "push_bit 4 (a AND 0x03) + drop_bit 4 (b AND 0xf0) = push_bit 4 (a AND 0x03) OR drop_bit 4 (b AND 0xf0 :: byte)"
  "push_bit 2 (a AND 0x0f) + drop_bit 6 (b AND 0xc0) = push_bit 2 (a AND 0x0f) OR drop_bit 6 (b AND 0xc0 :: byte)"
  by (rule disjoint_add, rule byte_eqI, auto simp: bit_simps)+

lemma octet_add_or:
  "push_bit 2 a + drop_bit 4 (b AND 0x30) = push_bit 2 a OR drop_bit 4 (b AND 0x30 :: byte)"
  "push_bit 4 (a AND 0xf) + drop_bit 2 (b AND 0x3c) = push_bit 4 (a AND 0xf) OR drop_bit 2 (b AND 0x3c :: byte)"
  "push_bit 6 (a AND 0x3) + (b AND 0x3f) = push_bit 6 (a AND 0x3) OR (b AND 0x3f :: byte)"
  by (rule disjoint_add, rule byte_eqI, auto simp: bit_simps)+

lemma octets_sextets: "length bs = 3 \<Longrightarrow> octets (sextets bs) = bs"
proof -
  assume "length bs = 3"
  then obtain a b c where bs: "bs = [a, b, c]"
    by (auto simp: numeral_3_eq_3 length_Suc_conv)
  show ?thesis
    unfolding bs sextets.simps octets.simps sextet_add_or octet_add_or
    by (intro list.inject [THEN iffD2] conjI refl byte_eqI) (auto simp: bit_simps)
qed

lemma sextets_small: "x \<in> set (sextets bs) \<Longrightarrow> unat x < 64"
proof -
  have small: "x AND 0x3f = x \<Longrightarrow> unat x < 64" for x :: byte
  proof -
    assume x: "x AND 0x3f = x"
    have "x AND 0x3f \<le> 0x3f" by (rule word_and_le1)
    then have "unat (x AND 0x3f) \<le> unat (0x3f :: byte)" by (simp only: word_le_nat_alt)
    with x show ?thesis by simp
  qed
  assume x: "x \<in> set (sextets bs)"
  then obtain a b c where bs: "bs = [a, b, c]" by (cases bs rule: sextets.cases) (auto simp: sextets.simps)
  from x consider "x = drop_bit 2 (a AND 0xfc)" | "x = push_bit 4 (a AND 0x03) OR drop_bit 4 (b AND 0xf0)"
    | "x = push_bit 2 (b AND 0x0f) OR drop_bit 6 (c AND 0xc0)" | "x = c AND 0x3f"
    unfolding bs sextets.simps sextet_add_or by auto
  then show ?thesis
    by cases (rule small, rule byte_eqI, simp_all add: bit_simps)+
qed

lemma base64_chars_table:
  "\<forall>n \<in> set [0..<64]. is_base64 (base64_chars ! n) \<and> base64_chars ! n \<noteq> CHR ''='' \<and>
     decode_char (byte_of (base64_chars ! n)) = of_nat n"
  by code_simp

lemma encode_char_base64:
  "unat x < 64 \<Longrightarrow> is_base64 (encode_char x) \<and> encode_char x \<noteq> CHR ''='' \<and>
     decode_char (byte_of (encode_char x)) = x"
  using base64_chars_table unfolding encode_char_def by (auto dest!: bspec [of _ _ "unat x"])

lemma char_of_byte_of [simp]: "char_of_byte (byte_of c) = c"
proof -
  have "byte_of c = of_nat (of_char c)" unfolding byte_of_def by (rule of_nat_of_char [symmetric])
  then have "unat (byte_of c) = of_char c mod 256" by (simp only: unat_of_nat) simp
  then show ?thesis by (simp add: char_of_byte_def)
qed

section \<open>Round trip\<close>

lemma encode_loop_target: "encode_loop arr target s = target @ encode_loop arr [] s"
proof (induction s arbitrary: arr target)
  case (Cons c cs)
  show ?case by (simp add: Let_def) (metis Cons append.assoc append_Nil)
qed (simp add: Let_def)

lemma decode_flush_target: "decode_flush arr target = target @ decode_flush arr []"
  by (simp add: decode_flush_def Let_def)

lemma decode_loop_target: "decode_loop arr target s = target @ decode_loop arr [] s"
proof (induction s arbitrary: arr target)
  case Nil
  then show ?case by (simp add: decode_flush_target [of arr target])
next
  case (Cons c cs)
  show ?case
    by (simp add: Let_def decode_flush_target [of arr target])
       (metis Cons append.assoc append_Nil)
qed

lemma encode_loop_3:
  "encode_loop [] [] (a # b # c # cs) =
     map encode_char (sextets [byte_of a, byte_of b, byte_of c]) @ encode_loop [] [] cs"
  using encode_loop_target [of "[]" "map encode_char (sextets [byte_of a, byte_of b, byte_of c])" cs]
  by (simp add: Let_def)

text \<open>Encoded values are read back one by one.\<close>

lemma decode_loop_read:
  "\<forall>x \<in> set xs. unat x < 64 \<Longrightarrow> length arr + length xs < 4 \<Longrightarrow>
   decode_loop arr [] (map encode_char xs @ rest) = decode_loop (arr @ map (\<lambda>x. byte_of (encode_char x)) xs) [] rest"
  by (induction xs arbitrary: arr) (auto simp: Let_def encode_char_base64)

lemma map_decode_encode:
  "\<forall>x \<in> set xs. unat x < 64 \<Longrightarrow> map decode_char (map (\<lambda>x. byte_of (encode_char x)) xs) = xs"
  by (induction xs) (auto simp: encode_char_base64)

lemma decode_loop_4:
  assumes "\<forall>x \<in> set xs. unat x < 64" and "length xs = 4"
  shows "decode_loop [] [] (map encode_char xs @ rest) = map char_of_byte (octets xs) @ decode_loop [] [] rest"
proof -
  obtain ys z where xs: "xs = ys @ [z]" "length ys = 3"
    using assms(2) by (metis length_Suc_conv_rev numeral_3_eq_3 eval_nat_numeral(2) semiring_norm(26) semiring_norm(27))
  have z: "is_base64 (encode_char z)" "encode_char z \<noteq> CHR ''=''"
    using encode_char_base64 [of z] assms(1) xs by auto
  have "decode_loop [] [] (map encode_char xs @ rest) =
      decode_loop (map (\<lambda>x. byte_of (encode_char x)) ys) [] (encode_char z # rest)"
    using decode_loop_read [of ys "[]" "encode_char z # rest"] assms xs by simp
  also have "\<dots> = decode_loop [] (map char_of_byte (octets (map decode_char (map (\<lambda>x. byte_of (encode_char x)) xs)))) rest"
    using z xs by (simp add: Let_def del: map_map)
  also have "\<dots> = map char_of_byte (octets xs) @ decode_loop [] [] rest"
    unfolding map_decode_encode [OF assms(1)] by (rule decode_loop_target)
  finally show ?thesis .
qed

text \<open>The last one or two bytes: the padding stops the decoder.\<close>

lemma decode_flush_pad:
  assumes "\<forall>x \<in> set xs. unat x < 64" and "length xs < 4"
  shows "decode_loop [] [] (map encode_char xs @ CHR ''='' # rest) =
    decode_flush (map (\<lambda>x. byte_of (encode_char x)) xs) []"
  using decode_loop_read [of xs "[]" "CHR ''='' # rest"] assms by simp

lemma octets_prefix:
  "octets [a, b, c, d] = [x, y, z] \<Longrightarrow> take 1 (octets [a, b, c', d']) = [x]"
  "octets [a, b, c, d] = [x, y, z] \<Longrightarrow> take 2 (octets [a, b, c, d']) = [x, y]"
  unfolding octets.simps by (simp_all add: numeral_2_eq_2)

lemma sextets_4: "\<exists>p q r t. sextets [a, b, c] = [p, q, r, t]"
  unfolding sextets.simps by blast

lemma decode_encode_1: "decode_loop [] [] (encode_loop [] [] [a]) = [a]"
proof -
  let ?s = "sextets [byte_of a, 0, 0]"
  obtain p q r t where s: "?s = [p, q, r, t]" using sextets_4 by blast
  have small: "\<forall>x \<in> set [p, q]. unat x < 64" using sextets_small [of _ "[byte_of a, 0, 0]"] s by auto
  have "octets [p, q, r, t] = [byte_of a, 0, 0]" using octets_sextets [of "[byte_of a, 0, 0]"] s by simp
  then have o: "take 1 (octets [p, q, c', d']) = [byte_of a]" for c' d' by (rule octets_prefix)
  have e: "encode_loop [] [] [a] = map encode_char [p, q] @ CHR ''='' # CHR ''='' # []"
    by (simp only: encode_loop.simps Let_def append_Nil list.size s replicate.simps)
       (simp add: numeral_3_eq_3 numeral_2_eq_2 s)
  show ?thesis
    unfolding e using decode_flush_pad [OF small] o encode_char_base64 small
    by (simp add: decode_flush_def Let_def numeral_2_eq_2)
qed

lemma decode_encode_2: "decode_loop [] [] (encode_loop [] [] [a, b]) = [a, b]"
proof -
  let ?s = "sextets [byte_of a, byte_of b, 0]"
  obtain p q r t where s: "?s = [p, q, r, t]" using sextets_4 by blast
  have small: "\<forall>x \<in> set [p, q, r]. unat x < 64" using sextets_small [of _ "[byte_of a, byte_of b, 0]"] s by auto
  have "octets [p, q, r, t] = [byte_of a, byte_of b, 0]" using octets_sextets [of "[byte_of a, byte_of b, 0]"] s by simp
  then have o: "take 2 (octets [p, q, r, d']) = [byte_of a, byte_of b]" for d' by (rule octets_prefix)
  have e: "encode_loop [] [] [a, b] = map encode_char [p, q, r] @ CHR ''='' # []"
    by (simp only: encode_loop.simps Let_def append_Nil list.size s replicate.simps)
       (simp add: numeral_3_eq_3 numeral_2_eq_2 s)
  show ?thesis
    unfolding e using decode_flush_pad [OF small] o encode_char_base64 small
    by (simp add: decode_flush_def Let_def numeral_2_eq_2)
qed

text \<open>
  C6: decoding the encoding of any bytes gives the bytes back, appended to what the target
  string held.
\<close>

theorem base64_roundtrip: "decodeBase64 target (encodeBase64 [] bytes) = target @ bytes"
proof -
  have "decode_loop [] [] (encode_loop [] [] bytes) = bytes"
  proof (induction "length bytes" arbitrary: bytes rule: less_induct)
    case less
    consider "bytes = []" | a where "bytes = [a]" | a b where "bytes = [a, b]"
      | a b c cs where "bytes = a # b # c # cs"
      by (metis list.exhaust)
    then show ?case
    proof cases
      case (4 a b c cs)
      let ?s = "sextets [byte_of a, byte_of b, byte_of c]"
      have "length ?s = 4" using sextets_4 [of "byte_of a" "byte_of b" "byte_of c"] by auto
      moreover have "\<forall>x \<in> set ?s. unat x < 64" using sextets_small by blast
      ultimately show ?thesis
        using 4 less [of cs] octets_sextets [of "[byte_of a, byte_of b, byte_of c]"]
        by (simp add: encode_loop_3 decode_loop_4 del: encode_loop.simps)
    qed (simp_all add: decode_encode_1 decode_encode_2 decode_flush_def del: encode_loop.simps(2))
  qed
  then show ?thesis
    by (simp add: decodeBase64_def encodeBase64_def decode_loop_target [of "[]" target])
qed

end
