(* ===== verification/Wildcards.thy ===== *)
theory Wildcards
  imports Strings
begin

text \<open>
  Wildcard matching (\<open>wildcmp\<close> and \<open>wildicmp\<close> of
  src/src/trunk/libs/seiscomp3/core/strings.cpp): \<open>?\<close> stands for any character, \<open>*\<close> for any
  run of characters.  The code keeps the restart points \<open>pat\<close> and \<open>str\<close> of the last star and
  never backtracks further.  \<open>glob\<close> is the specification, by structural recursion, and
  \<open>wild_scan_glob\<close> shows that the loop decides it.
\<close>

section \<open>The matcher of the code\<close>

definition star :: char where "star = CHR ''*''"
definition quest :: char where "quest = CHR ''?''"

text \<open>
  One state of the loop: \<open>st\<close> is the flag \<open>star\<close>, \<open>pat\<close> and \<open>str\<close> the restart points.  The
  cursors \<open>p\<close> and \<open>s\<close> advance together from them, so \<open>k\<close> is the number of steps since
  \<open>loopStart\<close>: \<open>p = drop k pat\<close>, \<open>s = drop k str\<close>.  The end of a list is the NUL the cursor
  stands on.  \<open>eqc s p\<close> is the comparison of the default branch.
\<close>

function wild_scan :: "(char \<Rightarrow> char \<Rightarrow> bool) \<Rightarrow> bool \<Rightarrow> string \<Rightarrow> string \<Rightarrow> nat \<Rightarrow> bool" where
  "wild_scan eqc st pat str k =
     (case drop k str of
        [] \<Rightarrow> dropWhile (\<lambda>c. c = star) (drop k pat) = []
      | s # ss \<Rightarrow>
          (case drop k pat of
             p # ps \<Rightarrow>
               if p = quest then wild_scan eqc st pat str (Suc k)
               else if p = star then
                 (let pat' = dropWhile (\<lambda>c. c = star) ps in
                  if pat' = [] then True else wild_scan eqc True pat' (s # ss) 0)
               else if \<not> eqc s p then
                 (if \<not> st then False else wild_scan eqc st pat (tl str) 0)
               else wild_scan eqc st pat str (Suc k)
           | [] \<Rightarrow> if \<not> st then False else wild_scan eqc st pat (tl str) 0))"
  by pat_completeness auto

lemma drop_Cons_less: "drop k xs = y # ys \<Longrightarrow> k < length xs"
  by (rule ccontr) simp

lemma drop_Cons_length: "drop k xs = y # ys \<Longrightarrow> length xs = k + Suc (length ys)"
  using length_drop [of k xs] drop_Cons_less [of k xs y ys] by (metis Suc_diff_Suc
      add_diff_inverse_nat length_Cons nat_less_le not_less_iff_gr_or_eq)

termination wild_scan
proof (relation "measures [\<lambda>(e, st, pat, str, k). length pat, \<lambda>(e, st, pat, str, k). length str,
      \<lambda>(e, st, pat, str, k). length str - k]", goal_cases)
  case (4 eqc st pat str k s ss p ps pat')
  have "length pat' \<le> length ps" using 4 by (simp add: length_dropWhile_le)
  moreover have "length ps < length pat" using drop_Cons_length [of k pat] 4 by fastforce
  ultimately show ?case by simp
qed (auto dest: drop_Cons_less simp: less_Suc_eq_0_disj intro: diff_less_mono2)

declare wild_scan.simps [simp del]

definition wildcmp :: "string \<Rightarrow> string \<Rightarrow> bool" where
  "wildcmp wild str = wild_scan (\<lambda>s p. s = p) False (c_str wild) (c_str str) 0"

definition wildicmp :: "string \<Rightarrow> string \<Rightarrow> bool" where
  "wildicmp wild str = wild_scan (\<lambda>s p. to_upper s = to_upper p) False (c_str wild) (c_str str) 0"

section \<open>The specification\<close>

fun glob :: "(char \<Rightarrow> char \<Rightarrow> bool) \<Rightarrow> string \<Rightarrow> string \<Rightarrow> bool" where
  "glob eqc [] str = (str = [])"
| "glob eqc (p # ps) str =
     (if p = star then (\<exists>j \<le> length str. glob eqc ps (drop j str))
      else (case str of [] \<Rightarrow> False
            | s # ss \<Rightarrow> (p = quest \<or> eqc s p) \<and> glob eqc ps ss))"

text \<open>The number of characters a pattern needs.\<close>

definition need :: "string \<Rightarrow> nat" where
  "need pat = length (filter (\<lambda>c. c \<noteq> star) pat)"

lemma glob_need: "glob eqc pat str \<Longrightarrow> need pat \<le> length str"
proof (induction eqc pat str rule: glob.induct)
  case (2 eqc p ps str)
  show ?case
  proof (cases "p = star")
    case True
    with 2 obtain j where "j \<le> length str" "glob eqc ps (drop j str)" by auto
    then have "need ps \<le> length (drop j str)" using 2(1) [OF True] by auto
    with True show ?thesis by (simp add: need_def)
  qed (use 2 in \<open>auto simp: need_def split: list.splits\<close>)
qed (simp add: need_def)

lemma glob_Nil: "glob eqc pat [] \<longleftrightarrow> dropWhile (\<lambda>c. c = star) pat = []"
  by (induction pat) auto

lemma glob_star_suffix: "glob eqc (star # ps) (drop j str) \<Longrightarrow> glob eqc (star # ps) str"
proof -
  assume "glob eqc (star # ps) (drop j str)"
  then obtain i where i: "i \<le> length (drop j str)" "glob eqc ps (drop i (drop j str))" by auto
  show ?thesis
  proof (cases "j \<le> length str")
    case True
    then have "i + j \<le> length str" "glob eqc ps (drop (i + j) str)" using i by (auto simp: add.commute)
    then show ?thesis by auto
  next
    case False
    then have "glob eqc ps (drop (length str) str)" using i by simp
    then show ?thesis by auto
  qed
qed

lemma glob_star_skip: "glob eqc (star # ps) str \<longleftrightarrow>
   (let ps' = dropWhile (\<lambda>c. c = star) ps in \<exists>j \<le> length str. glob eqc ps' (drop j str))"
proof (induction ps arbitrary: str)
  case (Cons p ps)
  show ?case
  proof (cases "p = star")
    case True
    have "glob eqc (star # star # ps) str \<longleftrightarrow> glob eqc (star # ps) str"
    proof
      assume "glob eqc (star # star # ps) str"
      then obtain j where "glob eqc (star # ps) (drop j str)" by auto
      then show "glob eqc (star # ps) str" by (rule glob_star_suffix)
    next
      assume "glob eqc (star # ps) str"
      then have "glob eqc (star # ps) (drop 0 str)" by simp
      then show "glob eqc (star # star # ps) str" unfolding glob.simps(2) [of _ star "star # ps"] by (metis le0)
    qed
    with True Cons show ?thesis by simp
  qed simp
qed simp

text \<open>
  The characters between the restart points and the cursors match one by one: the pattern
  has no star there.
\<close>

definition stepped :: "(char \<Rightarrow> char \<Rightarrow> bool) \<Rightarrow> string \<Rightarrow> string \<Rightarrow> nat \<Rightarrow> bool" where
  "stepped eqc pat str k \<longleftrightarrow> k \<le> length pat \<and> k \<le> length str \<and>
     (\<forall>i < k. pat ! i \<noteq> star \<and> (pat ! i = quest \<or> eqc (str ! i) (pat ! i)))"

lemma stepped_0 [simp]: "stepped eqc pat str 0"
  by (simp add: stepped_def)

lemma stepped_Suc:
  "stepped eqc pat str k \<Longrightarrow> drop k pat = p # ps \<Longrightarrow> drop k str = s # ss \<Longrightarrow>
   p \<noteq> star \<Longrightarrow> p = quest \<or> eqc s p \<Longrightarrow> stepped eqc pat str (Suc k)"
  unfolding stepped_def using drop_Cons_less [of k pat] drop_Cons_less [of k str]
  by (metis Cons_nth_drop_Suc Suc_leI less_Suc_eq list.inject)

lemma glob_no_star_prefix:
  "\<forall>i < k. pat ! i \<noteq> star \<Longrightarrow> k \<le> length pat \<Longrightarrow> glob eqc pat str \<Longrightarrow> glob eqc (drop k pat) (drop k str)"
proof (induction k arbitrary: pat str)
  case (Suc k)
  then obtain p ps where p: "pat = p # ps" by (cases pat) auto
  with Suc.prems have "p \<noteq> star" by auto
  with Suc.prems p obtain s ss where "str = s # ss" "glob eqc ps ss" by (auto split: list.splits)
  moreover have "\<forall>i < k. ps ! i \<noteq> star" using Suc.prems(1) p by fastforce
  ultimately show ?case using Suc p by simp
qed simp

lemma glob_stepped: "stepped eqc pat str k \<Longrightarrow> glob eqc pat str \<longleftrightarrow> glob eqc (drop k pat) (drop k str)"
proof (induction k arbitrary: pat str)
  case (Suc k)
  then obtain p ps s ss where eq: "pat = p # ps" "str = s # ss"
    by (cases pat; cases str) (auto simp: stepped_def)
  with Suc.prems have "p \<noteq> star" "p = quest \<or> eqc s p" by (auto simp: stepped_def)
  moreover have "stepped eqc ps ss k" using Suc.prems eq by (fastforce simp: stepped_def)
  ultimately show ?case using Suc.IH eq by simp
qed simp

section \<open>Correctness\<close>

text \<open>
  Before the first star the pattern must match at the start of the text; after a star it may
  match from any later position.
\<close>

definition pending :: "(char \<Rightarrow> char \<Rightarrow> bool) \<Rightarrow> bool \<Rightarrow> string \<Rightarrow> string \<Rightarrow> bool" where
  "pending eqc st pat str \<longleftrightarrow>
     (if st then (\<exists>j \<le> length str. glob eqc pat (drop j str)) else glob eqc pat str)"

lemma pending_end:
  assumes st: "stepped eqc pat str k" and e: "drop k str = []"
  shows "dropWhile (\<lambda>c. c = star) (drop k pat) = [] \<longleftrightarrow> pending eqc f pat str"
proof -
  have g: "glob eqc pat str \<longleftrightarrow> dropWhile (\<lambda>c. c = star) (drop k pat) = []"
    using glob_stepped [OF st] glob_Nil [of eqc "drop k pat"] e by simp
  have k: "length str = k" "k \<le> length pat" using st e by (auto simp: stepped_def)
  have "glob eqc pat str" if j: "j \<le> length str" "glob eqc pat (drop j str)" for j
  proof -
    have "take k pat = filter (\<lambda>c. c \<noteq> star) (take k pat)"
      using st k by (auto simp: stepped_def in_set_conv_nth intro!: filter_True [symmetric])
    then have "need (take k pat) = k" using k by (metis length_take min.absorb2 need_def)
    then have "need pat = k + need (drop k pat)"
      by (metis append_take_drop_id filter_append length_append need_def)
    moreover have "need pat \<le> length str - j" using glob_need [OF j(2)] by simp
    ultimately have "need (drop k pat) = 0" "j = 0" using k j(1) by auto
    then show ?thesis using j by simp
  qed
  then show ?thesis using g by (auto simp: pending_def intro: exI [of _ 0])
qed

lemma pending_star:
  assumes st: "stepped eqc pat str k" and p: "drop k pat = star # ps"
  shows "pending eqc f pat str \<longleftrightarrow> pending eqc True (dropWhile (\<lambda>c. c = star) ps) (drop k str)"
proof -
  let ?ps = "dropWhile (\<lambda>c. c = star) ps"
  have g: "glob eqc pat str \<longleftrightarrow> pending eqc True ?ps (drop k str)"
    using glob_stepped [OF st] p glob_star_skip [of eqc ps "drop k str"] by (simp add: pending_def Let_def)
  have "pending eqc True ?ps (drop k str)" if j: "glob eqc pat (drop j str)" for j
  proof -
    have "glob eqc (star # ps) (drop k (drop j str))"
      using glob_no_star_prefix [OF _ _ j, of k] st p by (auto simp: stepped_def)
    then have "glob eqc (star # ps) (drop j (drop k str))" by (simp add: add.commute)
    then have "glob eqc (star # ps) (drop k str)" by (rule glob_star_suffix)
    then show ?thesis using glob_star_skip [of eqc ps "drop k str"] by (simp add: pending_def Let_def)
  qed
  then show ?thesis using g by (auto simp: pending_def)
qed

lemma pending_mismatch:
  assumes "\<not> glob eqc pat str" and "str \<noteq> []"
  shows "pending eqc f pat str \<longleftrightarrow> f \<and> pending eqc f pat (tl str)"
proof -
  obtain c cs where str: "str = c # cs" using assms(2) by (cases str) auto
  have "(\<exists>j \<le> length str. glob eqc pat (drop j str)) \<longleftrightarrow> (\<exists>j \<le> length cs. glob eqc pat (drop j cs))"
  proof
    assume "\<exists>j \<le> length str. glob eqc pat (drop j str)"
    then obtain j where j: "j \<le> length str" "glob eqc pat (drop j str)" by blast
    then obtain i where "j = Suc i" using assms(1) by (cases j) auto
    with j str show "\<exists>j \<le> length cs. glob eqc pat (drop j cs)" by auto
  next
    assume "\<exists>j \<le> length cs. glob eqc pat (drop j cs)"
    then obtain j where "j \<le> length cs" "glob eqc pat (drop j cs)" by blast
    then show "\<exists>j \<le> length str. glob eqc pat (drop j str)" using str by (intro exI [of _ "Suc j"]) simp
  qed
  with assms(1) str show ?thesis by (simp add: pending_def)
qed

lemma wild_scan_pending: "stepped eqc pat str k \<Longrightarrow> wild_scan eqc f pat str k = pending eqc f pat str"
proof (induction eqc f pat str k rule: wild_scan.induct)
  case (1 eqc f pat str k)
  note IH = "1.IH" and st = "1.prems"
  show ?case
  proof (cases "drop k str")
    case Nil
    then show ?thesis using pending_end [OF st] by (simp add: wild_scan.simps [of eqc f pat str k])
  next
    case s: (Cons s ss)
    have ne: "str \<noteq> []" using s by auto
    have mm: "pending eqc f pat str \<longleftrightarrow> (if \<not> f then False else wild_scan eqc f pat (tl str) 0)"
      if "\<not> glob eqc (drop k pat) (drop k str)" and "f \<Longrightarrow> wild_scan eqc f pat (tl str) 0 = pending eqc f pat (tl str)"
      using that pending_mismatch [OF _ ne] glob_stepped [OF st] by auto
    show ?thesis
    proof (cases "drop k pat")
      case Nil
      then show ?thesis
        using mm s IH(1) [OF s Nil] by (simp add: wild_scan.simps [of eqc f pat str k])
    next
      case p: (Cons p ps)
      consider "p = quest" | "p = star" | "p \<noteq> quest" "p \<noteq> star" "eqc s p"
        | "p \<noteq> quest" "p \<noteq> star" "\<not> eqc s p" by blast
      then show ?thesis
      proof cases
        case 1
        have "stepped eqc pat str (Suc k)" using stepped_Suc [OF st p s] 1 by (simp add: quest_def star_def)
        with IH(2) [OF s p 1] show ?thesis using 1 s p by (simp add: wild_scan.simps [of eqc f pat str k])
      next
        case 2
        have nq: "p \<noteq> quest" using 2 by (simp add: quest_def star_def)
        let ?ps = "dropWhile (\<lambda>c. c = star) ps"
        have "pending eqc f pat str \<longleftrightarrow> pending eqc True ?ps (s # ss)"
          using pending_star [OF st, of ps f] p 2 s by simp
        moreover have "pending eqc True [] (s # ss)"
          by (auto simp: pending_def intro!: exI [of _ "Suc (length ss)"])
        ultimately show ?thesis
          using IH(3) [OF s p nq 2, of ?ps] nq 2 s p
          by (cases "?ps = []") (simp_all only: wild_scan.simps [of eqc f pat str k] Let_def list.case if_False if_True refl simp_thms stepped_0)
      next
        case 3
        have "stepped eqc pat str (Suc k)" using stepped_Suc [OF st p s] 3 by simp
        with IH(5) [OF s p 3(1,2)] show ?thesis using 3 s p by (simp add: wild_scan.simps [of eqc f pat str k])
      next
        case 4
        have "\<not> glob eqc (drop k pat) (drop k str)" using 4 p s by simp
        then show ?thesis
          using mm IH(4) [OF s p 4(1,2)] 4 s p by (simp add: wild_scan.simps [of eqc f pat str k])
      qed
    qed
  qed
qed

lemma wild_scan_glob: "wild_scan eqc False pat str 0 = glob eqc pat str"
  by (simp add: wild_scan_pending pending_def)

lemma glob_map:
  assumes "\<And>s p. eqc (f s) (f p) = eqd s p" and "\<And>c. f c = star \<longleftrightarrow> c = star" and "\<And>c. f c = quest \<longleftrightarrow> c = quest"
  shows "glob eqc (map f pat) (map f str) = glob eqd pat str"
proof (induction pat arbitrary: str)
  case (Cons p ps)
  show ?case
  proof (cases "p = star")
    case True
    then show ?thesis using Cons assms(2) by (simp add: drop_map)
  next
    case False
    then show ?thesis using Cons assms by (cases str) auto
  qed
qed simp

end
