(* ===== verification/Firewall.thy ===== *)
theory Firewall
  imports Wildcards
begin

text \<open>
  String firewalls (src/src/trunk/libs/seiscomp3/utils/stringfirewall.cpp and .h): a white list
  and a black list of strings, compared exactly or as wildcard patterns, the latter with a
  cache of earlier verdicts.  The contract of the header is stated once, in the locale
  \<open>rule_set\<close>, for any way of matching a set of rules; the exact and the wildcard firewall are
  its two interpretations.
\<close>

section \<open>The operations of the code\<close>

record firewall =
  allow :: "string set"
  deny :: "string set"

definition passes :: "string set \<Rightarrow> string \<Rightarrow> bool" where
  "passes ids s \<longleftrightarrow> (\<exists>i \<in> ids. wildcmp i s)"

definition isAllowed :: "firewall \<Rightarrow> string \<Rightarrow> bool" where
  "isAllowed f s \<longleftrightarrow> (if allow f = {} then True else s \<in> allow f) \<and> (if deny f = {} then True else s \<notin> deny f)"

definition isDenied :: "firewall \<Rightarrow> string \<Rightarrow> bool" where
  "isDenied f s \<longleftrightarrow> \<not> isAllowed f s"

record wildfirewall = firewall +
  cache :: "string \<rightharpoonup> bool"
  enableCaching :: bool

definition WildcardStringFirewall :: wildfirewall where
  "WildcardStringFirewall = \<lparr>allow = {}, deny = {}, cache = Map.empty, enableCaching = True\<rparr>"

definition clearCache :: "wildfirewall \<Rightarrow> wildfirewall" where
  "clearCache f = f\<lparr>cache := Map.empty\<rparr>"

definition setCachingEnabled :: "bool \<Rightarrow> wildfirewall \<Rightarrow> wildfirewall" where
  "setCachingEnabled enable f =
     (let f' = f\<lparr>enableCaching := enable\<rparr> in
      if \<not> enableCaching f' then f'\<lparr>cache := Map.empty\<rparr> else f')"

text \<open>The cache is a mutable member: the verdict comes with the new state.\<close>

definition wild_isAllowed :: "wildfirewall \<Rightarrow> string \<Rightarrow> bool \<times> wildfirewall" where
  "wild_isAllowed f s =
     (if allow f = {} \<and> deny f = {} then (True, f)
      else if enableCaching f then
        (case cache f s of
           None \<Rightarrow>
             (let check = (if allow f = {} then True else passes (allow f) s) \<and>
                          (if deny f = {} then True else \<not> passes (deny f) s)
              in (check, f\<lparr>cache := (cache f)(s \<mapsto> check)\<rparr>))
         | Some v \<Rightarrow> (v, f))
      else
        ((if allow f = {} then True else passes (allow f) s) \<and>
         (if deny f = {} then True else \<not> passes (deny f) s), f))"

section \<open>The contract\<close>

text \<open>The verdict of a firewall over any way \<open>hits\<close> of matching a set of rules.\<close>

definition verdict :: "(string set \<Rightarrow> string \<Rightarrow> bool) \<Rightarrow> string set \<Rightarrow> string set \<Rightarrow> string \<Rightarrow> bool" where
  "verdict hits al de s \<longleftrightarrow> (al = {} \<or> hits al s) \<and> (de = {} \<or> \<not> hits de s)"

locale rule_set =
  fixes hits :: "string set \<Rightarrow> string \<Rightarrow> bool"
  assumes hits_empty: "\<not> hits {} s"
    and hits_Un: "hits (A \<union> B) s \<longleftrightarrow> hits A s \<or> hits B s"
begin

lemma open_firewall: "verdict hits {} {} s"
  by (simp add: verdict_def)

lemma deny_wins: "hits de s \<Longrightarrow> \<not> verdict hits al de s"
  using hits_empty by (auto simp: verdict_def)

lemma more_denied: "verdict hits al (de \<union> de') s \<Longrightarrow> verdict hits al de s"
  by (auto simp: verdict_def hits_Un)

lemma more_allowed: "al \<noteq> {} \<Longrightarrow> verdict hits al de s \<Longrightarrow> verdict hits (al \<union> al') de s"
  by (auto simp: verdict_def hits_Un)

lemma split_denied: "verdict hits al (de \<union> de') s \<longleftrightarrow> verdict hits al de s \<and> verdict hits al de' s"
  using hits_empty by (auto simp: verdict_def hits_Un)

end

interpretation exact: rule_set "\<lambda>ids s. s \<in> ids"
  by unfold_locales auto

interpretation wild: rule_set passes
  by unfold_locales (auto simp: passes_def)

lemma isAllowed_verdict: "isAllowed f s = verdict (\<lambda>ids s. s \<in> ids) (allow f) (deny f) s"
  by (auto simp: isAllowed_def verdict_def)

lemma passes_glob: "passes ids s \<longleftrightarrow> (\<exists>i \<in> ids. glob (\<lambda>s p. s = p) (c_str i) (c_str s))"
  by (simp add: passes_def wildcmp_def wild_scan_glob)

section \<open>The cache\<close>

text \<open>Every cached verdict is the verdict of the present lists.\<close>

definition cache_ok :: "wildfirewall \<Rightarrow> bool" where
  "cache_ok f \<longleftrightarrow> (\<forall>s v. cache f s = Some v \<longrightarrow> v = verdict passes (allow f) (deny f) s)"

lemma wild_isAllowed_verdict:
  "cache_ok f \<Longrightarrow> fst (wild_isAllowed f s) = verdict passes (allow f) (deny f) s"
  by (auto simp: wild_isAllowed_def verdict_def cache_ok_def Let_def split: option.splits)

lemma wild_isAllowed_cache_ok [inv_intro]: "cache_ok f \<Longrightarrow> cache_ok (snd (wild_isAllowed f s))"
  by (auto simp: wild_isAllowed_def verdict_def cache_ok_def Let_def split: option.splits)

lemma wild_isAllowed_frame [frame]:
  "allow (snd (wild_isAllowed f s)) = allow f" "deny (snd (wild_isAllowed f s)) = deny f"
  "enableCaching (snd (wild_isAllowed f s)) = enableCaching f"
  by (auto simp: wild_isAllowed_def Let_def split: option.splits)

lemma clearCache_ok [inv_intro]: "cache_ok (clearCache f)"
  by (simp add: clearCache_def cache_ok_def)

lemma setCachingEnabled_ok [inv_intro]: "cache_ok f \<Longrightarrow> cache_ok (setCachingEnabled b f)"
  by (simp add: setCachingEnabled_def cache_ok_def Let_def)

lemma constructor_ok [inv_intro]: "cache_ok WildcardStringFirewall"
  by (simp add: WildcardStringFirewall_def cache_ok_def)

text \<open>Queries, one after another: the verdicts and the final state.\<close>

fun queries :: "wildfirewall \<Rightarrow> string list \<Rightarrow> bool list \<times> wildfirewall" where
  "queries f [] = ([], f)"
| "queries f (s # ss) =
     (case wild_isAllowed f s of (v, f') \<Rightarrow> case queries f' ss of (vs, f'') \<Rightarrow> (v # vs, f''))"

lemma queries_verdicts:
  "cache_ok f \<Longrightarrow> fst (queries f ss) = map (verdict passes (allow f) (deny f)) ss \<and> cache_ok (snd (queries f ss))"
proof (induction ss arbitrary: f)
  case (Cons s ss)
  obtain v f' where e: "wild_isAllowed f s = (v, f')" by fastforce
  have "cache_ok f'" "allow f' = allow f" "deny f' = deny f" "v = verdict passes (allow f) (deny f) s"
    using wild_isAllowed_cache_ok [OF Cons.prems, of s] wild_isAllowed_frame [of f s]
      wild_isAllowed_verdict [OF Cons.prems, of s] e by auto
  then show ?case using Cons.IH [of f'] e by (auto split: prod.splits)
qed simp

section \<open>Properties\<close>

text \<open>
  C3: the wildcard matcher, which restarts at the last star only, decides the
  declarative matching relation: a pattern matches a text exactly when \<open>glob\<close> says so.
\<close>

theorem wildcmp_correct: "wildcmp wild str \<longleftrightarrow> glob (\<lambda>s p. s = p) (c_str wild) (c_str str)"
  by (simp add: wildcmp_def wild_scan_glob)

text \<open>
  C4: with caching, in any sequence of queries, the wildcard firewall gives for every string the
  verdict that the header documents for the patterns themselves, and the cache stays coherent.
\<close>

theorem firewall_cache_transparent:
  assumes "cache_ok f"
  shows "fst (queries f ss) =
      map (\<lambda>s. (allow f = {} \<or> (\<exists>p \<in> allow f. glob (\<lambda>s p. s = p) (c_str p) (c_str s))) \<and>
               (\<forall>p \<in> deny f. \<not> glob (\<lambda>s p. s = p) (c_str p) (c_str s))) ss \<and>
    cache_ok (snd (queries f ss))"
  using queries_verdicts [OF assms, of ss] by (auto simp: verdict_def passes_glob)

definition ex_firewall :: wildfirewall where
  "ex_firewall = \<lparr>allow = {''GE*'', ''CX''}, deny = {''*Z*''}, cache = [''GEX'' \<mapsto> True, ''XX'' \<mapsto> False], enableCaching = True\<rparr>"

theorem firewall_cache_transparent_witness:
  "fst (queries ex_firewall [''GE'', ''GEX'', ''GEZ1'', ''CX'', ''XX'', ''GEZ1'', ''CXX'', ''GE'']) = [True, True, False, True, False, False, False, True] \<and>
   cache_ok (snd (queries ex_firewall [''GE'', ''GEX'', ''GEZ1'', ''CX'', ''XX'', ''GEZ1'', ''CXX'', ''GE'']))"
proof -
  have "verdict passes (allow ex_firewall) (deny ex_firewall) ''GEX'' = True" "verdict passes (allow ex_firewall) (deny ex_firewall) ''XX'' = False"
    by code_simp+
  then have ok: "cache_ok ex_firewall" by (auto simp: cache_ok_def ex_firewall_def split: if_splits)
  have "fst (queries ex_firewall [''GE'', ''GEX'', ''GEZ1'', ''CX'', ''XX'', ''GEZ1'', ''CXX'', ''GE'']) = [True, True, False, True, False, False, False, True]"
    by code_simp
  with firewall_cache_transparent [OF ok] show ?thesis by blast
qed

text \<open>
  a verdict that was cached before a rule changed is still given afterwards, until
  \<open>clearCache\<close> is called, after which the new rules decide.
\<close>

theorem firewall_stale_until_cleared:
  assumes "cache f s = Some v" and "enableCaching f" and "A \<noteq> {} \<or> D \<noteq> {}"
  shows "fst (wild_isAllowed (f\<lparr>allow := A, deny := D\<rparr>) s) = v \<and>
    fst (wild_isAllowed (clearCache (f\<lparr>allow := A, deny := D\<rparr>)) s) = verdict passes A D s"
  using assms wild_isAllowed_verdict [OF clearCache_ok, of "f\<lparr>allow := A, deny := D\<rparr>" s]
  by (auto simp: wild_isAllowed_def clearCache_def)

theorem firewall_stale_until_cleared_witness:
  "fst (wild_isAllowed \<lparr>allow = {}, deny = {''a''}, cache = [''a'' \<mapsto> True], enableCaching = True\<rparr> ''a'') = True"
  using firewall_stale_until_cleared
    [of "\<lparr>allow = {}, deny = {''b''}, cache = [''a'' \<mapsto> True], enableCaching = True\<rparr>" "''a''" True "{}" "{''a''}"]
  by simp

end
