(* ===== verification/Substitution.thy ===== *)
theory Substitution
  imports Prelude
begin

text \<open>
  Expansion of variables in a text (src/src/trunk/libs/seiscomp3/utils/replace.cpp).  A
  \<open>VariableResolver\<close> is a function from a name to its value; \<open>None\<close> is its result \<open>false\<close>.  The
  host name, the login and the environment variable USER come from the operating system and
  are parameters.
\<close>

section \<open>The operations of the code\<close>

definition VariableResolver_resolve :: "string \<Rightarrow> string \<Rightarrow> string option \<Rightarrow> string \<Rightarrow> string option" where
  "VariableResolver_resolve hostname login user_env variable =
     (if variable = ''hostname'' then Some hostname
      else if variable = ''user'' then
        (if login = [] then user_env else Some login)
      else None)"

text \<open>
  The loop searches the input by positions.  With an empty prefix and an empty postfix it
  makes no progress, so it is a partial function: \<open>None\<close> means that it does not return.
\<close>

partial_function (option) replace_loop ::
  "(string \<Rightarrow> string option) \<Rightarrow> string \<Rightarrow> string \<Rightarrow> string \<Rightarrow> string \<Rightarrow> nat \<Rightarrow> nat \<Rightarrow> string \<Rightarrow> string option" where
  "replace_loop resolve prefix postfix emptyValue input lastPos pos result =
     (case find_from input prefix pos of
        None \<Rightarrow> Some (result @ drop lastPos input)
      | Some p \<Rightarrow>
          (case find_from input postfix (p + length prefix) of
             None \<Rightarrow> Some (result @ drop lastPos input)
           | Some e \<Rightarrow>
               (let placeHolder = substr input (p + length prefix) (e - p - length prefix);
                    pos' = e + length postfix
                in case (if placeHolder = [] then Some emptyValue else resolve placeHolder) of
                     None \<Rightarrow> replace_loop resolve prefix postfix emptyValue input lastPos pos' result
                   | Some v \<Rightarrow> replace_loop resolve prefix postfix emptyValue input pos' pos'
                       (result @ substr input lastPos (p - lastPos) @ v))))"

declare replace_loop.simps [code]

definition replace_with :: "(string \<Rightarrow> string option) \<Rightarrow> string \<Rightarrow> string \<Rightarrow> string \<Rightarrow> string \<Rightarrow> string option" where
  "replace_with resolve prefix postfix emptyValue input =
     replace_loop resolve prefix postfix emptyValue input 0 0 []"

definition replace :: "(string \<Rightarrow> string option) \<Rightarrow> string \<Rightarrow> string option" where
  "replace resolve input = replace_with resolve ''@'' ''@'' ''@'' input"

section \<open>The specification\<close>

text \<open>
  Read from left to right: text up to a marker, a name up to the next marker.  A known name is
  replaced, two markers in a row stand for one, an unknown name stays with its markers.
\<close>

function expand :: "(string \<Rightarrow> string option) \<Rightarrow> string \<Rightarrow> string" where
  "expand resolve s =
     (case dropWhile (\<lambda>c. c \<noteq> CHR ''@'') s of
        [] \<Rightarrow> s
      | _ # r \<Rightarrow>
          (case dropWhile (\<lambda>c. c \<noteq> CHR ''@'') r of
             [] \<Rightarrow> s
           | _ # rest \<Rightarrow>
               (let name = takeWhile (\<lambda>c. c \<noteq> CHR ''@'') r
                in takeWhile (\<lambda>c. c \<noteq> CHR ''@'') s @
                   (if name = [] then ''@''
                    else case resolve name of None \<Rightarrow> ''@'' @ name @ ''@'' | Some v \<Rightarrow> v) @
                   expand resolve rest)))"
  by pat_completeness auto
termination
  by (relation "measure (\<lambda>(_, s). length s)")
     (auto dest!: arg_cong [where f = length]; metis Suc_lessD length_Cons length_dropWhile_le less_Suc_eq_le order_le_less_trans linorder_not_less lessI order.strict_trans1)+

declare expand.simps [simp del]

lemma takeWhile_hit: "c \<notin> set t \<Longrightarrow> takeWhile (\<lambda>x. x \<noteq> c) (t @ c # z) = t"
  by (induction t) auto

lemma find_from_hit: "c \<notin> set t \<Longrightarrow> find_from (pre @ t @ c # z) [c] (length pre) = Some (length pre + length t)"
  by (simp add: find_from_def find_str_char takeWhile_hit)

lemma find_from_miss: "c \<notin> set t \<Longrightarrow> find_from (pre @ t) [c] (length pre) = None"
  by (simp add: find_from_def find_str_char)

lemma dropWhile_hit: "c \<notin> set t \<Longrightarrow> dropWhile (\<lambda>x. x \<noteq> c) (t @ c # z) = c # z"
  by (induction t) auto

lemma dropWhile_miss: "c \<notin> set t \<Longrightarrow> dropWhile (\<lambda>x. x \<noteq> c) t = []"
  by (induction t) auto

lemma substr_mid: "substr (a @ b @ c) (length a) (length b) = b"
  by (simp add: substr_def)

text \<open>
  The loop from any point: \<open>result\<close> was copied from \<open>dn\<close>, \<open>mid\<close> is the text between \<open>lastPos\<close>
  and \<open>pos\<close>, and \<open>s\<close> is what is still to be read.
\<close>

lemma replace_loop_expand:
  "replace_loop resolve ''@'' ''@'' ''@'' (dn @ mid @ s) (length dn) (length (dn @ mid)) result =
    Some (result @ mid @ expand resolve s)"
proof (induction "length s" arbitrary: s dn mid result rule: less_induct)
  case less
  show ?case
  proof (cases "CHR ''@'' \<in> set s")
    case False
    then have "find_from (dn @ mid @ s) ''@'' (length (dn @ mid)) = None"
      using find_from_miss [of "CHR ''@''" s "dn @ mid"] by simp
    then show ?thesis using False
      by (subst replace_loop.simps) (simp add: expand.simps [of _ s] dropWhile_miss)
  next
    case True
    then obtain t r where s: "s = t @ CHR ''@'' # r" and t: "CHR ''@'' \<notin> set t"
      by (meson split_list_first)
    have f1: "find_from (dn @ mid @ s) ''@'' (length (dn @ mid)) = Some (length (dn @ mid @ t))"
      using find_from_hit [OF t, of "dn @ mid" r] by (simp add: s)
    show ?thesis
    proof (cases "CHR ''@'' \<in> set r")
      case False
      then have "find_from (dn @ mid @ s) ''@'' (length (dn @ mid @ t) + 1) = None"
        using find_from_miss [of "CHR ''@''" r "dn @ mid @ t @ ''@''"] by (simp add: s)
      then show ?thesis using False f1 t
        by (subst replace_loop.simps) (simp add: expand.simps [of _ "t @ CHR ''@'' # r"] dropWhile_miss dropWhile_hit s)
    next
      case True
      then obtain name rest where r: "r = name @ CHR ''@'' # rest" and n: "CHR ''@'' \<notin> set name"
        by (meson split_list_first)
      let ?e = "length (dn @ mid @ t @ ''@'' @ name)"
      have f2: "find_from (dn @ mid @ s) ''@'' (length (dn @ mid @ t) + 1) = Some ?e"
        using find_from_hit [OF n, of "dn @ mid @ t @ ''@''" rest] by (simp add: s r)
      have ph: "substr (dn @ mid @ s) (length (dn @ mid @ t) + 1) (?e - length (dn @ mid @ t) - 1) = name"
        using substr_mid [of "dn @ mid @ t @ ''@''" name "CHR ''@'' # rest"] by (simp add: s r)
      have cp: "substr (dn @ mid @ s) (length dn) (length (dn @ mid @ t) - length dn) = mid @ t"
        using substr_mid [of dn "mid @ t" "CHR ''@'' # r"] by (simp add: s)
      have "length rest < length s" by (simp add: s r)
      note IH = less [OF this]
      have x: "expand resolve s = t @ (if name = [] then ''@''
          else case resolve name of None \<Rightarrow> ''@'' @ name @ ''@'' | Some v \<Rightarrow> v) @ expand resolve rest"
        by (subst expand.simps) (simp add: s r dropWhile_hit [OF t] dropWhile_hit [OF n] takeWhile_hit [OF t] takeWhile_hit [OF n] Let_def)
      have len: "length ''@'' = 1" by simp
      have step: "replace_loop resolve ''@'' ''@'' ''@'' (dn @ mid @ s) (length dn) (length (dn @ mid)) result =
          (case (if name = [] then Some ''@'' else resolve name) of
             None \<Rightarrow> replace_loop resolve ''@'' ''@'' ''@'' (dn @ mid @ s) (length dn) (?e + 1) result
           | Some v \<Rightarrow> replace_loop resolve ''@'' ''@'' ''@'' (dn @ mid @ s) (?e + 1) (?e + 1) (result @ (mid @ t) @ v))"
        by (subst replace_loop.simps) (simp only: len f1 f2 ph cp option.case Let_def)
      show ?thesis
        unfolding step x
        using IH [of "dn @ mid @ t @ ''@'' @ name @ ''@''" "[]"] IH [of dn "mid @ t @ ''@'' @ name @ ''@''" result]
        by (auto simp: s r split: option.splits)
    qed
  qed
qed

section \<open>Properties\<close>

text \<open>
  C5: \<open>replace(input, resolver)\<close> always returns, and its position arithmetic computes the
  left-to-right expansion: known names are replaced, \<open>@@\<close> becomes \<open>@\<close>, unknown names and an
  unpaired marker stay as they are.
\<close>

theorem replace_expand: "replace resolve input = Some (expand resolve input)"
  using replace_loop_expand [of resolve "[]" "[]" input "[]"] by (simp add: replace_def replace_with_def)

text \<open>
  with any prefix and postfix of which one is not empty the substitution returns.
\<close>

theorem replace_with_returns:
  assumes "prefix \<noteq> [] \<or> postfix \<noteq> []"
  shows "\<exists>out. replace_with resolve prefix postfix emptyValue input = Some out"
proof -
  have "\<exists>out. replace_loop resolve prefix postfix emptyValue input lastPos pos result = Some out" for lastPos pos result
  proof (induction "length input - pos" arbitrary: lastPos pos result rule: less_induct)
    case less
    show ?case
    proof (cases "find_from input prefix pos")
      case (Some p)
      show ?thesis
      proof (cases "find_from input postfix (p + length prefix)")
        case (Some e)
        have "pos < e + length postfix \<and> e + length postfix \<le> length input"
          using find_from_bound [OF Some] find_from_bound [OF \<open>find_from input prefix pos = Some p\<close>] assms
          by (auto simp flip: length_greater_0_conv)
        then have "length input - (e + length postfix) < length input - pos" by arith
        note IH = less [OF this]
        show ?thesis
          using IH \<open>find_from input prefix pos = Some p\<close> Some
          by (subst replace_loop.simps) (simp add: Let_def split: option.split)
      qed (subst replace_loop.simps, simp add: Some)
    qed (subst replace_loop.simps, simp)
  qed
  then show ?thesis by (simp add: replace_with_def)
qed

theorem replace_with_returns_witness: "\<exists>out. replace_with (\<lambda>_. None) ''$'' [] [] ''a$b'' = Some out"
  by (rule replace_with_returns) simp

end
