(* ===== verification/KeyValues.thy ===== *)
theory KeyValues
  imports Strings
begin

text \<open>
  The name/value store filled from configuration parameter sets
  (src/src/trunk/libs/seiscomp3/utils/keyvalues.cpp).  The \<open>std::map\<close> is a map; a getter
  returns \<open>None\<close> where the code returns \<open>false\<close>.  The setters always return \<open>true\<close>.

  \<open>KeyValues_init\<close> first initialises from the base set that \<open>ParameterSet::Find(baseID)\<close> finds and then
  lets the parameters of the set override it.  Nothing bounds the chain of bases, so the
  recursion is a partial function; \<open>finder\<close>, the registry of parameter sets, is an argument.
\<close>

section \<open>The operations of the code\<close>

type_synonym keyvalues = "string \<rightharpoonup> string"

definition KeyValues :: keyvalues where
  "KeyValues = Map.empty"

definition setString :: "string \<Rightarrow> string \<Rightarrow> keyvalues \<Rightarrow> keyvalues" where
  "setString name v m = m(name \<mapsto> v)"

definition setInt :: "string \<Rightarrow> int \<Rightarrow> keyvalues \<Rightarrow> keyvalues" where
  "setInt name v m = m(name \<mapsto> toString_int v)"

definition setBool :: "string \<Rightarrow> bool \<Rightarrow> keyvalues \<Rightarrow> keyvalues" where
  "setBool name v m = m(name \<mapsto> toString_bool v)"

definition unset :: "string \<Rightarrow> keyvalues \<Rightarrow> bool \<times> keyvalues" where
  "unset name m = (case m name of None \<Rightarrow> (False, m) | Some _ \<Rightarrow> (True, m(name := None)))"

definition getString :: "keyvalues \<Rightarrow> string \<Rightarrow> string option" where
  "getString m name = (case m name of None \<Rightarrow> None | Some v \<Rightarrow> Some v)"

definition getInt :: "keyvalues \<Rightarrow> string \<Rightarrow> int option" where
  "getInt m name = (case m name of None \<Rightarrow> None | Some v \<Rightarrow> fromString_int v)"

definition getBool :: "keyvalues \<Rightarrow> string \<Rightarrow> bool option" where
  "getBool m name = (case m name of None \<Rightarrow> None | Some v \<Rightarrow> fromString_bool v)"

record parameter_set =
  baseID :: string
  parameters :: "(string \<times> string) list"

fun set_all :: "(string \<times> string) list \<Rightarrow> keyvalues \<Rightarrow> keyvalues" where
  "set_all [] m = m"
| "set_all ((n, v) # ps) m = set_all ps (setString n v m)"

partial_function (option) KeyValues_init ::
  "(string \<Rightarrow> parameter_set option) \<Rightarrow> parameter_set \<Rightarrow> keyvalues \<Rightarrow> keyvalues option" where
  "KeyValues_init finder ps m =
     Option.bind (case finder (baseID ps) of None \<Rightarrow> Some m | Some base \<Rightarrow> KeyValues_init finder base m)
       (\<lambda>m'. Some (set_all (parameters ps) m'))"

declare KeyValues_init.simps [code]

section \<open>Facts\<close>

lemma set_all_lookup:
  "set_all ps m n = (case map_of (rev ps) n of None \<Rightarrow> m n | Some v \<Rightarrow> Some v)"
  by (induction ps m rule: set_all.induct) (auto simp: setString_def map_add_def fun_upd_def split: option.splits)

lemma fromString_bool_toString: "fromString_bool (toString_bool b) = Some b"
proof -
  have "compareNoCase ''false'' ''true'' \<noteq> 0" by code_simp
  then show ?thesis
    by (cases b) (simp_all add: fromString_bool_def toString_bool_def compareNoCase_zero del: compareNoCase.simps)
qed

text \<open>The chain of bases ends after at most \<open>n\<close> steps.\<close>

fun chain_ends :: "(string \<Rightarrow> parameter_set option) \<Rightarrow> nat \<Rightarrow> parameter_set \<Rightarrow> bool" where
  "chain_ends finder 0 ps = (finder (baseID ps) = None)"
| "chain_ends finder (Suc n) ps = (case finder (baseID ps) of None \<Rightarrow> True | Some b \<Rightarrow> chain_ends finder n b)"

lemma chain_init: "chain_ends finder n ps \<Longrightarrow> \<exists>r. KeyValues_init finder ps m = Some r"
proof (induction n arbitrary: ps)
  case 0
  then show ?case by (subst KeyValues_init.simps) simp
next
  case (Suc n)
  show ?case
  proof (cases "finder (baseID ps)")
    case None
    then show ?thesis by (subst KeyValues_init.simps) simp
  next
    case (Some b)
    with Suc obtain r where "KeyValues_init finder b m = Some r" by auto
    with Some show ?thesis by (subst KeyValues_init.simps) simp
  qed
qed

lemma init_chain:
  assumes "KeyValues_init finder ps m = Some r"
  shows "\<exists>n. chain_ends finder n ps"
proof (rule KeyValues_init.raw_induct [where P = "\<lambda>finder ps m r. \<exists>n. chain_ends finder n ps", OF _ assms])
  fix rec finder m r and ps :: parameter_set
  assume IH: "\<And>finder (ps :: parameter_set) m r. rec finder ps m = Some r \<Longrightarrow> \<exists>n. chain_ends finder n ps"
    and eq: "Option.bind (case finder (baseID ps) of None \<Rightarrow> Some m | Some base \<Rightarrow> rec finder base m)
       (\<lambda>m'. Some (set_all (parameters ps) m')) = Some r"
  show "\<exists>n. chain_ends finder n ps"
  proof (cases "finder (baseID ps)")
    case None
    then have "chain_ends finder 0 ps" by simp
    then show ?thesis ..
  next
    case (Some b)
    with eq obtain m' where "rec finder b m = Some m'" by (auto simp: bind_eq_Some_conv)
    with IH obtain n where "chain_ends finder n b" by blast
    with Some have "chain_ends finder (Suc n) ps" by simp
    then show ?thesis ..
  qed
qed

section \<open>Properties\<close>

text \<open>
  initialisation from a parameter set returns exactly when its chain of base sets ends; a
  cycle of base sets makes it recurse for ever.
\<close>

theorem init_terminates_iff: "(\<exists>r. KeyValues_init finder ps m = Some r) \<longleftrightarrow> (\<exists>n. chain_ends finder n ps)"
  using chain_init init_chain by blast

text \<open>
  after initialisation a name has the last value its set gives it, and otherwise the value
  that initialisation from the base set gives (or the old value, without a base).
\<close>

theorem init_overrides:
  assumes "KeyValues_init finder ps m = Some r"
  shows "getString r n =
    (case map_of (rev (parameters ps)) n of
       Some v \<Rightarrow> Some v
     | None \<Rightarrow> (case finder (baseID ps) of
                 None \<Rightarrow> getString m n
               | Some b \<Rightarrow> Option.bind (KeyValues_init finder b m) (\<lambda>m'. getString m' n)))"
proof -
  have g: "getString m n = m n" for m by (simp add: getString_def split: option.split)
  from assms show ?thesis
    by (subst (asm) KeyValues_init.simps) (auto simp: g set_all_lookup bind_eq_Some_conv split: option.splits)
qed

theorem init_overrides_witness:
  "getString (the (KeyValues_init (\<lambda>i. if i = ''b'' then Some \<lparr>baseID = [], parameters = [(''x'', ''1'')]\<rparr> else None)
      \<lparr>baseID = ''b'', parameters = [(''y'', ''2'')]\<rparr> Map.empty)) ''x'' = Some ''1''"
proof -
  let ?find = "\<lambda>i. if i = ''b'' then Some \<lparr>baseID = [], parameters = [(''x'', ''1'')]\<rparr> else None"
  let ?b = "\<lparr>baseID = [], parameters = [(''x'', ''1'')]\<rparr>"
  let ?ps = "\<lparr>baseID = ''b'', parameters = [(''y'', ''2'')]\<rparr>"
  have b: "KeyValues_init ?find ?b Map.empty = Some [''x'' \<mapsto> ''1'']"
    by (subst KeyValues_init.simps) (simp add: setString_def)
  have "KeyValues_init ?find ?ps Map.empty = Some [''x'' \<mapsto> ''1'', ''y'' \<mapsto> ''2'']"
    by (subst KeyValues_init.simps) (simp add: b setString_def)
  with init_overrides [OF this, of "''x''"] b show ?thesis by (simp add: getString_def)
qed

text \<open>
  integers and Booleans that were set are read back.\<close>

theorem set_get_int: "fits_s 32 v \<Longrightarrow> getInt (setInt n v m) n = Some v \<and> getBool (setBool n b m) n = Some b"
  by (simp add: getInt_def setInt_def getBool_def setBool_def toString_int_def fromString_int_def
      parse_long_show_int fits_s_mono cast_s_id fromString_bool_toString)

theorem set_get_int_witness: "getInt (setInt ''n'' (- 7) Map.empty) ''n'' = Some (- 7)"
  using set_get_int [of "- 7"] by (simp add: fits_s_def)

end
