(* ===== verification/Datetime.thy ===== *)
theory Datetime
  imports Prelude
begin

text \<open>
  Time spans and times of the core library (src/src/trunk/libs/seiscomp3/core/datetime.cpp).
  A \<open>TimeSpan\<close> and a \<open>Time\<close> both hold a \<open>struct timeval\<close>.  Its fields are \<open>long\<close>, whose
  arithmetic is undefined on overflow, so they are integers here; the places where the code
  converts to \<open>int\<close> are written with \<open>cast_s 32\<close>.

  The comparison operators of the code compare seconds first and microseconds then; they make
  \<open>timeval\<close> an instance of \<open>linorder\<close>, so that the library's order facts serve the components
  that work on times.  \<open>usecs\<close> is the abstract value, the number of microseconds.
\<close>

section \<open>The operations of the code\<close>

definition MICROS :: int where "MICROS = 1000000"

datatype timeval = Timeval (tv_sec: int) (tv_usec: int)

fun normalize_tv :: "int \<Rightarrow> int \<Rightarrow> int \<times> int" where
  "normalize_tv sec usec =
     (if usec < 0 then
        (if sec > 0 \<or> usec \<le> - MICROS then (sec - 1, usec + MICROS) else (sec, usec))
      else if usec > 0 then
        (if sec < 0 \<or> usec \<ge> MICROS then (sec + 1, usec - MICROS) else (sec, usec))
      else (sec, usec))"

definition TimeSpan :: timeval where
  "TimeSpan = Timeval 0 0"

definition TimeSpan_of :: "int \<Rightarrow> int \<Rightarrow> timeval" where
  "TimeSpan_of secs us = Timeval (secs + us sdiv MICROS) (us smod MICROS)"

definition ts_eq :: "timeval \<Rightarrow> timeval \<Rightarrow> bool" where
  "ts_eq a b \<longleftrightarrow> tv_sec a = tv_sec b \<and> tv_usec a = tv_usec b"

definition ts_neq :: "timeval \<Rightarrow> timeval \<Rightarrow> bool" where
  "ts_neq a b \<longleftrightarrow> \<not> ts_eq a b"

definition ts_lt :: "timeval \<Rightarrow> timeval \<Rightarrow> bool" where
  "ts_lt a b \<longleftrightarrow> (if tv_sec a > tv_sec b then False else if tv_sec a < tv_sec b then True
                   else tv_usec a < tv_usec b)"

definition ts_le :: "timeval \<Rightarrow> timeval \<Rightarrow> bool" where
  "ts_le a b \<longleftrightarrow> (if tv_sec a > tv_sec b then False else if tv_sec a < tv_sec b then True
                   else tv_usec a \<le> tv_usec b)"

definition ts_gt :: "timeval \<Rightarrow> timeval \<Rightarrow> bool" where
  "ts_gt a b \<longleftrightarrow> (if tv_sec a < tv_sec b then False else if tv_sec a > tv_sec b then True
                   else tv_usec a > tv_usec b)"

definition ts_ge :: "timeval \<Rightarrow> timeval \<Rightarrow> bool" where
  "ts_ge a b \<longleftrightarrow> (if tv_sec a < tv_sec b then False else if tv_sec a > tv_sec b then True
                   else tv_usec a \<ge> tv_usec b)"

definition ts_of_long :: "int \<Rightarrow> timeval" where
  "ts_of_long t = Timeval t 0"

definition ts_add :: "timeval \<Rightarrow> timeval \<Rightarrow> timeval" where
  "ts_add a b = (case normalize_tv (tv_sec a + tv_sec b) (tv_usec a + tv_usec b) of (s, u) \<Rightarrow> TimeSpan_of s u)"

definition ts_sub :: "timeval \<Rightarrow> timeval \<Rightarrow> timeval" where
  "ts_sub a b = (case normalize_tv (tv_sec a - tv_sec b) (tv_usec a - tv_usec b) of (s, u) \<Rightarrow> TimeSpan_of s u)"

definition ts_add_assign :: "timeval \<Rightarrow> timeval \<Rightarrow> timeval" where
  "ts_add_assign a b = (case normalize_tv (tv_sec a + tv_sec b) (tv_usec a + tv_usec b) of (s, u) \<Rightarrow> Timeval s u)"

definition ts_sub_assign :: "timeval \<Rightarrow> timeval \<Rightarrow> timeval" where
  "ts_sub_assign a b = (case normalize_tv (tv_sec a - tv_sec b) (tv_usec a - tv_usec b) of (s, u) \<Rightarrow> Timeval s u)"

definition ts_set :: "int \<Rightarrow> timeval \<Rightarrow> timeval" where
  "ts_set secs t = Timeval secs (tv_usec t)"

definition setUSecs :: "int \<Rightarrow> timeval \<Rightarrow> timeval" where
  "setUSecs us t = Timeval (tv_sec t + us sdiv MICROS) (us smod MICROS)"

text \<open>\<open>elapsedTime(&days, &hours, &minutes, &seconds)\<close> with all four pointers given.\<close>

definition elapsedTime :: "timeval \<Rightarrow> int \<times> int \<times> int \<times> int" where
  "elapsedTime t =
     (let elapsed = cast_s 32 (tv_sec t) in
      (elapsed sdiv 86400, (elapsed smod 86400) sdiv 3600,
       ((elapsed smod 86400) smod 3600) sdiv 60, ((elapsed smod 86400) smod 3600) smod 60))"

definition ts_abs :: "timeval \<Rightarrow> timeval" where
  "ts_abs t = TimeSpan_of \<bar>tv_sec t\<bar> \<bar>tv_usec t\<bar>"

definition seconds :: "timeval \<Rightarrow> int" where "seconds t = tv_sec t"
definition microseconds :: "timeval \<Rightarrow> int" where "microseconds t = tv_usec t"

text \<open>\<open>Time::valid\<close> and the conversion to \<open>bool\<close>: not the null time.\<close>

definition Time_valid :: "timeval \<Rightarrow> bool" where
  "Time_valid t \<longleftrightarrow> tv_sec t \<noteq> 0 \<or> tv_usec t \<noteq> 0"

text \<open>
  \<open>Time::set(year, ..., sec, usec)\<close>: \<open>timegm\<close> of the calendar fields is the argument \<open>secs\<close>;
  the microseconds are added with \<open>setUSecs\<close>, so they are positive also before 1970.
\<close>

definition Time_set :: "int \<Rightarrow> int \<Rightarrow> timeval" where
  "Time_set secs us = setUSecs us (Timeval secs 0)"

section \<open>The order of the code\<close>

instantiation timeval :: linorder
begin

definition less_timeval :: "timeval \<Rightarrow> timeval \<Rightarrow> bool" where "less_timeval = ts_lt"
definition less_eq_timeval :: "timeval \<Rightarrow> timeval \<Rightarrow> bool" where "less_eq_timeval = ts_le"

instance
proof
  fix x y z :: timeval
  obtain a b where x: "x = Timeval a b" by (cases x)
  obtain c d where y: "y = Timeval c d" by (cases y)
  obtain e f where z: "z = Timeval e f" by (cases z)
  note defs = x y z less_timeval_def less_eq_timeval_def ts_lt_def ts_le_def timeval.sel
  show "x < y \<longleftrightarrow> x \<le> y \<and> \<not> y \<le> x" unfolding defs by auto
  show "x \<le> x" unfolding defs by simp
  show "x \<le> y \<or> y \<le> x" unfolding defs by auto
  show "x \<le> y \<Longrightarrow> y \<le> z \<Longrightarrow> x \<le> z" unfolding defs by (simp split: if_split_asm)
  show "x \<le> y \<Longrightarrow> y \<le> x \<Longrightarrow> x = y" unfolding defs by (simp split: if_split_asm)
qed

end

lemma timeval_less: "Timeval s u < Timeval s' u' \<longleftrightarrow> s < s' \<or> (s = s' \<and> u < u')"
  by (auto simp: less_timeval_def ts_lt_def)

lemma timeval_le: "Timeval s u \<le> Timeval s' u' \<longleftrightarrow> s < s' \<or> (s = s' \<and> u \<le> u')"
  by (auto simp: less_eq_timeval_def ts_le_def)

lemma ts_order:
  "ts_lt a b \<longleftrightarrow> a < b" "ts_le a b \<longleftrightarrow> a \<le> b" "ts_gt a b \<longleftrightarrow> b < a" "ts_ge a b \<longleftrightarrow> b \<le> a"
  "ts_eq a b \<longleftrightarrow> a = b" "ts_neq a b \<longleftrightarrow> a \<noteq> b"
  by (cases a; cases b; simp only: timeval_less timeval_le ts_lt_def ts_le_def ts_gt_def
      ts_ge_def ts_eq_def ts_neq_def timeval.sel timeval.inject; auto)+

declare ts_order [simp]

section \<open>The abstract value\<close>

definition usecs :: "timeval \<Rightarrow> int" where
  "usecs t = tv_sec t * MICROS + tv_usec t"

text \<open>
  The form all arithmetic of the code produces: less than a second of microseconds, with the
  sign of the seconds.
\<close>

definition canonical :: "timeval \<Rightarrow> bool" where
  "canonical t \<longleftrightarrow> \<bar>tv_usec t\<bar> < MICROS \<and> (tv_sec t > 0 \<longrightarrow> 0 \<le> tv_usec t) \<and> (tv_sec t < 0 \<longrightarrow> tv_usec t \<le> 0)"

lemma sdiv_smod: "a sdiv b * b + a smod b = (a :: int)"
  by (rule sdiv_mult_smod_eq)

lemma smod_MICROS: "\<bar>a\<bar> < MICROS \<Longrightarrow> a smod MICROS = a \<and> a sdiv MICROS = 0"
  by (auto simp: MICROS_def signed_modulo_int_def signed_divide_int_def sgn_if abs_if)

lemma smod_small: "\<bar>a smod MICROS\<bar> < MICROS \<and> (0 < a \<longrightarrow> 0 \<le> a smod MICROS) \<and> (a < 0 \<longrightarrow> a smod MICROS \<le> 0)"
  by (auto simp: MICROS_def signed_modulo_int_def sgn_if abs_if)

lemma usecs_TimeSpan_of: "usecs (TimeSpan_of s u) = s * MICROS + u"
  using sdiv_smod [of u MICROS] by (simp add: usecs_def TimeSpan_of_def algebra_simps)

lemma usecs_normalize: "normalize_tv s u = (s', u') \<Longrightarrow> s' * MICROS + u' = s * MICROS + u"
  by (auto simp: algebra_simps split: if_split_asm)

lemma usecs_add: "usecs (ts_add a b) = usecs a + usecs b"
proof -
  obtain s u where n: "normalize_tv (tv_sec a + tv_sec b) (tv_usec a + tv_usec b) = (s, u)"
    by (metis surj_pair)
  show ?thesis
    unfolding ts_add_def n prod.case usecs_TimeSpan_of usecs_normalize [OF n]
    by (simp add: usecs_def algebra_simps)
qed

lemma usecs_sub: "usecs (ts_sub a b) = usecs a - usecs b"
proof -
  obtain s u where n: "normalize_tv (tv_sec a - tv_sec b) (tv_usec a - tv_usec b) = (s, u)"
    by (metis surj_pair)
  show ?thesis
    unfolding ts_sub_def n prod.case usecs_TimeSpan_of usecs_normalize [OF n]
    by (simp add: usecs_def algebra_simps)
qed

lemma usecs_add_assign: "usecs (ts_add_assign a b) = usecs a + usecs b"
proof -
  obtain s u where n: "normalize_tv (tv_sec a + tv_sec b) (tv_usec a + tv_usec b) = (s, u)"
    by (metis surj_pair)
  show ?thesis
    using usecs_normalize [OF n] by (simp add: ts_add_assign_def n usecs_def algebra_simps)
qed

lemma usecs_sub_assign: "usecs (ts_sub_assign a b) = usecs a - usecs b"
proof -
  obtain s u where n: "normalize_tv (tv_sec a - tv_sec b) (tv_usec a - tv_usec b) = (s, u)"
    by (metis surj_pair)
  show ?thesis
    using usecs_normalize [OF n] by (simp add: ts_sub_assign_def n usecs_def algebra_simps)
qed

lemma canonical_less_imp: "canonical a \<Longrightarrow> canonical b \<Longrightarrow> a < b \<Longrightarrow> usecs a < usecs b"
  by (cases a; cases b) (auto simp: canonical_def usecs_def MICROS_def timeval_less abs_if split: if_split_asm)

lemma canonical_inj: "canonical a \<Longrightarrow> canonical b \<Longrightarrow> usecs a = usecs b \<longleftrightarrow> a = b"
  using canonical_less_imp [of a b] canonical_less_imp [of b a] by (cases a b rule: linorder_cases) auto

lemma canonical_less: "canonical a \<Longrightarrow> canonical b \<Longrightarrow> a < b \<longleftrightarrow> usecs a < usecs b"
  using canonical_less_imp [of a b] canonical_less_imp [of b a] by (cases a b rule: linorder_cases) auto

lemma canonical_normalize:
  assumes "canonical a" and "canonical b"
  shows "normalize_tv (tv_sec a + tv_sec b) (tv_usec a + tv_usec b) = (s, u) \<Longrightarrow> canonical (Timeval s u)"
  using assms by (auto simp: canonical_def MICROS_def abs_if split: if_split_asm)

definition neg :: "timeval \<Rightarrow> timeval" where
  "neg t = Timeval (- tv_sec t) (- tv_usec t)"

lemma canonical_neg: "canonical (neg t) = canonical t"
  by (auto simp: canonical_def neg_def)

lemma sub_neg: "ts_sub a b = ts_add a (neg b)" "ts_sub_assign a b = ts_add_assign a (neg b)"
  by (simp_all add: ts_sub_def ts_sub_assign_def ts_add_def ts_add_assign_def neg_def)

lemma TimeSpan_of_canonical: "canonical (Timeval s u) \<Longrightarrow> TimeSpan_of s u = Timeval s u"
  using smod_MICROS [of u] by (simp add: TimeSpan_of_def canonical_def)

lemma canonical_add [inv_intro]:
  assumes "canonical a" and "canonical b"
  shows "canonical (ts_add a b)" and "canonical (ts_add_assign a b)" and "ts_add_assign a b = ts_add a b"
  using canonical_normalize [OF assms]
  by (auto simp: ts_add_def ts_add_assign_def TimeSpan_of_canonical split: prod.split simp del: normalize_tv.simps)

lemma canonical_sub [inv_intro]:
  assumes "canonical a" and "canonical b"
  shows "canonical (ts_sub a b)" and "canonical (ts_sub_assign a b)" and "ts_sub_assign a b = ts_sub a b"
  using canonical_add [OF assms(1), of "neg b"] assms(2) by (simp_all add: sub_neg canonical_neg)

lemma canonical_TimeSpan [inv_intro]: "canonical TimeSpan" "canonical (ts_of_long s)"
  by (simp_all add: canonical_def TimeSpan_def ts_of_long_def MICROS_def)

lemma canonical_TimeSpan_of [inv_intro]: "0 \<le> s \<Longrightarrow> 0 \<le> u \<Longrightarrow> canonical (TimeSpan_of s u)"
  by (auto simp: canonical_def TimeSpan_of_def MICROS_def signed_modulo_int_def signed_divide_int_def sgn_if)

lemma usecs_abs: "canonical t \<Longrightarrow> usecs (ts_abs t) = \<bar>usecs t\<bar>"
  unfolding ts_abs_def usecs_TimeSpan_of
  by (auto simp: usecs_def canonical_def MICROS_def abs_if algebra_simps)

section \<open>Splitting a time for output\<close>

text \<open>
  The loop at the head of \<open>Time::toString\<close>: seconds and microseconds are brought to the floor form
  (microseconds not negative) before the calendar fields are taken.
\<close>

function toString_split :: "int \<Rightarrow> int \<Rightarrow> int \<times> int" where
  "toString_split secs us = (if us < 0 then toString_split (secs - 1) (us + MICROS) else (secs, us))"
  by auto

termination
  by (relation "measure (\<lambda>(s, u). nat (- u))") (auto simp: MICROS_def)

declare toString_split.simps [simp del]

lemma toString_split_floor:
  "us < MICROS \<Longrightarrow> toString_split secs us = ((secs * MICROS + us) div MICROS, (secs * MICROS + us) mod MICROS)"
proof (induction secs us rule: toString_split.induct)
  case (1 secs us)
  show ?case
  proof (cases "us < 0")
    case True
    then have "toString_split secs us = toString_split (secs - 1) (us + MICROS)"
      by (subst toString_split.simps) simp
    also have "\<dots> = (((secs - 1) * MICROS + (us + MICROS)) div MICROS, ((secs - 1) * MICROS + (us + MICROS)) mod MICROS)"
      using True by (intro 1(1)) auto
    also have "(secs - 1) * MICROS + (us + MICROS) = secs * MICROS + us"
      by (simp add: algebra_simps)
    finally show ?thesis .
  next
    case False
    with 1(2) show ?thesis
      by (simp add: toString_split.simps [of secs us] MICROS_def)
  qed
qed

section \<open>Properties\<close>

lemma sgn_sdiv: "0 \<le> k \<Longrightarrow> (sgn x * k) sdiv numeral c = sgn x * (k div numeral c)" for x k :: int
  by (auto simp: signed_divide_int_def sgn_if abs_if)

lemma sgn_smod: "0 \<le> k \<Longrightarrow> (sgn x * k) smod numeral c = sgn x * (k mod numeral c)" for x k :: int
  by (auto simp: signed_modulo_int_def sgn_if abs_if)

text \<open>
  Time arithmetic is exact.  On canonical values (which every operator yields again) addition
  and subtraction are those of the number of microseconds, and the assigning operators, which
  skip the reduction of the constructor, give the same value.
\<close>

lemma time_arith_exact:
  assumes "canonical a" and "canonical b"
  shows "canonical (ts_add a b) \<and> usecs (ts_add a b) = usecs a + usecs b \<and> ts_add_assign a b = ts_add a b \<and>
         canonical (ts_sub a b) \<and> usecs (ts_sub a b) = usecs a - usecs b \<and> ts_sub_assign a b = ts_sub a b \<and>
         ts_sub (ts_add a b) b = a"
proof -
  have "ts_sub (ts_add a b) b = a"
    using assms canonical_add [OF assms] canonical_sub [of "ts_add a b" b]
    by (simp add: canonical_inj [symmetric] usecs_add usecs_sub)
  then show ?thesis
    using canonical_add [OF assms] canonical_sub [OF assms] by (simp add: usecs_add usecs_sub)
qed

theorem time_arith_exact_witness:
  "usecs (ts_sub (Timeval 1 200000) (Timeval 3 900000)) = - 2700000"
  using time_arith_exact [of "Timeval 1 200000" "Timeval 3 900000"]
  by (simp add: canonical_def MICROS_def usecs_def)

text \<open>
  The comparison operators order canonical times as the number of microseconds does, and two
  canonical times with the same number of microseconds are the same time.
\<close>

theorem time_order_exact:
  assumes "canonical a" and "canonical b"
  shows "(ts_lt a b \<longleftrightarrow> usecs a < usecs b) \<and> (ts_le a b \<longleftrightarrow> usecs a \<le> usecs b) \<and>
         (ts_gt a b \<longleftrightarrow> usecs a > usecs b) \<and> (ts_ge a b \<longleftrightarrow> usecs a \<ge> usecs b) \<and>
         (ts_eq a b \<longleftrightarrow> usecs a = usecs b) \<and> (ts_neq a b \<longleftrightarrow> usecs a \<noteq> usecs b)"
  using canonical_less [OF assms] canonical_less [OF assms(2,1)] canonical_inj [OF assms]
  by (auto simp: not_less [symmetric])

theorem time_order_exact_witness:
  "ts_lt (Timeval (- 2) (- 700000)) (Timeval (- 2) (- 600000))"
  using time_order_exact [of "Timeval (- 2) (- 700000)" "Timeval (- 2) (- 600000)"]
  by (simp add: canonical_def MICROS_def usecs_def)

text \<open>
  Before 1970 the order is not that of the instants.  \<open>Time::set\<close> stores the floor form (here
  half a second before the epoch as -1 s and 500000 us), subtraction yields the canonical form
  (0 s and -500000 us): both hold the same instant, but they are not equal, the first counts as
  earlier, and \<open>abs\<close> of the first is 1.5 s.
\<close>

theorem pre_epoch_forms_differ:
  "usecs (Time_set (- 1) 500000) = usecs (ts_sub (ts_of_long 0) (TimeSpan_of 0 500000)) \<and>
   \<not> ts_eq (Time_set (- 1) 500000) (ts_sub (ts_of_long 0) (TimeSpan_of 0 500000)) \<and>
   ts_lt (Time_set (- 1) 500000) (ts_sub (ts_of_long 0) (TimeSpan_of 0 500000)) \<and>
   usecs (ts_abs (Time_set (- 1) 500000)) = 1500000"
  by code_simp

text \<open>
  \<open>elapsedTime\<close> takes a span of up to 2^31 seconds apart into days, hours, minutes and seconds:
  the parts recompose to the seconds of the span, all carry its sign, and hours, minutes and
  seconds stay within 23, 59 and 59.
\<close>

theorem elapsedTime_recompose:
  assumes "fits_s 32 (tv_sec t)" and "elapsedTime t = (d, h, m, s)"
  shows "((d * 24 + h) * 60 + m) * 60 + s = tv_sec t \<and> \<bar>h\<bar> < 24 \<and> \<bar>m\<bar> < 60 \<and> \<bar>s\<bar> < 60 \<and>
         (0 \<le> tv_sec t \<longrightarrow> 0 \<le> d \<and> 0 \<le> h \<and> 0 \<le> m \<and> 0 \<le> s)"
proof -
  define n where "n = \<bar>tv_sec t\<bar>"
  have parts: "d = sgn (tv_sec t) * (n div 86400)" "h = sgn (tv_sec t) * (n mod 86400 div 3600)"
    "m = sgn (tv_sec t) * (n mod 86400 mod 3600 div 60)" "s = sgn (tv_sec t) * (n mod 86400 mod 3600 mod 60)"
  proof -
    have "elapsedTime t = (let e = sgn (tv_sec t) * n in (e sdiv 86400, (e smod 86400) sdiv 3600,
        ((e smod 86400) smod 3600) sdiv 60, ((e smod 86400) smod 3600) smod 60))"
      unfolding elapsedTime_def cast_s_id [OF _ assms(1), simplified] n_def by (simp add: sgn_mult_abs)
    then show "d = sgn (tv_sec t) * (n div 86400)" "h = sgn (tv_sec t) * (n mod 86400 div 3600)"
      "m = sgn (tv_sec t) * (n mod 86400 mod 3600 div 60)" "s = sgn (tv_sec t) * (n mod 86400 mod 3600 mod 60)"
      using assms(2) by (simp_all add: Let_def sgn_sdiv sgn_smod n_def)
  qed
  define q r where "q = n mod 86400" and "r = q mod 3600"
  define D H M S where "D = n div 86400" and "H = q div 3600" and "M = r div 60" and "S = r mod 60"
  note folds = q_def [symmetric] r_def [symmetric] D_def [symmetric] H_def [symmetric] M_def [symmetric] S_def [symmetric]
  have n: "0 \<le> n"
    unfolding n_def by simp
  have e: "n = D * 86400 + q" "q = H * 3600 + r" "r = M * 60 + S"
    unfolding D_def H_def M_def S_def q_def r_def by (rule div_mult_mod_eq [symmetric])+
  have b: "0 \<le> q" "q < 86400" "0 \<le> r" "r < 3600" "0 \<le> S" "S < 60"
    unfolding S_def q_def r_def by simp_all
  have r: "((D * 24 + H) * 60 + M) * 60 + S = n" "0 \<le> D" "0 \<le> H" "H < 24" "0 \<le> M" "M < 60" "0 \<le> S" "S < 60"
    using e b n by simp_all
  show ?thesis
  proof (cases "0 < tv_sec t")
    case True
    then show ?thesis
      using r unfolding parts folds
      by (simp add: n_def)
  next
    case False
    then have "n = - tv_sec t" by (simp add: n_def)
    with False r show ?thesis
      unfolding parts folds
      by (cases "tv_sec t = 0") (simp_all add: algebra_simps)
  qed
qed

theorem elapsedTime_recompose_witness: "elapsedTime (Timeval 90061 5) = (1, 1, 1, 1)"
  using elapsedTime_recompose [of "Timeval 90061 5" 1 1 1 1]
  by (simp add: elapsedTime_def cast_s_def fits_s_def signed_divide_int_def signed_modulo_int_def)

end
