(* ===== verification/Timewindow.thy ===== *)
theory Timewindow
  imports Complex_Main Datetime
begin

text \<open>
  Time windows of the core library (src/src/trunk/libs/seiscomp3/core/timewindow.h and
  timewindow.cpp): two times, the start included and the end excluded, with the null window (both
  times null) as the absent one.  The conversion of a time span to \<open>double\<close>, used by the operations
  that take a tolerance, is the exact rational number of seconds here: the rounding of \<open>double\<close> is
  not modelled.
\<close>

section \<open>The operations of the code\<close>

record timewindow =
  startTime :: timeval
  endTime :: timeval

definition TimeWindow_of :: "timeval \<Rightarrow> timeval \<Rightarrow> timewindow" where
  "TimeWindow_of s e = \<lparr>startTime = s, endTime = e\<rparr>"

definition TimeWindow :: timewindow where
  "TimeWindow = TimeWindow_of TimeSpan TimeSpan"

definition tw_eq :: "timewindow \<Rightarrow> timewindow \<Rightarrow> bool" where
  "tw_eq a b \<longleftrightarrow> ts_eq (startTime a) (startTime b) \<and> ts_eq (endTime a) (endTime b)"

definition tw_neq :: "timewindow \<Rightarrow> timewindow \<Rightarrow> bool" where
  "tw_neq a b \<longleftrightarrow> ts_neq (startTime a) (startTime b) \<or> ts_neq (endTime a) (endTime b)"

definition tw_bool :: "timewindow \<Rightarrow> bool" where
  "tw_bool a \<longleftrightarrow> Time_valid (startTime a) \<and> Time_valid (endTime a)"

definition tw_set :: "timeval \<Rightarrow> timeval \<Rightarrow> timewindow \<Rightarrow> timewindow" where
  "tw_set s e a = a\<lparr>startTime := s, endTime := e\<rparr>"

definition setStartTime :: "timeval \<Rightarrow> timewindow \<Rightarrow> timewindow" where
  "setStartTime t a = a\<lparr>startTime := t\<rparr>"

definition setEndTime :: "timeval \<Rightarrow> timewindow \<Rightarrow> timewindow" where
  "setEndTime t a = a\<lparr>endTime := t\<rparr>"

definition contains_time :: "timewindow \<Rightarrow> timeval \<Rightarrow> bool" where
  "contains_time a t \<longleftrightarrow> ts_ge t (startTime a) \<and> ts_lt t (endTime a)"

definition contains_window :: "timewindow \<Rightarrow> timewindow \<Rightarrow> bool" where
  "contains_window a b \<longleftrightarrow> ts_ge (startTime b) (startTime a) \<and> ts_le (endTime b) (endTime a)"

definition tw_or :: "timewindow \<Rightarrow> timewindow \<Rightarrow> timewindow" where
  "tw_or this other =
     (let tw = this in
      if \<not> tw_bool tw then other
      else if tw_bool other then
        (let tw = (if ts_gt (startTime tw) (startTime other) then setStartTime (startTime other) tw else tw);
             tw = (if ts_lt (endTime tw) (endTime other) then setEndTime (endTime other) tw else tw)
         in tw)
      else tw)"

definition merge :: "timewindow \<Rightarrow> timewindow \<Rightarrow> timewindow" where
  "merge this other = tw_or this other"

definition overlaps :: "timewindow \<Rightarrow> timewindow \<Rightarrow> bool" where
  "overlaps this tw =
     (if contains_window this tw \<or> contains_window tw this then True
      else if contains_time this (startTime tw) \<or> contains_time this (endTime tw) then True
      else False)"

definition overlap :: "timewindow \<Rightarrow> timewindow \<Rightarrow> timewindow" where
  "overlap this tw =
     (if contains_window this tw then tw
      else if contains_window tw this then this
      else if contains_time this (startTime tw) then TimeWindow_of (startTime tw) (endTime this)
      else if contains_time this (endTime tw) then TimeWindow_of (startTime this) (endTime tw)
      else TimeWindow)"

definition to_double :: "timeval \<Rightarrow> rat" where
  "to_double t = of_int (tv_sec t) + of_int (tv_usec t) / 1000000"

definition tw_length :: "timewindow \<Rightarrow> rat" where
  "tw_length a = to_double (ts_sub (endTime a) (startTime a))"

definition contiguous :: "timewindow \<Rightarrow> timewindow \<Rightarrow> rat \<Rightarrow> bool" where
  "contiguous this other tolerance =
     (let dt = to_double (ts_sub (startTime other) (endTime this));
          dt = (if dt < 0 then - dt else dt)
      in if dt > tolerance then False else True)"

definition extend :: "timewindow \<Rightarrow> timewindow \<Rightarrow> timewindow" where
  "extend this other = this\<lparr>endTime := endTime other\<rparr>"

definition equals :: "timewindow \<Rightarrow> timewindow \<Rightarrow> rat \<Rightarrow> bool" where
  "equals this tw tolerance =
     (let sdt = to_double (ts_sub (startTime this) (startTime tw)) in
      if (if sdt < 0 then - sdt else sdt) > tolerance then False
      else
        (let edt = to_double (ts_sub (endTime this) (endTime tw)) in
         if (if edt < 0 then - edt else edt) > tolerance then False else True))"

section \<open>Windows as sets of instants\<close>

definition instants :: "timewindow \<Rightarrow> timeval set" where
  "instants a = {t. contains_time a t}"

definition nonempty :: "timewindow \<Rightarrow> bool" where
  "nonempty a \<longleftrightarrow> startTime a < endTime a"

lemma instants_interval: "instants a = {startTime a ..< endTime a}"
  by (auto simp: instants_def contains_time_def)

lemmas window_defs = contains_time_def contains_window_def nonempty_def instants_interval

lemma to_double_usecs: "to_double t = of_int (usecs t) / 1000000"
  by (simp add: to_double_def usecs_def MICROS_def add_divide_distrib)

lemma contains_window_instants: "nonempty b \<Longrightarrow> instants b \<subseteq> instants a \<Longrightarrow> startTime a \<le> startTime b"
  by (auto simp: window_defs subset_eq)

lemma tw_or_valid:
  assumes "tw_bool a" and "tw_bool b"
  shows "startTime (tw_or a b) = min (startTime a) (startTime b)"
    and "endTime (tw_or a b) = max (endTime a) (endTime b)"
  using assms by (auto simp: tw_or_def Let_def setStartTime_def setEndTime_def)

lemma tw_or_null: "\<not> tw_bool a \<Longrightarrow> tw_or a b = b" "tw_bool a \<Longrightarrow> \<not> tw_bool b \<Longrightarrow> tw_or a b = a"
  by (simp_all add: tw_or_def)

lemma tw_bool_or: "tw_bool a \<or> tw_bool b \<Longrightarrow> tw_bool (tw_or a b)"
  by (cases "tw_bool a"; cases "tw_bool b")
    (auto simp: tw_or_null tw_or_valid tw_bool_def [of "tw_or a b"] min_def max_def, auto simp: tw_bool_def)

lemma tw_ext: "startTime a = startTime b \<Longrightarrow> endTime a = endTime b \<Longrightarrow> a = (b :: timewindow)"
  by simp

section \<open>Properties\<close>

text \<open>
  The union of two windows is the least window around both: it contains them, and every window
  that contains both contains it; an absent (null) window is neutral on either side.
\<close>

theorem merge_least:
  assumes "tw_bool a" and "tw_bool b"
  shows "contains_window (merge a b) a \<and> contains_window (merge a b) b \<and>
         (\<forall>c. contains_window c a \<longrightarrow> contains_window c b \<longrightarrow> contains_window c (merge a b)) \<and>
         merge a b = merge b a \<and> (\<forall>n. \<not> tw_bool n \<longrightarrow> merge a n = a \<and> merge n a = a)"
  using assms by (auto simp: merge_def contains_window_def tw_or_valid tw_or_null intro!: tw_ext)
    (simp_all add: min.commute max.commute)

theorem merge_least_witness:
  "contains_window (merge (TimeWindow_of (Timeval 5 0) (Timeval 9 0)) (TimeWindow_of (Timeval 1 0) (Timeval 6 0)))
     (TimeWindow_of (Timeval 1 0) (Timeval 6 0))"
proof -
  have "tw_bool (TimeWindow_of (Timeval 5 0) (Timeval 9 0))" "tw_bool (TimeWindow_of (Timeval 1 0) (Timeval 6 0))"
    by (simp_all add: tw_bool_def TimeWindow_of_def Time_valid_def)
  from merge_least [OF this] show ?thesis by blast
qed

text \<open>
  For two windows that are not empty \<open>overlaps\<close> says that they share an instant, or that the
  other window ends exactly where this one starts; the two windows that only touch are not
  reported the other way round, so \<open>overlaps\<close> is not symmetric.
\<close>

theorem overlaps_iff:
  assumes "nonempty a" and "nonempty b"
  shows "(overlaps a b \<longleftrightarrow> instants a \<inter> instants b \<noteq> {} \<or> endTime b = startTime a) \<and>
         (endTime b = startTime a \<longrightarrow> overlaps a b \<and> \<not> overlaps b a)"
proof -
  have "instants a \<inter> instants b \<noteq> {} \<longleftrightarrow> startTime a < endTime b \<and> startTime b < endTime a"
    using assms by (auto simp: window_defs atLeastLessThan_def Int_def
        intro: exI [of _ "max (startTime a) (startTime b)"])
  moreover have "overlaps a b \<longleftrightarrow> startTime a \<le> endTime b \<and> startTime b < endTime a"
    using assms by (auto simp: overlaps_def window_defs)
  moreover have "overlaps b a \<longleftrightarrow> startTime b \<le> endTime a \<and> startTime a < endTime b"
    using assms by (auto simp: overlaps_def window_defs)
  ultimately show ?thesis
    using assms by (auto simp: nonempty_def)
qed

theorem overlaps_iff_witness:
  "overlaps (TimeWindow_of (Timeval 10 0) (Timeval 20 0)) (TimeWindow_of (Timeval 0 0) (Timeval 10 0)) \<and>
   \<not> overlaps (TimeWindow_of (Timeval 0 0) (Timeval 10 0)) (TimeWindow_of (Timeval 10 0) (Timeval 20 0))"
  using overlaps_iff [of "TimeWindow_of (Timeval 10 0) (Timeval 20 0)" "TimeWindow_of (Timeval 0 0) (Timeval 10 0)"]
  by (simp add: nonempty_def TimeWindow_of_def timeval_less)

text \<open>
  \<open>overlap\<close> computes the intersection: an instant lies in the window it returns exactly when it
  lies in both windows.
\<close>

theorem overlap_intersection:
  assumes "nonempty a" and "nonempty b"
  shows "instants (overlap a b) = instants a \<inter> instants b"
  using assms by (auto simp: overlap_def window_defs TimeWindow_of_def TimeWindow_def)

theorem overlap_intersection_witness:
  "contains_time (overlap (TimeWindow_of (Timeval 1 0) (Timeval 6 0)) (TimeWindow_of (Timeval 5 0) (Timeval 9 0))) (Timeval 5 7)"
proof -
  have "Timeval 5 7 \<in> instants (overlap (TimeWindow_of (Timeval 1 0) (Timeval 6 0)) (TimeWindow_of (Timeval 5 0) (Timeval 9 0)))"
    by (subst overlap_intersection) (simp_all add: window_defs TimeWindow_of_def timeval_less timeval_le)
  then show ?thesis by (simp add: instants_def)
qed

text \<open>
  On canonical times the tolerance tests compare instants: two windows are equal within the
  tolerance when both their starts and their ends are at most the tolerance apart, and with
  tolerance zero \<open>equals\<close> is the equality operator.
\<close>

theorem equals_tolerance:
  assumes "canonical (startTime a)" "canonical (endTime a)" "canonical (startTime b)" "canonical (endTime b)"
  shows "(equals a b tol \<longleftrightarrow> of_int \<bar>usecs (startTime a) - usecs (startTime b)\<bar> / 1000000 \<le> tol \<and>
                           of_int \<bar>usecs (endTime a) - usecs (endTime b)\<bar> / 1000000 \<le> tol) \<and>
         (equals a b 0 \<longleftrightarrow> tw_eq a b) \<and>
         (contiguous a b tol \<longleftrightarrow> of_int \<bar>usecs (startTime b) - usecs (endTime a)\<bar> / 1000000 \<le> tol)"
proof -
  have ab: "(if x < 0 then - x else x) = \<bar>x\<bar>" for x :: rat
    by simp
  have eq: "equals a b t \<longleftrightarrow> of_int \<bar>usecs (startTime a) - usecs (startTime b)\<bar> / 1000000 \<le> t \<and>
      of_int \<bar>usecs (endTime a) - usecs (endTime b)\<bar> / 1000000 \<le> t" for t
    unfolding equals_def Let_def ab to_double_usecs usecs_sub abs_divide of_int_abs by auto
  have "contiguous a b tol \<longleftrightarrow> of_int \<bar>usecs (startTime b) - usecs (endTime a)\<bar> / 1000000 \<le> tol"
    unfolding contiguous_def Let_def ab to_double_usecs usecs_sub abs_divide of_int_abs by auto
  with eq assms show ?thesis
    by (auto simp: tw_eq_def canonical_inj)
qed

theorem equals_tolerance_witness:
  "equals (TimeWindow_of (Timeval 1 0) (Timeval 6 0)) (TimeWindow_of (Timeval 0 900000) (Timeval 6 50000)) (1 / 10)"
  using equals_tolerance [of "TimeWindow_of (Timeval 1 0) (Timeval 6 0)" "TimeWindow_of (Timeval 0 900000) (Timeval 6 50000)" "1 / 10"]
  by (simp add: TimeWindow_of_def canonical_def MICROS_def usecs_def)

end
