(* ===== verification/Dictionary.thy ===== *)
theory Dictionary
  imports Prelude
begin

text \<open>
  The interface behind the lookup tables of the program: a store that maps keys to values, with a
  lookup, an insertion and a removal (\<open>std::map\<close> and what is built on it: the symbol table of the
  configuration, the registry of public objects).  A provider proves the laws once, on the
  operations of the code, and gets the behaviour of whole sequences of operations.
\<close>

locale dictionary =
  fixes ok :: "'s \<Rightarrow> bool"
    and lookup :: "'s \<Rightarrow> 'k \<Rightarrow> 'v option"
    and insert_entry :: "'k \<Rightarrow> 'v \<Rightarrow> 's \<Rightarrow> 's"
    and delete_entry :: "'k \<Rightarrow> 's \<Rightarrow> 's"
  assumes ok_insert: "ok s \<Longrightarrow> ok (insert_entry k v s)"
    and ok_delete: "ok s \<Longrightarrow> ok (delete_entry k s)"
    and lookup_insert: "ok s \<Longrightarrow> lookup (insert_entry k v s) k' = (if k' = k then Some v else lookup s k')"
    and lookup_delete: "ok s \<Longrightarrow> lookup (delete_entry k s) k' = (if k' = k then None else lookup s k')"
begin

definition insert_all :: "('k \<times> 'v) list \<Rightarrow> 's \<Rightarrow> 's" where
  "insert_all kvs s = foldl (\<lambda>s (k, v). insert_entry k v s) s kvs"

definition delete_all :: "'k list \<Rightarrow> 's \<Rightarrow> 's" where
  "delete_all ks s = foldl (\<lambda>s k. delete_entry k s) s ks"

lemma ok_insert_all: "ok s \<Longrightarrow> ok (insert_all kvs s)"
  unfolding insert_all_def by (induction kvs arbitrary: s) (auto intro: ok_insert)

lemma ok_delete_all: "ok s \<Longrightarrow> ok (delete_all ks s)"
  unfolding delete_all_def by (induction ks arbitrary: s) (auto intro: ok_delete)

text \<open>After a sequence of insertions each key has the value inserted last.\<close>

lemma lookup_insert_all: "ok s \<Longrightarrow> lookup (insert_all kvs s) = lookup s ++ map_of (rev kvs)"
proof (induction kvs arbitrary: s)
  case Nil
  then show ?case by (simp add: insert_all_def)
next
  case (Cons kv kvs)
  obtain k v where kv: "kv = (k, v)" by (cases kv)
  have "lookup (insert_all (kv # kvs) s) = lookup (insert_all kvs (insert_entry k v s))"
    by (simp add: insert_all_def kv)
  also have "\<dots> = lookup (insert_entry k v s) ++ map_of (rev kvs)"
    using Cons by (simp add: ok_insert)
  also have "lookup (insert_entry k v s) = (lookup s)(k \<mapsto> v)"
    using lookup_insert [OF Cons.prems] by auto
  also have "\<dots> = lookup s ++ [k \<mapsto> v]"
    by simp
  finally show ?case
    by (simp only: kv rev.simps map_of_append map_of.simps map_add_assoc fst_conv snd_conv)
qed

lemma lookup_delete_all: "ok s \<Longrightarrow> lookup (delete_all ks s) k = (if k \<in> set ks then None else lookup s k)"
  unfolding delete_all_def
  by (induction ks arbitrary: s) (auto simp: ok_delete lookup_delete)

end

end
