(* ===== verification/SymbolTable.thy ===== *)
theory SymbolTable
  imports Dictionary Strings
begin

text \<open>
  The symbol table of the configuration library (src/src/system/libs/seiscomp3/config/
  symboltable.cpp): the symbols by name, the order of their first definition, and an index of the
  upper-case names that backs the check for names that differ only in case.  A pointer or an
  iterator to an entry of the map is represented by the key of the entry, which no operation
  changes.  The warnings of the check go to a logger and are not modelled; its result is.
\<close>

section \<open>State and operations\<close>

record symbol =
  sym_name :: string
  sym_ns :: string
  sym_content :: string
  sym_values :: "string list"
  sym_uri :: string
  sym_comment :: string
  sym_stage :: int
  sym_line :: int

record symboltable =
  csCheck :: bool
  symbols :: "string \<rightharpoonup> symbol"
  cisymbols :: "string \<rightharpoonup> string"
  symbolOrder :: "string list"
  includedFiles :: "string set"
  objectCount :: int

definition toupper :: "string \<Rightarrow> string" where
  "toupper s = map to_upper s"

definition Symbol_of :: "string \<Rightarrow> string \<Rightarrow> string list \<Rightarrow> string \<Rightarrow> string \<Rightarrow> int \<Rightarrow> symbol" where
  "Symbol_of name ns vs uri comment s =
     \<lparr>sym_name = name, sym_ns = ns, sym_content = [], sym_values = vs, sym_uri = uri,
      sym_comment = comment, sym_stage = s, sym_line = -1\<rparr>"

definition Symbol :: symbol where
  "Symbol = \<lparr>sym_name = [], sym_ns = [], sym_content = [], sym_values = [], sym_uri = [],
             sym_comment = [], sym_stage = -1, sym_line = -1\<rparr>"

definition Symbol_set :: "string \<Rightarrow> string \<Rightarrow> string list \<Rightarrow> string \<Rightarrow> string \<Rightarrow> int \<Rightarrow> symbol \<Rightarrow> symbol" where
  "Symbol_set name ns vs uri comment stage s =
     s\<lparr>sym_name := name, sym_ns := ns, sym_values := vs, sym_uri := uri,
       sym_comment := comment, sym_stage := stage\<rparr>"

definition SymbolTable :: symboltable where
  "SymbolTable = \<lparr>csCheck = False, symbols = Map.empty, cisymbols = Map.empty, symbolOrder = [],
                  includedFiles = {}, objectCount = 0\<rparr>"

definition setCaseSensitivityCheck :: "bool \<Rightarrow> symboltable \<Rightarrow> symboltable" where
  "setCaseSensitivityCheck f t = t\<lparr>csCheck := f\<rparr>"

definition st_add :: "string \<Rightarrow> string \<Rightarrow> string \<Rightarrow> string list \<Rightarrow> string \<Rightarrow> string \<Rightarrow> int \<Rightarrow> int
    \<Rightarrow> symboltable \<Rightarrow> symboltable" where
  "st_add name ns content vs uri comment stage line t =
     (let t = (case symbols t name of
                 None \<Rightarrow> t\<lparr>symbols := (symbols t)(name \<mapsto> (Symbol_of name ns vs uri comment stage)\<lparr>sym_content := content\<rparr>),
                          symbolOrder := symbolOrder t @ [name]\<rparr>
               | Some s \<Rightarrow> t\<lparr>symbols := (symbols t)(name \<mapsto> (Symbol_set name ns vs uri comment stage s)\<lparr>sym_content := content\<rparr>)\<rparr>);
          t = t\<lparr>symbols := (symbols t)(name \<mapsto> (the (symbols t name))\<lparr>sym_line := line\<rparr>)\<rparr>
      in t\<lparr>cisymbols := (cisymbols t)(toupper name \<mapsto> name)\<rparr>)"

definition st_add_symbol :: "symbol \<Rightarrow> symboltable \<Rightarrow> symboltable" where
  "st_add_symbol s t =
     (let n = sym_name s;
          t = (case symbols t n of
                 None \<Rightarrow> t\<lparr>symbols := (symbols t)(n \<mapsto> s), symbolOrder := symbolOrder t @ [n]\<rparr>
               | Some _ \<Rightarrow> t\<lparr>symbols := (symbols t)(n \<mapsto> s)\<rparr>)
      in t\<lparr>cisymbols := (cisymbols t)(toupper n \<mapsto> n)\<rparr>)"

definition st_remove :: "string \<Rightarrow> symboltable \<Rightarrow> bool \<times> symboltable" where
  "st_remove name t =
     (let t = (if cisymbols t (toupper name) \<noteq> None
               then t\<lparr>cisymbols := (cisymbols t)(toupper name := None)\<rparr> else t)
      in case symbols t name of
           Some _ \<Rightarrow>
             (let t = (case find_index (\<lambda>n. n = name) (symbolOrder t) of
                         Some i \<Rightarrow> t\<lparr>symbolOrder := erase_at i (symbolOrder t)\<rparr>
                       | None \<Rightarrow> t)
              in (True, t\<lparr>symbols := (symbols t)(name := None)\<rparr>))
         | None \<Rightarrow> (False, t))"

definition checkCI :: "string \<Rightarrow> symbol option \<Rightarrow> symboltable \<Rightarrow> bool" where
  "checkCI name s t =
     (case cisymbols t (toupper name) of
        None \<Rightarrow> False
      | Some n \<Rightarrow>
          (case s of
             None \<Rightarrow> True
           | Some s \<Rightarrow>
               (let cisym = the (symbols t n) in
                if sym_stage s \<ge> 0 \<and> (sym_stage cisym > sym_stage s \<or> sym_line cisym > sym_line s)
                then True else False)))"

definition st_get :: "string \<Rightarrow> symboltable \<Rightarrow> symbol option" where
  "st_get name t =
     (case symbols t name of
        Some s \<Rightarrow> if csCheck t \<and> checkCI name (Some s) t then None else Some s
      | None \<Rightarrow> None)"

definition incrementObjectCount :: "symboltable \<Rightarrow> symboltable" where
  "incrementObjectCount t = t\<lparr>objectCount := objectCount t + 1\<rparr>"

definition decrementObjectCount :: "symboltable \<Rightarrow> symboltable" where
  "decrementObjectCount t = t\<lparr>objectCount := objectCount t - 1\<rparr>"

definition hasFileBeenIncluded :: "string \<Rightarrow> symboltable \<Rightarrow> bool" where
  "hasFileBeenIncluded f t \<longleftrightarrow> f \<in> includedFiles t"

definition addToIncludedFiles :: "string \<Rightarrow> symboltable \<Rightarrow> symboltable" where
  "addToIncludedFiles f t = t\<lparr>includedFiles := insert f (includedFiles t)\<rparr>"

text \<open>\<open>Symbol::toString\<close> and \<open>SymbolTable::toString\<close>.\<close>

fun join_values :: "string list \<Rightarrow> string" where
  "join_values [] = []"
| "join_values [v] = v"
| "join_values (v # w # vs) = v @ '', '' @ join_values (w # vs)"

definition Symbol_toString :: "symbol \<Rightarrow> string" where
  "Symbol_toString s = sym_comment s @ sym_name s @ '' = '' @ join_values (sym_values s) @ '' in '' @ sym_uri s"

definition SymbolTable_toString :: "symboltable \<Rightarrow> string" where
  "SymbolTable_toString t =
     concat (map (\<lambda>n. Symbol_toString (the (symbols t n)) @ [CHR 0x0A]) (symbolOrder t))"

section \<open>Invariant\<close>

text \<open>
  Every name of the order is a symbol and the other way round, once; a symbol is stored under its
  own name; an entry of the upper-case index points to a symbol with that upper-case name, so no
  entry is left that points to an erased symbol.
\<close>

definition st_inv :: "symboltable \<Rightarrow> bool" where
  "st_inv t \<longleftrightarrow> distinct (symbolOrder t) \<and> set (symbolOrder t) = dom (symbols t) \<and>
     (\<forall>n s. symbols t n = Some s \<longrightarrow> sym_name s = n) \<and>
     (\<forall>k n. cisymbols t k = Some n \<longrightarrow> n \<in> dom (symbols t) \<and> toupper n = k)"

lemma st_inv_empty [inv_intro]: "st_inv SymbolTable"
  by (simp add: st_inv_def SymbolTable_def)

definition st_entry :: "string \<Rightarrow> string \<Rightarrow> string \<Rightarrow> string list \<Rightarrow> string \<Rightarrow> string \<Rightarrow> int \<Rightarrow> int \<Rightarrow> symbol" where
  "st_entry name ns content vs uri comment stage line =
     \<lparr>sym_name = name, sym_ns = ns, sym_content = content, sym_values = vs, sym_uri = uri,
      sym_comment = comment, sym_stage = stage, sym_line = line\<rparr>"

lemma Symbol_set_entry: "Symbol_set name ns vs uri comment stage s\<lparr>sym_content := content, sym_line := line\<rparr> =
    st_entry name ns content vs uri comment stage line"
  by (cases s) (simp add: Symbol_set_def st_entry_def)

lemma Symbol_of_entry: "Symbol_of name ns vs uri comment stage\<lparr>sym_content := content, sym_line := line\<rparr> =
    st_entry name ns content vs uri comment stage line"
  by (simp add: Symbol_of_def st_entry_def)

lemma sym_name_entry [simp]: "sym_name (st_entry name ns content vs uri comment stage line) = name"
  by (simp add: st_entry_def)

lemma symbols_add: "symbols (st_add name ns content vs uri comment stage line t) =
    (symbols t)(name \<mapsto> st_entry name ns content vs uri comment stage line)"
  by (simp add: st_add_def Let_def Symbol_of_entry Symbol_set_entry split: option.split)

lemma add_add_symbol: "st_add name ns content vs uri comment stage line t =
    st_add_symbol (st_entry name ns content vs uri comment stage line) t"
  by (simp add: st_add_def st_add_symbol_def Let_def Symbol_of_entry Symbol_set_entry split: option.split)

lemma symbols_add_symbol: "symbols (st_add_symbol s t) = (symbols t)(sym_name s \<mapsto> s)"
  by (simp add: st_add_symbol_def Let_def split: option.split)

lemma symbols_remove: "symbols (snd (st_remove name t)) = (symbols t)(name := None)"
  by (auto simp: st_remove_def Let_def split: option.split)

lemma fst_remove: "fst (st_remove name t) \<longleftrightarrow> name \<in> dom (symbols t)"
  by (auto simp: st_remove_def Let_def split: option.split)

lemma st_inv_add_symbol [inv_intro]: "st_inv t \<Longrightarrow> st_inv (st_add_symbol s t)"
  by (auto simp: st_inv_def st_add_symbol_def Let_def split: option.split)

lemma st_inv_add [inv_intro]: "st_inv t \<Longrightarrow> st_inv (st_add name ns content vs uri comment stage line t)"
  by (simp add: add_add_symbol st_inv_add_symbol)

lemma erase_at_find: "distinct xs \<Longrightarrow> find_index (\<lambda>n. n = x) xs = Some i \<Longrightarrow> set (erase_at i xs) = set xs - {x}"
proof (induction xs arbitrary: i)
  case (Cons y ys)
  show ?case
  proof (cases "y = x")
    case True
    with Cons.prems show ?thesis by (auto simp: erase_at_def)
  next
    case False
    with Cons.prems obtain j where "find_index (\<lambda>n. n = x) ys = Some j" "i = Suc j" by auto
    with Cons False show ?thesis by (auto simp: erase_at_def)
  qed
qed simp

lemma order_remove: "st_inv t \<Longrightarrow> distinct (symbolOrder (snd (st_remove name t))) \<and>
    set (symbolOrder (snd (st_remove name t))) = dom (symbols t) - {name}"
proof -
  assume "st_inv t"
  then have o: "distinct (symbolOrder t)" "set (symbolOrder t) = dom (symbols t)"
    by (auto simp: st_inv_def)
  then show ?thesis
    by (auto simp: st_remove_def Let_def find_index_None erase_at_find distinct_erase_at split: option.split)
qed

lemma cisymbols_remove: "cisymbols (snd (st_remove name t)) = (cisymbols t)(toupper name := None)"
  by (auto simp: st_remove_def Let_def split: option.split)

lemma st_inv_remove [inv_intro]: "st_inv t \<Longrightarrow> st_inv (snd (st_remove name t))"
  using order_remove [of t name]
  by (auto simp: st_inv_def symbols_remove cisymbols_remove split: if_split_asm)

lemma csCheck_ops [simp]: "csCheck (st_add_symbol s t) = csCheck t" "csCheck (snd (st_remove n t)) = csCheck t"
  "csCheck (st_add name ns content vs uri comment stage line t) = csCheck t"
  by (auto simp: st_add_def st_add_symbol_def st_remove_def Let_def split: option.split)

lemma st_get_plain: "\<not> csCheck t \<Longrightarrow> st_get n t = symbols t n"
  by (simp add: st_get_def split: option.split)

section \<open>The table as a dictionary\<close>

interpretation st: dictionary
  "\<lambda>t. st_inv t \<and> \<not> csCheck t" "\<lambda>t n. map_option sym_values (st_get n t)"
  "\<lambda>n vs. st_add n ns content vs uri comment stage line" "\<lambda>n t. snd (st_remove n t)"
  for ns content uri comment stage line
  by unfold_locales
    (auto simp: st_get_plain symbols_add symbols_remove st_inv_add st_inv_remove st_entry_def)

text \<open>The operations that change the symbols, as a history.\<close>

datatype st_op = Add symbol | Remove string

fun st_step :: "symboltable \<Rightarrow> st_op \<Rightarrow> symboltable" where
  "st_step t (Add s) = st_add_symbol s t"
| "st_step t (Remove n) = snd (st_remove n t)"

lemma st_inv_history: "st_inv t \<Longrightarrow> st_inv (foldl st_step t ops)"
proof (induction ops arbitrary: t)
  case (Cons op ops)
  then show ?case by (cases op) (auto intro: inv_intro)
qed simp

lemma symbolOrder_add: "st_inv t \<Longrightarrow> symbolOrder (st_add_symbol s t) =
    (if sym_name s \<in> set (symbolOrder t) then symbolOrder t else symbolOrder t @ [sym_name s])"
  by (auto simp: st_inv_def st_add_symbol_def Let_def split: option.split)

section \<open>Properties\<close>

text \<open>
  Whatever symbols are defined, redefined and removed, the table keeps its invariant: the
  order lists each symbol once, symbols are stored under their names, and no entry of the
  upper-case index points to a symbol that was erased.
\<close>

lemma symboltable_invariant:
  "st_inv (foldl st_step SymbolTable ops)"
  by (rule st_inv_history [OF st_inv_empty])

text \<open>
  A sequence of assignments leaves each name with the values assigned last, keeps the names of
  the table before, and a name keeps the place of its first definition when it is assigned again.
\<close>

theorem symboltable_assignments:
  assumes "st_inv t" and "\<not> csCheck t"
  shows "map_option sym_values (st_get n (foldl (\<lambda>t (n, vs). st_add n ns content vs uri comment stage line t) t kvs)) =
           ((\<lambda>n. map_option sym_values (symbols t n)) ++ map_of (rev kvs)) n \<and>
         (n \<in> dom (symbols t) \<longrightarrow> symbolOrder (st_add n ns content vs uri comment stage line t) = symbolOrder t)"
proof
  have "symbolOrder (st_add n ns content vs uri comment stage line t) = symbolOrder t" if "n \<in> dom (symbols t)"
    using that assms symbolOrder_add [of t] by (auto simp: add_add_symbol st_inv_def)
  then show "n \<in> dom (symbols t) \<longrightarrow> symbolOrder (st_add n ns content vs uri comment stage line t) = symbolOrder t"
    by blast
  have "(\<lambda>n. map_option sym_values (st_get n (st.insert_all ns content uri comment stage line kvs t))) =
      (\<lambda>n. map_option sym_values (st_get n t)) ++ map_of (rev kvs)"
    using assms by (intro st.lookup_insert_all) simp
  from fun_cong [OF this, of n]
  show "map_option sym_values (st_get n (foldl (\<lambda>t (n, vs). st_add n ns content vs uri comment stage line t) t kvs)) =
      ((\<lambda>n. map_option sym_values (symbols t n)) ++ map_of (rev kvs)) n"
    using assms(2) by (simp add: st.insert_all_def st_get_plain map_add_def cong: option.case_cong)
qed

theorem symboltable_assignments_witness:
  "map_option sym_values (st_get ''a'' (foldl (\<lambda>t (n, vs). st_add n [] [] vs [] [] 0 1 t) SymbolTable
     [(''a'', [''1'']), (''b'', [''2'']), (''a'', [''3'', ''4''])])) = Some [''3'', ''4'']"
proof -
  have "st_inv SymbolTable" "\<not> csCheck SymbolTable"
    by (rule st_inv_empty) (simp add: SymbolTable_def)
  from symboltable_assignments [OF this, of "''a''" "[]" "[]" "[]" "[]" 0 1
      "[(''a'', [''1'']), (''b'', [''2'']), (''a'', [''3'', ''4''])]" "[]"]
  show ?thesis by simp
qed

text \<open>
  With the case check on, a lookup is refused exactly when the name is undefined or the
  spelling of the name that was defined last comes from a later stage or a later line.
\<close>

theorem st_get_case_check:
  assumes "st_inv t" and "csCheck t" and "symbols t name = Some s" and "sym_stage s \<ge> 0"
    and "cisymbols t (toupper name) = Some other" and "symbols t other = Some c"
  shows "(st_get name t = None \<longleftrightarrow> other \<noteq> name \<and> (sym_stage c > sym_stage s \<or> sym_line c > sym_line s)) \<and>
         toupper (sym_name c) = toupper name"
  using assms by (auto simp: st_get_def checkCI_def Let_def st_inv_def)

theorem st_get_case_check_witness:
  "st_get ''a'' (setCaseSensitivityCheck True (st_add ''A'' [] [] [] [] [] 1 7 (st_add ''a'' [] [] [] [] [] 1 5 SymbolTable))) = None"
proof -
  let ?t = "setCaseSensitivityCheck True (st_add ''A'' [] [] [] [] [] 1 7 (st_add ''a'' [] [] [] [] [] 1 5 SymbolTable))"
  have "st_inv (st_add ''A'' [] [] [] [] [] 1 7 (st_add ''a'' [] [] [] [] [] 1 5 SymbolTable))"
    by (intro inv_intro)
  then have "st_inv ?t" by (simp add: st_inv_def setCaseSensitivityCheck_def)
  moreover have "cisymbols ?t (toupper ''a'') = Some ''A''"
  proof -
    have "toupper ''a'' = toupper ''A''" by code_simp
    then show ?thesis
      by (simp add: setCaseSensitivityCheck_def add_add_symbol st_add_symbol_def Let_def split: option.split)
  qed
  ultimately show ?thesis
    using st_get_case_check [of ?t "''a''" "st_entry ''a'' [] [] [] [] [] 1 5" "''A''" "st_entry ''A'' [] [] [] [] [] 1 7"]
    by (simp add: setCaseSensitivityCheck_def symbols_add st_entry_def)
qed

text \<open>
  Removing a name that is not defined still erases the index entry of another spelling: the
  case check no longer notices that the defined symbol is asked for in the wrong case.
\<close>

theorem remove_forgets_spelling:
  "let t = setCaseSensitivityCheck True (st_add ''abc'' [] [] [''1''] [] [] 0 1 SymbolTable)
   in checkCI ''ABC'' None t \<and> \<not> fst (st_remove ''ABC'' t) \<and> \<not> checkCI ''ABC'' None (snd (st_remove ''ABC'' t)) \<and>
      symbols (snd (st_remove ''ABC'' t)) ''abc'' = symbols t ''abc''"
proof -
  have "toupper ''abc'' = ''ABC''" "toupper ''ABC'' = ''ABC''"
    by code_simp+
  then show ?thesis
    by (simp add: Let_def setCaseSensitivityCheck_def add_add_symbol st_add_symbol_def SymbolTable_def
        st_remove_def checkCI_def)
qed

end
