(* ===== verification/ConfigText.thy ===== *)
theory ConfigText
  imports SymbolTable
begin

text \<open>
  The text level of the configuration library: the string helpers of
  src/src/system/libs/seiscomp3/config/strings.cpp, and from config.cpp the quoting and writing of
  values, the tokenizer of an entry and \<open>parseRValue\<close>, which turns the right-hand side of an
  assignment into the list of values.  An iterator over a string is the list of the characters from
  it on; the iterator to the previous character is that character, which at the start of the string
  is the first character itself, as in the code.
\<close>

section \<open>String helpers\<close>

text \<open>\<open>strtol(s, &end, 0)\<close>: as \<open>strtol10\<close> of the prelude, with the base taken from the prefix.\<close>

definition digit_of :: "char \<Rightarrow> int" where
  "digit_of c = (if is_digit c then code c - 48
                 else if is_alpha c then code (to_upper c) - 55 else 99)"

definition is_digit_base :: "int \<Rightarrow> char \<Rightarrow> bool" where
  "is_digit_base b c \<longleftrightarrow> digit_of c < b"

definition base_val :: "int \<Rightarrow> string \<Rightarrow> int" where
  "base_val b ds = foldl (\<lambda>v c. v * b + digit_of c) 0 ds"

fun detect_base :: "string \<Rightarrow> int \<times> string" where
  "detect_base (a # x # h # cs) =
     (if a = CHR ''0'' \<and> (x = CHR ''x'' \<or> x = CHR ''X'') \<and> is_digit_base 16 h then (16, h # cs)
      else if a = CHR ''0'' then (8, a # x # h # cs) else (10, a # x # h # cs))"
| "detect_base (a # cs) = (if a = CHR ''0'' then (8, a # cs) else (10, a # cs))"
| "detect_base [] = (10, [])"

definition strtol0 :: "string \<Rightarrow> int \<times> string \<times> bool" where
  "strtol0 s =
     (case split_sign (dropWhile is_space s) of (neg, t) \<Rightarrow>
      case detect_base t of (b, u) \<Rightarrow>
        let ds = takeWhile (is_digit_base b) u; rest = dropWhile (is_digit_base b) u;
            v = (if neg then - base_val b ds else base_val b ds)
        in if ds = [] then (0, s, False)
           else if v < long_min then (long_min, rest, True)
           else if long_max < v then (long_max, rest, True)
           else (v, rest, False))"

definition cfg_parse_long :: "string \<Rightarrow> int option" where
  "cfg_parse_long str =
     (case strtol0 (c_str str) of (retval, endptr, erange) \<Rightarrow>
        if erange then None
        else if endptr \<noteq> [] \<or> c_str str \<noteq> str then None
        else if retval = 0 \<and> endptr = c_str str then None
        else Some retval)"

definition cfg_fromString_char :: "string \<Rightarrow> int option" where
  "cfg_fromString_char str = map_option (cast_s 8) (cfg_parse_long str)"

definition cfg_fromString_uchar :: "string \<Rightarrow> int option" where
  "cfg_fromString_uchar str = map_option (cast_u 8) (cfg_parse_long str)"

definition cfg_fromString_int :: "string \<Rightarrow> int option" where
  "cfg_fromString_int str = map_option (cast_s 32) (cfg_parse_long str)"

definition cfg_fromString_uint :: "string \<Rightarrow> int option" where
  "cfg_fromString_uint str = map_option (cast_u 32) (cfg_parse_long str)"

definition cfg_fromString_long :: "string \<Rightarrow> int option" where
  "cfg_fromString_long str = map_option (cast_s 64) (cfg_parse_long str)"

definition cfg_fromString_ulong :: "string \<Rightarrow> int option" where
  "cfg_fromString_ulong str = map_option (cast_u 64) (cfg_parse_long str)"

fun cfg_compareNoCase :: "string \<Rightarrow> string \<Rightarrow> int" where
  "cfg_compareNoCase (a # as) (b # bs) =
     (if schar (to_upper a) < schar (to_upper b) then -1
      else if schar (to_upper a) > schar (to_upper b) then 1
      else cfg_compareNoCase as bs)"
| "cfg_compareNoCase [] bs = (if bs = [] then 0 else -1)"
| "cfg_compareNoCase (a # as) [] = 1"

definition cfg_fromString_bool :: "string \<Rightarrow> bool option" where
  "cfg_fromString_bool str =
     (if cfg_compareNoCase str ''true'' = 0 then Some True
      else if cfg_compareNoCase str ''false'' = 0 then Some False
      else map_option (\<lambda>v. v \<noteq> 0) (cfg_parse_long str))"

definition cfg_toString_bool :: "bool \<Rightarrow> string" where
  "cfg_toString_bool v = (if v then ''true'' else ''false'')"

text \<open>\<open>trim\<close>: erase up to the first character that is no white space, then after the last one.\<close>

definition trim :: "string \<Rightarrow> string" where
  "trim str =
     (let str = (case find_index (\<lambda>c. \<not> isWhitespace_char c) str of
                   Some pos \<Rightarrow> if pos \<noteq> 0 then drop pos str else str
                 | None \<Rightarrow> []);
          lst = find_index (\<lambda>c. \<not> isWhitespace_char c) (rev str)
      in case lst of Some n \<Rightarrow> take (length str - n) str | None \<Rightarrow> str)"

section \<open>Quoting and writing\<close>

abbreviation (input) dquote :: char where "dquote \<equiv> CHR 0x22"
abbreviation (input) bslash :: char where "bslash \<equiv> CHR 0x5C"
abbreviation (input) newline :: char where "newline \<equiv> CHR 0x0A"

definition CONF_NULL_OBJECT :: string where
  "CONF_NULL_OBJECT = ''___CONFIG_NULL_OBJECT___''"

definition quotable :: string where
  "quotable = [bslash, CHR 0x09, newline, CHR 0x0B, CHR 0x0C, CHR 0x0D] @ '' ,${}''"

fun stripEscapes :: "string \<Rightarrow> string" where
  "stripEscapes (c # d # cs) =
     (if c = bslash \<and> d = dquote then d # stripEscapes cs else c # stripEscapes (d # cs))"
| "stripEscapes cs = cs"

fun escapeDoubleQuotes :: "string \<Rightarrow> string" where
  "escapeDoubleQuotes [] = []"
| "escapeDoubleQuotes (c # cs) = (if c = dquote then [bslash, c] else [c]) @ escapeDoubleQuotes cs"

definition quote :: "string \<Rightarrow> string" where
  "quote str = (if str = [] then [dquote, dquote]
                else if \<exists>c \<in> set str. c \<in> set quotable then [dquote] @ str @ [dquote] else str)"

definition escape :: "string \<Rightarrow> string" where
  "escape s = quote (escapeDoubleQuotes s)"

text \<open>The lines of \<open>writeValues\<close> after the first value, on one line and on continued lines.\<close>

fun write_rest :: "string list \<Rightarrow> string" where
  "write_rest [] = []"
| "write_rest (v # vs) = '', '' @ escape v @ write_rest vs"

fun write_rest_lines :: "nat \<Rightarrow> string list \<Rightarrow> string" where
  "write_rest_lines prefix [] = []"
| "write_rest_lines prefix (v # vs) =
     replicate prefix CHR '' '' @ escape v @ (if vs \<noteq> [] then '','' @ [bslash, newline] else []) @
     write_rest_lines prefix vs"

definition writeValues :: "symbol \<Rightarrow> bool \<Rightarrow> string" where
  "writeValues symbol multilineLists =
     (case sym_values symbol of
        [] \<Rightarrow> [dquote, dquote]
      | v # vs \<Rightarrow>
          if multilineLists then
            escape v @
            (if vs \<noteq> [] then
               (if sum_list (map length (v # vs)) + (length (v # vs) - 1) * 2 > 80
                then '','' @ [bslash, newline] @ write_rest_lines (length (sym_name symbol) + 3) vs
                else write_rest vs)
             else [])
          else escape v @ write_rest vs)"

definition writeSymbol :: "symbol \<Rightarrow> bool \<Rightarrow> string" where
  "writeSymbol symbol multilineLists = sym_name symbol @ '' = '' @ writeValues symbol multilineLists @ [newline]"

section \<open>The tokenizer of an entry\<close>

fun tokenize_loop :: "char \<Rightarrow> bool \<Rightarrow> bool \<Rightarrow> string \<Rightarrow> string list \<Rightarrow> string \<Rightarrow> string list" where
  "tokenize_loop prev stringMode escapeMode nextToken tokens [] = tokens"
| "tokenize_loop prev stringMode escapeMode nextToken tokens (c # cs) =
     (let isOperator = (c = CHR ''='' \<or> c = CHR '','') in
      if c = bslash \<and> \<not> escapeMode \<and> \<not> stringMode then
        tokenize_loop c stringMode True nextToken tokens cs
      else if stringMode then
        (if c = dquote \<and> prev \<noteq> bslash
         then tokenize_loop c False escapeMode [] (tokens @ [nextToken @ [c]]) cs
         else tokenize_loop c stringMode escapeMode (nextToken @ [c]) tokens cs)
      else if escapeMode then
        tokenize_loop c stringMode False (nextToken @ [prev, c]) tokens cs
      else if isWhitespace_char c then
        (if nextToken \<noteq> [] then tokenize_loop c stringMode escapeMode [] (tokens @ [nextToken]) cs
         else tokenize_loop c stringMode escapeMode nextToken tokens cs)
      else if isOperator then
        (if nextToken \<noteq> [] then tokenize_loop c stringMode escapeMode [] (tokens @ [nextToken] @ [[c]]) cs
         else tokenize_loop c stringMode escapeMode [] (tokens @ [[c]]) cs)
      else if c = dquote \<and> prev \<noteq> bslash then
        tokenize_loop c True escapeMode (nextToken @ [c]) tokens cs
      else tokenize_loop c stringMode escapeMode (nextToken @ [c]) tokens cs)"

definition tokenize :: "string \<Rightarrow> string list" where
  "tokenize entry = (case entry of [] \<Rightarrow> [] | c # cs \<Rightarrow> tokenize_loop c False False [] [] entry)"

section \<open>References and the right-hand side\<close>

text \<open>\<open>getenv\<close> is the argument \<open>env\<close>.\<close>

definition reference :: "(string \<Rightarrow> string option) \<Rightarrow> string \<Rightarrow> symboltable option \<Rightarrow> string list option" where
  "reference env name symtab =
     (case (case symtab of Some t \<Rightarrow> st_get name t | None \<Rightarrow> None) of
        Some s \<Rightarrow> Some (sym_values s)
      | None \<Rightarrow> (case env name of Some v \<Rightarrow> Some [v] | None \<Rightarrow> None))"

text \<open>
  The loop that reads the name of a referenced variable: the name, whether a brace is open at the
  end, and the characters after the closing brace (\<open>None\<close> when the entry ended before).
\<close>

fun scan_variable :: "bool \<Rightarrow> string \<Rightarrow> string \<Rightarrow> string \<times> bool \<times> string option" where
  "scan_variable brace var [] = (var, brace, None)"
| "scan_variable brace var (c # cs) =
     (if c = CHR ''{'' then scan_variable (\<not> brace) var cs
      else if c = CHR ''}'' then (var, \<not> brace, Some cs)
      else scan_variable brace (var @ [c]) cs)"

lemma scan_variable_shorter: "scan_variable brace var cs = (v, o', Some rest) \<Longrightarrow> length rest < length cs"
  by (induction brace var cs rule: scan_variable.induct) (auto split: if_split_asm)

fun with_commas :: "string list \<Rightarrow> string list" where
  "with_commas [] = []"
| "with_commas [v] = [v]"
| "with_commas (v # w # vs) = v # '','' # with_commas (w # vs)"

text \<open>
  The first loop of \<open>parseRValue\<close>: the tokens and the error message so far, or the error message
  (\<open>Inl\<close>) of a malformed reference.
\<close>

function rvalue_tokens :: "(string \<Rightarrow> string list option) \<Rightarrow> bool \<Rightarrow> bool \<Rightarrow> bool \<Rightarrow> bool \<Rightarrow> string
    \<Rightarrow> string list \<Rightarrow> string \<Rightarrow> string \<Rightarrow> string + (string list \<times> string)" where
  "rvalue_tokens ref resolve raw stringMode escapeMode parsed tokens errmsg [] =
     Inr (if parsed \<noteq> [] then tokens @ [parsed] else tokens, errmsg)"
| "rvalue_tokens ref resolve raw stringMode escapeMode parsed tokens errmsg (c # cs) =
     (if c = bslash \<and> \<not> stringMode \<and> \<not> escapeMode then
        rvalue_tokens ref resolve raw stringMode True parsed tokens errmsg cs
      else if escapeMode then
        rvalue_tokens ref resolve raw stringMode False (parsed @ [c]) tokens errmsg cs
      else if c = dquote then
        (if raw then rvalue_tokens ref resolve raw (\<not> stringMode) escapeMode (parsed @ [c]) tokens errmsg cs
         else if cs \<noteq> [] \<and> hd cs = dquote
         then rvalue_tokens ref resolve raw (\<not> stringMode) escapeMode parsed (tokens @ [[]]) errmsg cs
         else rvalue_tokens ref resolve raw (\<not> stringMode) escapeMode parsed tokens errmsg cs)
      else if c = CHR ''$'' \<and> \<not> stringMode \<and> resolve then
        (if cs = [] then Inl ''Stand-alone reference operator''
         else
          (case scan_variable False [] cs of (variable, openCurlyBrace, rest) \<Rightarrow>
             if openCurlyBrace then Inl ''Missing brace in reference''
             else
              (let tokens = (if parsed \<noteq> [] then tokens @ [parsed] else tokens);
                   (values, errmsg) = (case ref variable of
                       Some vs \<Rightarrow> (vs, errmsg)
                     | None \<Rightarrow> ([CONF_NULL_OBJECT], ''Cannot resolve '' @ [CHR 0x27] @ variable @ [CHR 0x27]));
                   tokens = tokens @ with_commas values
               in case rest of None \<Rightarrow> Inr (tokens, errmsg)
                  | Some rest \<Rightarrow> rvalue_tokens ref resolve raw stringMode escapeMode [] tokens errmsg rest)))
      else if c = CHR '','' \<and> \<not> stringMode then
        rvalue_tokens ref resolve raw stringMode escapeMode []
          ((if parsed \<noteq> [] then tokens @ [parsed] else tokens) @ ['','']) errmsg cs
      else if \<not> isWhitespace_char c \<or> stringMode then
        rvalue_tokens ref resolve raw stringMode escapeMode (parsed @ [c]) tokens errmsg cs
      else rvalue_tokens ref resolve raw stringMode escapeMode parsed tokens errmsg cs)"
  by pat_completeness auto

termination
  by (relation "measure (\<lambda>(_, _, _, _, _, _, _, _, cs). length cs)")
    (auto dest!: sym [of "(_, _, _)"] scan_variable_shorter)

declare rvalue_tokens.simps [simp del]

text \<open>The second loop, the grammar of lists, with the token before and whether it is the first.\<close>

fun rvalue_grammar :: "bool \<Rightarrow> string \<Rightarrow> string \<Rightarrow> string list \<Rightarrow> string \<Rightarrow> string list \<Rightarrow> string + string list" where
  "rvalue_grammar first previous token values errmsg [] = Inr values"
| "rvalue_grammar first previous token values errmsg (t # ts) =
     (if t = CONF_NULL_OBJECT then
        (if ts \<noteq> [] \<and> previous = '','' \<and> hd ts = '','' then rvalue_grammar False t token values errmsg ts
         else if ts \<noteq> [] \<and> first \<and> hd ts = '','' then rvalue_grammar False t token values errmsg ts
         else if ts = [] \<and> previous = '','' then rvalue_grammar False t token values errmsg ts
         else Inl ((if errmsg \<noteq> [] then errmsg @ [newline] else errmsg) @ ''NULL object found in string concatenation''))
      else if t = '','' then
        (if previous = '','' \<or> (ts \<noteq> [] \<and> hd ts = '','') \<or> ts = [] then Inl ''Invalid list''
         else rvalue_grammar False t [] (if previous \<noteq> CONF_NULL_OBJECT then values @ [token] else values) errmsg ts)
      else
        rvalue_grammar False t (token @ t) (if ts = [] then values @ [token @ t] else values) errmsg ts)"

definition parseRValue :: "(string \<Rightarrow> string option) \<Rightarrow> string \<Rightarrow> symboltable option \<Rightarrow> bool \<Rightarrow> bool
    \<Rightarrow> string + string list" where
  "parseRValue env entry symtab resolveReferences rawMode =
     (let resolveReferences = (if rawMode then False else resolveReferences) in
      case rvalue_tokens (\<lambda>v. reference env v symtab) resolveReferences rawMode False False [] [] [] entry of
        Inl e \<Rightarrow> Inl e
      | Inr (tokens, errmsg) \<Rightarrow>
          rvalue_grammar True (case tokens of [] \<Rightarrow> [] | t # _ \<Rightarrow> t) [] [] errmsg tokens)"

definition Eval :: "(string \<Rightarrow> string option) \<Rightarrow> string \<Rightarrow> bool \<Rightarrow> symboltable option \<Rightarrow> string + string list" where
  "Eval env rvalue resolveReferences symtab =
     (case parseRValue env rvalue symtab resolveReferences False of
        Inl e \<Rightarrow> Inl e
      | Inr values \<Rightarrow> Inr (map stripEscapes values))"

section \<open>Reading back what was written\<close>

lemma escape_no_dquote: "dquote \<notin> set v \<Longrightarrow> escape v = quote v"
proof -
  have "dquote \<notin> set v \<Longrightarrow> escapeDoubleQuotes v = v" by (induction v) auto
  then show "dquote \<notin> set v \<Longrightarrow> escape v = quote v" by (simp add: escape_def)
qed

lemma stripEscapes_id: "dquote \<notin> set v \<Longrightarrow> stripEscapes v = v"
  by (induction v rule: stripEscapes.induct) auto

lemma stripEscapes_escape: "bslash \<notin> set v \<Longrightarrow> stripEscapes (escapeDoubleQuotes v) = v"
proof (induction v)
  case (Cons c v)
  then have IH: "stripEscapes (escapeDoubleQuotes v) = v" and c: "c \<noteq> bslash" by auto
  show ?case
  proof (cases "c = dquote")
    case False
    then show ?thesis
      using IH c by (cases "escapeDoubleQuotes v") auto
  qed (simp add: IH)
qed simp

lemma quotable_iff: "c \<in> set quotable \<longleftrightarrow> c = bslash \<or> is_space c \<or> c \<in> set '',${}''"
proof -
  have "isWhitespace_char c \<longleftrightarrow> c \<in> set WHITESPACE"
    by (auto simp: isWhitespace_char_def find_index_None)
  then show ?thesis
    by (auto simp: quotable_def isWhitespace_char_iff WHITESPACE_def)
qed

lemma string_mode_run:
  "dquote \<notin> set v \<Longrightarrow> rvalue_tokens rf res False True False p tk e (v @ rest) =
     rvalue_tokens rf res False True False (p @ v) tk e rest"
  by (induction v arbitrary: p) (auto simp: rvalue_tokens.simps)

lemma plain_run:
  "dquote \<notin> set v \<Longrightarrow> \<forall>c \<in> set v. c \<notin> set quotable \<Longrightarrow>
     rvalue_tokens rf res False False False p tk e (v @ rest) =
     rvalue_tokens rf res False False False (p @ v) tk e rest"
  by (induction v arbitrary: p) (auto simp: rvalue_tokens.simps quotable_iff isWhitespace_char_iff)

text \<open>One written value is one token, at the end of the text or before a comma.\<close>

lemma escape_run:
  assumes "dquote \<notin> set v" and "rest = [] \<or> hd rest \<noteq> dquote"
  obtains "rvalue_tokens rf res False False False [] tk e (escape v @ rest) =
           rvalue_tokens rf res False False False v tk e rest" "v \<noteq> []"
  | "rvalue_tokens rf res False False False [] tk e (escape v @ rest) =
     rvalue_tokens rf res False False False [] (tk @ [[]]) e rest" "v = []"
proof (cases "v = []")
  case True
  then show ?thesis
    using assms that(2) by (auto simp: escape_no_dquote quote_def rvalue_tokens.simps)
next
  case False
  then have h: "hd (v @ x) \<noteq> dquote" "v @ x \<noteq> []" for x
    using assms by (cases v; auto)+
  show ?thesis
  proof (cases "\<exists>c \<in> set v. c \<in> set quotable")
    case True
    then have "escape v @ rest = dquote # v @ dquote # rest"
      using False assms(1) by (simp add: escape_no_dquote quote_def)
    then show ?thesis
      using that(1) False assms h
      by (auto simp: rvalue_tokens.simps(2) [of rf res False False False "[]"] string_mode_run
          rvalue_tokens.simps(2) [of rf res False True False v])
  next
    case plain: False
    then have "escape v = v"
      using False assms(1) by (simp add: escape_no_dquote quote_def)
    then show ?thesis
      using that(1) False assms(1) plain plain_run [of v rf res "[]"] by auto
  qed
qed

lemma escape_end:
  assumes "dquote \<notin> set v"
  shows "rvalue_tokens rf res False False False [] tk e (escape v) = Inr (tk @ [v], e)"
proof -
  have "escape v @ [] = escape v" by simp
  then show ?thesis
    by (rule subst) (rule escape_run [OF assms, of "[]" rf res tk e]; simp add: rvalue_tokens.simps)
qed

lemma escape_comma:
  assumes "dquote \<notin> set v"
  shows "rvalue_tokens rf res False False False [] tk e (escape v @ CHR '','' # rest) =
         rvalue_tokens rf res False False False [] (tk @ [v, '','']) e rest"
  by (rule escape_run [OF assms, of "CHR '','' # rest" rf res tk e]) (simp_all add: rvalue_tokens.simps)

text \<open>The written list, with any white space after the commas.\<close>

fun written :: "string \<Rightarrow> string list \<Rightarrow> string" where
  "written sp [] = []"
| "written sp [v] = escape v"
| "written sp (v # w # vs) = escape v @ CHR '','' # sp @ written sp (w # vs)"

lemma write_rest_written: "escape v @ write_rest vs = written '' '' (v # vs)"
  by (induction vs arbitrary: v) auto

lemma skip_space: "\<forall>c \<in> set sp. is_space c \<Longrightarrow> rvalue_tokens rf res False False False p tk e (sp @ rest) =
    rvalue_tokens rf res False False False p tk e rest"
proof (induction sp)
  case (Cons c sp)
  then have "is_space c" by simp
  then have "c \<noteq> bslash" "c \<noteq> dquote" "c \<noteq> CHR ''$''" "c \<noteq> CHR '',''" by (auto simp: is_space_def code_def)
  with Cons show ?case by (simp add: rvalue_tokens.simps isWhitespace_char_iff)
qed simp

lemma written_tokens:
  assumes "\<forall>v \<in> set vs. dquote \<notin> set v" and "\<forall>c \<in> set sp. is_space c"
  shows "rvalue_tokens rf res False False False [] tk e (written sp vs) = Inr (tk @ with_commas vs, e)"
  using assms
proof (induction sp vs arbitrary: tk rule: written.induct)
  case (1 sp)
  then show ?case by (simp add: rvalue_tokens.simps)
next
  case (2 sp v)
  then show ?case by (simp add: escape_end)
next
  case (3 sp v w vs)
  then show ?case by (simp add: escape_comma skip_space)
qed

definition separable :: "string \<Rightarrow> bool" where
  "separable v \<longleftrightarrow> v \<noteq> '','' \<and> v \<noteq> CONF_NULL_OBJECT"

lemma CONF_NULL_comma: "CONF_NULL_OBJECT \<noteq> '',''" "'','' \<noteq> CONF_NULL_OBJECT"
  by (simp_all add: CONF_NULL_OBJECT_def)

lemma with_commas_grammar:
  "\<forall>x \<in> set (v # vs). separable x \<Longrightarrow>
   rvalue_grammar f p [] acc e (with_commas (v # vs)) = Inr (acc @ v # vs)"
proof (induction vs arbitrary: v acc f p)
  case Nil
  then show ?case by (simp add: separable_def)
next
  case (Cons w vs)
  have ne: "with_commas (w # vs) \<noteq> []" "hd (with_commas (w # vs)) = w"
    by (cases vs; simp)+
  from Cons.prems have v: "v \<noteq> '',''" "v \<noteq> CONF_NULL_OBJECT" and w: "w \<noteq> '',''"
    by (auto simp: separable_def)
  have "rvalue_grammar f p [] acc e (with_commas (v # w # vs)) =
      rvalue_grammar False '','' [] (acc @ [v]) e (with_commas (w # vs))"
    using v w ne CONF_NULL_comma by simp
  also have "\<dots> = Inr ((acc @ [v]) @ w # vs)"
    using Cons.prems by (intro Cons.IH) simp
  finally show ?case by simp
qed

lemma Eval_written:
  assumes "\<forall>v \<in> set (v # vs). dquote \<notin> set v \<and> separable v" and "\<forall>c \<in> set sp. is_space c"
  shows "Eval env (written sp (v # vs)) res symtab = Inr (v # vs)"
proof -
  have "parseRValue env (written sp (v # vs)) symtab res False = Inr (v # vs)"
    using assms by (simp add: parseRValue_def Let_def written_tokens with_commas_grammar)
  moreover have "map stripEscapes (v # vs) = v # vs"
    using assms(1) by (intro map_idI) (auto simp: stripEscapes_id)
  ultimately show ?thesis by (simp add: Eval_def)
qed

section \<open>Properties\<close>

text \<open>
  The values of a symbol survive writing and evaluation: whatever characters a value contains
  (blanks, commas, \<open>$\<close>, braces, backslashes), as long as it holds no double quote and is neither a
  single comma nor the marker of the null object, the evaluation of the written text gives the same
  list of values, and no reference is resolved in it.
\<close>

theorem writeValues_Eval:
  assumes "sym_values s \<noteq> []" and "\<forall>v \<in> set (sym_values s). dquote \<notin> set v \<and> separable v"
  shows "Eval env (writeValues s False) res symtab = Inr (sym_values s)"
proof -
  obtain v vs where v: "sym_values s = v # vs" using assms(1) by (cases "sym_values s") auto
  have "writeValues s False = written '' '' (v # vs)"
    using write_rest_written [of v vs] by (simp add: writeValues_def v)
  then show ?thesis
    using Eval_written [of v vs "'' ''" env res symtab] assms(2) by (simp add: v is_space_def code_def)
qed

theorem writeValues_Eval_witness:
  "Eval Map.empty (writeValues (st_entry ''x'' [] [] [''a, ${b}'', [], ''c''] [] [] 0 1) False) True None =
   Inr [''a, ${b}'', [], ''c'']"
  using writeValues_Eval [of "st_entry ''x'' [] [] [''a, ${b}'', [], ''c''] [] [] 0 1" Map.empty True None]
  by (simp add: st_entry_def separable_def CONF_NULL_OBJECT_def)

text \<open>
  A value with a double quote does not survive: the writer escapes the quote inside the quoted
  text, but \<open>parseRValue\<close> ends the text at the escaped quote.
\<close>

theorem quotes_do_not_survive:
  "let s = st_entry ''x'' [] [] [''say '' @ [dquote] @ ''hi'' @ [dquote]] [] [] 0 1 in
     writeValues s False = [dquote] @ ''say '' @ [bslash, dquote] @ ''hi'' @ [bslash, dquote, dquote] \<and>
     Eval Map.empty (writeValues s False) True None = Inr [''say '' @ [bslash] @ ''hi'' @ [dquote]]"
  by code_simp

text \<open>
  A value that is a single comma is written in quotes, but its evaluation is rejected as an
  invalid list: the grammar does not tell a quoted comma from a separator.
\<close>

theorem comma_does_not_survive:
  "let s = st_entry ''x'' [] [] ['',''] [] [] 0 1 in
     writeValues s False = [dquote] @ '','' @ [dquote] \<and>
     Eval Map.empty (writeValues s False) True None = Inl ''Invalid list''"
  by code_simp

end
