(* ===== verification/Config.thy ===== *)
theory Config
  imports ConfigText
begin

text \<open>
  The configuration reader and writer (src/src/system/libs/seiscomp3/config/config.cpp and
  config.ipp): the state of a \<open>Config\<close> object, \<open>handleEntry\<close>, \<open>handleInclude\<close>, \<open>parseFile\<close>,
  \<open>readConfig\<close>, \<open>writeConfig\<close>, and the typed getters and setters.

  The process around the code is a record of parameters: \<open>getenv\<close>, the home directory, the files
  that can be opened (by working directory and name, as lists of lines) and \<open>chdir\<close> (a failing one
  returns the directory unchanged).  The working directory itself is part of the state.  An include
  reads a file with a new \<open>Config\<close> on the same symbol table; the depth of includes is bounded by a
  fuel argument, \<open>OutOfFuel\<close> is running out of it, and \<open>readConfig_returns\<close> shows how much is enough.
  Error messages go to a logger and are not modelled.
\<close>

section \<open>State\<close>

record process =
  getenv :: "string \<Rightarrow> string option"
  homeDir :: string
  openFile :: "string \<Rightarrow> string \<Rightarrow> string list option"
  chdir :: "string \<Rightarrow> string \<Rightarrow> string"

record config =
  cfg_stage :: int
  cfg_line :: int
  resolveReferences :: bool
  fileName :: string
  defaultNamespacePrefix :: string
  namespacePrefix :: string
  namespaces :: "string list"
  symbolTable :: symboltable
  variables :: "string \<rightharpoonup> string"
  trackVars :: bool
  cwd :: string

definition Config :: "string \<Rightarrow> config" where
  "Config dir = \<lparr>cfg_stage = 0, cfg_line = 0, resolveReferences = True, fileName = [],
     defaultNamespacePrefix = [], namespacePrefix = [], namespaces = [],
     symbolTable = incrementObjectCount SymbolTable, variables = Map.empty, trackVars = False, cwd = dir\<rparr>"

section \<open>Reading\<close>

text \<open>How reading fails to return: the fuel for includes is used up, or the behaviour of the code is undefined.\<close>

datatype read_fault = OutOfFuel | Undefined

type_synonym 'a result = "read_fault + 'a"

definition handleAssignment :: "string \<Rightarrow> string \<Rightarrow> string list \<Rightarrow> string \<Rightarrow> config \<Rightarrow> config" where
  "handleAssignment name content vs comment c =
     c\<lparr>symbolTable := st_add (namespacePrefix c @ name) (namespacePrefix c) content vs (fileName c)
        comment (cfg_stage c) (cfg_line c) (symbolTable c)\<rparr>"

definition cfg_parseRValue :: "process \<Rightarrow> string \<Rightarrow> config \<Rightarrow> string + string list" where
  "cfg_parseRValue p entry c = parseRValue (getenv p) entry (Some (symbolTable c)) (resolveReferences c) False"

definition cfg_eval :: "process \<Rightarrow> string \<Rightarrow> config \<Rightarrow> string + string list" where
  "cfg_eval p rvalue c = Eval (getenv p) rvalue (resolveReferences c) (Some (symbolTable c))"

text \<open>The loop of \<open>del\<close>: it stops at the first name that is not defined.\<close>

fun remove_names :: "string list \<Rightarrow> symboltable \<Rightarrow> bool \<times> symboltable" where
  "remove_names [] t = (True, t)"
| "remove_names (n # ns) t =
     (case st_remove n t of (ok, t) \<Rightarrow> if \<not> ok then (False, t) else remove_names ns t)"

definition prefix_of :: "string \<Rightarrow> string list \<Rightarrow> string" where
  "prefix_of dflt nss = foldl (\<lambda>p n. p @ n @ ''.'') dflt nss"

text \<open>
  \<open>handleEntry\<close>, with the include handler as an argument.  \<open>tokens[0][0]\<close> of an empty token is the
  terminating NUL; \<open>parsedValues[0]\<close> of an empty list is undefined behaviour.
\<close>

definition handleEntry :: "(string \<Rightarrow> config \<Rightarrow> (bool \<times> config) result) \<Rightarrow> process \<Rightarrow> string \<Rightarrow> string
    \<Rightarrow> config \<Rightarrow> (bool \<times> config) result" where
  "handleEntry handleInclude p entry comment c =
     (let tokens = tokenize entry in
      if length tokens < 2 then
        (if length tokens = 1 \<and> tokens ! 0 = ''}'' then
           (if namespaces c = [] then Inr (False, c)
            else
             (let c = c\<lparr>namespaces := butlast (namespaces c)\<rparr>
              in Inr (True, c\<lparr>namespacePrefix := prefix_of (defaultNamespacePrefix c) (namespaces c)\<rparr>)))
         else Inr (False, c))
      else if tokens ! 0 \<noteq> [] \<and> hd (tokens ! 0) = CHR ''$'' then Inr (False, c)
      else if tokens ! 0 = ''include'' then
        (if length tokens > 2 then Inr (False, c)
         else
          (case cfg_parseRValue p (tokens ! 1) c of
             Inl e \<Rightarrow> Inr (False, c)
           | Inr parsedValues \<Rightarrow>
               (case parsedValues of
                  [] \<Rightarrow> Inl Undefined
                | file # _ \<Rightarrow>
                    (case handleInclude file c of
                       Inl e \<Rightarrow> Inl e
                     | Inr (ok, c) \<Rightarrow> if \<not> ok then Inr (False, c) else Inr (True, c)))))
      else if tokens ! 0 = ''del'' then
        (case cfg_parseRValue p (concat (drop 1 tokens)) c of
           Inl e \<Rightarrow> Inr (False, c)
         | Inr parsedValues \<Rightarrow>
             (case remove_names parsedValues (symbolTable c) of (ok, t) \<Rightarrow> Inr (ok, c\<lparr>symbolTable := t\<rparr>)))
      else if length tokens = 2 \<and> tokens ! 1 = ''{'' then
        Inr (True, c\<lparr>namespaces := namespaces c @ [tokens ! 0],
                      namespacePrefix := namespacePrefix c @ tokens ! 0 @ ''.''\<rparr>)
      else if tokens ! 1 = ''='' then
        (if length tokens < 3 then Inr (False, c)
         else
          (let tmp = concat (drop 2 tokens) in
           case cfg_eval p tmp c of
             Inl e \<Rightarrow> Inr (False, c)
           | Inr vs \<Rightarrow> Inr (True, handleAssignment (tokens ! 0) tmp vs comment c)))
      else Inr (False, c))"

text \<open>
  The inner loop of \<open>parseFile\<close> over the characters of a trimmed line: string mode, the entry and the
  comment.
\<close>

fun scan_line :: "char \<Rightarrow> bool \<Rightarrow> string \<Rightarrow> string \<Rightarrow> string \<Rightarrow> bool \<times> string \<times> string" where
  "scan_line prev stringMode entry comment [] = (stringMode, entry, comment)"
| "scan_line prev stringMode entry comment (c # cs) =
     (if c = dquote \<and> prev \<noteq> bslash then scan_line c (\<not> stringMode) (entry @ [c]) comment cs
      else if c = CHR ''#'' \<and> \<not> stringMode then
        (stringMode, entry, (if comment \<noteq> [] then comment @ [newline] else comment) @ c # cs)
      else scan_line c stringMode (entry @ [c]) comment cs)"

text \<open>
  One line of \<open>parseFile\<close>, and the loop over the lines; the variables of the loop are the entry under
  construction, the comment, string mode and success, beside the state of the object.
\<close>

definition parse_line :: "(string \<Rightarrow> config \<Rightarrow> (bool \<times> config) result) \<Rightarrow> process \<Rightarrow> string \<Rightarrow> string \<Rightarrow> bool \<Rightarrow> bool
    \<Rightarrow> string \<Rightarrow> config \<Rightarrow> (string \<times> string \<times> bool \<times> bool \<times> config) result" where
  "parse_line inc p entry comment stringMode success l c =
     (let c = c\<lparr>cfg_line := cfg_line c + 1\<rparr>; line = trim l in
      if line = [] then Inr (entry, comment, stringMode, success, c)
      else
       (case scan_line (hd line) stringMode entry comment line of (stringMode, entry, comment) \<Rightarrow>
        let entry = trim entry in
        if entry = [] then Inr (entry, comment, stringMode, success, c)
        else if last entry \<noteq> bslash then
          (if stringMode then Inr ([], comment, False, False, c)
           else
            (case handleEntry inc p (entry @ [newline]) comment c of
               Inl e \<Rightarrow> Inl e
             | Inr (ok, c) \<Rightarrow> Inr ([], [], stringMode, (if \<not> ok then False else success), c)))
        else Inr (butlast entry, comment, stringMode, success, c)))"

fun parse_lines :: "(string \<Rightarrow> config \<Rightarrow> (bool \<times> config) result) \<Rightarrow> process \<Rightarrow> string \<Rightarrow> string \<Rightarrow> bool \<Rightarrow> bool
    \<Rightarrow> string list \<Rightarrow> config \<Rightarrow> (bool \<times> config) result" where
  "parse_lines inc p entry comment stringMode success [] c =
     (if namespaces c \<noteq> [] then Inr (False, c) else Inr (success, c))"
| "parse_lines inc p entry comment stringMode success (l # ls) c =
     (case parse_line inc p entry comment stringMode success l c of
        Inl e \<Rightarrow> Inl e
      | Inr (entry, comment, stringMode, success, c) \<Rightarrow> parse_lines inc p entry comment stringMode success ls c)"

definition parseFile :: "(string \<Rightarrow> config \<Rightarrow> (bool \<times> config) result) \<Rightarrow> process \<Rightarrow> string list \<Rightarrow> config
    \<Rightarrow> (bool \<times> config) result" where
  "parseFile inc p ls c =
     parse_lines inc p [] [] False True ls (c\<lparr>namespacePrefix := defaultNamespacePrefix c, namespaces := []\<rparr>)"

text \<open>\<open>readConfig\<close> up to the call of \<open>parseFile\<close>; standard input (\<open>-\<close>) is a file of the process here.\<close>

definition readConfig_with :: "(string \<Rightarrow> config \<Rightarrow> (bool \<times> config) result) \<Rightarrow> process \<Rightarrow> string \<Rightarrow> int \<Rightarrow> bool
    \<Rightarrow> config \<Rightarrow> (bool \<times> config) result" where
  "readConfig_with inc p filename stage raw c =
     (let c = c\<lparr>cfg_stage := stage, resolveReferences := \<not> raw, cfg_line := 0, fileName := filename\<rparr> in
      case openFile p (cwd c) filename of
        None \<Rightarrow> Inr (False, c)
      | Some ls \<Rightarrow> parseFile inc p ls (c\<lparr>symbolTable := addToIncludedFiles filename (symbolTable c)\<rparr>))"

text \<open>
  \<open>readInternalConfig\<close> of the fresh \<open>Config\<close> object of \<open>handleInclude\<close>: it takes over the symbol table
  (and gives up its own, empty one), and its destructor drops the reference count again.
\<close>

definition readInternalConfig :: "(string \<Rightarrow> config \<Rightarrow> (bool \<times> config) result) \<Rightarrow> process \<Rightarrow> string
    \<Rightarrow> symboltable \<Rightarrow> string \<Rightarrow> int \<Rightarrow> bool \<Rightarrow> config \<Rightarrow> (bool \<times> config) result" where
  "readInternalConfig inc p file t prefix stage raw c =
     readConfig_with inc p file stage raw
       (c\<lparr>symbolTable := incrementObjectCount t, defaultNamespacePrefix := prefix\<rparr>)"

fun handleInclude :: "nat \<Rightarrow> process \<Rightarrow> string \<Rightarrow> config \<Rightarrow> (bool \<times> config) result" where
  "handleInclude 0 p file c = Inl OutOfFuel"
| "handleInclude (Suc fuel) p file c =
     (if file = [] then Inr (False, c)
      else
       (let tmpFileName = (if hd file = CHR ''~'' then homeDir p @ tl file else file);
            isRelativePath = (tmpFileName = [] \<or> hd tmpFileName \<noteq> CHR ''/'');
            oldPath = cwd c;
            c = (if isRelativePath \<and> CHR ''/'' \<in> set (fileName c)
                 then c\<lparr>cwd := chdir p (cwd c) (rev (drop 1 (dropWhile (\<lambda>x. x \<noteq> CHR ''/'') (rev (fileName c)))))\<rparr>
                 else c)
        in if \<not> hasFileBeenIncluded tmpFileName (symbolTable c) then
             (case readInternalConfig (handleInclude fuel p) p tmpFileName (symbolTable c) (namespacePrefix c)
                     (cfg_stage c) (\<not> resolveReferences c) (Config (cwd c)) of
                Inl e \<Rightarrow> Inl e
              | Inr (ok, conf) \<Rightarrow>
                  (let c = c\<lparr>symbolTable := decrementObjectCount (symbolTable conf), cwd := cwd conf\<rparr>
                   in if \<not> ok then Inr (False, c)
                      else Inr (True, if isRelativePath then c\<lparr>cwd := oldPath\<rparr> else c)))
           else Inr (True, if isRelativePath then c\<lparr>cwd := oldPath\<rparr> else c)))"

definition readConfig :: "nat \<Rightarrow> process \<Rightarrow> string \<Rightarrow> int \<Rightarrow> bool \<Rightarrow> config \<Rightarrow> (bool \<times> config) result" where
  "readConfig fuel p = readConfig_with (handleInclude fuel p) p"

section \<open>Writing\<close>

text \<open>\<open>writeConfig\<close> to a file that can be opened: the text written.\<close>

fun write_symbols :: "symboltable \<Rightarrow> string \<Rightarrow> bool \<Rightarrow> bool \<Rightarrow> bool \<Rightarrow> string list \<Rightarrow> string" where
  "write_symbols t filename localOnly multilineLists firstLine [] = []"
| "write_symbols t filename localOnly multilineLists firstLine (n # ns) =
     (let s = the (symbols t n) in
      if localOnly \<and> sym_uri s \<noteq> [] \<and> sym_uri s \<noteq> filename
      then write_symbols t filename localOnly multilineLists firstLine ns
      else (if \<not> firstLine then [newline] else []) @
           (if sym_comment s \<noteq> [] then sym_comment s @ [newline] else []) @
           writeSymbol s multilineLists @
           write_symbols t filename localOnly multilineLists False ns)"

definition writeConfig :: "string \<Rightarrow> bool \<Rightarrow> bool \<Rightarrow> config \<Rightarrow> string" where
  "writeConfig filename localOnly multilineLists c =
     write_symbols (symbolTable c) filename localOnly multilineLists True (symbolOrder (symbolTable c))"

section \<open>Access\<close>

datatype config_error = OptionNotFound string | TypeConversion string

definition trackVariables :: "bool \<Rightarrow> config \<Rightarrow> config" where
  "trackVariables enabled c =
     (let c = (if \<not> enabled then c\<lparr>variables := Map.empty\<rparr> else c) in c\<lparr>trackVars := enabled\<rparr>)"

definition addVariable :: "string \<Rightarrow> string \<Rightarrow> config \<Rightarrow> config" where
  "addVariable name type c =
     (if trackVars c then c\<lparr>variables := (variables c)(name \<mapsto> type)\<rparr> else c)"

definition cfg_get_with :: "(string \<Rightarrow> 'a option) \<Rightarrow> string \<Rightarrow> config \<Rightarrow> config_error + 'a" where
  "cfg_get_with conv name c =
     (case st_get name (symbolTable c) of
        None \<Rightarrow> Inl (OptionNotFound name)
      | Some s \<Rightarrow> (case conv (sym_values s ! 0) of None \<Rightarrow> Inl (TypeConversion (sym_values s ! 0)) | Some v \<Rightarrow> Inr v))"

definition cfg_get_string :: "string \<Rightarrow> config \<Rightarrow> config_error + string" where
  "cfg_get_string name c =
     (case st_get name (symbolTable c) of None \<Rightarrow> Inl (OptionNotFound name) | Some s \<Rightarrow> Inr (sym_values s ! 0))"

definition conv_bool :: "string \<Rightarrow> bool option" where
  "conv_bool v =
     (if cfg_compareNoCase v ''true'' = 0 then Some True
      else if cfg_compareNoCase v ''false'' = 0 then Some False
      else cfg_fromString_bool v)"

definition cfg_get_bool :: "string \<Rightarrow> config \<Rightarrow> config_error + bool" where
  "cfg_get_bool name c = cfg_get_with conv_bool name c"

fun conv_all :: "(string \<Rightarrow> 'a option) \<Rightarrow> string list \<Rightarrow> config_error + 'a list" where
  "conv_all conv [] = Inr []"
| "conv_all conv (v # vs) =
     (case conv v of None \<Rightarrow> Inl (TypeConversion v)
      | Some x \<Rightarrow> (case conv_all conv vs of Inl e \<Rightarrow> Inl e | Inr xs \<Rightarrow> Inr (x # xs)))"

definition cfg_getVec_with :: "(string \<Rightarrow> 'a option) \<Rightarrow> string \<Rightarrow> config \<Rightarrow> config_error + 'a list" where
  "cfg_getVec_with conv name c =
     (case st_get name (symbolTable c) of
        None \<Rightarrow> Inl (OptionNotFound name)
      | Some s \<Rightarrow> conv_all conv (sym_values s))"

definition cfg_getVec_string :: "string \<Rightarrow> config \<Rightarrow> config_error + string list" where
  "cfg_getVec_string name c =
     (case st_get name (symbolTable c) of
        None \<Rightarrow> Inl (OptionNotFound name)
      | Some s \<Rightarrow> Inr (map stripEscapes (sym_values s)))"

definition cfg_getVec_bool :: "string \<Rightarrow> config \<Rightarrow> config_error + bool list" where
  "cfg_getVec_bool name c = cfg_getVec_with conv_bool name c"

definition cfg_add :: "string \<Rightarrow> string list \<Rightarrow> config \<Rightarrow> config" where
  "cfg_add name vs c =
     c\<lparr>symbolTable := st_add_symbol (Symbol\<lparr>sym_name := name, sym_values := vs, sym_uri := []\<rparr>) (symbolTable c)\<rparr>"

definition cfg_set :: "string \<Rightarrow> string list \<Rightarrow> config \<Rightarrow> config" where
  "cfg_set name vs c =
     (case st_get name (symbolTable c) of
        None \<Rightarrow> cfg_add name vs c
      | Some s \<Rightarrow> c\<lparr>symbolTable := (symbolTable c)\<lparr>symbols :=
          (symbols (symbolTable c))(name \<mapsto> s\<lparr>sym_values := vs, sym_uri := []\<rparr>)\<rparr>\<rparr>)"

definition cfg_getInt :: "string \<Rightarrow> config \<Rightarrow> (config_error + int) \<times> config" where
  "cfg_getInt name c = (let c = addVariable name ''int'' c in (cfg_get_with cfg_fromString_int name c, c))"

definition cfg_getBool :: "string \<Rightarrow> config \<Rightarrow> (config_error + bool) \<times> config" where
  "cfg_getBool name c = (let c = addVariable name ''boolean'' c in (cfg_get_bool name c, c))"

definition cfg_getString :: "string \<Rightarrow> config \<Rightarrow> (config_error + string) \<times> config" where
  "cfg_getString name c = (let c = addVariable name ''string'' c in (cfg_get_string name c, c))"

definition cfg_getInts :: "string \<Rightarrow> config \<Rightarrow> (config_error + int list) \<times> config" where
  "cfg_getInts name c = (let c = addVariable name ''list:int'' c in (cfg_getVec_with cfg_fromString_int name c, c))"

definition cfg_getBools :: "string \<Rightarrow> config \<Rightarrow> (config_error + bool list) \<times> config" where
  "cfg_getBools name c = (let c = addVariable name ''list:boolean'' c in (cfg_getVec_bool name c, c))"

definition cfg_getStrings :: "string \<Rightarrow> config \<Rightarrow> (config_error + string list) \<times> config" where
  "cfg_getStrings name c = (let c = addVariable name ''list:string'' c in (cfg_getVec_string name c, c))"

text \<open>The getters with an error flag or a reference to the value: the exceptions are caught.\<close>

definition with_error :: "'a \<Rightarrow> (config_error + 'a) \<times> config \<Rightarrow> ('a \<times> bool) \<times> config" where
  "with_error dflt r = (case r of (Inl e, c) \<Rightarrow> ((dflt, True), c) | (Inr v, c) \<Rightarrow> ((v, False), c))"

definition get_into :: "'a \<Rightarrow> (config_error + 'a) \<times> config \<Rightarrow> (bool \<times> 'a) \<times> config" where
  "get_into old r = (case r of (Inl e, c) \<Rightarrow> ((False, old), c) | (Inr v, c) \<Rightarrow> ((True, v), c))"

definition cfg_setInt :: "string \<Rightarrow> int \<Rightarrow> config \<Rightarrow> config" where
  "cfg_setInt name v c = cfg_set name [show_int v] (addVariable name ''list:int'' c)"

definition cfg_setBool :: "string \<Rightarrow> bool \<Rightarrow> config \<Rightarrow> config" where
  "cfg_setBool name v c = cfg_set name [cfg_toString_bool v] c"

definition cfg_setString :: "string \<Rightarrow> string \<Rightarrow> config \<Rightarrow> config" where
  "cfg_setString name v c = cfg_set name [v] c"

definition cfg_setInts :: "string \<Rightarrow> int list \<Rightarrow> config \<Rightarrow> config" where
  "cfg_setInts name vs c = cfg_set name (map show_int vs) c"

definition cfg_setBools :: "string \<Rightarrow> bool list \<Rightarrow> config \<Rightarrow> config" where
  "cfg_setBools name vs c = cfg_set name (map cfg_toString_bool vs) c"

definition cfg_setStrings :: "string \<Rightarrow> string list \<Rightarrow> config \<Rightarrow> config" where
  "cfg_setStrings name vs c = cfg_set name vs c"

definition cfg_remove :: "string \<Rightarrow> config \<Rightarrow> bool \<times> config" where
  "cfg_remove name c = (case st_remove name (symbolTable c) of (ok, t) \<Rightarrow> (ok, c\<lparr>symbolTable := t\<rparr>))"

definition names :: "config \<Rightarrow> string list" where
  "names c = map (\<lambda>n. sym_name (the (symbols (symbolTable c) n))) (symbolOrder (symbolTable c))"

section \<open>Tokens of a written entry\<close>

text \<open>
  \<open>runs p nt tk text rest q\<close>: the tokenizer works through \<open>text\<close> outside of strings; what it
  adds to the tokens and the token under construction is the text again.
\<close>

definition runs :: "char \<Rightarrow> string \<Rightarrow> string list \<Rightarrow> string \<Rightarrow> string \<Rightarrow> string \<Rightarrow> bool" where
  "runs p nt tk text rest out \<longleftrightarrow> (\<exists>tk' nt' p'. tokenize_loop p False False nt tk (text @ rest) =
     tokenize_loop p' False False nt' (tk @ tk') rest \<and> concat tk' @ nt' = nt @ out \<and> p' \<noteq> bslash)"

lemma whitespace_chars: "isWhitespace_char CHR '' ''" "isWhitespace_char newline" "\<not> isWhitespace_char CHR '',''"
  "\<not> isWhitespace_char CHR ''=''" "\<not> isWhitespace_char dquote"
  by (simp_all add: isWhitespace_char_iff is_space_def code_def)

lemma runs_plain:
  "\<forall>c \<in> set v. \<not> is_space c \<and> c \<noteq> bslash \<and> c \<noteq> dquote \<and> c \<noteq> CHR '','' \<Longrightarrow> p \<noteq> bslash \<Longrightarrow> runs p nt tk v rest v"
proof (induction v arbitrary: p nt tk)
  case Nil
  have "tokenize_loop p False False nt tk ([] @ rest) = tokenize_loop p False False nt (tk @ []) rest" by simp
  with Nil show ?case unfolding runs_def by (metis append_Nil append_Nil2 concat.simps(1))
next
  case (Cons c v)
  have c: "\<not> isWhitespace_char c" "c \<noteq> bslash" "c \<noteq> dquote" "c \<noteq> CHR '',''"
    using Cons.prems by (auto simp: isWhitespace_char_iff)
  have IH: "runs c nt tk v rest v" for nt tk
    using Cons by (intro Cons.IH) auto
  have step: "\<exists>tk1 nt1. tokenize_loop p False False nt tk ((c # v) @ rest) = tokenize_loop c False False nt1 (tk @ tk1) (v @ rest)
      \<and> concat tk1 @ nt1 = nt @ [c]"
  proof (cases "c = CHR ''=''")
    case True
    then show ?thesis
      using c by (cases "nt = []") (auto simp: Let_def intro: exI [of _ "[[c]]"] exI [of _ "[nt, [c]]"])
  next
    case False
    then have "tokenize_loop p False False nt tk ((c # v) @ rest) = tokenize_loop c False False (nt @ [c]) (tk @ []) (v @ rest)"
      using c by simp
    then show ?thesis by (metis append_Nil concat.simps(1))
  qed
  then obtain tk1 nt1 where 1: "tokenize_loop p False False nt tk ((c # v) @ rest) = tokenize_loop c False False nt1 (tk @ tk1) (v @ rest)"
    "concat tk1 @ nt1 = nt @ [c]" by blast
  obtain tk2 nt2 p2 where 2: "tokenize_loop c False False nt1 (tk @ tk1) (v @ rest) = tokenize_loop p2 False False nt2 ((tk @ tk1) @ tk2) rest"
    "concat tk2 @ nt2 = nt1 @ v" "p2 \<noteq> bslash"
    using IH [of nt1 "tk @ tk1"] unfolding runs_def by blast
  have "concat (tk1 @ tk2) @ nt2 = nt @ c # v"
    using 1(2) 2(2) by (metis append.assoc append_Cons append_Nil concat_append)
  then show ?case
    unfolding runs_def using 1(1) 2(1,3) by (metis append.assoc)
qed

lemma string_run:
  "dquote \<notin> set v \<Longrightarrow> last (p # v) \<noteq> bslash \<Longrightarrow>
   tokenize_loop p True False nt tk (v @ dquote # rest) = tokenize_loop dquote False False [] (tk @ [nt @ v @ [dquote]]) rest"
  by (induction v arbitrary: p nt) (auto simp: Let_def)

lemma runs_escape:
  assumes "dquote \<notin> set v" and "v \<noteq> [] \<longrightarrow> last v \<noteq> bslash" and "p \<noteq> bslash"
  shows "runs p nt tk (escape v) rest (escape v)"
proof (cases "v \<noteq> [] \<and> (\<forall>c \<in> set v. c \<notin> set quotable)")
  case True
  then have "escape v = v" using assms(1) by (auto simp: escape_no_dquote quote_def)
  moreover have "runs p nt tk v rest v"
    using True assms by (intro runs_plain) (auto simp: quotable_iff)
  ultimately show ?thesis by simp
next
  case False
  then have e: "escape v = [dquote] @ v @ [dquote]" using assms(1) by (auto simp: escape_no_dquote quote_def)
  have "tokenize_loop p False False nt tk (escape v @ rest) = tokenize_loop dquote True False (nt @ [dquote]) tk (v @ dquote # rest)"
    using assms(3) whitespace_chars by (simp add: e Let_def)
  also have "\<dots> = tokenize_loop dquote False False [] (tk @ [(nt @ [dquote]) @ v @ [dquote]]) rest"
    using assms by (intro string_run) auto
  finally show ?thesis
    unfolding runs_def e by (intro exI [of _ "[(nt @ [dquote]) @ v @ [dquote]]"] exI [of _ "[]"] exI [of _ dquote]) simp
qed

lemma space_run:
  "\<forall>c \<in> set sp. is_space c \<Longrightarrow> p \<noteq> bslash \<Longrightarrow>
   \<exists>p'. p' \<noteq> bslash \<and> tokenize_loop p False False [] tk (sp @ rest) = tokenize_loop p' False False [] tk rest"
proof (induction sp arbitrary: p)
  case (Cons c sp)
  then have "is_space c" by simp
  then have c: "isWhitespace_char c" "c \<noteq> bslash" by (auto simp: isWhitespace_char_iff is_space_def code_def)
  with Cons show ?case by (simp add: Let_def)
qed auto

lemma written_run:
  assumes "\<forall>v \<in> set vs. dquote \<notin> set v \<and> (v \<noteq> [] \<longrightarrow> last v \<noteq> bslash)" and "\<forall>c \<in> set sp. is_space c"
    and "vs \<noteq> []" and "p \<noteq> bslash"
  shows "\<exists>tk'. tokenize_loop p False False [] tk (written sp vs @ [newline]) = tk @ tk' \<and> concat tk' = written [] vs"
  using assms
proof (induction sp vs arbitrary: p tk rule: written.induct)
  case (2 sp v)
  then obtain tk' nt' p' where "tokenize_loop p False False [] tk (escape v @ [newline]) = tokenize_loop p' False False nt' (tk @ tk') [newline]"
    "concat tk' @ nt' = escape v" "p' \<noteq> bslash"
    using runs_escape [of v p "[]" tk "[newline]"] by (auto simp: runs_def)
  then show ?case
    using whitespace_chars by (cases "nt' = []") (auto simp: Let_def intro: exI [of _ "tk' @ [nt']"])
next
  case (3 sp v w vs)
  let ?rest = "sp @ written sp (w # vs) @ [newline]"
  obtain tk' nt' p' where 1: "tokenize_loop p False False [] tk (escape v @ CHR '','' # ?rest) =
      tokenize_loop p' False False nt' (tk @ tk') (CHR '','' # ?rest)" "concat tk' @ nt' = escape v" "p' \<noteq> bslash"
    using runs_escape [of v p "[]" tk "CHR '','' # ?rest"] 3 by (auto simp: runs_def)
  obtain tk2 where 2: "tokenize_loop p' False False nt' (tk @ tk') (CHR '','' # ?rest) =
      tokenize_loop CHR '','' False False [] (tk @ tk2) ?rest" "concat tk2 = escape v @ '',''"
  proof (cases "nt' = []")
    case True
    then show ?thesis
      using that [of "tk' @ ['','']"] 1(2) whitespace_chars by (simp add: Let_def)
  next
    case False
    then show ?thesis
      using that [of "tk' @ [nt', '','']"] 1(2) whitespace_chars by (simp add: Let_def)
  qed
  obtain p3 where 3: "p3 \<noteq> bslash" "tokenize_loop CHR '','' False False [] (tk @ tk2) ?rest =
      tokenize_loop p3 False False [] (tk @ tk2) (written sp (w # vs) @ [newline])"
    using space_run [of sp "CHR '',''" "tk @ tk2" "written sp (w # vs) @ [newline]"] 3(3) by auto
  obtain tk4 where "tokenize_loop p3 False False [] (tk @ tk2) (written sp (w # vs) @ [newline]) = (tk @ tk2) @ tk4"
    "concat tk4 = written [] (w # vs)"
    using "3.IH" [of p3 "tk @ tk2"] "3.prems" 3(1) by auto
  then show ?case
    using 1(1) 2 3(2) by (intro exI [of _ "tk2 @ tk4"]) simp
qed simp

definition plain_name :: "string \<Rightarrow> bool" where
  "plain_name n \<longleftrightarrow> n \<noteq> [] \<and> (\<forall>c \<in> set n. \<not> is_space c \<and> c \<notin> {bslash, dquote, CHR '','', CHR ''=''}) \<and>
     hd n \<noteq> CHR ''$'' \<and> n \<noteq> ''include'' \<and> n \<noteq> ''del''"

lemma name_run:
  "\<forall>c \<in> set n. \<not> is_space c \<and> c \<notin> {bslash, dquote, CHR '','', CHR ''=''} \<Longrightarrow>
   tokenize_loop p False False nt tk (n @ rest) = tokenize_loop (last (p # n)) False False (nt @ n) tk rest"
  by (induction n arbitrary: p nt) (auto simp: Let_def isWhitespace_char_iff)

lemma tokenize_written:
  assumes "plain_name n" and "\<forall>v \<in> set vs. dquote \<notin> set v \<and> (v \<noteq> [] \<longrightarrow> last v \<noteq> bslash)" and "vs \<noteq> []"
  shows "\<exists>ts. tokenize (n @ '' = '' @ written '' '' vs @ [newline]) = n # ''='' # ts \<and> concat ts = written [] vs"
proof -
  let ?w = "written '' '' vs @ [newline]"
  obtain c cs where n: "n = c # cs" using assms(1) by (cases n) (auto simp: plain_name_def)
  obtain ts where ts: "tokenize_loop CHR '' '' False False [] [n, ''=''] ?w = [n, ''=''] @ ts" "concat ts = written [] vs"
    using written_run [of vs "'' ''" "CHR '' ''" "[n, ''='']"] assms by (auto simp: is_space_def code_def)
  have "tokenize (n @ '' = '' @ ?w) = tokenize_loop (last (c # n)) False False n [] ('' = '' @ ?w)"
    using name_run [of n c "[]" "[]" "'' = '' @ ?w"] assms(1) by (simp add: tokenize_def n plain_name_def)
  also have "\<dots> = tokenize_loop CHR '' '' False False [] [n, ''=''] ?w"
    using whitespace_chars by (simp add: n Let_def)
  finally show ?thesis using ts by simp
qed

section \<open>What an entry leaves alone\<close>

lemma includedFiles_ops [simp]:
  "includedFiles (st_add_symbol s t) = includedFiles t" "includedFiles (snd (st_remove n t)) = includedFiles t"
  "includedFiles (st_add name ns content vs uri comment stage line t) = includedFiles t"
  "includedFiles (incrementObjectCount t) = includedFiles t" "includedFiles (decrementObjectCount t) = includedFiles t"
  by (auto simp: st_add_def st_add_symbol_def st_remove_def incrementObjectCount_def decrementObjectCount_def
      Let_def split: option.split)

lemma remove_names_included: "remove_names ns t = (ok, t') \<Longrightarrow> includedFiles t' = includedFiles t"
proof (induction ns t rule: remove_names.induct)
  case (2 n ns t)
  obtain b u where r: "st_remove n t = (b, u)" by (cases "st_remove n t")
  then have "includedFiles u = includedFiles t" using includedFiles_ops(2) [of n t] by simp
  with 2 r show ?case by (cases b) auto
qed simp

text \<open>
  The entries that are no includes leave the included files, the working directory and the file
  alone, and keep the prefix of the open name spaces.
\<close>

definition ns_ok :: "config \<Rightarrow> bool" where
  "ns_ok c \<longleftrightarrow> namespacePrefix c = prefix_of (defaultNamespacePrefix c) (namespaces c)"

definition same_place :: "config \<Rightarrow> config \<Rightarrow> bool" where
  "same_place c c' \<longleftrightarrow> fileName c' = fileName c \<and> cfg_stage c' = cfg_stage c \<and>
     resolveReferences c' = resolveReferences c \<and> defaultNamespacePrefix c' = defaultNamespacePrefix c \<and>
     cfg_line c' = cfg_line c"

lemma prefix_of_snoc: "prefix_of d (nss @ [n]) = prefix_of d nss @ n @ ''.''"
  by (simp add: prefix_of_def)

text \<open>Every outcome of \<open>handleEntry\<close> is an outcome of the include handler or leaves these alone.\<close>

definition keeps :: "config \<Rightarrow> config \<Rightarrow> bool" where
  "keeps c c' \<longleftrightarrow> same_place c c' \<and> cwd c' = cwd c \<and>
     includedFiles (symbolTable c') = includedFiles (symbolTable c) \<and> (ns_ok c \<longrightarrow> ns_ok c')"

definition entry_result :: "(string \<Rightarrow> config \<Rightarrow> (bool \<times> config) result) \<Rightarrow> config \<Rightarrow> (bool \<times> config) result \<Rightarrow> bool" where
  "entry_result inc c r \<longleftrightarrow> (\<exists>ok c'. r = Inr (ok, c') \<and> keeps c c') \<or> (\<exists>f. r = inc f c) \<or> r = Inl Undefined"

lemma er_Inr: "keeps c c' \<Longrightarrow> entry_result inc c (Inr (ok, c'))"
  by (auto simp: entry_result_def)

lemma er_inc: "entry_result inc c (case fs of [] \<Rightarrow> Inl Undefined
    | f # _ \<Rightarrow> (case inc f c of Inl e \<Rightarrow> Inl e | Inr (ok, c) \<Rightarrow> if \<not> ok then Inr (False, c) else Inr (True, c)))"
proof (cases fs)
  case (Cons f fs)
  then show ?thesis unfolding entry_result_def by (cases "inc f c") (auto intro: exI [of _ f])
qed (simp add: entry_result_def)

lemma er_if: "entry_result inc c a \<Longrightarrow> entry_result inc c b \<Longrightarrow> entry_result inc c (if P then a else b)"
  by simp

lemma er_sum: "(\<And>e. entry_result inc c (f e)) \<Longrightarrow> (\<And>v. entry_result inc c (g v)) \<Longrightarrow>
    entry_result inc c (case s of Inl e \<Rightarrow> f e | Inr v \<Rightarrow> g v)"
  by (cases s) auto

lemma er_remove: "entry_result inc c (case remove_names vs (symbolTable c) of (ok, t) \<Rightarrow> Inr (ok, c\<lparr>symbolTable := t\<rparr>))"
proof -
  obtain ok t where r: "remove_names vs (symbolTable c) = (ok, t)" by (cases "remove_names vs (symbolTable c)")
  show ?thesis
    using remove_names_included [OF r] by (auto simp: r entry_result_def keeps_def same_place_def ns_ok_def)
qed

lemma handleEntry_result: "entry_result inc c (handleEntry inc p e cm c)"
  unfolding handleEntry_def Let_def
  by (intro er_if er_sum er_inc er_remove; rule er_Inr)
    (simp_all add: keeps_def same_place_def ns_ok_def handleAssignment_def prefix_of_snoc)

text \<open>
  What one line does: it counts the line and either leaves everything else of the object alone or
  handles one entry, whose failure makes the file fail.
\<close>

definition next_line :: "config \<Rightarrow> config" where
  "next_line c = c\<lparr>cfg_line := cfg_line c + 1\<rparr>"

lemma parse_line_cases:
  obtains e' cm' sm' s' where "parse_line inc p e cm sm s l c = Inr (e', cm', sm', s', next_line c)" "s' \<longrightarrow> s"
  | e' cm' where "parse_line inc p e cm sm s l c =
      (case handleEntry inc p e' cm' (next_line c) of Inl e \<Rightarrow> Inl e
       | Inr (ok, c') \<Rightarrow> Inr ([], [], False, (if \<not> ok then False else s), c'))"
proof -
  note d = parse_line_def Let_def next_line_def [symmetric]
  show ?thesis
  proof (cases "trim l = []")
    case True
    then show ?thesis using that(1) by (simp add: d)
  next
    case l: False
    obtain sm2 e2 cm2 where sc: "scan_line (hd (trim l)) sm e cm (trim l) = (sm2, e2, cm2)"
      by (metis prod_cases3)
    consider "trim e2 = []" | "trim e2 \<noteq> []" "last (trim e2) = bslash" | "trim e2 \<noteq> []" "last (trim e2) \<noteq> bslash" "sm2"
      | "trim e2 \<noteq> []" "last (trim e2) \<noteq> bslash" "\<not> sm2" by blast
    then show ?thesis
    proof cases
      case 1
      then have "parse_line inc p e cm sm s l c = Inr ([], cm2, sm2, s, next_line c)" by (simp add: d l sc)
      then show ?thesis by (rule that(1)) simp
    next
      case 2
      then have "parse_line inc p e cm sm s l c = Inr (butlast (trim e2), cm2, sm2, s, next_line c)" by (simp add: d l sc)
      then show ?thesis by (rule that(1)) simp
    next
      case 3
      then have "parse_line inc p e cm sm s l c = Inr ([], cm2, False, False, next_line c)" by (simp add: d l sc)
      then show ?thesis by (rule that(1)) simp
    next
      case 4
      then have "parse_line inc p e cm sm s l c = (case handleEntry inc p (trim e2 @ [newline]) cm2 (next_line c) of Inl e \<Rightarrow> Inl e
         | Inr (ok, c') \<Rightarrow> Inr ([], [], False, (if \<not> ok then False else s), c'))" by (simp add: d l sc)
      then show ?thesis by (rule that(2))
    qed
  qed
qed

text \<open>
  A reflexive and transitive relation between the configurations before and after that holds for
  the step to the next line and for every entry holds for a whole file; and the file returns when
  every entry does.
\<close>

lemma parse_lines_rel:
  assumes "parse_lines inc p e cm sm s ls c = Inr (ok, c')"
    and refl: "\<And>c. R c c" and trans: "\<And>a b c. R a b \<Longrightarrow> R b c \<Longrightarrow> R a c"
    and line: "\<And>c. R c (next_line c)"
    and entry: "\<And>e cm c ok c'. handleEntry inc p e cm c = Inr (ok, c') \<Longrightarrow> ok \<or> any \<Longrightarrow> R c c'"
    and "ok \<or> any"
  shows "R c c' \<and> (ok \<longrightarrow> s)"
  using assms(1,6)
proof (induction ls arbitrary: e cm sm s c)
  case Nil
  then show ?case using refl by (simp split: if_split_asm)
next
  case (Cons l ls)
  show ?case
  proof (rule parse_line_cases [of inc p e cm sm s l c])
    fix e' cm' sm' s'
    assume "parse_line inc p e cm sm s l c = Inr (e', cm', sm', s', next_line c)" "s' \<longrightarrow> s"
    with Cons.prems Cons.IH [of e' cm' sm' s' "next_line c"] show ?thesis
      using line trans by simp blast
  next
    fix e' cm'
    assume h: "parse_line inc p e cm sm s l c =
      (case handleEntry inc p e' cm' (next_line c) of Inl e \<Rightarrow> Inl e
       | Inr (ok, c') \<Rightarrow> Inr ([], [], False, (if \<not> ok then False else s), c'))"
    with Cons.prems(1) obtain ok2 c2 where r: "handleEntry inc p e' cm' (next_line c) = Inr (ok2, c2)"
      by (auto split: sum.split_asm prod.split_asm)
    with h Cons.prems(1) have "parse_lines inc p [] [] False (if \<not> ok2 then False else s) ls c2 = Inr (ok, c')"
      by simp
    then have "R c2 c' \<and> (ok \<longrightarrow> ok2 \<and> s)"
      using Cons.IH [of "[]" "[]" False "if \<not> ok2 then False else s" c2] Cons.prems(2) by (simp split: if_split_asm)
    moreover from this have "R (next_line c) c2"
      using entry [OF r] Cons.prems(2) by blast
    ultimately show ?thesis
      using line trans by blast
  qed
qed

text \<open>An end of reading: with the property \<open>P\<close>, or where the behaviour is undefined.  The fuel has not run out.\<close>

definition ends :: "(config \<Rightarrow> bool) \<Rightarrow> (bool \<times> config) result \<Rightarrow> bool" where
  "ends P r \<longleftrightarrow> (\<exists>ok c. r = Inr (ok, c) \<and> P c) \<or> r = Inl Undefined"

lemma endsE:
  assumes "ends P r"
  obtains ok c where "r = Inr (ok, c)" "P c" | "r = Inl Undefined"
  using assms by (auto simp: ends_def)

lemma parse_lines_returns:
  assumes "\<And>e cm c. P c \<Longrightarrow> ends P (handleEntry inc p e cm c)"
    and "\<And>c. P c \<Longrightarrow> P (next_line c)" and "P c"
  shows "ends P (parse_lines inc p e cm sm s ls c)"
  using assms(3)
proof (induction ls arbitrary: e cm sm s c)
  case (Cons l ls)
  show ?case
  proof (rule parse_line_cases [of inc p e cm sm s l c])
    fix e' cm' sm' s'
    assume "parse_line inc p e cm sm s l c = Inr (e', cm', sm', s', next_line c)"
    with Cons show ?thesis using assms(2) by simp
  next
    fix e' cm'
    assume h: "parse_line inc p e cm sm s l c =
      (case handleEntry inc p e' cm' (next_line c) of Inl e \<Rightarrow> Inl e
       | Inr (ok, c') \<Rightarrow> Inr ([], [], False, (if \<not> ok then False else s), c'))"
    have "ends P (handleEntry inc p e' cm' (next_line c))"
      using assms(1) [OF assms(2) [OF Cons.prems]] .
    then show ?thesis
    proof (rule endsE)
      fix ok2 c2 assume "handleEntry inc p e' cm' (next_line c) = Inr (ok2, c2)" "P c2"
      with h Cons.IH show ?thesis by simp
    qed (use h in \<open>simp add: ends_def\<close>)
  qed
next
  case Nil
  then show ?case by (auto simp: ends_def)
qed

lemma keeps_refl: "keeps c c"
  by (simp add: keeps_def same_place_def)

lemma handleEntry_from:
  assumes "handleEntry inc p e cm c = Inr (ok, c')"
  obtains "keeps c c'" | f where "inc f c = Inr (ok, c')"
  using handleEntry_result [of inc c p e cm] assms by (auto simp: entry_result_def)

section \<open>Includes\<close>

text \<open>The include handler always changes only the symbol table and the working directory.\<close>

lemma handleInclude_fields:
  "handleInclude fuel p f c = Inr (ok, c') \<Longrightarrow>
   same_place c c' \<and> namespaces c' = namespaces c \<and> namespacePrefix c' = namespacePrefix c"
  by (cases fuel) (auto simp: same_place_def Let_def split: if_split_asm sum.split_asm)

text \<open>Enough fuel: one more than the files that can be opened and have not been included.\<close>

definition files_of :: "config \<Rightarrow> string set" where
  "files_of c = includedFiles (symbolTable c)"

abbreviation ends_with :: "string set \<Rightarrow> (bool \<times> config) result \<Rightarrow> bool" where
  "ends_with I \<equiv> ends (\<lambda>c. I \<subseteq> files_of c)"

lemma handleEntry_files:
  assumes "\<And>f c. I \<subseteq> files_of c \<Longrightarrow> ends_with I (inc f c)" and "I \<subseteq> files_of c"
  shows "ends_with I (handleEntry inc p e cm c)"
proof -
  consider "\<exists>ok c'. handleEntry inc p e cm c = Inr (ok, c') \<and> keeps c c'" | f where "handleEntry inc p e cm c = inc f c"
    | "handleEntry inc p e cm c = Inl Undefined"
    using handleEntry_result [of inc c p e cm] unfolding entry_result_def by blast
  then show ?thesis
  proof cases
    case 1
    with assms(2) show ?thesis by (auto simp: ends_def keeps_def files_of_def)
  next
    case 2
    then show ?thesis using assms(1) [OF assms(2)] by simp
  qed (simp add: ends_def)
qed

lemma parseFile_files:
  assumes "\<And>f c. I \<subseteq> files_of c \<Longrightarrow> ends_with I (inc f c)" and "I \<subseteq> files_of c"
  shows "ends_with I (parseFile inc p ls c)"
  unfolding parseFile_def
proof (rule parse_lines_returns [where P = "\<lambda>c. I \<subseteq> files_of c"])
  show "ends_with I (handleEntry inc p e cm c)" if "I \<subseteq> files_of c" for e cm c
    using assms(1) that by (rule handleEntry_files)
qed (use assms(2) in \<open>simp_all add: files_of_def next_line_def\<close>)

lemma readConfig_with_files:
  assumes inc: "\<And>f c. insert name I \<subseteq> files_of c \<Longrightarrow> ends_with (insert name I) (inc f c)"
    and "I \<subseteq> files_of c"
  shows "ends_with I (readConfig_with inc p name stage raw c)"
proof (cases "openFile p (cwd c) name")
  case None
  then show ?thesis using assms(2) by (auto simp: readConfig_with_def files_of_def ends_def)
next
  case (Some ls)
  let ?c = "c\<lparr>cfg_stage := stage, resolveReferences := \<not> raw, cfg_line := 0, fileName := name,
      symbolTable := addToIncludedFiles name (symbolTable c)\<rparr>"
  have "insert name I \<subseteq> files_of ?c"
    using assms(2) by (auto simp: files_of_def addToIncludedFiles_def)
  have "ends_with (insert name I) (parseFile inc p ls ?c)"
    by (rule parseFile_files) (fact inc, fact)
  then show ?thesis
    using Some by (auto simp: readConfig_with_def Let_def ends_def)
qed

lemma handleInclude_files:
  assumes fin: "finite F" and F: "\<And>d n. openFile p d n \<noteq> None \<Longrightarrow> n \<in> F"
  shows "card (F - I) < fuel \<Longrightarrow> I \<subseteq> files_of c \<Longrightarrow>
     ends_with I (handleInclude fuel p f c)"
proof (induction fuel arbitrary: I f c)
  case (Suc fuel)
  show ?case
  proof (cases "f = []")
    case True
    with Suc show ?thesis by (auto simp: ends_def)
  next
    case f: False
    define name where "name = (if hd f = CHR ''~'' then homeDir p @ tl f else f)"
    define rel where "rel = (name = [] \<or> hd name \<noteq> CHR ''/'')"
    define c1 where "c1 = (if rel \<and> CHR ''/'' \<in> set (fileName c)
      then c\<lparr>cwd := chdir p (cwd c) (rev (drop 1 (dropWhile (\<lambda>x. x \<noteq> CHR ''/'') (rev (fileName c)))))\<rparr> else c)"
    have I1: "I \<subseteq> files_of c1" using Suc.prems(2) by (simp add: c1_def files_of_def)
    show ?thesis
    proof (cases "hasFileBeenIncluded name (symbolTable c1)")
      case True
      then show ?thesis
        using f I1 Suc.prems(2) by (auto simp: Let_def name_def [symmetric] rel_def [symmetric] c1_def [symmetric] files_of_def ends_def)
    next
      case False
      let ?d = "(Config (cwd c1))\<lparr>symbolTable := incrementObjectCount (symbolTable c1), defaultNamespacePrefix := namespacePrefix c1\<rparr>"
      have step: "ends_with I (readInternalConfig (handleInclude fuel p) p name (symbolTable c1) (namespacePrefix c1)
          (cfg_stage c1) (\<not> resolveReferences c1) (Config (cwd c1)))"
      proof (cases "openFile p (cwd c1) name")
        case None
        then show ?thesis
          using I1 by (auto simp: readInternalConfig_def readConfig_with_def Let_def Config_def files_of_def ends_def)
      next
        case (Some ls)
        then have "name \<in> F" using F [of "cwd c1" name] by simp
        moreover have "name \<notin> I"
          using False I1 by (auto simp: hasFileBeenIncluded_def files_of_def)
        ultimately have "card (F - insert name I) < card (F - I)"
          using fin by (intro psubset_card_mono) auto
        then have less: "card (F - insert name I) < fuel" using Suc.prems(1) by simp
        have "I \<subseteq> files_of ?d" using I1 by (simp add: files_of_def)
        from readConfig_with_files [OF Suc.IH [OF less], OF _ this]
        show ?thesis unfolding readInternalConfig_def .
      qed
      then show ?thesis
      proof (rule endsE)
        fix ok c2
        assume "readInternalConfig (handleInclude fuel p) p name (symbolTable c1) (namespacePrefix c1)
          (cfg_stage c1) (\<not> resolveReferences c1) (Config (cwd c1)) = Inr (ok, c2)" "I \<subseteq> files_of c2"
        then show ?thesis
          using f False by (cases ok)
            (auto simp: Let_def name_def [symmetric] rel_def [symmetric] c1_def [symmetric] files_of_def ends_def)
      qed (use f False in \<open>simp add: Let_def name_def [symmetric] rel_def [symmetric] c1_def [symmetric] ends_def\<close>)
    qed
  qed
qed simp

text \<open>The working directory after an include or a file that succeeded.\<close>

lemma handleEntry_cwd:
  assumes "\<And>f c c'. inc f c = Inr (True, c') \<Longrightarrow> cwd c' = cwd c" and "handleEntry inc p e cm c = Inr (True, c')"
  shows "cwd c' = cwd c"
  using assms(2) by (rule handleEntry_from) (auto simp: keeps_def assms(1))

lemma readConfig_with_cwd:
  assumes inc: "\<And>f c c'. inc f c = Inr (True, c') \<Longrightarrow> cwd c' = cwd c"
    and "readConfig_with inc p name stage raw c = Inr (True, c')"
  shows "cwd c' = cwd c"
proof -
  obtain ls where "parse_lines inc p [] [] False True ls (c\<lparr>cfg_stage := stage, resolveReferences := \<not> raw, cfg_line := 0,
      fileName := name, symbolTable := addToIncludedFiles name (symbolTable c),
      namespacePrefix := defaultNamespacePrefix c, namespaces := []\<rparr>) = Inr (True, c')"
    using assms(2) by (auto simp: readConfig_with_def parseFile_def Let_def split: option.split_asm)
  then show ?thesis
    using parse_lines_rel [where R = "\<lambda>c c'. cwd c' = cwd c" and any = False] handleEntry_cwd [OF inc]
    by (fastforce simp: next_line_def)
qed

lemma handleInclude_cwd: "handleInclude fuel p f c = Inr (True, c') \<Longrightarrow> cwd c' = cwd c"
proof (induction fuel arbitrary: f c c')
  case (Suc fuel)
  have "cwd d' = cwd d" if "readInternalConfig (handleInclude fuel p) p n t pre st raw d = Inr (True, d')" for n t pre st raw d d'
    using readConfig_with_cwd [OF Suc.IH that [unfolded readInternalConfig_def]] by simp
  from this [of _ _ _ _ _ "Config x" for x] have "cwd d' = x"
    if "readInternalConfig (handleInclude fuel p) p n t pre st raw (Config x) = Inr (True, d')" for n t pre st raw x d'
    using that by (auto simp: Config_def)
  with Suc.prems show ?case
    by (auto simp: Let_def split: if_split_asm sum.split_asm prod.split_asm)
qed simp

section \<open>Typed values\<close>

lemma digit_of_digit: "is_digit c \<Longrightarrow> digit_of c = digit_val c"
  by (simp add: digit_of_def digit_val_def)

lemma is_digit_base10: "is_digit_base 10 c \<longleftrightarrow> is_digit c"
  by (auto simp: is_digit_base_def digit_of_def is_digit_def is_alpha_def code_to_upper)

lemma base_val10: "\<forall>c \<in> set ds. is_digit c \<Longrightarrow> base_val 10 ds = digits_val ds"
  unfolding base_val_def digits_val_def by (induction ds rule: rev_induct) (auto simp: digit_of_digit)

lemma show_nat_zero: "hd (show_nat n) = CHR ''0'' \<longleftrightarrow> n = 0"
proof (induction n rule: show_nat.induct)
  case (1 n)
  show ?case
  proof (cases "n < 10")
    case True
    have "digit_char n = CHR ''0'' \<longleftrightarrow> code (digit_char n) = code CHR ''0''" by (simp only: code_inj)
    also have "\<dots> \<longleftrightarrow> n = 0" unfolding code_digit_char [OF True] by (simp add: code_def)
    finally show ?thesis using True by (simp add: show_nat.simps [of n])
  next
    case False
    with 1 show ?thesis by (simp add: show_nat.simps [of n])
  qed
qed

lemma detect_base_show: "detect_base (show_nat n) = (if n = 0 then 8 else 10, show_nat n)"
proof (cases "n = 0")
  case True
  have "show_nat 0 = ''0''" by code_simp
  then show ?thesis using True by (simp add: is_digit_base_def)
next
  case False
  then obtain c cs where c: "show_nat n = c # cs" "c \<noteq> CHR ''0''"
    using show_nat_zero [of n] by (cases "show_nat n") auto
  then show ?thesis using False by (cases cs rule: list.exhaust; cases "tl cs") auto
qed

lemma strtol0_base10:
  assumes "split_sign (dropWhile is_space s) = (neg, t)" and "detect_base t = (10, t)"
  shows "strtol0 s = strtol10 s"
proof -
  have "is_digit_base 10 = is_digit" by (simp add: fun_eq_iff is_digit_base10)
  moreover have "base_val 10 (takeWhile is_digit t) = digits_val (takeWhile is_digit t)"
    by (rule base_val10) (auto dest: set_takeWhileD)
  ultimately show ?thesis by (simp add: strtol0_def strtol10_def assms Let_def)
qed

lemma split_sign_show: "split_sign (dropWhile is_space (show_int v)) = (v < 0, show_nat (nat \<bar>v\<bar>))"
proof (cases "v < 0")
  case True
  have "\<not> is_space (CHR ''-'')" by (simp add: is_space_def)
  then have "dropWhile is_space (CHR ''-'' # show_nat (nat (- v))) = CHR ''-'' # show_nat (nat (- v))"
    by (rule dropWhile.simps(2) [THEN trans, OF if_not_P])
  with True show ?thesis by (simp add: show_int_def)
next
  case False
  have d: "\<forall>c \<in> set (show_nat (nat v)). is_digit c" using show_nat_digits by blast
  then have "dropWhile is_space (show_nat (nat v)) = show_nat (nat v)"
    by (cases "show_nat (nat v)") (auto dest: is_digit_not_space)
  with False split_sign_digits [OF d] show ?thesis by (simp add: show_int_def)
qed

lemma strtol0_show_int: "fits_s 64 v \<Longrightarrow> strtol0 (show_int v) = (v, [], False)"
proof (cases "v = 0")
  case True
  have "strtol0 (show_int 0) = (0, [], False)" by code_simp
  then show ?thesis using True by simp
next
  case False
  then have "strtol0 (show_int v) = strtol10 (show_int v)"
    by (intro strtol0_base10 [OF split_sign_show]) (simp add: detect_base_show)
  then show "fits_s 64 v \<Longrightarrow> ?thesis" using strtol10_show_int by simp
qed

lemma show_int_c_str: "c_str (show_int v) = show_int v" "show_int v \<noteq> []"
proof -
  have "\<not> is_digit nul" and "nul \<noteq> CHR ''-''"
    by (simp_all add: is_digit_def nul_def code_def)
  then have "nul \<notin> set (show_int v)"
    by (auto simp: show_int_def dest: show_nat_digits)
  then show "c_str (show_int v) = show_int v" by (rule c_str_id)
qed (simp add: show_int_def)

lemma cfg_int_conv: "fits_s 32 v \<Longrightarrow> cfg_fromString_int (show_int v) = Some v"
  using strtol0_show_int [OF fits_s_mono, of v]
  by (simp add: cfg_fromString_int_def cfg_parse_long_def show_int_c_str show_int_c_str(2) [symmetric] cast_s_id)

lemma get_set: "\<not> csCheck (symbolTable c) \<Longrightarrow> st_get n' (symbolTable (cfg_set n vs c)) = (if n' = n
    then Some (case st_get n (symbolTable c) of None \<Rightarrow> Symbol\<lparr>sym_name := n, sym_values := vs, sym_uri := []\<rparr>
                | Some s \<Rightarrow> s\<lparr>sym_values := vs, sym_uri := []\<rparr>)
    else st_get n' (symbolTable c))"
  by (auto simp: cfg_set_def cfg_add_def st_get_plain symbols_add_symbol split: option.split)

lemma conv_all_map: "\<forall>v \<in> set vs. conv (f v) = Some v \<Longrightarrow> conv_all conv (map f vs) = Inr vs"
  by (induction vs) auto

lemma conv_bool_show: "conv_bool (cfg_toString_bool b) = Some b"
  by (cases b) (simp_all add: cfg_toString_bool_def, code_simp+)

lemma addVariable_fields [simp]: "symbolTable (addVariable n t c) = symbolTable c"
  by (simp add: addVariable_def)

section \<open>Properties\<close>

text \<open>A process whose two files include each other, for the concrete instances.\<close>

definition loop_process :: process where
  "loop_process = \<lparr>getenv = Map.empty, homeDir = ''/h'',
     openFile = (\<lambda>d n. if n = ''/a'' then Some [''include /b''] else if n = ''/b'' then Some [''include /a''] else None),
     chdir = (\<lambda>d n. n)\<rparr>"

text \<open>
  C1: Handing a symbol that was written on a single line (not the multi-line form of lists) to the entry handler defines
  the same symbol: the handler succeeds, no reference is resolved, and the name gets exactly the values that were
  written.  This holds for a name that is not empty, has no white space, backslash, double quote, comma or equals sign, does not start with
  a dollar sign and is neither include nor del, and for at least one value, where no value has a double quote, ends in a
  backslash, is a comma alone, or is the text ___CONFIG_NULL_OBJECT___ that the parser uses for missing references.  (An
  empty value is allowed.  The loop over the lines of a file comes before: it takes # for the start of a comment.)
\<close>

theorem written_entry_roundtrip:
  assumes "plain_name (sym_name s)" and "sym_values s \<noteq> []"
    and "\<forall>v \<in> set (sym_values s). dquote \<notin> set v \<and> separable v \<and> (v \<noteq> [] \<longrightarrow> last v \<noteq> bslash)"
  shows "\<exists>content. handleEntry inc p (writeSymbol s False) comment c =
     Inr (True, handleAssignment (sym_name s) content (sym_values s) comment c)"
proof -
  obtain v vs where v: "sym_values s = v # vs" using assms(2) by (cases "sym_values s") auto
  have w: "writeSymbol s False = sym_name s @ '' = '' @ written '' '' (v # vs) @ [newline]"
    using write_rest_written [of v vs] by (simp add: writeSymbol_def writeValues_def v)
  obtain ts where ts: "tokenize (writeSymbol s False) = sym_name s # ''='' # ts" "concat ts = written [] (v # vs)"
    using tokenize_written [of "sym_name s" "v # vs"] assms unfolding w v by auto
  have "written [] (v # vs) \<noteq> []"
    by (cases vs) (auto simp: escape_def quote_def)
  with ts(2) have "ts \<noteq> []" by auto
  have ev: "cfg_eval p (written [] (v # vs)) c = Inr (v # vs)"
    unfolding cfg_eval_def using assms(3) by (intro Eval_written) (auto simp: v)
  have n: "sym_name s \<noteq> []" "hd (sym_name s) \<noteq> CHR ''$''" "sym_name s \<noteq> ''include''" "sym_name s \<noteq> ''del''"
    using assms(1) by (auto simp: plain_name_def)
  show ?thesis
    using ts \<open>ts \<noteq> []\<close> ev n by (intro exI [of _ "written [] (v # vs)"]) (simp add: handleEntry_def v)
qed

theorem written_entry_roundtrip_witness:
  "\<exists>content. handleEntry (\<lambda>f c. Inl OutOfFuel) loop_process (writeSymbol (st_entry ''a.b'' [] [] [''x y'', ''z''] [] [] 0 1) False) [] (Config ''/'') =
     Inr (True, handleAssignment ''a.b'' content [''x y'', ''z''] [] (Config ''/''))"
proof -
  have "plain_name ''a.b''" by (simp add: plain_name_def is_space_def code_def)
  then show ?thesis
    using written_entry_roundtrip [of "st_entry ''a.b'' [] [] [''x y'', ''z''] [] [] 0 1" "\<lambda>f c. Inl OutOfFuel" loop_process "[]" "Config ''/''"]
    by (simp add: st_entry_def separable_def CONF_NULL_OBJECT_def)
qed

text \<open>
  What is set is what is read: after \<open>setInt\<close>, \<open>setInts\<close>, \<open>setBool\<close> or \<open>setString\<close> the matching
  getter returns the value (for integers of 32 bits), whether the option existed before or not, and
  every other option keeps its value.
\<close>

lemma set_get_roundtrip:
  assumes "\<not> csCheck (symbolTable c)" and "\<forall>v \<in> set vs. fits_s 32 v" and "fits_s 32 v"
  shows "fst (cfg_getInt n (cfg_setInt n v c)) = Inr v \<and> fst (cfg_getInts n (cfg_setInts n vs c)) = Inr vs \<and>
         fst (cfg_getBool n (cfg_setBool n b c)) = Inr b \<and> fst (cfg_getString n (cfg_setString n x c)) = Inr x \<and>
         (n' \<noteq> n \<longrightarrow> fst (cfg_getString n' (cfg_setInt n v c)) = fst (cfg_getString n' c))"
proof -
  note d = cfg_getInt_def cfg_setInt_def cfg_getInts_def cfg_setInts_def cfg_getBool_def cfg_setBool_def
    cfg_getString_def cfg_setString_def cfg_get_with_def cfg_getVec_with_def cfg_get_bool_def cfg_get_string_def Let_def
  have c: "\<not> csCheck (symbolTable (addVariable n t c))" for t using assms(1) by simp
  have "fst (cfg_getInt n (cfg_setInt n v c)) = Inr v"
    using get_set [OF c, of n n "[show_int v]"] cfg_int_conv [OF assms(3)]
    by (simp add: d split: option.split)
  moreover have "fst (cfg_getInts n (cfg_setInts n vs c)) = Inr vs"
    using get_set [OF assms(1), of n n "map show_int vs"] conv_all_map [of vs cfg_fromString_int show_int] cfg_int_conv assms(2)
    by (simp add: d split: option.split)
  moreover have "fst (cfg_getBool n (cfg_setBool n b c)) = Inr b"
    using get_set [OF assms(1), of n n "[cfg_toString_bool b]"] conv_bool_show [of b]
    by (simp add: d split: option.split)
  moreover have "fst (cfg_getString n (cfg_setString n x c)) = Inr x"
    using get_set [OF assms(1), of n n "[x]"] by (simp add: d split: option.split)
  moreover have "n' \<noteq> n \<longrightarrow> fst (cfg_getString n' (cfg_setInt n v c)) = fst (cfg_getString n' c)"
    using get_set [OF c, of n' n "[show_int v]"] by (simp add: d)
  ultimately show ?thesis by blast
qed

theorem set_get_roundtrip_witness:
  "fst (cfg_getInt ''depth'' (cfg_setInt ''depth'' (- 10) (Config ''/''))) = Inr (- 10)"
  using set_get_roundtrip [of "Config ''/''" "[]" "- 10" "''depth''" True "[]" "''x''"]
  by (simp add: Config_def incrementObjectCount_def SymbolTable_def fits_s_def)

text \<open>
  C2: Reading a configuration never recurses for ever, also when files include each other or themselves:
  includes nest at most once for every file that can be opened, since an included file is
  remembered before it is parsed, so that a depth beyond the number of these files is never reached.  Reading
  returns, and the files included before stay included, unless it comes to an include whose file name evaluates to an
  empty list of values: the code then accesses the first element of an empty vector, which is undefined behaviour.
  \<close>

theorem readConfig_returns:
  assumes "finite F" and "\<forall>d n. openFile p d n \<noteq> None \<longrightarrow> n \<in> F" and "card F < fuel"
  shows "(\<exists>ok c'. readConfig fuel p name stage raw c = Inr (ok, c') \<and> files_of c \<subseteq> files_of c') \<or>
    readConfig fuel p name stage raw c = Inl Undefined"
proof -
  have "card (F - insert name (files_of c)) < fuel"
    using assms(1,3) card_mono [of F "F - insert name (files_of c)"] by auto
  then have "ends_with (insert name (files_of c)) (handleInclude fuel p f d)"
    if "insert name (files_of c) \<subseteq> files_of d" for f d
    using handleInclude_files [OF assms(1), of p "insert name (files_of c)" fuel d f] assms(2) that by blast
  from readConfig_with_files [of name "files_of c" "handleInclude fuel p" c p stage raw, OF this]
  show ?thesis by (simp add: readConfig_def ends_def)
qed

lemma readConfig_returns_witness:
  "\<exists>c'. readConfig 3 loop_process ''/a'' 0 False (Config ''/'') = Inr (True, c') \<and> files_of (Config ''/'') \<subseteq> files_of c'"
proof -
  have "\<forall>d n. openFile loop_process d n \<noteq> None \<longrightarrow> n \<in> {''/a'', ''/b''}"
    by (simp add: loop_process_def)
  from readConfig_returns [OF _ this, of 3 "''/a''" 0 False "Config ''/''"]
  have "(\<exists>ok c'. readConfig 3 loop_process ''/a'' 0 False (Config ''/'') = Inr (ok, c') \<and> files_of (Config ''/'') \<subseteq> files_of c') \<or>
    readConfig 3 loop_process ''/a'' 0 False (Config ''/'') = Inl Undefined" by simp
  moreover have "(case readConfig 3 loop_process ''/a'' 0 False (Config ''/'') of Inl e \<Rightarrow> False | Inr r \<Rightarrow> fst r)"
    by code_simp
  ultimately show ?thesis by auto
qed

text \<open>
  An include of a variable whose values are all missing: \<open>u\<close> is not defined, so that \<open>x\<close> is the empty list.
\<close>

definition nothing_process :: process where
  "nothing_process = loop_process\<lparr>openFile := \<lambda>d n. if n = ''/a'' then Some [''x = ${u},${u}'', ''include ${x}''] else None\<rparr>"

lemma include_of_nothing:
  "(case readConfig 3 nothing_process ''/a'' 0 False (Config ''/'') of Inl e \<Rightarrow> e = Undefined | Inr r \<Rightarrow> False)"
  by code_simp

text \<open>
  An include that succeeds leaves the object where it was: the working directory (changed for a
  relative file name), the file, the stage, the line and the open name spaces are those before.
\<close>

theorem include_restores:
  assumes "handleInclude fuel p f c = Inr (True, c')"
  shows "cwd c' = cwd c \<and> same_place c c' \<and> namespaces c' = namespaces c \<and> namespacePrefix c' = namespacePrefix c"
  using handleInclude_cwd [OF assms] handleInclude_fields [OF assms] by simp

theorem include_restores_witness:
  "\<exists>c'. handleInclude 1 loop_process ''/a'' ((Config ''/'')\<lparr>symbolTable := addToIncludedFiles ''/a'' SymbolTable\<rparr>) = Inr (True, c') \<and>
        cwd c' = ''/''"
proof -
  let ?c = "(Config ''/'')\<lparr>symbolTable := addToIncludedFiles ''/a'' SymbolTable\<rparr>"
  have "handleInclude 1 loop_process ''/a'' ?c = Inr (True, ?c)"
    by (simp add: hasFileBeenIncluded_def addToIncludedFiles_def Config_def Let_def)
  from include_restores [OF this] this show ?thesis by (auto simp: Config_def)
qed

text \<open>
  A relative include that fails leaves the process in another working directory: the early
  return skips the change back, so that relative names mean other files afterwards.
\<close>

theorem failed_include_moves:
  "\<exists>c'. handleInclude 1 loop_process ''missing'' ((Config ''/'')\<lparr>fileName := ''/etc/main''\<rparr>) = Inr (False, c') \<and>
        cwd ((Config ''/'')\<lparr>fileName := ''/etc/main''\<rparr>) = ''/'' \<and> cwd c' = ''/etc''"
  by (simp add: Config_def Let_def hasFileBeenIncluded_def incrementObjectCount_def SymbolTable_def
      readInternalConfig_def readConfig_with_def loop_process_def)

text \<open>
  The prefix of names is always that of the open name spaces, after any entry (blocks opened and
  closed, assignments, deletions, includes, malformed entries), and an entry never changes the
  file, the stage or the way references are resolved.
\<close>

theorem handleEntry_namespaces:
  assumes "ns_ok c" and "handleEntry (handleInclude fuel p) p e cm c = Inr (ok, c')"
  shows "ns_ok c' \<and> same_place c c'"
  using assms(2)
proof (rule handleEntry_from)
  assume "keeps c c'"
  then show ?thesis using assms(1) by (simp add: keeps_def)
next
  fix f
  assume "handleInclude fuel p f c = Inr (ok, c')"
  then show ?thesis
    using handleInclude_fields [of fuel p f c ok c'] assms(1) by (simp add: ns_ok_def same_place_def)
qed

theorem handleEntry_namespaces_witness:
  "\<exists>c'. handleEntry (handleInclude 1 loop_process) loop_process ''scautopick {'' [] (Config ''/'') = Inr (False, c') \<and> ns_ok c'"
proof -
  have t: "tokenize ''scautopick {'' = [''scautopick'']" by code_simp
  have "handleEntry (handleInclude 1 loop_process) loop_process ''scautopick {'' [] (Config ''/'') = Inr (False, Config ''/'')"
    by (simp add: handleEntry_def t Let_def)
  moreover have "ns_ok (Config ''/'')" by (simp add: ns_ok_def Config_def prefix_of_def)
  ultimately show ?thesis using handleEntry_namespaces by blast
qed

text \<open>
  A value with \<open>#\<close> is written without quotes, and the reader takes the rest of the line for a
  comment: \<open>a#b\<close> comes back as \<open>a\<close>.
\<close>

theorem hash_becomes_comment:
  "writeSymbol (st_entry ''x'' [] [] [''a#b''] [] [] 0 1) False = ''x = a#b'' @ [newline] \<and>
   (\<exists>c'. parseFile (\<lambda>f c. Inl OutOfFuel) loop_process [''x = a#b''] (Config ''/'') = Inr (True, c') \<and>
         map_option sym_values (st_get ''x'' (symbolTable c')) = Some [''a''])"
proof
  show "writeSymbol (st_entry ''x'' [] [] [''a#b''] [] [] 0 1) False = ''x = a#b'' @ [newline]" by code_simp
  have t: "trim ''x = a#b'' = ''x = a#b''" "scan_line (hd ''x = a#b'') False [] [] ''x = a#b'' = (False, ''x = a'', ''#b'')"
    "trim ''x = a'' = ''x = a''" "tokenize (''x = a'' @ [newline]) = [''x'', ''='', ''a'']"
    by code_simp+
  have e: "cfg_eval loop_process ''a'' c = Inr [''a'']" for c
    unfolding cfg_eval_def using Eval_written [of "''a''" "[]" "[]"]
    by (simp add: escape_def quote_def quotable_def separable_def CONF_NULL_OBJECT_def)
  show "\<exists>c'. parseFile (\<lambda>f c. Inl OutOfFuel) loop_process [''x = a#b''] (Config ''/'') = Inr (True, c') \<and>
         map_option sym_values (st_get ''x'' (symbolTable c')) = Some [''a'']"
    using t by (simp add: parseFile_def parse_line_def Let_def handleEntry_def e handleAssignment_def st_get_plain
        Config_def incrementObjectCount_def SymbolTable_def symbols_add st_entry_def)
qed

end
