(* ===== verification/DmObjects.thy ===== *)
theory DmObjects
  imports Dictionary Substitution
begin

text \<open>
  The core of the data model (src/src/trunk/libs/seiscomp3/datamodel/): objects, public objects
  with their global registry (publicobject.cpp), observers (object.cpp) and notifiers with their
  pool (notifier.cpp).

  Objects live at addresses in an explicit store; a pointer is an address, a null pointer is
  \<open>None\<close>.  The classes of the model are a parameter set, a parameter and a comment, the first two
  public objects.  What an assignment copies besides the identifiers is one attribute text.  The
  store, the static members of the classes and the thread-specific switches of one thread form one
  state record.  The calls of observers are a log.
\<close>

section \<open>State\<close>

type_synonym objref = nat

datatype dm_class = CParameterSet | CParameter | CComment

record dmobject =
  cls :: dm_class
  publicID :: string
  registered :: bool
  parent :: "objref option"
  parameters :: "objref list"
  comments :: "objref list"
  comment_id :: string
  attrs :: string

datatype Operation = OP_UNDEFINED | OP_ADD | OP_REMOVE | OP_UPDATE

record notifier =
  parentID :: string
  operation :: Operation
  n_object :: "objref option"

datatype dm_event =
    onObjectAdded objref objref
  | onObjectRemoved objref objref
  | onObjectModified objref

record dm =
  obj :: "objref \<Rightarrow> dmobject"
  publicObjects :: "string \<rightharpoonup> objref"
  registerObjects :: "bool option"
  observers :: "nat list"
  events :: "(nat \<times> dm_event) list"
  notifiers :: "notifier list"
  lock :: "bool option"
  checkOnCreate :: bool

definition upd :: "objref \<Rightarrow> (dmobject \<Rightarrow> dmobject) \<Rightarrow> dm \<Rightarrow> dm" where
  "upd r f d = d\<lparr>obj := (obj d)(r := f (obj d r))\<rparr>"

definition isPublic :: "dmobject \<Rightarrow> bool" where
  "isPublic x \<longleftrightarrow> cls x \<noteq> CComment"

section \<open>Public objects\<close>

definition IsRegistrationEnabled :: "dm \<Rightarrow> bool \<times> dm" where
  "IsRegistrationEnabled d =
     (let d = (if registerObjects d = None then d\<lparr>registerObjects := Some True\<rparr> else d)
      in (the (registerObjects d), d))"

definition SetRegistrationEnabled :: "bool \<Rightarrow> dm \<Rightarrow> dm" where
  "SetRegistrationEnabled enable d = d\<lparr>registerObjects := Some enable\<rparr>"

definition registerMe :: "objref \<Rightarrow> dm \<Rightarrow> bool \<times> dm" where
  "registerMe this d =
     (case IsRegistrationEnabled d of (enabled, d) \<Rightarrow>
        if \<not> enabled then (True, d)
        else if publicID (obj d this) = [] then (False, d)
        else if publicObjects d (publicID (obj d this)) = None then
          (True, upd this (\<lambda>x. x\<lparr>registered := True\<rparr>)
                   (d\<lparr>publicObjects := (publicObjects d)(publicID (obj d this) \<mapsto> this)\<rparr>))
        else (False, d))"

definition deregisterMe :: "objref \<Rightarrow> dm \<Rightarrow> bool \<times> dm" where
  "deregisterMe this d =
     (if publicID (obj d this) = [] \<or> \<not> registered (obj d this) then (False, d)
      else if publicObjects d (publicID (obj d this)) \<noteq> None then
        (True, upd this (\<lambda>x. x\<lparr>registered := False\<rparr>)
                 (d\<lparr>publicObjects := (publicObjects d)(publicID (obj d this) := None)\<rparr>))
      else (False, d))"

definition setPublicID :: "objref \<Rightarrow> string \<Rightarrow> dm \<Rightarrow> bool \<times> dm" where
  "setPublicID this i d = registerMe this (upd this (\<lambda>x. x\<lparr>publicID := i\<rparr>) (snd (deregisterMe this d)))"

definition Find :: "string \<Rightarrow> dm \<Rightarrow> objref option" where
  "Find i d = publicObjects d i"

text \<open>\<open>T::Find\<close>: the cast to the class fails on an object of another class.\<close>

definition Find_class :: "dm_class \<Rightarrow> string \<Rightarrow> dm \<Rightarrow> objref option" where
  "Find_class c i d = (case Find i d of None \<Rightarrow> None | Some r \<Rightarrow> if cls (obj d r) = c then Some r else None)"

text \<open>
  \<open>generateId\<close> expands the pattern with a resolver (class name, counters, time), which is a
  parameter; \<open>None\<close> would be an expansion that does not return, which the default markers exclude.
\<close>

definition generateId :: "(string \<Rightarrow> string option) \<Rightarrow> objref \<Rightarrow> string \<Rightarrow> dm \<Rightarrow> dm" where
  "generateId resolver this pattern d =
     upd this (\<lambda>x. x\<lparr>publicID := the (replace resolver pattern)\<rparr>) d"

definition GenerateId :: "(string \<Rightarrow> string option) \<Rightarrow> objref option \<Rightarrow> string \<Rightarrow> dm \<Rightarrow> dm" where
  "GenerateId resolver object pattern d =
     (case object of None \<Rightarrow> d
      | Some r \<Rightarrow> snd (registerMe r (generateId resolver r pattern (snd (deregisterMe r d)))))"

definition validId :: "objref \<Rightarrow> dm \<Rightarrow> bool" where
  "validId this d \<longleftrightarrow> publicID (obj d this) \<noteq> []"

definition po_eq :: "objref \<Rightarrow> objref \<Rightarrow> dm \<Rightarrow> bool" where
  "po_eq this rhs d \<longleftrightarrow> publicID (obj d this) = publicID (obj d rhs)"

text \<open>\<open>PublicObject::operator=\<close>: the identifier is only taken over when there is none.\<close>

definition po_assign :: "objref \<Rightarrow> objref \<Rightarrow> dm \<Rightarrow> dm" where
  "po_assign this other d =
     (if this = other then d
      else if publicID (obj d this) = [] then upd this (\<lambda>x. x\<lparr>publicID := publicID (obj d other)\<rparr>) d else d)"

section \<open>Observers\<close>

definition RegisterObserver :: "nat \<Rightarrow> dm \<Rightarrow> bool \<times> dm" where
  "RegisterObserver ob d =
     (case find_index (\<lambda>x. x = ob) (observers d) of
        Some _ \<Rightarrow> (False, d)
      | None \<Rightarrow> (True, d\<lparr>observers := observers d @ [ob]\<rparr>))"

definition UnregisterObserver :: "nat \<Rightarrow> dm \<Rightarrow> bool \<times> dm" where
  "UnregisterObserver ob d =
     (case find_index (\<lambda>x. x = ob) (observers d) of
        None \<Rightarrow> (False, d)
      | Some i \<Rightarrow> (True, d\<lparr>observers := erase_at i (observers d)\<rparr>))"

definition notify :: "dm_event \<Rightarrow> dm \<Rightarrow> dm" where
  "notify e d = d\<lparr>events := events d @ map (\<lambda>ob. (ob, e)) (observers d)\<rparr>"

definition childAdded :: "objref \<Rightarrow> objref \<Rightarrow> dm \<Rightarrow> dm" where
  "childAdded this child d = notify (onObjectAdded this child) d"

definition childRemoved :: "objref \<Rightarrow> objref \<Rightarrow> dm \<Rightarrow> dm" where
  "childRemoved this child d = notify (onObjectRemoved this child) d"

definition modified :: "objref \<Rightarrow> dm \<Rightarrow> dm" where
  "modified this d = notify (onObjectModified this) d"

definition setParent :: "objref \<Rightarrow> objref option \<Rightarrow> dm \<Rightarrow> bool \<times> dm" where
  "setParent this p d =
     (if parent (obj d this) \<noteq> None \<and> p \<noteq> None then (False, d)
      else (True, upd this (\<lambda>x. x\<lparr>parent := p\<rparr>) d))"

section \<open>Notifiers\<close>

definition IsEnabled :: "dm \<Rightarrow> bool \<times> dm" where
  "IsEnabled d =
     (let d = (if lock d = None then d\<lparr>lock := Some True\<rparr> else d)
      in (the (lock d) = False, d))"

definition SetEnabled :: "bool \<Rightarrow> dm \<Rightarrow> dm" where
  "SetEnabled e d = d\<lparr>lock := Some (\<not> e)\<rparr>"

definition Disable :: "dm \<Rightarrow> dm" where "Disable d = SetEnabled False d"
definition Enable :: "dm \<Rightarrow> dm" where "Enable d = SetEnabled True d"

definition SetCheckEnabled :: "bool \<Rightarrow> dm \<Rightarrow> dm" where
  "SetCheckEnabled e d = d\<lparr>checkOnCreate := e\<rparr>"

datatype CompareResult = CR_DIFFERENT | CR_EQUAL | CR_OPPOSITE | CR_OVERRIDE

fun ResultTable :: "Operation \<Rightarrow> Operation \<Rightarrow> CompareResult" where
  "ResultTable OP_UNDEFINED _ = CR_DIFFERENT"
| "ResultTable _ OP_UNDEFINED = CR_DIFFERENT"
| "ResultTable OP_ADD OP_ADD = CR_EQUAL"
| "ResultTable OP_ADD OP_REMOVE = CR_OPPOSITE"
| "ResultTable OP_ADD OP_UPDATE = CR_EQUAL"
| "ResultTable OP_REMOVE OP_ADD = CR_OPPOSITE"
| "ResultTable OP_REMOVE OP_REMOVE = CR_EQUAL"
| "ResultTable OP_REMOVE OP_UPDATE = CR_EQUAL"
| "ResultTable OP_UPDATE OP_ADD = CR_OVERRIDE"
| "ResultTable OP_UPDATE OP_REMOVE = CR_OVERRIDE"
| "ResultTable OP_UPDATE OP_UPDATE = CR_EQUAL"

text \<open>\<open>cmp\<close> of a stored notifier and a new one, which are never the same object.\<close>

definition cmp :: "notifier \<Rightarrow> notifier \<Rightarrow> CompareResult" where
  "cmp this n =
     (if n_object this = None \<or> n_object n = None then CR_DIFFERENT
      else if n_object this \<noteq> n_object n then CR_DIFFERENT
      else if parentID this \<noteq> parentID n then CR_DIFFERENT
      else ResultTable (operation this) (operation n))"

text \<open>The loop over the pool: \<open>None\<close> when the new notifier has to be queued, else the pool left.\<close>

fun scan_pool :: "notifier \<Rightarrow> notifier list \<Rightarrow> notifier list option" where
  "scan_pool n [] = None"
| "scan_pool n (s # ss) =
     (let res = cmp s n in
      if res = CR_EQUAL then Some (s # ss)
      else if res = CR_OPPOSITE then Some ss
      else map_option ((#) s) (scan_pool n ss))"

definition enqueue :: "bool \<Rightarrow> notifier \<Rightarrow> notifier list \<Rightarrow> notifier list \<times> bool" where
  "enqueue check n pool =
     (case (if check then scan_pool n pool else None) of
        Some pool \<Rightarrow> (pool, False)
      | None \<Rightarrow> (pool @ [n], True))"

text \<open>\<open>Create\<close> returns whether it gave a notifier.\<close>

definition Create :: "string \<Rightarrow> Operation \<Rightarrow> objref option \<Rightarrow> dm \<Rightarrow> bool \<times> dm" where
  "Create parentId op object d =
     (case IsEnabled d of (enabled, d) \<Rightarrow>
        if \<not> enabled then (False, d)
        else if parentId = [] then (False, d)
        else if object = None then (False, d)
        else (case enqueue (checkOnCreate d) \<lparr>parentID = parentId, operation = op, n_object = object\<rparr> (notifiers d) of
                (pool, created) \<Rightarrow> (created, d\<lparr>notifiers := pool\<rparr>)))"

definition Create_for :: "objref option \<Rightarrow> Operation \<Rightarrow> objref option \<Rightarrow> dm \<Rightarrow> bool \<times> dm" where
  "Create_for p op object d =
     (case p of None \<Rightarrow> (False, d) | Some r \<Rightarrow> Create (publicID (obj d r)) op object d)"

text \<open>\<open>GetMessage\<close>: the notifiers of the message, or no message.\<close>

definition GetMessage :: "bool \<Rightarrow> dm \<Rightarrow> notifier list option \<times> dm" where
  "GetMessage allNotifier d =
     (case notifiers d of
        [] \<Rightarrow> (None, d)
      | n # ns \<Rightarrow> if allNotifier then (Some (n # ns), d\<lparr>notifiers := []\<rparr>)
                   else (Some [n], d\<lparr>notifiers := ns\<rparr>))"

definition Clear :: "dm \<Rightarrow> dm" where
  "Clear d = d\<lparr>notifiers := []\<rparr>"

definition update :: "objref \<Rightarrow> dm \<Rightarrow> dm" where
  "update this d =
     (let d = modified this d in
      case IsEnabled d of (enabled, d) \<Rightarrow>
        if \<not> enabled then d else snd (Create_for (parent (obj d this)) OP_UPDATE (Some this) d))"

text \<open>\<open>NotifierCreator::visit\<close>.\<close>

definition visit :: "Operation \<Rightarrow> objref \<Rightarrow> dm \<Rightarrow> bool \<times> dm" where
  "visit op object d = Create_for (parent (obj d object)) op (Some object) d"

section \<open>The registry\<close>

text \<open>
  Every registered identifier leads to an object that has it and knows that it is registered, and
  an object that thinks it is registered is the one found.
\<close>

definition reg_inv :: "dm \<Rightarrow> bool" where
  "reg_inv d \<longleftrightarrow> (\<forall>i r. publicObjects d i = Some r \<longleftrightarrow> registered (obj d r) \<and> publicID (obj d r) = i) \<and>
     publicObjects d [] = None"

lemma reg_invD: "reg_inv d \<Longrightarrow> publicObjects d i = Some r \<longleftrightarrow> registered (obj d r) \<and> publicID (obj d r) = i"
  "reg_inv d \<Longrightarrow> publicObjects d [] = None"
  by (simp_all add: reg_inv_def)

text \<open>The thread-specific switches are created by the first query.\<close>

lemma IsRegistrationEnabled_eq: "IsRegistrationEnabled d =
    (registerObjects d \<noteq> Some False, d\<lparr>registerObjects := Some (registerObjects d \<noteq> Some False)\<rparr>)"
  by (cases d) (auto simp: IsRegistrationEnabled_def Let_def)

lemma IsEnabled_eq: "IsEnabled d = (lock d = Some False, d\<lparr>lock := Some (lock d \<noteq> Some False)\<rparr>)"
  by (cases d) (auto simp: IsEnabled_def Let_def)

lemmas dm_switches = IsRegistrationEnabled_eq IsEnabled_eq

lemma reg_inv_enter:
  assumes "reg_inv d" and "publicObjects d (publicID (obj d r)) = None" and "publicID (obj d r) \<noteq> []"
  shows "reg_inv (upd r (\<lambda>x. x\<lparr>registered := True\<rparr>) (d\<lparr>publicObjects := (publicObjects d)(publicID (obj d r) \<mapsto> r)\<rparr>))"
proof -
  have "\<not> (registered (obj d r') \<and> publicID (obj d r') = publicID (obj d r))" for r'
    using reg_invD(1) [OF assms(1), of "publicID (obj d r)" r'] assms(2) by simp
  then show ?thesis
    using reg_invD [OF assms(1)] assms(3) by (auto simp: reg_inv_def upd_def)
qed

lemma reg_inv_leave:
  assumes "reg_inv d" and "registered (obj d r)"
  shows "reg_inv (upd r (\<lambda>x. x\<lparr>registered := False\<rparr>) (d\<lparr>publicObjects := (publicObjects d)(publicID (obj d r) := None)\<rparr>))"
proof -
  have "publicObjects d (publicID (obj d r)) = Some r"
    using reg_invD(1) [OF assms(1)] assms(2) by simp
  then have "registered (obj d r') \<and> publicID (obj d r') = publicID (obj d r) \<longrightarrow> r' = r" for r'
    using reg_invD(1) [OF assms(1), of "publicID (obj d r)" r'] by auto
  then show ?thesis
    using reg_invD [OF assms(1)] by (auto simp: reg_inv_def upd_def)
qed

lemma reg_inv_switch [simp]: "reg_inv (d\<lparr>registerObjects := x\<rparr>) = reg_inv d"
  by (simp add: reg_inv_def)

lemma reg_inv_register [inv_intro]: "reg_inv d \<Longrightarrow> reg_inv (snd (registerMe r d))"
  using reg_inv_enter [of "d\<lparr>registerObjects := Some True\<rparr>" r]
  by (auto simp: registerMe_def dm_switches)

lemma reg_inv_deregister [inv_intro]: "reg_inv d \<Longrightarrow> reg_inv (snd (deregisterMe r d))"
  using reg_inv_leave [of d r] by (simp add: deregisterMe_def)

lemma deregister_unregistered: "reg_inv d \<Longrightarrow> \<not> registered (obj (snd (deregisterMe r d)) r)"
  using reg_invD(2) [of d] reg_invD(1) [of d "publicID (obj d r)" r]
  by (auto simp: deregisterMe_def upd_def)

lemma reg_inv_upd [inv_intro]:
  "reg_inv d \<Longrightarrow> \<not> registered (obj d r) \<Longrightarrow> (\<And>x. registered (f x) = registered x) \<Longrightarrow> reg_inv (upd r f d)"
  by (auto simp: reg_inv_def upd_def)

lemma reg_inv_setPublicID [inv_intro]: "reg_inv d \<Longrightarrow> reg_inv (snd (setPublicID r i d))"
  unfolding setPublicID_def
  by (intro reg_inv_register reg_inv_upd reg_inv_deregister) (simp_all add: upd_def deregister_unregistered)

lemma reg_inv_GenerateId [inv_intro]: "reg_inv d \<Longrightarrow> reg_inv (GenerateId rs r pat d)"
  unfolding GenerateId_def generateId_def
  by (auto simp: upd_def deregister_unregistered split: option.split
      intro!: reg_inv_register reg_inv_upd [unfolded upd_def] reg_inv_deregister)

lemma reg_inv_assign [inv_intro]: "reg_inv d \<Longrightarrow> reg_inv (po_assign r r' d)"
proof -
  assume r: "reg_inv d"
  have "\<not> registered (obj d r)" if "publicID (obj d r) = []"
    using reg_invD(2) [OF r] reg_invD(1) [OF r, of "[]" r] that by simp
  then show ?thesis using r by (auto simp: po_assign_def intro!: reg_inv_upd)
qed

section \<open>The pool as seen by one object\<close>

text \<open>The operations queued for one object under one parent, and what the scan does to them.\<close>

definition ops_of :: "string \<Rightarrow> objref \<Rightarrow> notifier list \<Rightarrow> Operation list" where
  "ops_of p r pool = map operation (filter (\<lambda>n. parentID n = p \<and> n_object n = Some r) pool)"

fun scan_ops :: "Operation \<Rightarrow> Operation list \<Rightarrow> Operation list option" where
  "scan_ops op [] = None"
| "scan_ops op (x # xs) =
     (case ResultTable x op of
        CR_EQUAL \<Rightarrow> Some (x # xs)
      | CR_OPPOSITE \<Rightarrow> Some xs
      | _ \<Rightarrow> map_option ((#) x) (scan_ops op xs))"

definition enqueue_ops :: "Operation list \<Rightarrow> Operation \<Rightarrow> Operation list" where
  "enqueue_ops ops op = (case scan_ops op ops of Some ops \<Rightarrow> ops | None \<Rightarrow> ops @ [op])"

definition Notifier :: "string \<Rightarrow> Operation \<Rightarrow> objref \<Rightarrow> notifier" where
  "Notifier p op r = \<lparr>parentID = p, operation = op, n_object = Some r\<rparr>"

lemma cmp_Notifier: "cmp s (Notifier p op r) =
    (if parentID s = p \<and> n_object s = Some r then ResultTable (operation s) op else CR_DIFFERENT)"
  by (auto simp: cmp_def Notifier_def)

lemma scan_pool_ops:
  "case scan_pool (Notifier p op r) pool of
     None \<Rightarrow> scan_ops op (ops_of p r pool) = None
   | Some pool' \<Rightarrow> scan_ops op (ops_of p r pool) = Some (ops_of p r pool') \<and>
       (\<forall>p' r'. (p', r') \<noteq> (p, r) \<longrightarrow> ops_of p' r' pool' = ops_of p' r' pool)"
proof (induction pool)
  case (Cons s pool)
  show ?case
  proof (cases "parentID s = p \<and> n_object s = Some r")
    case True
    then show ?thesis
      using Cons.IH by (cases "ResultTable (operation s) op")
        (auto simp: cmp_Notifier ops_of_def Let_def split: option.split_asm option.split)
  next
    case False
    then show ?thesis
      using Cons.IH by (auto simp: cmp_Notifier ops_of_def Let_def split: option.split_asm option.split)
  qed
qed (simp add: ops_of_def)

lemma enqueue_ops_of: "ops_of p' r' (fst (enqueue True (Notifier p op r) pool)) =
    (if p' = p \<and> r' = r then enqueue_ops (ops_of p r pool) op else ops_of p' r' pool)"
  using scan_pool_ops [where p = p and op = op and r = r and pool = pool]
  by (auto simp: enqueue_def enqueue_ops_def split: option.split_asm option.split)
    (auto simp: ops_of_def Notifier_def)

text \<open>
  What the operations mean for the presence of the object under its parent: an object is added when
  it is not there, removed or updated when it is; \<open>None\<close> marks a sequence that is not executable.
\<close>

fun effect :: "Operation \<Rightarrow> bool \<Rightarrow> bool option" where
  "effect OP_ADD present = (if present then None else Some True)"
| "effect OP_REMOVE present = (if present then Some False else None)"
| "effect OP_UPDATE present = (if present then Some True else None)"
| "effect OP_UNDEFINED present = None"

definition run :: "Operation list \<Rightarrow> bool \<Rightarrow> bool option" where
  "run ops p = foldl (\<lambda>s op. Option.bind s (effect op)) (Some p) ops"

lemma run_snoc: "run (ops @ [op]) p = Option.bind (run ops p) (effect op)"
  by (simp add: run_def)

lemma compress_shape:
  "run ops p = Some q \<Longrightarrow> foldl enqueue_ops [] ops \<in>
     (if p \<and> q then {[], [OP_UPDATE]} else if p then {[OP_REMOVE], [OP_UPDATE, OP_REMOVE]}
      else if q then {[OP_ADD]} else {[]})"
proof (induction ops arbitrary: q rule: rev_induct)
  case Nil
  then show ?case by (auto simp: run_def)
next
  case (snoc op ops)
  from snoc.prems obtain m where m: "run ops p = Some m" "effect op m = Some q"
    by (auto simp: run_snoc bind_eq_Some_conv)
  show ?case
    using snoc.IH [OF m(1)] m(2)
    by (cases op; cases p; cases m) (auto simp: enqueue_ops_def)
qed

lemma run_compress: "run ops p = Some q \<Longrightarrow> run (foldl enqueue_ops [] ops) p = Some q"
  using compress_shape [of ops p q] by (cases p; cases q) (auto simp: run_def)

section \<open>Properties of the core\<close>

text \<open>
  C7: The registry of public objects is exact under registration, deregistration, renaming,
  generated identifiers and assignment: an object is found under an identifier exactly when it has
  it and is registered, so no two registered objects share an identifier.
\<close>

theorem registry_exact:
  assumes "reg_inv d"
  shows "reg_inv (snd (registerMe r d)) \<and> reg_inv (snd (deregisterMe r d)) \<and> reg_inv (snd (setPublicID r i d)) \<and>
         reg_inv (GenerateId resolver r' pat d) \<and> reg_inv (po_assign r r2 d) \<and>
         (\<forall>x y. registered (obj d x) \<and> registered (obj d y) \<and> po_eq x y d \<longrightarrow> x = y)"
proof -
  have "x = y" if "registered (obj d x)" "registered (obj d y)" "po_eq x y d" for x y
    using reg_invD(1) [OF assms, of "publicID (obj d x)" x] reg_invD(1) [OF assms, of "publicID (obj d x)" y] that
    by (simp add: po_eq_def)
  then show ?thesis using assms by (auto intro: inv_intro)
qed

definition new_object :: "dm_class \<Rightarrow> string \<Rightarrow> dmobject" where
  "new_object c i = \<lparr>cls = c, publicID = i, registered = False, parent = None, parameters = [], comments = [],
     comment_id = [], attrs = []\<rparr>"

definition fresh_dm :: "(objref \<Rightarrow> dmobject) \<Rightarrow> dm" where
  "fresh_dm os = \<lparr>obj = os, publicObjects = Map.empty, registerObjects = None, observers = [], events = [],
     notifiers = [], lock = None, checkOnCreate = True\<rparr>"

theorem registry_exact_witness:
  "reg_inv (snd (setPublicID 3 ''a'' (fresh_dm (\<lambda>r. new_object CParameter []))))"
proof -
  have "reg_inv (fresh_dm (\<lambda>r. new_object CParameter []))"
    by (simp add: reg_inv_def fresh_dm_def new_object_def)
  from registry_exact [OF this, of 3 "''a''" Map.empty None "[]" 0] show ?thesis by blast
qed

text \<open>
  Renaming with registration enabled: \<open>setPublicID\<close> succeeds exactly when the identifier is not
  empty and free (or the object's own), then the object is found under the new identifier, and in
  every case no longer under the old one.
\<close>

theorem setPublicID_moves:
  assumes "reg_inv d" and "registerObjects d \<noteq> Some False"
  shows "(fst (setPublicID r i d) \<longleftrightarrow> i \<noteq> [] \<and> Find i d \<in> {None, Some r}) \<and>
         (fst (setPublicID r i d) \<longrightarrow> Find i (snd (setPublicID r i d)) = Some r) \<and>
         (i \<noteq> publicID (obj d r) \<longrightarrow> Find (publicID (obj d r)) (snd (setPublicID r i d)) \<noteq> Some r) \<and>
         (\<forall>j. j \<noteq> i \<longrightarrow> j \<noteq> publicID (obj d r) \<longrightarrow> Find j (snd (setPublicID r i d)) = Find j d)"
proof -
  let ?old = "publicID (obj d r)" and ?e = "snd (deregisterMe r d)"
  let ?f = "upd r (\<lambda>x. x\<lparr>publicID := i\<rparr>) ?e"
  have reg: "registerObjects ?e = registerObjects d" by (simp add: deregisterMe_def upd_def)
  have pub: "publicObjects ?e = (if registered (obj d r) then (publicObjects d)(?old := None) else publicObjects d)"
    using reg_invD [OF assms(1)] by (auto simp: deregisterMe_def upd_def)
  have old: "publicObjects d j = Some r \<longleftrightarrow> registered (obj d r) \<and> j = ?old" for j
    using reg_invD(1) [OF assms(1), of j r] by auto
  have f: "fst (setPublicID r i d) \<longleftrightarrow> i \<noteq> [] \<and> publicObjects ?e i = None"
    using assms(2) reg by (simp add: setPublicID_def registerMe_def dm_switches upd_def)
  have s: "publicObjects (snd (setPublicID r i d)) =
      (if i \<noteq> [] \<and> publicObjects ?e i = None then (publicObjects ?e)(i \<mapsto> r) else publicObjects ?e)"
    using assms(2) reg by (simp add: setPublicID_def registerMe_def dm_switches upd_def)
  have "publicObjects ?e i = None \<longleftrightarrow> publicObjects d i \<in> {None, Some r}"
    using old [of i] by (cases "publicObjects d i") (auto simp: pub)
  moreover have "publicObjects ?e ?old \<noteq> Some r"
    using old [of ?old] by (auto simp: pub)
  moreover have "j \<noteq> ?old \<Longrightarrow> publicObjects ?e j = publicObjects d j" for j
    by (simp add: pub)
  ultimately show ?thesis
    by (auto simp: f s Find_def)
qed

theorem setPublicID_moves_witness:
  "Find ''a'' (snd (setPublicID 3 ''a'' (fresh_dm (\<lambda>r. new_object CParameter [])))) = Some 3"
proof -
  have "reg_inv (fresh_dm (\<lambda>r. new_object CParameter []))"
    by (simp add: reg_inv_def fresh_dm_def new_object_def)
  from setPublicID_moves [OF this, of 3 "''a''"] show ?thesis by (simp add: fresh_dm_def Find_def)
qed

text \<open>
  C8: Checking on creation loses no net effect: whatever notifiers are requested for an object under
  a parent, interleaved with requests for others, if the requests are executable from its presence
  (added when absent, removed and updated when present) then so is what stays in the pool, with the
  same presence at the end.
\<close>

theorem pool_net_effect:
  assumes "run (map (\<lambda>(p, op, r). op) (filter (\<lambda>(p, op, r). p = pid \<and> r = ref) reqs)) present = Some q"
  shows "run (ops_of pid ref (foldl (\<lambda>pool (p, op, r). fst (enqueue True (Notifier p op r) pool)) [] reqs)) present = Some q"
proof -
  have "ops_of pid ref (foldl (\<lambda>pool (p, op, r). fst (enqueue True (Notifier p op r) pool)) [] reqs) =
      foldl enqueue_ops [] (map (\<lambda>(p, op, r). op) (filter (\<lambda>(p, op, r). p = pid \<and> r = ref) reqs))"
  proof (induction reqs rule: rev_induct)
    case (snoc x reqs)
    obtain p op r where x: "x = (p, op, r)" by (cases x)
    show ?case
      using snoc by (auto simp: x enqueue_ops_of)
  qed (simp add: ops_of_def)
  then show ?thesis using run_compress [OF assms] by simp
qed

theorem pool_net_effect_witness:
  "run (ops_of ''p'' 1 (foldl (\<lambda>pool (p, op, r). fst (enqueue True (Notifier p op r) pool)) []
     [(''p'', OP_ADD, 1), (''p'', OP_ADD, 2), (''p'', OP_UPDATE, 1), (''p'', OP_REMOVE, 1)])) False = Some False"
  by (rule pool_net_effect) (simp add: run_def)

text \<open>
  A thread that has never touched the switch has notifiers disabled, although the interface
  documents the default as enabled: the first query stores a set lock.
\<close>

theorem notifiers_disabled_by_default:
  "lock d = None \<Longrightarrow> fst (IsEnabled d) = False \<and> fst (Create p op r d) = False"
  by (simp add: Create_def IsEnabled_eq)

theorem notifiers_disabled_by_default_witness:
  "fst (IsEnabled (fresh_dm (\<lambda>r. new_object CParameter []))) = False"
  using notifiers_disabled_by_default [of "fresh_dm (\<lambda>r. new_object CParameter [])"] by (simp add: fresh_dm_def)

end
