(* ===== verification/DmContainers.thy ===== *)
theory DmContainers
  imports DmObjects
begin

text \<open>
  Containers of the data model: parameter sets with their parameters, and the comments of both
  (src/src/trunk/libs/seiscomp3/datamodel/parameterset.cpp, parameter.cpp), and \<open>Notifier::apply\<close>,
  which repeats a change on the objects of the receiver.  The code has the same text for each kind
  of child; here it is one definition with the list of children as argument (how to read it from an
  object and how to change it) and the visitor of the child.

  An operation that would go through a null pointer returns \<open>None\<close>.
\<close>

section \<open>Visitors\<close>

definition visit_all :: "(objref \<Rightarrow> dm \<Rightarrow> dm) \<Rightarrow> objref list \<Rightarrow> dm \<Rightarrow> dm" where
  "visit_all f rs d = foldl (\<lambda>d r. f r d) d rs"

definition accept_Comment :: "Operation \<Rightarrow> objref \<Rightarrow> dm \<Rightarrow> dm" where
  "accept_Comment op r d = snd (visit op r d)"

definition accept_Parameter :: "Operation \<Rightarrow> objref \<Rightarrow> dm \<Rightarrow> dm" where
  "accept_Parameter op r d =
     (if op \<noteq> OP_REMOVE then
        (case visit op r d of (ok, d) \<Rightarrow>
           if \<not> ok then d else visit_all (accept_Comment op) (comments (obj d r)) d)
      else
        snd (visit op r (visit_all (accept_Comment op) (comments (obj d r)) d)))"

definition accept_ParameterSet :: "Operation \<Rightarrow> objref \<Rightarrow> dm \<Rightarrow> dm" where
  "accept_ParameterSet op r d =
     (if op \<noteq> OP_REMOVE then
        (case visit op r d of (ok, d) \<Rightarrow>
           if \<not> ok then d
           else visit_all (accept_Comment op) (comments (obj d r))
                  (visit_all (accept_Parameter op) (parameters (obj d r)) d))
      else
        snd (visit op r (visit_all (accept_Comment op) (comments (obj d r))
                           (visit_all (accept_Parameter op) (parameters (obj d r)) d))))"

section \<open>Adding and removing children\<close>

definition attach_child :: "((objref list \<Rightarrow> objref list) \<Rightarrow> dmobject \<Rightarrow> dmobject) \<Rightarrow>
    (Operation \<Rightarrow> objref \<Rightarrow> dm \<Rightarrow> dm) \<Rightarrow> objref \<Rightarrow> objref \<Rightarrow> dm \<Rightarrow> bool \<times> dm" where
  "attach_child put accept this child d =
     (let d = upd this (put (\<lambda>cs. cs @ [child])) d;
          d = snd (setParent child (Some this) d)
      in case IsEnabled d of (enabled, d) \<Rightarrow>
        let d = (if enabled then accept OP_ADD child d else d)
        in (True, childAdded this child d))"

definition remove_at :: "(dmobject \<Rightarrow> objref list) \<Rightarrow> ((objref list \<Rightarrow> objref list) \<Rightarrow> dmobject \<Rightarrow> dmobject) \<Rightarrow>
    (Operation \<Rightarrow> objref \<Rightarrow> dm \<Rightarrow> dm) \<Rightarrow> objref \<Rightarrow> nat \<Rightarrow> dm \<Rightarrow> bool \<times> dm" where
  "remove_at get put accept this i d =
     (if i \<ge> length (get (obj d this)) then (False, d)
      else
       (let child = get (obj d this) ! i in
        case IsEnabled d of (enabled, d) \<Rightarrow>
          let d = (if enabled then accept OP_REMOVE child d else d);
              d = snd (setParent child None d);
              d = childRemoved this child d
          in (True, upd this (put (erase_at i)) d)))"

definition remove_child :: "(dmobject \<Rightarrow> objref list) \<Rightarrow> ((objref list \<Rightarrow> objref list) \<Rightarrow> dmobject \<Rightarrow> dmobject) \<Rightarrow>
    (Operation \<Rightarrow> objref \<Rightarrow> dm \<Rightarrow> dm) \<Rightarrow> objref \<Rightarrow> objref option \<Rightarrow> dm \<Rightarrow> bool \<times> dm" where
  "remove_child get put accept this child d =
     (case child of None \<Rightarrow> (False, d)
      | Some c \<Rightarrow>
          if parent (obj d c) \<noteq> Some this then (False, d)
          else (case find_index (\<lambda>x. x = c) (get (obj d this)) of
                  None \<Rightarrow> (False, d)
                | Some i \<Rightarrow> remove_at get put accept this i d))"

definition add_Parameter :: "objref \<Rightarrow> objref option \<Rightarrow> dm \<Rightarrow> bool \<times> dm" where
  "add_Parameter this child d =
     (case child of None \<Rightarrow> (False, d)
      | Some c \<Rightarrow>
          if parent (obj d c) \<noteq> None then (False, d)
          else
           (case IsRegistrationEnabled d of (enabled, d) \<Rightarrow>
              case (if enabled then Find_class CParameter (publicID (obj d c)) d else None) of
                None \<Rightarrow> attach_child parameters_update accept_Parameter this c d
              | Some cached \<Rightarrow>
                  if parent (obj d cached) \<noteq> None then (False, d)
                  else attach_child parameters_update accept_Parameter this cached d))"

definition remove_Parameter :: "objref \<Rightarrow> objref option \<Rightarrow> dm \<Rightarrow> bool \<times> dm" where
  "remove_Parameter = remove_child parameters parameters_update accept_Parameter"

definition removeParameter :: "objref \<Rightarrow> nat \<Rightarrow> dm \<Rightarrow> bool \<times> dm" where
  "removeParameter = remove_at parameters parameters_update accept_Parameter"

definition findParameter :: "objref \<Rightarrow> string \<Rightarrow> dm \<Rightarrow> objref option" where
  "findParameter this i d = find (\<lambda>c. publicID (obj d c) = i) (parameters (obj d this))"

definition comment_of :: "objref \<Rightarrow> string \<Rightarrow> dm \<Rightarrow> objref option" where
  "comment_of this i d = find (\<lambda>c. i = comment_id (obj d c)) (comments (obj d this))"

definition add_Comment :: "objref \<Rightarrow> objref option \<Rightarrow> dm \<Rightarrow> bool \<times> dm" where
  "add_Comment this child d =
     (case child of None \<Rightarrow> (False, d)
      | Some c \<Rightarrow>
          if parent (obj d c) \<noteq> None then (False, d)
          else if \<exists>x \<in> set (comments (obj d this)). comment_id (obj d x) = comment_id (obj d c) then (False, d)
          else attach_child comments_update accept_Comment this c d)"

definition remove_Comment :: "objref \<Rightarrow> objref option \<Rightarrow> dm \<Rightarrow> bool \<times> dm" where
  "remove_Comment = remove_child comments comments_update accept_Comment"

definition removeComment :: "objref \<Rightarrow> nat \<Rightarrow> dm \<Rightarrow> bool \<times> dm" where
  "removeComment = remove_at comments comments_update accept_Comment"

definition removeComment_index :: "objref \<Rightarrow> string \<Rightarrow> dm \<Rightarrow> bool \<times> dm" where
  "removeComment_index this i d =
     (case comment_of this i d of None \<Rightarrow> (False, d) | Some c \<Rightarrow> remove_Comment this (Some c) d)"

section \<open>Assignment and update\<close>

text \<open>\<open>operator=\<close> of the three classes.\<close>

definition copy :: "objref \<Rightarrow> objref \<Rightarrow> dm \<Rightarrow> dm" where
  "copy this other d =
     (if cls (obj d this) = CComment
      then upd this (\<lambda>x. x\<lparr>comment_id := comment_id (obj d other), attrs := attrs (obj d other)\<rparr>) d
      else upd this (\<lambda>x. x\<lparr>attrs := attrs (obj d other)\<rparr>) (po_assign this other d))"

text \<open>\<open>assign\<close>: the test is on the argument, not on the result of the cast.\<close>

definition assign :: "objref \<Rightarrow> objref option \<Rightarrow> dm \<Rightarrow> (bool \<times> dm) option" where
  "assign this other d =
     (case other of None \<Rightarrow> Some (False, d)
      | Some r \<Rightarrow> if cls (obj d r) \<noteq> cls (obj d this) then None else Some (True, copy this r d))"

definition updateChild :: "objref \<Rightarrow> objref \<Rightarrow> dm \<Rightarrow> bool \<times> dm" where
  "updateChild this child d =
     (if cls (obj d this) = CParameterSet \<and> cls (obj d child) = CParameter then
        (case Find_class CParameter (publicID (obj d child)) d of
           None \<Rightarrow> (False, d)
         | Some e \<Rightarrow> if parent (obj d e) = Some this then (True, update e (copy e child d)) else (False, d))
      else if cls (obj d child) = CComment \<and> cls (obj d this) \<noteq> CComment then
        (case comment_of this (comment_id (obj d child)) d of
           None \<Rightarrow> (False, d)
         | Some e \<Rightarrow> (True, update e (copy e child d)))
      else (False, d))"

definition attachTo :: "objref \<Rightarrow> objref option \<Rightarrow> dm \<Rightarrow> bool \<times> dm" where
  "attachTo this p d =
     (case p of None \<Rightarrow> (False, d)
      | Some p \<Rightarrow>
          if cls (obj d this) = CParameter \<and> cls (obj d p) = CParameterSet then add_Parameter p (Some this) d
          else if cls (obj d this) = CComment \<and> cls (obj d p) \<noteq> CComment then add_Comment p (Some this) d
          else (False, d))"

definition detachFrom :: "objref \<Rightarrow> objref option \<Rightarrow> dm \<Rightarrow> bool \<times> dm" where
  "detachFrom this object d =
     (case object of None \<Rightarrow> (False, d)
      | Some p \<Rightarrow>
          if cls (obj d this) = CParameter \<and> cls (obj d p) = CParameterSet then
            (if parent (obj d this) = Some p then remove_Parameter p (Some this) d
             else (case findParameter p (publicID (obj d this)) d of
                     Some c \<Rightarrow> remove_Parameter p (Some c) d
                   | None \<Rightarrow> (False, d)))
          else if cls (obj d this) = CComment \<and> cls (obj d p) \<noteq> CComment then
            (if parent (obj d this) = Some p then remove_Comment p (Some this) d
             else (case comment_of p (comment_id (obj d this)) d of
                     Some c \<Rightarrow> remove_Comment p (Some c) d
                   | None \<Rightarrow> (False, d)))
          else (False, d))"

definition detach :: "objref \<Rightarrow> dm \<Rightarrow> bool \<times> dm" where
  "detach this d = (if parent (obj d this) = None then (False, d) else detachFrom this (parent (obj d this)) d)"

definition apply_notifier :: "notifier \<Rightarrow> dm \<Rightarrow> (bool \<times> dm) option" where
  "apply_notifier n d =
     (case n_object n of None \<Rightarrow> Some (False, d)
      | Some object \<Rightarrow>
          (case Find (parentID n) d of
             None \<Rightarrow>
               if operation n = OP_UPDATE \<and> isPublic (obj d object) then
                 (case Find (publicID (obj d object)) d of
                    None \<Rightarrow> Some (False, d)
                  | Some po \<Rightarrow>
                      if po = object then Some (False, d)
                      else
                       (case IsEnabled d of (saveState, d) \<Rightarrow>
                          case assign po (Some object) (Disable d) of
                            None \<Rightarrow> None
                          | Some (_, d) \<Rightarrow> Some (True, SetEnabled saveState (update po d))))
               else Some (False, d)
           | Some publicObject \<Rightarrow>
               (case IsEnabled d of (saveState, d) \<Rightarrow>
                  let d = Disable d in
                  case (case operation n of
                          OP_ADD \<Rightarrow> attachTo object (Some publicObject) d
                        | OP_REMOVE \<Rightarrow> detachFrom object (Some publicObject) d
                        | OP_UPDATE \<Rightarrow> updateChild publicObject object d
                        | OP_UNDEFINED \<Rightarrow> (False, d)) of
                    (result, d) \<Rightarrow> Some (result, SetEnabled saveState d))))"

section \<open>What the steps leave alone\<close>

lemma obj_Create [frame]: "obj (snd (Create p op r d)) = obj d"
  by (simp add: Create_def IsEnabled_eq split: prod.split)

lemma obj_Create_for [frame]: "obj (snd (Create_for p op r d)) = obj d"
  by (simp add: Create_for_def frame split: option.split)

lemma obj_visit [frame]: "obj (snd (visit op r d)) = obj d"
  by (simp add: visit_def frame)

lemma obj_visit_all: "(\<And>r d. obj (f r d) = obj d) \<Longrightarrow> obj (visit_all f rs d) = obj d"
  unfolding visit_all_def by (induction rs arbitrary: d) simp_all

lemma obj_accept_Comment [frame]: "obj (accept_Comment op r d) = obj d"
  by (simp add: accept_Comment_def frame)

lemma obj_accept_Parameter [frame]: "obj (accept_Parameter op r d) = obj d"
proof -
  obtain ok e where v: "visit op r d = (ok, e)" by (cases "visit op r d")
  then have "obj e = obj d" using obj_visit [of op r d] by simp
  then show ?thesis by (simp add: accept_Parameter_def v frame obj_visit_all)
qed

lemma obj_childAdded [frame]: "obj (childAdded p c d) = obj d" "obj (childRemoved p c d) = obj d" "obj (modified c d) = obj d"
  by (simp_all add: childAdded_def childRemoved_def modified_def notify_def)

lemma obj_update [frame]: "obj (update r d) = obj d"
  by (simp add: update_def IsEnabled_eq frame Let_def)

text \<open>With the pool disabled nothing is queued and the switch stays.\<close>

definition quiet :: "dm \<Rightarrow> dm \<Rightarrow> bool" where
  "quiet d d' \<longleftrightarrow> notifiers d' = notifiers d \<and> lock d = Some True \<and> lock d' = Some True"

lemma quiet_trans: "quiet a b \<Longrightarrow> quiet b c \<Longrightarrow> quiet a c"
  by (simp add: quiet_def)

lemma quiet_refl: "lock d = Some True \<Longrightarrow> quiet d d"
  by (simp add: quiet_def)

lemma disabled_IsEnabled: "lock d = Some True \<Longrightarrow> IsEnabled d = (False, d)"
  by (cases d) (simp add: IsEnabled_eq)

lemma quiet_attach: "lock d = Some True \<Longrightarrow> quiet d (snd (attach_child put accept p c d))"
  by (simp add: attach_child_def Let_def IsEnabled_eq quiet_def upd_def setParent_def childAdded_def notify_def)

lemma quiet_remove_at: "lock d = Some True \<Longrightarrow> quiet d (snd (remove_at get put accept p i d))"
  by (simp add: remove_at_def Let_def IsEnabled_eq quiet_def upd_def setParent_def childRemoved_def notify_def)

lemma quiet_remove_child: "lock d = Some True \<Longrightarrow> quiet d (snd (remove_child get put accept p c d))"
  by (auto simp: remove_child_def quiet_refl quiet_remove_at split: option.split)

lemma quiet_add_Parameter: "lock d = Some True \<Longrightarrow> quiet d (snd (add_Parameter p c d))"
proof -
  assume l: "lock d = Some True"
  let ?d = "d\<lparr>registerObjects := Some (registerObjects d \<noteq> Some False)\<rparr>"
  have "quiet d ?d" "lock ?d = Some True" using l by (simp_all add: quiet_def)
  then show ?thesis
    using l quiet_attach [of ?d] quiet_trans [of d ?d]
    by (auto simp: add_Parameter_def IsRegistrationEnabled_eq quiet_refl split: option.split)
qed

lemma quiet_add_Comment: "lock d = Some True \<Longrightarrow> quiet d (snd (add_Comment p c d))"
  by (auto simp: add_Comment_def quiet_refl quiet_attach split: option.split)

lemma quiet_attachTo: "lock d = Some True \<Longrightarrow> quiet d (snd (attachTo r p d))"
  by (auto simp: attachTo_def quiet_refl quiet_add_Parameter quiet_add_Comment split: option.split)

lemma quiet_detachFrom: "lock d = Some True \<Longrightarrow> quiet d (snd (detachFrom r p d))"
  by (auto simp: detachFrom_def remove_Parameter_def remove_Comment_def quiet_refl quiet_remove_child split: option.split)

lemma quiet_copy: "lock d = Some True \<Longrightarrow> quiet d (copy r r' d)"
  by (auto simp: copy_def quiet_def upd_def po_assign_def)

lemma quiet_update: "lock d = Some True \<Longrightarrow> quiet d (update r d)"
  by (simp add: update_def disabled_IsEnabled quiet_def modified_def notify_def)

lemma quiet_copy_update: "lock d = Some True \<Longrightarrow> quiet d (update x (copy r r' d))"
  using quiet_copy [of d r r'] quiet_update [of "copy r r' d" x] by (auto simp: quiet_def)

lemma quiet_updateChild: "lock d = Some True \<Longrightarrow> quiet d (snd (updateChild p c d))"
  by (auto simp: updateChild_def quiet_refl quiet_copy_update split: option.split)

section \<open>The tree of objects\<close>

text \<open>The children an object lists are exactly the objects that have it as parent, each once.\<close>

definition tree_inv :: "dm \<Rightarrow> bool" where
  "tree_inv d \<longleftrightarrow> (\<forall>p. distinct (parameters (obj d p) @ comments (obj d p)) \<and>
     (\<forall>c. c \<in> set (parameters (obj d p)) \<union> set (comments (obj d p)) \<longleftrightarrow> parent (obj d c) = Some p))"

text \<open>
  The interface to a kind of children: the list can be read and changed, and the change leaves the
  parent and the children of the other kind alone.
\<close>

locale child_list =
  fixes get :: "dmobject \<Rightarrow> objref list" and put :: "(objref list \<Rightarrow> objref list) \<Rightarrow> dmobject \<Rightarrow> dmobject"
    and other :: "dmobject \<Rightarrow> objref list"
  assumes get_put: "get (put f x) = f (get x)"
    and other_put: "other (put f x) = other x"
    and parent_put: "parent (put f x) = parent x"
    and parent_get: "get (parent_update g x) = get x"
    and parent_other: "other (parent_update g x) = other x"
    and all_children: "set (parameters x) \<union> set (comments x) = set (get x) \<union> set (other x)"
    and all_distinct: "distinct (parameters x @ comments x) \<longleftrightarrow> distinct (get x @ other x)"
begin

lemma tree: "tree_inv d \<longleftrightarrow> (\<forall>p. distinct (get (obj d p) @ other (obj d p)) \<and>
    (\<forall>c. c \<in> set (get (obj d p)) \<union> set (other (obj d p)) \<longleftrightarrow> parent (obj d c) = Some p))"
  unfolding tree_inv_def all_children all_distinct ..

lemma attach_obj:
  assumes "parent (obj d c) = None" and "\<And>op r e. obj (accept op r e) = obj e"
  shows "obj (snd (attach_child put accept p c d)) =
     (let o1 = (obj d)(p := put (\<lambda>cs. cs @ [c]) (obj d p)) in o1(c := (o1 c)\<lparr>parent := Some p\<rparr>))"
  using assms by (cases "c = p") (auto simp: attach_child_def Let_def IsEnabled_eq upd_def setParent_def parent_put frame)

lemma attach_tree:
  assumes t: "tree_inv d" and c: "parent (obj d c) = None" and "\<And>op r e. obj (accept op r e) = obj e"
  shows "tree_inv (snd (attach_child put accept p c d))"
proof -
  have "c \<notin> set (get (obj d x)) \<union> set (other (obj d x))" for x
    using t c unfolding tree by simp
  then show ?thesis
    using t c unfolding tree attach_obj [OF assms(2,3)]
    by (auto simp: Let_def get_put other_put parent_put parent_get parent_other)
qed

lemma remove_at_obj:
  assumes "i < length (get (obj d p))" and "\<And>op r e. obj (accept op r e) = obj e"
  shows "obj (snd (remove_at get put accept p i d)) =
     (let c = get (obj d p) ! i; o1 = (obj d)(c := (obj d c)\<lparr>parent := None\<rparr>) in o1(p := put (erase_at i) (o1 p)))"
  using assms by (simp add: remove_at_def Let_def IsEnabled_eq upd_def setParent_def frame)

lemma erase_at_nth: "distinct xs \<Longrightarrow> i < length xs \<Longrightarrow> set (erase_at i xs) = set xs - {xs ! i} \<and> distinct (erase_at i xs)"
proof -
  assume d: "distinct xs" and i: "i < length xs"
  have "xs = take i xs @ xs ! i # drop (Suc i) xs" using i by (rule id_take_nth_drop)
  then have "distinct (take i xs @ xs ! i # drop (Suc i) xs)" "set xs = set (take i xs @ xs ! i # drop (Suc i) xs)"
    using d by simp_all
  then show ?thesis by (auto simp: erase_at_def)
qed

lemma remove_at_tree:
  assumes t: "tree_inv d" and acc: "\<And>op r e. obj (accept op r e) = obj e"
  shows "tree_inv (snd (remove_at get put accept p i d))"
proof (cases "i < length (get (obj d p))")
  case False
  then show ?thesis using t by (simp add: remove_at_def)
next
  case True
  let ?c = "get (obj d p) ! i"
  have dp: "distinct (get (obj d x))" "set (get (obj d x)) \<inter> set (other (obj d x)) = {}" for x
    using t unfolding tree by auto
  have e: "set (erase_at i (get (obj d p))) = set (get (obj d p)) - {?c}" "distinct (erase_at i (get (obj d p)))"
    using erase_at_nth [OF dp(1) True] by auto
  have c: "?c \<in> set (get (obj d p))" using True by simp
  then have pc: "parent (obj d ?c) = Some p" "?c \<notin> set (other (obj d p))" using t dp(2) unfolding tree by auto
  then have n: "?c \<notin> set (get (obj d x)) \<union> set (other (obj d x))" if "x \<noteq> p" for x
    using t that unfolding tree by auto
  show ?thesis
    unfolding tree
  proof (intro allI conjI)
    fix x y
    let ?o = "obj (snd (remove_at get put accept p i d))"
    have g: "get (?o x) = (if x = p then erase_at i (get (obj d p)) else get (obj d x))" "other (?o x) = other (obj d x)"
      "parent (?o y) = (if y = ?c then None else parent (obj d y))"
      unfolding remove_at_obj [OF True acc]
      by (auto simp: Let_def get_put other_put parent_put parent_get parent_other)
    show "distinct (get (?o x) @ other (?o x))"
      using t e unfolding g tree by auto
    show "y \<in> set (get (?o x)) \<union> set (other (?o x)) \<longleftrightarrow> parent (?o y) = Some x"
      using t e pc n [of x] unfolding g tree by (cases "x = p"; cases "y = ?c") auto
  qed
qed

lemma remove_child_tree:
  assumes "tree_inv d" and "\<And>op r e. obj (accept op r e) = obj e"
  shows "tree_inv (snd (remove_child get put accept p c d))"
  using assms by (auto simp: remove_child_def remove_at_tree split: option.split)

end

interpretation params: child_list parameters parameters_update comments
  by unfold_locales auto

interpretation comms: child_list comments comments_update parameters
  by unfold_locales auto

lemma tree_inv_obj: "obj d' = obj d \<Longrightarrow> tree_inv d' = tree_inv d"
  by (simp add: tree_inv_def)

lemma tree_add_Parameter: "tree_inv d \<Longrightarrow> tree_inv (snd (add_Parameter p c d))"
proof -
  assume t: "tree_inv d"
  then have "tree_inv (d\<lparr>registerObjects := x\<rparr>)" for x by (simp add: tree_inv_def)
  then show ?thesis
    using t by (auto simp: add_Parameter_def IsRegistrationEnabled_eq params.attach_tree frame split: option.split)
qed

lemma tree_add_Comment: "tree_inv d \<Longrightarrow> tree_inv (snd (add_Comment p c d))"
  by (auto simp: add_Comment_def comms.attach_tree frame split: option.split)

lemma tree_remove: "tree_inv d \<Longrightarrow> tree_inv (snd (remove_Parameter p c d))" "tree_inv d \<Longrightarrow> tree_inv (snd (remove_Comment p c d))"
  "tree_inv d \<Longrightarrow> tree_inv (snd (removeParameter p i d))" "tree_inv d \<Longrightarrow> tree_inv (snd (removeComment p i d))"
  by (simp_all add: remove_Parameter_def remove_Comment_def removeParameter_def removeComment_def
      params.remove_child_tree comms.remove_child_tree params.remove_at_tree comms.remove_at_tree frame)

lemma tree_attachTo: "tree_inv d \<Longrightarrow> tree_inv (snd (attachTo r p d))"
  by (auto simp: attachTo_def tree_add_Parameter tree_add_Comment split: option.split)

lemma tree_detachFrom: "tree_inv d \<Longrightarrow> tree_inv (snd (detachFrom r p d))"
  by (auto simp: detachFrom_def tree_remove split: option.split)

lemma tree_copy: "tree_inv d \<Longrightarrow> tree_inv (copy r r' d)"
  by (auto simp: copy_def po_assign_def upd_def tree_inv_def)

lemma tree_updateChild: "tree_inv d \<Longrightarrow> tree_inv (snd (updateChild p c d))"
  using tree_copy by (auto simp: updateChild_def tree_inv_obj [OF obj_update] split: option.split)

lemma SetEnabled_fields [simp]: "obj (SetEnabled e d) = obj d" "notifiers (SetEnabled e d) = notifiers d"
  "lock (SetEnabled e d) = Some (\<not> e)"
  by (simp_all add: SetEnabled_def)

lemma Disable_fields [simp]: "obj (Disable d) = obj d" "notifiers (Disable d) = notifiers d" "lock (Disable d) = Some True"
  by (simp_all add: Disable_def)

text \<open>What \<open>apply\<close> does between disabling and enabling the pool again.\<close>

lemma apply_cases:
  assumes "apply_notifier n d = Some (ok, d')"
  obtains "d' = d" | e where "quiet (Disable d) e" "tree_inv d \<longrightarrow> tree_inv e" "d' = SetEnabled (fst (IsEnabled d)) e"
proof -
  let ?d = "Disable (snd (IsEnabled d))"
  have q0: "quiet (Disable d) x" if "quiet ?d x" for x
    using that by (simp add: quiet_def IsEnabled_eq)
  have t0: "tree_inv ?d = tree_inv d" by (rule tree_inv_obj) (simp add: IsEnabled_eq)
  note ops = quiet_attachTo [of ?d] quiet_detachFrom [of ?d] quiet_updateChild [of ?d] quiet_copy_update [of ?d]
    quiet_refl [of ?d]
  note trees = tree_attachTo [of ?d] tree_detachFrom [of ?d] tree_updateChild [of ?d] tree_copy [of ?d]
  show ?thesis
  proof (cases "n_object n")
    case None
    then show ?thesis using assms that(1) by (simp add: apply_notifier_def)
  next
    case (Some object)
    show ?thesis
    proof (cases "Find (parentID n) d")
      case None
      show ?thesis
      proof (cases "d' = d")
        case False
        then obtain po where po: "cls (obj ?d object) = cls (obj ?d po)"
          "d' = SetEnabled (fst (IsEnabled d)) (update po (copy po object ?d))"
          using assms Some None
          by (auto simp: apply_notifier_def assign_def prod.case_eq_if split: if_split_asm option.split_asm)
        have "tree_inv d \<longrightarrow> tree_inv (update po (copy po object ?d))"
          using trees(4) t0 by (simp add: tree_inv_obj [OF obj_update])
        then show ?thesis
          using that(2) [OF q0 [OF ops(4)] _ po(2)] by simp
      qed (rule that(1))
    next
      case (Some p)
      let ?r = "case operation n of OP_ADD \<Rightarrow> attachTo object (Some p) ?d
        | OP_REMOVE \<Rightarrow> detachFrom object (Some p) ?d | OP_UPDATE \<Rightarrow> updateChild p object ?d | OP_UNDEFINED \<Rightarrow> (False, ?d)"
      have "d' = SetEnabled (fst (IsEnabled d)) (snd ?r)"
        using assms Some \<open>n_object n = Some object\<close> by (simp add: apply_notifier_def prod.case_eq_if Let_def)
      moreover have "quiet ?d (snd ?r)" and "tree_inv d \<longrightarrow> tree_inv (snd ?r)"
        using ops trees t0 by (cases "operation n"; simp)+
      ultimately show ?thesis using that(2) q0 by blast
    qed
  qed
qed

section \<open>Properties of the containers\<close>

text \<open>
  C14: The object tree stays consistent: after adding and removing parameters and comments, by
  pointer, by position or by index, and after applying any notifier, the children an object lists
  are exactly the objects with it as their parent, each listed once.
\<close>

theorem tree_consistent:
  assumes "tree_inv d"
  shows "tree_inv (snd (add_Parameter p c d)) \<and> tree_inv (snd (add_Comment p c d)) \<and>
         tree_inv (snd (remove_Parameter p c d)) \<and> tree_inv (snd (remove_Comment p c d)) \<and>
         tree_inv (snd (removeParameter p i d)) \<and> tree_inv (snd (removeComment p i d)) \<and>
         tree_inv (snd (removeComment_index p x d)) \<and> tree_inv (snd (detach r d)) \<and>
         (\<forall>n ok d'. apply_notifier n d = Some (ok, d') \<longrightarrow> tree_inv d')"
proof -
  have "tree_inv d'" if "apply_notifier n d = Some (ok, d')" for n ok d'
    using that
  proof (rule apply_cases)
    fix e
    assume "tree_inv d \<longrightarrow> tree_inv e" and d': "d' = SetEnabled (fst (IsEnabled d)) e"
    with assms have "tree_inv e" by simp
    then show ?thesis by (simp add: d' tree_inv_def)
  qed (use assms in simp)
  then show ?thesis
    using assms by (auto simp: tree_add_Parameter tree_add_Comment tree_remove tree_detachFrom detach_def
        removeComment_index_def split: option.split)
qed

definition two_objects :: "objref \<Rightarrow> dmobject" where
  "two_objects = (\<lambda>r. new_object CParameter ''x'')(0 := new_object CParameterSet ''set'', 1 := new_object CParameter ''p'')"

theorem tree_consistent_witness:
  "tree_inv (snd (add_Parameter 0 (Some 1) (fresh_dm two_objects)))"
proof -
  have "tree_inv (fresh_dm two_objects)"
    by (auto simp: tree_inv_def fresh_dm_def two_objects_def new_object_def)
  from tree_consistent [OF this, of 0 "Some 1" 0 "[]" 0] show ?thesis by blast
qed

text \<open>
  Applying a notifier is silent: it queues no notifier for the change it makes, and leaves the
  pool enabled or disabled as it was, on every branch that returns.
\<close>

theorem apply_silent:
  assumes "apply_notifier n d = Some (ok, d')"
  shows "notifiers d' = notifiers d \<and> fst (IsEnabled d') = fst (IsEnabled d)"
  using assms
proof (rule apply_cases)
  fix e
  assume "quiet (Disable d) e" and "d' = SetEnabled (fst (IsEnabled d)) e"
  then show ?thesis by (simp add: quiet_def IsEnabled_eq)
qed simp

theorem apply_silent_witness:
  "\<exists>d'. apply_notifier (Notifier ''set'' OP_ADD 1) (Enable (fresh_dm two_objects)) = Some (False, d') \<and> notifiers d' = []"
proof -
  have a: "apply_notifier (Notifier ''set'' OP_ADD 1) (Enable (fresh_dm two_objects)) = Some (False, Enable (fresh_dm two_objects))"
    by (simp add: apply_notifier_def Notifier_def Find_def fresh_dm_def Enable_def SetEnabled_def)
  from apply_silent [OF a] a show ?thesis by (simp add: Enable_def fresh_dm_def)
qed

text \<open>
  Adding a parameter: it succeeds exactly when the parameter has no parent and no object of its
  identifier that is registered has one; the object that is attached, at the end of the list, is
  the registered one of that identifier when there is one, otherwise the one passed; every observer
  is told once.
\<close>

theorem add_Parameter_attaches:
  assumes "parent (obj d c) = None" and "registerObjects d \<noteq> Some False" and "tree_inv d"
    and "a = (case Find_class CParameter (publicID (obj d c)) d of None \<Rightarrow> c | Some r \<Rightarrow> r)"
    and "p \<noteq> a" and "add_Parameter p (Some c) d = (ok, d')"
  shows "(ok \<longleftrightarrow> parent (obj d a) = None) \<and>
         (ok \<longrightarrow> parameters (obj d' p) = parameters (obj d p) @ [a] \<and> parent (obj d' a) = Some p \<and>
                 events d' = events d @ map (\<lambda>ob. (ob, onObjectAdded p a)) (observers d)) \<and>
         (\<not> ok \<longrightarrow> obj d' = obj d \<and> notifiers d' = notifiers d)"
proof -
  let ?d = "d\<lparr>registerObjects := Some True\<rparr>"
  have at: "add_Parameter p (Some c) d =
      (if parent (obj d a) \<noteq> None then (False, ?d) else attach_child parameters_update accept_Parameter p a ?d)"
    using assms(1,2,4) by (auto simp: add_Parameter_def IsRegistrationEnabled_eq Find_class_def Find_def split: option.split)
  have ev: "events (snd (Create x op r e)) = events e" "observers (snd (Create x op r e)) = observers e" for x op r e
    by (simp_all add: Create_def IsEnabled_eq split: prod.split)
  then have ev: "events (snd (visit op r e)) = events e" "observers (snd (visit op r e)) = observers e" for op r e
    by (simp_all add: visit_def Create_for_def split: option.split)
  then have evs: "events (visit_all (accept_Comment op) rs e) = events e \<and> observers (visit_all (accept_Comment op) rs e) = observers e"
    for op rs e unfolding visit_all_def by (induction rs arbitrary: e) (simp_all add: accept_Comment_def)
  have evp: "events (accept_Parameter op r e) = events e \<and> observers (accept_Parameter op r e) = observers e" for op r e
    using ev [of op r e] ev evs by (cases "visit op r e") (simp add: accept_Parameter_def)
  show ?thesis
  proof (cases "parent (obj d a) = None")
    case False
    then show ?thesis using at assms(6) by auto
  next
    case True
    then have r: "(ok, d') = attach_child parameters_update accept_Parameter p a ?d" using at assms(6) by simp
    have "obj d' = (let o1 = (obj d)(p := parameters_update (\<lambda>cs. cs @ [a]) (obj d p)) in o1(a := (o1 a)\<lparr>parent := Some p\<rparr>))"
      using params.attach_obj [of ?d a accept_Parameter p] True r [symmetric] by (simp add: frame)
    moreover have "ok" using r by (simp add: attach_child_def IsEnabled_eq Let_def)
    moreover have "events d' = events d @ map (\<lambda>ob. (ob, onObjectAdded p a)) (observers d)"
      using arg_cong [OF r, of snd] evp
      by (simp add: attach_child_def IsEnabled_eq Let_def childAdded_def notify_def upd_def setParent_def)
    ultimately show ?thesis using True assms(5) by (simp add: Let_def)
  qed
qed

theorem add_Parameter_attaches_witness:
  "parameters (obj (snd (add_Parameter 0 (Some 1) (fresh_dm two_objects))) 0) = [1]"
proof -
  have "tree_inv (fresh_dm two_objects)"
    by (auto simp: tree_inv_def fresh_dm_def two_objects_def new_object_def)
  moreover obtain ok d' where r: "add_Parameter 0 (Some 1) (fresh_dm two_objects) = (ok, d')"
    by (cases "add_Parameter 0 (Some 1) (fresh_dm two_objects)")
  ultimately show ?thesis
    using add_Parameter_attaches [of "fresh_dm two_objects" 1 1 0 ok d']
    by (simp add: fresh_dm_def two_objects_def new_object_def Find_class_def Find_def)
qed

text \<open>
  A parameter that is removed, changed and added again while the pool checks its notifiers
  leaves no trace in the pool: the removal and the addition cancel, so the receivers of the messages
  keep the old value.
\<close>

theorem readded_change_is_lost:
  "let d0 = Enable (snd (add_Parameter 0 (Some 1) (fresh_dm two_objects)));
       d1 = snd (remove_Parameter 0 (Some 1) d0);
       d2 = upd 1 (\<lambda>x. x\<lparr>attrs := ''new value''\<rparr>) d1;
       d3 = update 1 d2;
       d4 = snd (add_Parameter 0 (Some 1) d3)
   in parent (obj d4 1) = Some 0 \<and> attrs (obj d0 1) \<noteq> attrs (obj d4 1) \<and> notifiers d4 = []"
  by (simp add: Let_def add_Parameter_def IsRegistrationEnabled_eq IsEnabled_eq fresh_dm_def two_objects_def
      new_object_def Find_class_def Find_def attach_child_def upd_def setParent_def childAdded_def notify_def
      Enable_def SetEnabled_def remove_Parameter_def remove_child_def remove_at_def accept_Parameter_def visit_def
      Create_for_def Create_def enqueue_def cmp_def visit_all_def childRemoved_def erase_at_def update_def modified_def)

text \<open>
  Applying an update for an object whose identifier is registered by an object of another class
  goes through a null pointer: \<open>assign\<close> tests its argument instead of the result of the cast.
\<close>

theorem assign_other_class:
  "cls (obj d r) \<noteq> cls (obj d this) \<longleftrightarrow> assign this (Some r) d = None"
  by (simp add: assign_def)

end
