(* ===== verification/Steim.thy ===== *)
theory Steim
  imports Prelude "HOL-Library.Word"
begin

text \<open>
  The part the two Steim encoders of SeedLink share
  (src/src/seedlink/apps/seedlink/steim1.h, steim1.cc, steim2.h, steim2.cc, spclock.h): the state of
  an encoder, the packet with its frames, and the operations whose text is the same in both files.
  The operations that differ (the class of a difference, and the choice of the differences that go
  into one word) are arguments here; the theories of the two encoders supply them.

  Samples and words are 32-bit words, so that a difference that overflows wraps around (signed overflow is
  undefined in C++; the model fixes this outcome); \<open>buf\<close> holds the \<open>bp\<close> differences that are waiting.  A failed
  \<open>internal_check\<close> ends the program and is \<open>None\<close>.  A packet is the data part of a record, frames of
  a nibble word and 15 sample words in host order (\<open>htonl\<close> is the byte order of the record only);
  the format that provides the packets gives a number of zeroed frames and collects the packets
  that were queued with their numbers of samples and frames.
\<close>

unbundle bit_operations_syntax

section \<open>State\<close>

record frame =
  nibbles :: "32 word"
  sample_word :: "32 word list"

record spclock =
  clk_seconds :: int
  clk_ticks :: int
  freqn :: int
  freqd :: int

record packet =
  frames :: "frame list"
  start :: "int \<times> int"

record steim =
  clk :: spclock
  sample_count :: nat
  frame_count :: nat
  fp :: nat
  spw :: nat
  last_sample :: "32 word"
  buf :: "32 word list"
  nibble_word :: "32 word"
  current_packet :: "packet option"
  queued :: "(packet \<times> nat \<times> nat) list"

definition zero_frame :: frame where
  "zero_frame = \<lparr>nibbles = 0, sample_word = replicate 15 0\<rparr>"

definition SPClock :: "int \<Rightarrow> int \<Rightarrow> spclock" where
  "SPClock n d = \<lparr>clk_seconds = 0, clk_ticks = 0, freqn = n, freqd = d\<rparr>"

definition tick :: "spclock \<Rightarrow> spclock" where
  "tick c =
     (if clk_ticks c + 1 = freqn c then c\<lparr>clk_seconds := clk_seconds c + freqd c, clk_ticks := 0\<rparr>
      else c\<lparr>clk_ticks := clk_ticks c + 1\<rparr>)"

text \<open>\<open>get_time\<close>: the whole seconds and the ticks it adds to the time of the last synchronisation.\<close>

definition get_time :: "spclock \<Rightarrow> int \<Rightarrow> int \<times> int" where
  "get_time c tick_diff = (clk_seconds c, clk_ticks c - tick_diff)"

definition SteimEncoder :: "int \<Rightarrow> int \<Rightarrow> steim" where
  "SteimEncoder n d = \<lparr>clk = SPClock n d, sample_count = 0, frame_count = 0, fp = 0, spw = 4, last_sample = 0,
     buf = [], nibble_word = 0, current_packet = None, queued = []\<rparr>"

section \<open>Operations with the same text in both encoders\<close>

definition number_of_frames :: "packet \<Rightarrow> nat" where
  "number_of_frames p = length (frames p)"

definition get_packet :: "nat \<Rightarrow> steim \<Rightarrow> packet" where
  "get_packet nframes e = \<lparr>frames = replicate nframes zero_frame, start = get_time (clk e) (int (length (buf e)))\<rparr>"

definition queue_packet :: "packet \<Rightarrow> steim \<Rightarrow> steim" where
  "queue_packet p e =
     e\<lparr>queued := queued e @ [(p, sample_count e, frame_count e + (if fp e > 0 then 1 else 0))], current_packet := None\<rparr>"

definition put_word :: "nat \<Rightarrow> nat \<Rightarrow> 32 word \<Rightarrow> packet \<Rightarrow> packet" where
  "put_word fr i w p = p\<lparr>frames := (frames p)[fr := (frames p ! fr)\<lparr>sample_word := (sample_word (frames p ! fr))[i := w]\<rparr>]\<rparr>"

definition put_nibbles :: "nat \<Rightarrow> 32 word \<Rightarrow> packet \<Rightarrow> packet" where
  "put_nibbles fr w p = p\<lparr>frames := (frames p)[fr := (frames p ! fr)\<lparr>nibbles := w\<rparr>]\<rparr>"

text \<open>\<open>update_spw(i)\<close> for all \<open>i\<close> of a list in order.\<close>

fun update_all :: "(nat \<Rightarrow> steim \<Rightarrow> steim option) \<Rightarrow> nat list \<Rightarrow> steim \<Rightarrow> steim option" where
  "update_all upd [] e = Some e"
| "update_all upd (i # is) e = (case upd i e of None \<Rightarrow> None | Some e \<Rightarrow> update_all upd is e)"

definition store_with :: "nat \<Rightarrow> (nat \<Rightarrow> steim \<Rightarrow> steim option) \<Rightarrow> 32 word \<Rightarrow> steim \<Rightarrow> steim option" where
  "store_with bound upd value e =
     (if \<not> length (buf e) < bound then None
      else upd (length (buf e)) (e\<lparr>buf := buf e @ [value - last_sample e], last_sample := value\<rparr>))"

definition init_packet :: "packet \<Rightarrow> steim \<Rightarrow> steim" where
  "init_packet p e =
     (let begin_sample = foldl (-) (last_sample e) (tl (buf e))
      in e\<lparr>current_packet := Some (put_word 0 0 begin_sample p), sample_count := 0, frame_count := 0,
           nibble_word := 0, fp := 2\<rparr>)"

definition finish_packet :: "packet \<Rightarrow> steim \<Rightarrow> packet" where
  "finish_packet p e = (let end_sample = foldl (-) (last_sample e) (buf e) in put_word 0 1 end_sample p)"

text \<open>The second half of \<open>update_packet\<close>: the chosen word is entered, the differences move up.\<close>

definition enter_word :: "nat \<Rightarrow> (nat \<Rightarrow> steim \<Rightarrow> steim option) \<Rightarrow> nat \<Rightarrow> 32 word \<Rightarrow> 32 word \<Rightarrow> packet \<Rightarrow> steim
    \<Rightarrow> steim option" where
  "enter_word maxspw upd used nibble w p e =
     (let nibble_word' = nibble_word e OR push_bit (30 - 2 * (fp e + 1)) nibble in
      case update_all upd [0..<length (buf e) - used] (e\<lparr>nibble_word := nibble_word', spw := maxspw, buf := drop used (buf e)\<rparr>) of
        None \<Rightarrow> None
      | Some e \<Rightarrow>
          (let p = put_word (frame_count e) (fp e) w (put_nibbles (frame_count e) (nibble_word e) p);
               e = e\<lparr>sample_count := sample_count e + used, current_packet := Some p, fp := fp e + 1\<rparr>
           in if fp e < 15 then Some e
              else Some (e\<lparr>nibble_word := 0, fp := 0, frame_count := frame_count e + 1\<rparr>)))"

text \<open>
  The first loop of \<open>update_packet\<close>: while more differences are chosen than their classes allow, the last
  is left out and \<open>spw\<close> is computed again.
\<close>

fun reduce :: "nat \<Rightarrow> (nat \<Rightarrow> steim \<Rightarrow> steim option) \<Rightarrow> nat \<Rightarrow> steim \<Rightarrow> (nat \<times> steim) option" where
  "reduce maxspw upd 0 e = Some (0, e)"
| "reduce maxspw upd (Suc u) e =
     (if spw e < Suc u then
        (case update_all upd [0..<u] (e\<lparr>spw := maxspw\<rparr>) of None \<Rightarrow> None | Some e \<Rightarrow> reduce maxspw upd u e)
      else Some (Suc u, e))"

text \<open>One pass of the loops of \<open>send_data\<close> and \<open>flush\<close>; \<open>update\<close> is \<open>update_packet\<close>.\<close>

definition pass :: "nat \<Rightarrow> (packet \<Rightarrow> steim \<Rightarrow> steim option) \<Rightarrow> steim \<Rightarrow> steim option" where
  "pass nframes update_packet e =
     (let e = (if current_packet e = None then init_packet (get_packet nframes e) e else e) in
      case update_packet (the (current_packet e)) e of
        None \<Rightarrow> None
      | Some e \<Rightarrow>
          (let p = the (current_packet e) in
           if frame_count e = number_of_frames p then Some (queue_packet (finish_packet p e) e) else Some e))"

partial_function (option) send_loop :: "nat \<Rightarrow> (packet \<Rightarrow> steim \<Rightarrow> steim option) \<Rightarrow> steim \<Rightarrow> steim option" where
  "send_loop nframes update_packet e =
     (if length (buf e) \<ge> spw e then Option.bind (pass nframes update_packet e) (send_loop nframes update_packet)
      else Some e)"

declare send_loop.simps [code]

partial_function (option) flush_loop :: "nat \<Rightarrow> (packet \<Rightarrow> steim \<Rightarrow> steim option) \<Rightarrow> steim \<Rightarrow> steim option" where
  "flush_loop nframes update_packet e =
     (if buf e \<noteq> [] then Option.bind (pass nframes update_packet e) (flush_loop nframes update_packet)
      else Some e)"

declare flush_loop.simps [code]

definition send_data_with :: "nat \<Rightarrow> (32 word \<Rightarrow> steim \<Rightarrow> steim option) \<Rightarrow> (packet \<Rightarrow> steim \<Rightarrow> steim option)
    \<Rightarrow> 32 word \<Rightarrow> steim \<Rightarrow> steim option" where
  "send_data_with nframes store update_packet v e =
     Option.bind (store v e) (\<lambda>e. send_loop nframes update_packet (e\<lparr>clk := tick (clk e)\<rparr>))"

definition flush_with :: "nat \<Rightarrow> (packet \<Rightarrow> steim \<Rightarrow> steim option) \<Rightarrow> steim \<Rightarrow> steim option" where
  "flush_with nframes update_packet e =
     Option.bind (flush_loop nframes update_packet e) (\<lambda>e.
       case current_packet e of None \<Rightarrow> Some e | Some p \<Rightarrow> Some (queue_packet (finish_packet p e) e))"

section \<open>Decoding, by the SEED format\<close>

text \<open>
  The two control bits of word \<open>k\<close> of a frame, the differences of a frame and a packet (\<open>dec\<close> gives
  those of a word with its control bits, none for the bits 0), and the samples: the first is in the
  first word, each further one adds its difference.
\<close>

definition nib :: "32 word \<Rightarrow> nat \<Rightarrow> 32 word" where
  "nib w k = take_bit 2 (drop_bit (28 - 2 * k) w)"

definition frame_diffs :: "(32 word \<Rightarrow> 32 word \<Rightarrow> 32 word list) \<Rightarrow> frame \<Rightarrow> 32 word list" where
  "frame_diffs dec f = concat (map (\<lambda>k. dec (nib (nibbles f) k) (sample_word f ! k)) [0..<15])"

definition packet_diffs :: "(32 word \<Rightarrow> 32 word \<Rightarrow> 32 word list) \<Rightarrow> packet \<Rightarrow> 32 word list" where
  "packet_diffs dec p = concat (map (frame_diffs dec) (frames p))"

fun integrate :: "32 word \<Rightarrow> 32 word list \<Rightarrow> 32 word list" where
  "integrate x [] = []"
| "integrate x (d # ds) = (x + d) # integrate (x + d) ds"

definition packet_samples :: "(32 word \<Rightarrow> 32 word \<Rightarrow> 32 word list) \<Rightarrow> packet \<Rightarrow> 32 word list" where
  "packet_samples dec p =
     (let x0 = sample_word (frames p ! 0) ! 0 in x0 # integrate x0 (tl (packet_diffs dec p)))"

section \<open>Bit fields\<close>

lemma and_mask_take_bit: "w AND mask n = take_bit n (w :: 32 word)"
  by (simp add: take_bit_eq_mask)

text \<open>A value in the range of \<open>n + 1\<close> bits is the sign extension of these bits.\<close>

lemma signed_fit:
  fixes d :: "32 word"
  assumes "- (2 ^ n) \<le> sint d" and "sint d < 2 ^ n"
  shows "signed_take_bit n d = d"
proof (rule bit_word_eqI)
  fix k
  assume k: "k < LENGTH(32)"
  have b: "bit d j \<longleftrightarrow> bit (sint d) j" if "j < 32" for j
    using that by (simp add: bit_sint_iff min_def)
  have "signed_take_bit n (sint d) = sint d" by (rule signed_take_bit_int_eq_self [OF assms])
  then have "bit (sint d) k \<longleftrightarrow> bit (sint d) (min n k)" by (metis bit_signed_take_bit_iff min.commute possible_bit_def bit_imp_possible_bit possible_bit_int)
  then show "bit (signed_take_bit n d) k \<longleftrightarrow> bit d k" using k b [of k] b [of "min n k"] by (simp add: bit_simps)
qed

section \<open>Frames\<close>

lemma nib_zero: "nib 0 k = 0"
  by (simp add: nib_def)

lemma nib_enter:
  assumes "k < 15" and "j < 15" and "take_bit 2 n = n"
  shows "nib (w OR push_bit (28 - 2 * j) n) k = (if k = j then nib w k OR n else nib w k)"
proof (rule bit_word_eqI)
  fix i
  assume "i < LENGTH(32)"
  have hi: "\<not> bit n m" if "2 \<le> m" for m
    using that assms(3) by (metis bit_take_bit_iff not_less)
  show "bit (nib (w OR push_bit (28 - 2 * j) n) k) i \<longleftrightarrow> bit (if k = j then nib w k OR n else nib w k) i"
  proof (cases "i < 2")
    case False
    then show ?thesis using hi [of i] by (auto simp: nib_def bit_simps)
  next
    case True
    consider "k = j" | "k < j" | "j < k" by linarith
    then show ?thesis
    proof cases
      case 1
      then show ?thesis using True assms by (auto simp: nib_def bit_simps)
    next
      case 2
      then have "2 \<le> 28 - 2 * k + i - (28 - 2 * j)" using assms by simp
      then show ?thesis using 2 True hi assms by (auto simp: nib_def bit_simps)
    next
      case 3
      then have "\<not> 28 - 2 * j \<le> 28 - 2 * k + i" using True assms by simp
      then show ?thesis using 3 True assms by (auto simp: nib_def bit_simps)
    qed
  qed
qed

lemma upt_split: "j < n \<Longrightarrow> [0..<n] = [0..<j] @ j # [Suc j..<n]"
  by (metis le_add1 le_add_same_cancel1 less_imp_le_nat upt_add_eq_append upt_conv_Cons add_diff_inverse_nat not_less_iff_gr_or_eq)

lemma concat_nil: "(\<And>x. x \<in> set xs \<Longrightarrow> f x = []) \<Longrightarrow> concat (map f xs) = []"
  by (induction xs) auto

definition well_framed :: "frame \<Rightarrow> bool" where
  "well_framed f \<longleftrightarrow> length (sample_word f) = 15"

lemma frame_diffs_enter:
  assumes "well_framed f" and "j < 15" and "\<forall>k. j \<le> k \<and> k < 15 \<longrightarrow> nib (nibbles f) k = 0" and "take_bit 2 n = n"
    and dec0: "\<And>w. dec 0 w = []"
  shows "frame_diffs dec (f\<lparr>nibbles := nibbles f OR push_bit (28 - 2 * j) n, sample_word := (sample_word f)[j := w]\<rparr>) =
    frame_diffs dec f @ dec n w"
proof -
  let ?g = "\<lambda>k. dec (nib (nibbles f) k) (sample_word f ! k)"
  let ?h = "\<lambda>k. dec (nib (nibbles f OR push_bit (28 - 2 * j) n) k) ((sample_word f)[j := w] ! k)"
  have h: "?h k = (if k = j then dec n w else ?g k)" if "k < 15" for k
    using that assms nib_enter [OF that assms(2,4), of "nibbles f"] by (auto simp: well_framed_def)
  have g0: "?g k = []" if "j \<le> k" "k < 15" for k
    using assms(3) that dec0 by simp
  have hj: "?h j = dec n w" using h [OF assms(2)] by simp
  have hg: "map ?h [0..<j] = map ?g [0..<j]"
  proof (rule map_cong [OF refl])
    fix k
    assume "k \<in> set [0..<j]"
    then show "?h k = ?g k" using h [of k] assms(2) by simp
  qed
  have h0: "?h k = []" if "Suc j \<le> k" "k < 15" for k
    using h [OF that(2)] g0 [of k] that by simp
  have "concat (map ?h [Suc j..<15]) = []" by (rule concat_nil) (rule h0, auto)
  moreover have "concat (map ?g [j..<15]) = []" by (rule concat_nil) (rule g0, auto)
  ultimately have tail: "concat (map ?h [Suc j..<15]) = []" "concat (map ?g [j..<15]) = []" by blast+
  have "concat (map ?h [0..<15]) = concat (map ?h [0..<j]) @ ?h j @ concat (map ?h [Suc j..<15])"
    using upt_split [OF assms(2)] by simp
  also have "\<dots> = concat (map ?g [0..<j]) @ dec n w"
    unfolding hg hj tail(1) by (rule arg_cong [where f = "(@) _"]) (rule append_Nil2)
  also have "concat (map ?g [0..<j]) = concat (map ?g [0..<15])"
    using tail(2) assms(2) upt_split [OF assms(2)] upt_conv_Cons [OF assms(2)] by simp
  finally show ?thesis by (simp add: frame_diffs_def)
qed

lemma frame_diffs_control:
  assumes "nib (nibbles f) i = 0" and "\<And>w. dec 0 w = []"
  shows "frame_diffs dec (f\<lparr>sample_word := (sample_word f)[i := w]\<rparr>) = frame_diffs dec f"
proof -
  have "dec (nib (nibbles f) k) ((sample_word f)[i := w] ! k) = dec (nib (nibbles f) k) (sample_word f ! k)" for k
    using assms by (cases "k = i") auto
  then show ?thesis by (simp add: frame_diffs_def)
qed

lemma zero_frame_diffs: "(\<And>w. dec 0 w = []) \<Longrightarrow> frame_diffs dec zero_frame = []"
  unfolding frame_diffs_def by (rule concat_nil) (simp add: zero_frame_def nib_zero)

text \<open>A packet under construction: the frames after the current one are untouched.\<close>

definition packet_ok :: "nat \<Rightarrow> packet \<Rightarrow> nat \<Rightarrow> nat \<Rightarrow> 32 word \<Rightarrow> bool" where
  "packet_ok nframes p fc j nw \<longleftrightarrow> length (frames p) = nframes \<and> (\<forall>f \<in> set (frames p). well_framed f) \<and>
     (\<forall>i. fc < i \<and> i < nframes \<longrightarrow> frames p ! i = zero_frame) \<and> 0 < nframes \<and>
     nib (nibbles (frames p ! 0)) 0 = 0 \<and> nib (nibbles (frames p ! 0)) 1 = 0 \<and>
     (fc < nframes \<longrightarrow> nibbles (frames p ! fc) = nw) \<and>
     (\<forall>k. j \<le> k \<and> k < 15 \<longrightarrow> nib nw k = 0) \<and> j < 15 \<and> (fc = 0 \<longrightarrow> 2 \<le> j) \<and>
     (j = 0 \<and> fc < nframes \<longrightarrow> frames p ! fc = zero_frame)"

definition first_word :: "packet \<Rightarrow> 32 word" where
  "first_word p = sample_word (frames p ! 0) ! 0"

definition second_word :: "packet \<Rightarrow> 32 word" where
  "second_word p = sample_word (frames p ! 0) ! 1"

definition entered :: "nat \<Rightarrow> nat \<Rightarrow> 32 word \<Rightarrow> 32 word \<Rightarrow> packet \<Rightarrow> packet" where
  "entered fc j n w p = put_word fc j w (put_nibbles fc n p)"

lemma frames_entered: "fc < length (frames p) \<Longrightarrow> frames (entered fc j n w p) =
    (frames p)[fc := (frames p ! fc)\<lparr>nibbles := n, sample_word := (sample_word (frames p ! fc))[j := w]\<rparr>]"
  by (simp add: entered_def put_word_def put_nibbles_def)

lemma packet_diffs_update:
  assumes "fc < length (frames p)" and "\<And>i. fc < i \<Longrightarrow> i < length (frames p) \<Longrightarrow> frame_diffs dec (frames p ! i) = []"
    and "frame_diffs dec f' = frame_diffs dec (frames p ! fc) @ x"
  shows "packet_diffs dec (p\<lparr>frames := (frames p)[fc := f']\<rparr>) = packet_diffs dec p @ x"
proof -
  let ?a = "take fc (frames p)" and ?b = "drop (Suc fc) (frames p)"
  have b: "concat (map (frame_diffs dec) ?b) = []"
    by (rule concat_nil) (auto simp: in_set_conv_nth assms(2))
  have "frames p = ?a @ frames p ! fc # ?b" and u: "(frames p)[fc := f'] = ?a @ f' # ?b"
    using assms(1) by (auto simp: id_take_nth_drop upd_conv_take_nth_drop)
  then have "packet_diffs dec p = concat (map (frame_diffs dec) (?a @ frames p ! fc # ?b))"
    by (simp add: packet_diffs_def)
  then show ?thesis
    using b assms(3) by (simp add: packet_diffs_def u)
qed

lemma packet_diffs_control:
  assumes "0 < length (frames p)" and "nib (nibbles (frames p ! 0)) i = 0" and "\<And>w. dec 0 w = []"
  shows "packet_diffs dec (put_word 0 i w p) = packet_diffs dec p"
proof -
  obtain f fs where f: "frames p = f # fs" using assms(1) by (cases "frames p") auto
  then show ?thesis
    using frame_diffs_control [of f i dec w] assms(2,3) by (simp add: packet_diffs_def put_word_def)
qed

lemma packet_ok_enter:
  fixes w :: "32 word"
  assumes ok: "packet_ok nframes p fc j nw" and "fc < nframes" and n: "take_bit 2 n = n" and dec0: "\<And>w. dec 0 w = []"
  defines "p' \<equiv> entered fc j (nw OR push_bit (28 - 2 * j) n) w p"
  shows "packet_diffs dec p' = packet_diffs dec p @ dec n w" and "first_word p' = first_word p"
    and "length (frames p') = nframes"
    and "Suc j < 15 \<Longrightarrow> packet_ok nframes p' fc (Suc j) (nw OR push_bit (28 - 2 * j) n)"
    and "\<not> Suc j < 15 \<Longrightarrow> packet_ok nframes p' (Suc fc) 0 0"
proof -
  let ?nw = "nw OR push_bit (28 - 2 * j) n" and ?f = "frames p ! fc"
  let ?f' = "?f\<lparr>nibbles := ?nw, sample_word := (sample_word ?f)[j := w]\<rparr>"
  have fc: "fc < length (frames p)" and nw: "nibbles ?f = nw" and j: "j < 15" "fc = 0 \<Longrightarrow> 2 \<le> j"
    and z: "\<forall>k. j \<le> k \<and> k < 15 \<longrightarrow> nib nw k = 0" and wf: "well_framed ?f"
    using ok assms(2) by (auto simp: packet_ok_def)
  have fr: "frames p' = (frames p)[fc := ?f']" unfolding p'_def by (rule frames_entered [OF fc])
  have f': "frame_diffs dec ?f' = frame_diffs dec ?f @ dec n w"
    using frame_diffs_enter [where f = ?f and w = w, OF wf j(1)] z n dec0 by (simp add: nw)
  have "p' = p\<lparr>frames := (frames p)[fc := ?f']\<rparr>"
    using fc by (simp add: p'_def entered_def put_word_def put_nibbles_def)
  moreover have "frame_diffs dec (frames p ! i) = []" if "fc < i" "i < length (frames p)" for i
    using ok that zero_frame_diffs [of dec] dec0 by (simp add: packet_ok_def)
  ultimately show "packet_diffs dec p' = packet_diffs dec p @ dec n w"
    using packet_diffs_update [OF fc _ f'] by simp
  show "first_word p' = first_word p"
    using fc j by (cases "fc = 0") (auto simp: first_word_def fr)
  show len: "length (frames p') = nframes" using ok by (simp add: fr packet_ok_def)
  have nibs: "nib ?nw k = (if k = j then nib nw k OR n else nib nw k)" if "k < 15" for k
    using nib_enter [OF that j(1) n] .
  have wf': "\<forall>f \<in> set (frames p'). well_framed f"
    using ok wf fc unfolding fr by (auto simp: packet_ok_def well_framed_def zero_frame_def dest!: set_update_subset_insert [THEN subsetD])
  have c: "nib (nibbles (frames p' ! 0)) 0 = 0 \<and> nib (nibbles (frames p' ! 0)) 1 = 0"
  proof (cases "fc = 0")
    case True
    then show ?thesis
      using ok j nibs [of 0] nibs [of 1] fc nw by (auto simp: fr packet_ok_def)
  next
    case False
    then show ?thesis using ok fc by (auto simp: fr packet_ok_def)
  qed
  have after: "frames p' ! i = zero_frame" if "fc < i" "i < nframes" for i
    using ok that by (simp add: fr packet_ok_def)
  have cur: "nibbles (frames p' ! fc) = ?nw" using fc by (simp add: fr)
  show "packet_ok nframes p' fc (Suc j) ?nw" if "Suc j < 15"
    unfolding packet_ok_def
    using len wf' c after cur that z nibs ok j by (auto simp: packet_ok_def)
  show "packet_ok nframes p' (Suc fc) 0 0" if "\<not> Suc j < 15"
    unfolding packet_ok_def
    using len wf' c after ok by (auto simp: packet_ok_def nib_zero zero_frame_def)
qed

section \<open>Differences and sums\<close>

fun diffs :: "32 word \<Rightarrow> 32 word list \<Rightarrow> 32 word list" where
  "diffs x [] = []"
| "diffs x (y # ys) = (y - x) # diffs y ys"

lemma length_diffs [simp]: "length (diffs x xs) = length xs"
  by (induction x xs rule: diffs.induct) auto

lemma diffs_append: "diffs x (xs @ ys) = diffs x xs @ diffs (last (x # xs)) ys"
  by (induction x xs rule: diffs.induct) auto

lemma take_diffs: "take c (diffs x xs) = diffs x (take c xs)"
  by (induction x xs arbitrary: c rule: diffs.induct) (auto simp: take_Cons split: nat.splits)

lemma drop_Suc_diffs: "c < length xs \<Longrightarrow> drop (Suc c) (diffs x xs) = diffs (xs ! c) (drop (Suc c) xs)"
proof (induction x xs arbitrary: c rule: diffs.induct)
  case (2 x y ys)
  then show ?case by (cases c) auto
qed simp

lemma integrate_diffs [simp]: "integrate x (diffs x xs) = xs"
  by (induction x xs rule: diffs.induct) auto

lemma foldl_minus: "foldl (-) a bs = a - sum_list (bs :: 'a :: ring_1 list)"
  by (induction bs arbitrary: a) (auto simp: algebra_simps)

lemma sum_diffs: "sum_list (diffs x xs) = last (x # xs) - x"
  by (induction x xs rule: diffs.induct) auto

lemma last_take_nth: "c < length xs \<Longrightarrow> last (take (Suc c) xs) = xs ! c"
  by (simp add: take_Suc_conv_app_nth)

lemma back_to_sample:
  assumes "c < length xs"
  shows "foldl (-) (last (x # xs)) (drop (Suc c) (diffs x xs)) = xs ! c"
proof -
  have "last (xs ! c # drop (Suc c) xs) = last (x # xs)"
    using assms by (metis Cons_nth_drop_Suc last.simps last_drop length_0_conv not_less_zero)
  then show ?thesis
    using assms by (simp add: foldl_minus drop_Suc_diffs sum_diffs)
qed

lemma samples_of_diffs:
  assumes "0 < n" and "i + n \<le> length xs"
  shows "xs ! i # integrate (xs ! i) (tl (take n (drop i (diffs x xs)))) = take n (drop i xs)"
proof -
  have "take n (drop i (diffs x xs)) = drop i (diffs x (take (i + n) xs))"
    by (metis take_diffs add.commute drop_take diff_add_inverse2)
  then have "tl (take n (drop i (diffs x xs))) = drop (Suc i) (diffs x (take (i + n) xs))"
    by (simp add: drop_Suc tl_drop)
  also have "\<dots> = diffs (xs ! i) (drop (Suc i) (take (i + n) xs))"
    using assms drop_Suc_diffs [of i "take (i + n) xs" x] by simp
  finally show ?thesis
    using assms Cons_nth_drop_Suc [of i "take (i + n) xs"] by (simp add: drop_take)
qed

lemma enter_word_spw: "enter_word maxspw upd used nibble w p (e\<lparr>spw := s\<rparr>) = enter_word maxspw upd used nibble w p e"
  by (simp add: enter_word_def)

section \<open>Records and the open packet\<close>

text \<open>
  \<open>clamp\<close> is what an encoder stores for a difference.  A queued record holds the \<open>n\<close> clamped
  differences from sample \<open>i\<close> on in at most \<open>nframes\<close> frames, the rest zero, and its start time is that
  of sample \<open>i\<close>; if no difference of the stream was changed by \<open>clamp\<close>, its first two words are its
  first and last sample.
\<close>

definition exact :: "(32 word \<Rightarrow> 32 word) \<Rightarrow> 32 word list \<Rightarrow> bool" where
  "exact clamp xs \<longleftrightarrow> (\<forall>d \<in> set (diffs 0 xs). clamp d = d)"

definition at_sample :: "int \<Rightarrow> int \<Rightarrow> nat \<Rightarrow> int \<times> int \<Rightarrow> bool" where
  "at_sample nn dd i t \<longleftrightarrow> fst t * nn + snd t * dd = int i * dd"

definition record_ok :: "(32 word \<Rightarrow> 32 word \<Rightarrow> 32 word list) \<Rightarrow> (32 word \<Rightarrow> 32 word) \<Rightarrow> nat \<Rightarrow> int \<Rightarrow> int \<Rightarrow> 32 word list
    \<Rightarrow> nat \<Rightarrow> packet \<times> nat \<times> nat \<Rightarrow> bool" where
  "record_ok dec clamp nframes nn dd xs i r \<longleftrightarrow> (case r of (p, n, fr) \<Rightarrow>
     0 < n \<and> i + n \<le> length xs \<and> packet_diffs dec p = take n (drop i (map clamp (diffs 0 xs))) \<and>
     at_sample nn dd i (start p) \<and> length (frames p) = nframes \<and> 0 < fr \<and> fr \<le> nframes \<and>
     (\<forall>k. fr \<le> k \<and> k < nframes \<longrightarrow> frames p ! k = zero_frame) \<and>
     (exact clamp xs \<longrightarrow> first_word p = xs ! i \<and> second_word p = xs ! (i + n - 1)))"

fun records_ok :: "(32 word \<Rightarrow> 32 word \<Rightarrow> 32 word list) \<Rightarrow> (32 word \<Rightarrow> 32 word) \<Rightarrow> nat \<Rightarrow> int \<Rightarrow> int \<Rightarrow> 32 word list
    \<Rightarrow> nat \<Rightarrow> (packet \<times> nat \<times> nat) list \<Rightarrow> nat \<Rightarrow> bool" where
  "records_ok dec clamp nframes nn dd xs i [] j \<longleftrightarrow> i = j"
| "records_ok dec clamp nframes nn dd xs i (r # q) j \<longleftrightarrow>
     record_ok dec clamp nframes nn dd xs i r \<and> records_ok dec clamp nframes nn dd xs (i + fst (snd r)) q j"

lemma records_ok_snoc: "records_ok dec clamp nframes nn dd xs i (q @ [r]) j \<longleftrightarrow>
    (\<exists>m. records_ok dec clamp nframes nn dd xs i q m \<and> record_ok dec clamp nframes nn dd xs m r \<and> j = m + fst (snd r))"
  by (induction q arbitrary: i) auto

lemma exact_append: "exact clamp (xs @ ys) \<Longrightarrow> exact clamp xs"
  by (simp add: exact_def diffs_append)

lemma record_ok_append: "record_ok dec clamp nframes nn dd xs i r \<Longrightarrow> record_ok dec clamp nframes nn dd (xs @ ys) i r"
  by (auto simp: record_ok_def diffs_append nth_append dest: exact_append)

lemma records_ok_append:
  "records_ok dec clamp nframes nn dd xs i q j \<Longrightarrow> records_ok dec clamp nframes nn dd (xs @ ys) i q j"
  by (induction q arbitrary: i) (auto intro: record_ok_append)

lemma take_chunk: "take n (drop i D) @ drop (i + n) D = drop i D"
  by (metis append_take_drop_id drop_drop add.commute)

lemma records_ok_diffs:
  "records_ok dec clamp nframes nn dd xs i q (length xs) \<Longrightarrow>
    concat (map (packet_diffs dec \<circ> fst) q) = drop i (map clamp (diffs 0 xs))"
proof (induction q arbitrary: i)
  case (Cons r q)
  then show ?case
    using take_chunk [of "fst (snd r)" i "map clamp (diffs 0 xs)"] by (auto simp: record_ok_def)
qed simp

lemma record_samples:
  assumes "record_ok dec clamp nframes nn dd xs i (p, n, fr)" and "exact clamp xs"
  shows "packet_samples dec p = take n (drop i xs)"
proof -
  have "map clamp (diffs 0 xs) = diffs 0 xs"
    using assms(2) by (simp add: exact_def map_idI)
  then show ?thesis
    using assms samples_of_diffs [of n i xs 0] by (simp add: record_ok_def packet_samples_def first_word_def Let_def)
qed

lemma records_ok_samples:
  "records_ok dec clamp nframes nn dd xs i q (length xs) \<Longrightarrow> exact clamp xs \<Longrightarrow>
    concat (map (packet_samples dec \<circ> fst) q) = drop i xs"
proof (induction q arbitrary: i)
  case (Cons r q)
  then have "packet_samples dec (fst r) = take (fst (snd r)) (drop i xs)"
    by (cases r) (auto simp: record_samples)
  then show ?case
    using Cons.prems Cons.IH [of "i + fst (snd r)"] take_chunk [of "fst (snd r)" i xs] by simp
qed simp

lemma records_ok_counts:
  "records_ok dec clamp nframes nn dd xs i q j \<Longrightarrow> j = i + sum_list (map (fst \<circ> snd) q)"
proof (induction q arbitrary: i)
  case (Cons r q)
  then have "records_ok dec clamp nframes nn dd xs (i + fst (snd r)) q j" by simp
  from Cons.IH [OF this] show ?case by simp
qed simp

text \<open>The packet under construction, with the samples from \<open>i\<close> to before \<open>c\<close>.\<close>

definition open_ok :: "(32 word \<Rightarrow> 32 word \<Rightarrow> 32 word list) \<Rightarrow> (32 word \<Rightarrow> 32 word) \<Rightarrow> nat \<Rightarrow> int \<Rightarrow> int \<Rightarrow> 32 word list
    \<Rightarrow> nat \<Rightarrow> nat \<Rightarrow> packet \<Rightarrow> steim \<Rightarrow> bool" where
  "open_ok dec clamp nframes nn dd xs i c p e \<longleftrightarrow> i \<le> c \<and> c \<le> length xs \<and>
     packet_ok nframes p (frame_count e) (fp e) (nibble_word e) \<and> frame_count e \<le> nframes \<and>
     packet_diffs dec p = take (c - i) (drop i (map clamp (diffs 0 xs))) \<and> sample_count e = c - i \<and>
     at_sample nn dd i (start p) \<and> (exact clamp xs \<longrightarrow> i < length xs \<and> first_word p = xs ! i)"

definition stream_ok :: "(32 word \<Rightarrow> 32 word \<Rightarrow> 32 word list) \<Rightarrow> (32 word \<Rightarrow> 32 word) \<Rightarrow> (32 word \<Rightarrow> nat)
    \<Rightarrow> (nat \<Rightarrow> bool) \<Rightarrow> nat \<Rightarrow> int
    \<Rightarrow> int \<Rightarrow> 32 word list \<Rightarrow> steim \<Rightarrow> bool" where
  "stream_ok dec clamp cls okspw nframes nn dd xs e \<longleftrightarrow> (\<exists>i c. i \<le> c \<and> c \<le> length xs \<and>
     buf e = drop c (map clamp (diffs 0 xs)) \<and> last_sample e = last (0 # xs) \<and>
     records_ok dec clamp nframes nn dd xs 0 (queued e) i \<and>
     (case current_packet e of None \<Rightarrow> i = c
      | Some p \<Rightarrow> i < c \<and> frame_count e < nframes \<and> open_ok dec clamp nframes nn dd xs i c p e) \<and>
     okspw (spw e) \<and> (\<forall>d \<in> set (buf e). spw e \<le> cls d) \<and>
     freqn (clk e) = nn \<and> freqd (clk e) = dd \<and>
     clk_seconds (clk e) * nn + clk_ticks (clk e) * dd = int (length xs) * dd)"

lemma tick_at: "clk_seconds (tick c) * freqn c + clk_ticks (tick c) * freqd c =
    clk_seconds c * freqn c + clk_ticks c * freqd c + freqd c"
proof (cases "clk_ticks c + 1 = freqn c")
  case True
  then have "(clk_ticks c + 1) * freqd c = freqn c * freqd c" by simp
  then show ?thesis using True by (simp add: tick_def algebra_simps)
qed (simp add: tick_def algebra_simps)

lemma tick_freq [simp]: "freqn (tick c) = freqn c" "freqd (tick c) = freqd c"
  by (auto simp: tick_def)

text \<open>Opening and closing a packet; these do not depend on the code of the words.\<close>

lemma exact_map: "exact clamp xs \<Longrightarrow> map clamp (diffs 0 xs) = diffs 0 xs"
  by (simp add: exact_def map_idI)

lemma init_open_ok:
  assumes b: "buf e = drop c (map clamp (diffs 0 xs))" and "c < length xs" and l: "last_sample e = last (0 # xs)"
    and t: "freqn (clk e) = nn" "freqd (clk e) = dd" "clk_seconds (clk e) * nn + clk_ticks (clk e) * dd = int (length xs) * dd"
    and "0 < nframes" and dec0: "\<And>w. dec 0 w = []"
  defines "e' \<equiv> init_packet (get_packet nframes e) e"
  shows "open_ok dec clamp nframes nn dd xs c c (the (current_packet e')) e'"
proof -
  define b0 where "b0 = foldl (-) (last_sample e) (tl (buf e))"
  let ?p = "put_word 0 0 b0 (get_packet nframes e)"
  obtain k where k: "nframes = Suc k" using \<open>0 < nframes\<close> by (cases nframes) auto
  have fr: "frames ?p = zero_frame\<lparr>sample_word := (sample_word zero_frame)[0 := b0]\<rparr> # replicate k zero_frame"
    by (simp add: put_word_def get_packet_def k)
  have pok: "packet_ok (Suc k) q 0 2 0"
    if "frames q = zero_frame\<lparr>sample_word := (sample_word zero_frame)[0 := b0]\<rparr> # replicate k zero_frame" for q
    unfolding packet_ok_def using that by (auto simp: well_framed_def zero_frame_def nib_zero nth_Cons')
  have "packet_ok nframes ?p 0 2 0"
    using pok [OF fr] k by simp
  moreover have "packet_diffs dec ?p = []"
    using zero_frame_diffs [of dec] frame_diffs_control [of zero_frame 0 dec b0] dec0
    by (simp add: packet_diffs_def fr zero_frame_def nib_zero)
  moreover have "at_sample nn dd c (start ?p)"
  proof -
    have "start ?p = (clk_seconds (clk e), clk_ticks (clk e) - (int (length xs) - int c))"
      using \<open>c < length xs\<close> by (simp add: put_word_def get_packet_def get_time_def b)
    then show ?thesis using t(3) by (simp add: at_sample_def algebra_simps)
  qed
  moreover have "first_word ?p = xs ! c" if "exact clamp xs"
  proof -
    have "tl (buf e) = drop (Suc c) (diffs 0 xs)" using b exact_map [OF that] by (simp add: drop_Suc tl_drop)
    then have "b0 = xs ! c" using back_to_sample [OF \<open>c < length xs\<close>, of 0] l by (simp add: b0_def)
    moreover have "first_word ?p = b0" unfolding first_word_def fr by (simp add: zero_frame_def)
    ultimately show ?thesis by simp
  qed
  ultimately show ?thesis
    using \<open>c < length xs\<close> by (simp add: open_ok_def e'_def init_packet_def b0_def [symmetric] Let_def)
qed

lemma finish_record_ok:
  assumes op: "open_ok dec clamp nframes nn dd xs i c p e" and "i < c" and b: "buf e = drop c (map clamp (diffs 0 xs))"
    and l: "last_sample e = last (0 # xs)" and full: "frame_count e = nframes \<Longrightarrow> fp e = 0" and dec0: "\<And>w. dec 0 w = []"
  shows "record_ok dec clamp nframes nn dd xs i
    (finish_packet p e, sample_count e, frame_count e + (if fp e > 0 then 1 else 0))"
proof -
  define e1 where "e1 = foldl (-) (last_sample e) (buf e)"
  let ?p = "put_word 0 1 e1 p"
  have fin: "finish_packet p e = ?p" by (simp add: finish_packet_def e1_def Let_def)
  have ok: "packet_ok nframes p (frame_count e) (fp e) (nibble_word e)" and fc: "frame_count e \<le> nframes"
    and le: "c \<le> length xs" using op by (auto simp: open_ok_def)
  have ne: "0 < length (frames p)" "length (sample_word (frames p ! 0)) = 15"
    using ok by (auto simp: packet_ok_def well_framed_def)
  have fr: "frames ?p ! 0 = (frames p ! 0)\<lparr>sample_word := (sample_word (frames p ! 0))[1 := e1]\<rparr>"
    "0 < k \<Longrightarrow> frames ?p ! k = frames p ! k" "length (frames ?p) = length (frames p)" for k
    using ne by (auto simp: put_word_def)
  have d: "packet_diffs dec ?p = take (c - i) (drop i (map clamp (diffs 0 xs)))"
    using packet_diffs_control [where dec = dec and p = p and i = 1 and w = e1] ne ok dec0 op
    by (simp add: packet_ok_def open_ok_def)
  have w: "first_word ?p = xs ! i \<and> second_word ?p = xs ! (i + (c - i) - 1)" if "exact clamp xs"
  proof -
    have "buf e = drop (Suc (c - 1)) (diffs 0 xs)" using b exact_map [OF that] \<open>i < c\<close> by simp
    then have "e1 = xs ! (c - 1)" using back_to_sample [of "c - 1" xs 0] \<open>i < c\<close> le l by (simp add: e1_def)
    then show ?thesis using ne fr(1) op that \<open>i < c\<close> by (simp add: first_word_def second_word_def open_ok_def)
  qed
  have z: "frames ?p ! k = zero_frame" if "frame_count e + (if fp e > 0 then 1 else 0) \<le> k" "k < nframes" for k
    using ok that fr(2) [of k] by (cases "frame_count e = k") (auto simp: packet_ok_def split: if_splits)
  have n: "0 < frame_count e + (if fp e > 0 then 1 else 0)" "frame_count e + (if fp e > 0 then 1 else 0) \<le> nframes"
  proof -
    have "frame_count e = 0 \<longrightarrow> 2 \<le> fp e" using ok by (simp add: packet_ok_def)
    then show "0 < frame_count e + (if fp e > 0 then 1 else 0)" by auto
    show "frame_count e + (if fp e > 0 then 1 else 0) \<le> nframes"
      using fc full by (cases "frame_count e = nframes") auto
  qed
  have "at_sample nn dd i (start ?p)" using op by (simp add: put_word_def open_ok_def)
  moreover have "sample_count e = c - i" using op by (simp add: open_ok_def)
  moreover have "length (frames ?p) = nframes" using ok fr(3) by (simp add: packet_ok_def)
  ultimately show ?thesis
    using d w z n \<open>i < c\<close> le unfolding fin record_ok_def prod.case by simp
qed

section \<open>The contract of an encoder\<close>

text \<open>
  What the two encoders promise the stream: every difference has a class, the number of differences
  of its size that go into a word; \<open>update_spw\<close> clamps a difference and lowers \<open>spw\<close> to its class;
  \<open>update_packet\<close> enters a word that decodes to some of the waiting differences, at least one.
\<close>

locale steim_classes =
  fixes maxspw :: nat
    and upd :: "nat \<Rightarrow> steim \<Rightarrow> steim option"
    and clamp :: "32 word \<Rightarrow> 32 word"
    and cls :: "32 word \<Rightarrow> nat"
    and okspw :: "nat \<Rightarrow> bool"
  assumes okspw_range: "okspw n \<Longrightarrow> 1 \<le> n \<and> n \<le> maxspw"
    and okspw_start: "okspw maxspw" "okspw 4"
    and okspw_cls: "okspw (cls d)"
    and clamp_clamp: "clamp (clamp d) = clamp d"
    and cls_clamp: "cls (clamp d) = cls d"
    and upd_class: "i < length (buf e) \<Longrightarrow> i < maxspw \<Longrightarrow> okspw (spw e) \<Longrightarrow>
      upd i e = Some (e\<lparr>buf := (buf e)[i := clamp (buf e ! i)], spw := min (spw e) (cls (buf e ! i))\<rparr>)"
begin

lemma okspw_min: "okspw a \<Longrightarrow> okspw b \<Longrightarrow> okspw (min a b)"
  by (simp add: min_def)

lemma update_all_class:
  assumes "\<forall>d \<in> set (buf e). clamp d = d" and "\<forall>i \<in> set js. i < length (buf e) \<and> i < maxspw" and "okspw (spw e)"
  shows "\<exists>m. update_all upd js e = Some (e\<lparr>spw := m\<rparr>) \<and> m \<le> spw e \<and> okspw m \<and>
    (\<forall>i \<in> set js. m \<le> cls (buf e ! i))"
  using assms
proof (induction js arbitrary: e)
  case Nil
  then show ?case by (auto intro: exI [of _ "spw e"])
next
  case (Cons j js)
  let ?e = "e\<lparr>spw := min (spw e) (cls (buf e ! j))\<rparr>"
  have "clamp (buf e ! j) = buf e ! j" using Cons.prems by simp
  then have u: "upd j e = Some ?e" using Cons.prems upd_class [of j e] by simp
  have "\<forall>d \<in> set (buf ?e). clamp d = d" and "\<forall>i \<in> set js. i < length (buf ?e) \<and> i < maxspw" and "okspw (spw ?e)"
    using Cons.prems okspw_min [OF _ okspw_cls] by simp_all
  from Cons.IH [OF this] obtain m where m: "update_all upd js ?e = Some (?e\<lparr>spw := m\<rparr>)" "m \<le> spw ?e"
      "okspw m" "\<forall>i \<in> set js. m \<le> cls (buf ?e ! i)" by blast
  then show ?case
    using u by (intro exI [of _ m]) auto
qed

lemma store_class:
  assumes "length (buf e) < maxspw" and "okspw (spw e)"
  shows "store_with maxspw upd v e = Some (e\<lparr>buf := buf e @ [clamp (v - last_sample e)], last_sample := v,
    spw := min (spw e) (cls (v - last_sample e))\<rparr>)"
  using assms upd_class [of "length (buf e)" "e\<lparr>buf := buf e @ [v - last_sample e], last_sample := v\<rparr>"]
  by (simp add: store_with_def)

lemma reduce_class:
  assumes "\<forall>d \<in> set (buf e). clamp d = d" and "length (buf e) \<le> maxspw" and "1 \<le> used" and "used \<le> length (buf e)"
    and "okspw (spw e)" and "\<forall>i < used. spw e \<le> cls (buf e ! i)"
  shows "\<exists>u m. reduce maxspw upd used e = Some (u, e\<lparr>spw := m\<rparr>) \<and> 1 \<le> u \<and> u \<le> used \<and> u \<le> m \<and> okspw m \<and>
    (\<forall>i < u. m \<le> cls (buf e ! i))"
  using assms
proof (induction used arbitrary: e)
  case (Suc u)
  show ?case
  proof (cases "spw e < Suc u")
    case False
    then show ?thesis using Suc.prems by (intro exI [of _ "Suc u"] exI [of _ "spw e"]) auto
  next
    case True
    then have u: "1 \<le> u" using okspw_range [OF Suc.prems(5)] by simp
    have "\<forall>d \<in> set (buf (e\<lparr>spw := maxspw\<rparr>)). clamp d = d"
      and "\<forall>i \<in> set [0..<u]. i < length (buf (e\<lparr>spw := maxspw\<rparr>)) \<and> i < maxspw"
      and "okspw (spw (e\<lparr>spw := maxspw\<rparr>))"
      using Suc.prems okspw_start(1) by auto
    from update_all_class [OF this] obtain m where
      m: "update_all upd [0..<u] (e\<lparr>spw := maxspw\<rparr>) = Some (e\<lparr>spw := m\<rparr>)" "okspw m" "\<forall>i < u. m \<le> cls (buf e ! i)"
      by auto
    have "\<exists>u' m'. reduce maxspw upd u (e\<lparr>spw := m\<rparr>) = Some (u', e\<lparr>spw := m\<rparr>\<lparr>spw := m'\<rparr>) \<and> 1 \<le> u' \<and> u' \<le> u \<and>
        u' \<le> m' \<and> okspw m' \<and> (\<forall>i < u'. m' \<le> cls (buf (e\<lparr>spw := m\<rparr>) ! i))"
      using Suc.prems u m(2,3) by (intro Suc.IH) auto
    then show ?thesis
      using True m(1) by auto
  qed
qed simp

lemma enter_word_eq:
  assumes clamped: "\<forall>d \<in> set (buf e). clamp d = d" and le: "length (buf e) \<le> maxspw"
  shows "\<exists>m. okspw m \<and> (\<forall>d \<in> set (drop used (buf e)). m \<le> cls d) \<and>
    enter_word maxspw upd used nibble w p e =
      (let nw = nibble_word e OR push_bit (28 - 2 * fp e) nibble;
           e' = e\<lparr>buf := drop used (buf e), spw := m, sample_count := sample_count e + used,
                  current_packet := Some (entered (frame_count e) (fp e) nw w p)\<rparr>
       in Some (if Suc (fp e) < 15 then e'\<lparr>nibble_word := nw, fp := Suc (fp e)\<rparr>
                else e'\<lparr>nibble_word := 0, fp := 0, frame_count := Suc (frame_count e)\<rparr>))"
proof -
  define nw where "nw = nibble_word e OR push_bit (28 - 2 * fp e) nibble"
  let ?e = "e\<lparr>nibble_word := nw, spw := maxspw, buf := drop used (buf e)\<rparr>"
  have "\<forall>d \<in> set (buf ?e). clamp d = d" and "\<forall>i \<in> set [0..<length (buf e) - used]. i < length (buf ?e) \<and> i < maxspw"
    and "okspw (spw ?e)"
    using clamped le okspw_start by (auto dest: in_set_dropD)
  from update_all_class [OF this] obtain m where m: "update_all upd [0..<length (buf e) - used] ?e = Some (?e\<lparr>spw := m\<rparr>)"
      "okspw m" "\<forall>i \<in> set [0..<length (buf e) - used]. m \<le> cls (drop used (buf e) ! i)"
    using okspw_start by auto
  have "30 - 2 * (fp e + 1) = 28 - 2 * fp e" by simp
  then have nw': "nibble_word e OR push_bit (30 - 2 * (fp e + 1)) nibble = nw" by (simp only: nw_def)
  have "\<forall>d \<in> set (drop used (buf e)). m \<le> cls d"
    using m(3) by (auto simp: in_set_conv_nth)
  then show ?thesis
    using m(1,2) by (intro exI [of _ m]) (auto simp: enter_word_def nw' nw_def [symmetric] entered_def Let_def)
qed

end

locale steim_codec = steim_classes +
  fixes update_packet :: "packet \<Rightarrow> steim \<Rightarrow> steim option"
    and dec :: "32 word \<Rightarrow> 32 word \<Rightarrow> 32 word list"
  assumes dec_none: "dec 0 w = []"
    and update_packet_enters: "buf e \<noteq> [] \<Longrightarrow> length (buf e) \<le> maxspw \<Longrightarrow> okspw (spw e) \<Longrightarrow>
      \<forall>d \<in> set (buf e). clamp d = d \<and> spw e \<le> cls d \<Longrightarrow>
      \<exists>used nibble w. 1 \<le> used \<and> used \<le> length (buf e) \<and> take_bit 2 nibble = nibble \<and> dec nibble w = take used (buf e) \<and>
        update_packet p e = enter_word maxspw upd used nibble w p e"
begin

lemma update_packet_ok:
  assumes op: "open_ok dec clamp nframes nn dd xs i c p e" and fcn: "frame_count e < nframes"
    and b: "buf e = drop c (map clamp (diffs 0 xs))" and ne: "buf e \<noteq> []" and le: "length (buf e) \<le> maxspw"
    and sp: "okspw (spw e)" "\<forall>d \<in> set (buf e). spw e \<le> cls d"
  shows "\<exists>e' p' used. update_packet p e = Some e' \<and> current_packet e' = Some p' \<and> 1 \<le> used \<and> used \<le> length (buf e) \<and>
    open_ok dec clamp nframes nn dd xs i (c + used) p' e' \<and> (frame_count e' = nframes \<longrightarrow> fp e' = 0) \<and>
    length (frames p') = nframes \<and> buf e' = drop used (buf e) \<and> last_sample e' = last_sample e \<and> queued e' = queued e \<and>
    clk e' = clk e \<and> okspw (spw e') \<and> (\<forall>d \<in> set (buf e'). spw e' \<le> cls d)"
proof -
  have cl: "\<forall>d \<in> set (buf e). clamp d = d"
    unfolding b by (auto simp: clamp_clamp dest!: in_set_dropD)
  then obtain used nibble w where u: "1 \<le> used" "used \<le> length (buf e)" "take_bit 2 nibble = nibble"
      "dec nibble w = take used (buf e)" "update_packet p e = enter_word maxspw upd used nibble w p e"
    using update_packet_enters [OF ne le sp(1), of p] sp(2) by blast
  define nw where "nw = nibble_word e OR push_bit (28 - 2 * fp e) nibble"
  define p' where "p' = entered (frame_count e) (fp e) nw w p"
  obtain m where m: "okspw m" "\<forall>d \<in> set (drop used (buf e)). m \<le> cls d"
    "enter_word maxspw upd used nibble w p e =
      (let e' = e\<lparr>buf := drop used (buf e), spw := m, sample_count := sample_count e + used, current_packet := Some p'\<rparr>
       in Some (if Suc (fp e) < 15 then e'\<lparr>nibble_word := nw, fp := Suc (fp e)\<rparr>
                else e'\<lparr>nibble_word := 0, fp := 0, frame_count := Suc (frame_count e)\<rparr>))"
    using enter_word_eq [OF cl le, of used nibble w p] unfolding nw_def [symmetric] p'_def by (auto simp: Let_def)
  have pok: "packet_ok nframes p (frame_count e) (fp e) (nibble_word e)" using op by (simp add: open_ok_def)
  note en = packet_ok_enter [where w = w and dec = dec, OF pok fcn u(3) dec_none, folded nw_def, folded p'_def]
  have "c + used \<le> length xs" using u(2) b ne by (auto simp: b)
  moreover have "packet_diffs dec p' = take (c + used - i) (drop i (map clamp (diffs 0 xs)))"
  proof -
    have "i \<le> c" using op by (simp add: open_ok_def)
    then obtain k where k: "c = i + k" using le_Suc_ex by blast
    then have k': "c + used - i = k + used" by simp
    show ?thesis
      using en(1) op u(4) unfolding k' by (simp add: open_ok_def b k take_add add.commute)
  qed
  moreover have "start p' = start p" by (simp add: p'_def entered_def put_word_def put_nibbles_def)
  ultimately have nxt: "open_ok dec clamp nframes nn dd xs i (c + used) p' e'"
    if "packet_ok nframes p' (frame_count e') (fp e') (nibble_word e')" "frame_count e' \<le> nframes"
      "sample_count e' = sample_count e + used" for e'
    using op that en(2) by (simp add: open_ok_def)
  define e1 where "e1 = e\<lparr>buf := drop used (buf e), spw := m, sample_count := sample_count e + used, current_packet := Some p'\<rparr>"
  define e' where "e' = (if Suc (fp e) < 15 then e1\<lparr>nibble_word := nw, fp := Suc (fp e)\<rparr>
    else e1\<lparr>nibble_word := 0, fp := 0, frame_count := Suc (frame_count e)\<rparr>)"
  have "update_packet p e = Some e'" using u(5) m(3) by (simp add: e'_def e1_def Let_def)
  moreover have "open_ok dec clamp nframes nn dd xs i (c + used) p' e'"
    by (rule nxt) (use en(4,5) fcn in \<open>auto simp: e'_def e1_def\<close>)
  moreover have "buf e' = drop used (buf e) \<and> last_sample e' = last_sample e \<and> queued e' = queued e \<and> clk e' = clk e \<and>
      current_packet e' = Some p' \<and> spw e' = m \<and> (frame_count e' = nframes \<longrightarrow> fp e' = 0)"
    using fcn by (simp add: e'_def e1_def)
  ultimately show ?thesis
    using u(1,2) m(1,2) en(3) by (intro exI [of _ e'] exI [of _ p'] exI [of _ used]) simp
qed

lemma pass_ok:
  assumes st: "stream_ok dec clamp cls okspw nframes nn dd xs e" and ne: "buf e \<noteq> []" and le: "length (buf e) \<le> maxspw"
    and nf: "0 < nframes"
  shows "\<exists>e'. pass nframes update_packet e = Some e' \<and> stream_ok dec clamp cls okspw nframes nn dd xs e' \<and>
    length (buf e') < length (buf e)"
proof -
  obtain i c where ic: "i \<le> c" "c \<le> length xs" "buf e = drop c (map clamp (diffs 0 xs))" "last_sample e = last (0 # xs)"
      "records_ok dec clamp nframes nn dd xs 0 (queued e) i" "okspw (spw e)" "\<forall>d \<in> set (buf e). spw e \<le> cls d"
      "freqn (clk e) = nn" "freqd (clk e) = dd" "clk_seconds (clk e) * nn + clk_ticks (clk e) * dd = int (length xs) * dd"
    and cp: "case current_packet e of None \<Rightarrow> i = c
      | Some p \<Rightarrow> i < c \<and> frame_count e < nframes \<and> open_ok dec clamp nframes nn dd xs i c p e"
    using st unfolding stream_ok_def by blast
  define e0 where "e0 = (if current_packet e = None then init_packet (get_packet nframes e) e else e)"
  have c: "c < length xs" using ne ic(2,3) by (cases "c = length xs") auto
  have same: "buf e0 = buf e" "last_sample e0 = last_sample e" "queued e0 = queued e" "clk e0 = clk e" "spw e0 = spw e"
    by (auto simp: e0_def init_packet_def Let_def)
  have op: "open_ok dec clamp nframes nn dd xs i c (the (current_packet e0)) e0" and fc: "frame_count e0 < nframes"
    using cp init_open_ok [where dec = dec, OF ic(3) c ic(4) ic(8-10) nf dec_none] nf
    by (auto simp: e0_def init_packet_def Let_def split: option.splits)
  obtain e' p' used where up: "update_packet (the (current_packet e0)) e0 = Some e'" "current_packet e' = Some p'" "1 \<le> used"
      "used \<le> length (buf e0)" "open_ok dec clamp nframes nn dd xs i (c + used) p' e'" "frame_count e' = nframes \<longrightarrow> fp e' = 0"
      "length (frames p') = nframes" "buf e' = drop used (buf e0)" "last_sample e' = last_sample e0" "queued e' = queued e0"
      "clk e' = clk e0" "okspw (spw e')" "\<forall>d \<in> set (buf e'). spw e' \<le> cls d"
    using update_packet_ok [OF op fc] ic ne le same by (auto simp del: One_nat_def)
  have b': "buf e' = drop (c + used) (map clamp (diffs 0 xs))" using up(8) same(1) ic(3) by (simp add: add.commute)
  have cu: "i < c + used" "c + used \<le> length xs" using ic(1,3) same(1) up(3,4) c by auto
  have less: "length (buf e') < length (buf e)" using up(3,4,8) same(1) by simp
  show ?thesis
  proof (cases "frame_count e' = nframes")
    case True
    let ?e = "queue_packet (finish_packet p' e') e'"
    have "record_ok dec clamp nframes nn dd xs i
        (finish_packet p' e', sample_count e', frame_count e' + (if fp e' > 0 then 1 else 0))"
      using up(9) same(2) ic(4) up(6) by (intro finish_record_ok [OF up(5) cu(1) b' _ _ dec_none]) auto
    moreover have "i + sample_count e' = c + used" using up(5) cu(1) by (simp add: open_ok_def)
    ultimately have "records_ok dec clamp nframes nn dd xs 0 (queued ?e) (c + used)"
      using ic(5) up(10) same(3) by (auto simp: queue_packet_def records_ok_snoc)
    then have "stream_ok dec clamp cls okspw nframes nn dd xs ?e"
      unfolding stream_ok_def using cu(2) b' up same ic(4,8-10)
      by (intro exI [of _ "c + used"]) (simp add: queue_packet_def)
    moreover have "pass nframes update_packet e = Some ?e"
      using up(1,2,7) True by (simp add: pass_def e0_def Let_def number_of_frames_def)
    ultimately show ?thesis using less by (auto simp: queue_packet_def)
  next
    case False
    then have "frame_count e' < nframes" using up(5) by (simp add: open_ok_def)
    then have "stream_ok dec clamp cls okspw nframes nn dd xs e'"
      unfolding stream_ok_def using cu b' up same ic(4,5,8-10)
      by (intro exI [of _ i] exI [of _ "c + used"]) simp
    moreover have "pass nframes update_packet e = Some e'"
      using up(1,2,7) False by (simp add: pass_def e0_def Let_def number_of_frames_def)
    ultimately show ?thesis using less by blast
  qed
qed

lemma send_loop_ok:
  assumes "stream_ok dec clamp cls okspw nframes nn dd xs e" and "length (buf e) \<le> maxspw" and "0 < nframes"
  shows "\<exists>e'. send_loop nframes update_packet e = Some e' \<and> stream_ok dec clamp cls okspw nframes nn dd xs e' \<and>
    length (buf e') < spw e'"
  using assms
proof (induction "length (buf e)" arbitrary: e rule: less_induct)
  case less
  show ?case
  proof (cases "length (buf e) \<ge> spw e")
    case False
    then show ?thesis using less.prems by (subst send_loop.simps) auto
  next
    case True
    then have "buf e \<noteq> []" using less.prems(1) by (auto simp: stream_ok_def dest!: okspw_range)
    then obtain e1 where e1: "pass nframes update_packet e = Some e1" "stream_ok dec clamp cls okspw nframes nn dd xs e1"
        "length (buf e1) < length (buf e)"
      using pass_ok less.prems by blast
    then show ?thesis
      using less.hyps [OF e1(3) e1(2)] less.prems(2,3) True by (subst send_loop.simps) auto
  qed
qed

lemma flush_loop_ok:
  assumes "stream_ok dec clamp cls okspw nframes nn dd xs e" and "length (buf e) \<le> maxspw" and "0 < nframes"
  shows "\<exists>e'. flush_loop nframes update_packet e = Some e' \<and> stream_ok dec clamp cls okspw nframes nn dd xs e' \<and> buf e' = []"
  using assms
proof (induction "length (buf e)" arbitrary: e rule: less_induct)
  case less
  show ?case
  proof (cases "buf e = []")
    case True
    then show ?thesis using less.prems by (subst flush_loop.simps) auto
  next
    case False
    then obtain e1 where e1: "pass nframes update_packet e = Some e1" "stream_ok dec clamp cls okspw nframes nn dd xs e1"
        "length (buf e1) < length (buf e)"
      using pass_ok less.prems by blast
    then show ?thesis
      using less.hyps [OF e1(3) e1(2)] less.prems(2,3) False by (subst flush_loop.simps) auto
  qed
qed

lemma send_data_ok:
  assumes st: "stream_ok dec clamp cls okspw nframes nn dd xs e" and lt: "length (buf e) < spw e" and nf: "0 < nframes"
  shows "\<exists>e'. send_data_with nframes (store_with maxspw upd) update_packet v e = Some e' \<and>
    stream_ok dec clamp cls okspw nframes nn dd (xs @ [v]) e' \<and> length (buf e') < spw e'"
proof -
  have lt': "length (buf e) < maxspw" using lt st by (auto simp: stream_ok_def dest!: okspw_range)
  have ok: "okspw (spw e)" using st by (auto simp: stream_ok_def)
  let ?d = "v - last_sample e"
  define e1 where "e1 = e\<lparr>buf := buf e @ [clamp ?d], last_sample := v, spw := min (spw e) (cls ?d), clk := tick (clk e)\<rparr>"
  have "stream_ok dec clamp cls okspw nframes nn dd (xs @ [v]) e1"
    using st unfolding stream_ok_def
  proof (elim exE conjE, goal_cases)
    case (1 i c)
    have "drop c (map clamp (diffs 0 (xs @ [v]))) = buf e1"
      using 1 by (simp add: e1_def diffs_append)
    moreover have "records_ok dec clamp nframes nn dd (xs @ [v]) 0 (queued e1) i"
      using 1 by (simp add: e1_def records_ok_append)
    moreover have "case current_packet e1 of None \<Rightarrow> i = c
        | Some p \<Rightarrow> i < c \<and> frame_count e1 < nframes \<and> open_ok dec clamp nframes nn dd (xs @ [v]) i c p e1"
      using 1 exact_append [of clamp xs "[v]"]
      by (auto simp: e1_def open_ok_def diffs_append nth_append split: option.splits)
    moreover have "\<forall>d \<in> set (buf e1). spw e1 \<le> cls d" and "okspw (spw e1)"
      using 1 okspw_min [OF _ okspw_cls] by (auto simp: e1_def cls_clamp min_le_iff_disj)
    moreover have "clk_seconds (clk e1) * nn + clk_ticks (clk e1) * dd = int (length (xs @ [v])) * dd"
      using 1 tick_at [of "clk e"] by (simp add: e1_def algebra_simps)
    ultimately show ?case
      using 1 by (intro exI [of _ i] exI [of _ c]) (simp add: e1_def)
  qed
  moreover have "length (buf e1) \<le> maxspw" using lt' by (simp add: e1_def)
  ultimately have "\<exists>e'. send_loop nframes update_packet e1 = Some e' \<and>
      stream_ok dec clamp cls okspw nframes nn dd (xs @ [v]) e' \<and> length (buf e') < spw e'"
    using send_loop_ok nf by blast
  then show ?thesis
    by (simp add: send_data_with_def store_class [OF lt' ok] e1_def)
qed

lemma flush_ok:
  assumes st: "stream_ok dec clamp cls okspw nframes nn dd xs e" and lt: "length (buf e) \<le> maxspw" and nf: "0 < nframes"
  shows "\<exists>e'. flush_with nframes update_packet e = Some e' \<and> buf e' = [] \<and> current_packet e' = None \<and>
    last_sample e' = last (0 # xs) \<and> records_ok dec clamp nframes nn dd xs 0 (queued e') (length xs)"
proof -
  obtain e1 where e1: "flush_loop nframes update_packet e = Some e1" "stream_ok dec clamp cls okspw nframes nn dd xs e1"
      "buf e1 = []"
    using flush_loop_ok [OF assms] by blast
  then obtain i c where ic: "i \<le> c" "c \<le> length xs" "buf e1 = drop c (map clamp (diffs 0 xs))" "last_sample e1 = last (0 # xs)"
      "records_ok dec clamp nframes nn dd xs 0 (queued e1) i"
    and cp: "case current_packet e1 of None \<Rightarrow> i = c
      | Some p \<Rightarrow> i < c \<and> frame_count e1 < nframes \<and> open_ok dec clamp nframes nn dd xs i c p e1"
    unfolding stream_ok_def by blast
  have c: "c = length xs" using ic(2,3) e1(3) by simp
  show ?thesis
  proof (cases "current_packet e1")
    case None
    then show ?thesis using e1(1,3) ic cp c by (simp add: flush_with_def)
  next
    case (Some p)
    then have "i < c" and "frame_count e1 < nframes" and op: "open_ok dec clamp nframes nn dd xs i c p e1" using cp by auto
    then have "record_ok dec clamp nframes nn dd xs i
        (finish_packet p e1, sample_count e1, frame_count e1 + (if fp e1 > 0 then 1 else 0))"
      by (intro finish_record_ok [OF op _ ic(3,4) _ dec_none]) auto
    moreover have "i + sample_count e1 = c" using op by (simp add: open_ok_def)
    ultimately show ?thesis
      using Some e1(1,3) ic(4,5) c by (auto simp: flush_with_def queue_packet_def records_ok_snoc)
  qed
qed

end

text \<open>The samples of a list sent in order.\<close>

fun send_all :: "(32 word \<Rightarrow> steim \<Rightarrow> steim option) \<Rightarrow> 32 word list \<Rightarrow> steim \<Rightarrow> steim option" where
  "send_all send [] e = Some e"
| "send_all send (v # vs) e = (case send v e of None \<Rightarrow> None | Some e \<Rightarrow> send_all send vs e)"

context steim_codec
begin

lemma send_all_ok:
  assumes "stream_ok dec clamp cls okspw nframes nn dd xs e" and "length (buf e) < spw e" and "0 < nframes"
  shows "\<exists>e'. send_all (send_data_with nframes (store_with maxspw upd) update_packet) vs e = Some e' \<and>
    stream_ok dec clamp cls okspw nframes nn dd (xs @ vs) e' \<and> length (buf e') < spw e'"
  using assms
proof (induction vs arbitrary: xs e)
  case (Cons v vs)
  from send_data_ok [OF Cons.prems, of v] obtain e1 where
    e1: "send_data_with nframes (store_with maxspw upd) update_packet v e = Some e1"
      "stream_ok dec clamp cls okspw nframes nn dd (xs @ [v]) e1" "length (buf e1) < spw e1" by blast
  from Cons.IH [OF e1(2,3) Cons.prems(3)] show ?case by (simp add: e1(1))
qed auto

lemma encode_ok:
  assumes "0 < nframes"
  shows "\<exists>e e'. send_all (send_data_with nframes (store_with maxspw upd) update_packet) xs (SteimEncoder nn dd) = Some e \<and>
    flush_with nframes update_packet e = Some e' \<and> buf e' = [] \<and> current_packet e' = None \<and>
    last_sample e' = last (0 # xs) \<and> records_ok dec clamp nframes nn dd xs 0 (queued e') (length xs)"
proof -
  have "stream_ok dec clamp cls okspw nframes nn dd [] (SteimEncoder nn dd)"
    using okspw_start by (auto simp: stream_ok_def SteimEncoder_def SPClock_def)
  moreover have "length (buf (SteimEncoder nn dd)) < spw (SteimEncoder nn dd)" by (simp add: SteimEncoder_def)
  ultimately obtain e where e: "send_all (send_data_with nframes (store_with maxspw upd) update_packet) xs (SteimEncoder nn dd) = Some e"
      "stream_ok dec clamp cls okspw nframes nn dd xs e" "length (buf e) < spw e"
    using send_all_ok [of nframes nn dd "[]"] assms by force
  moreover have "length (buf e) \<le> maxspw" using e(2,3) by (auto simp: stream_ok_def dest!: okspw_range)
  ultimately show ?thesis using flush_ok assms by blast
qed

end

end
