(* ===== verification/Steim1.thy ===== *)
theory Steim1
  imports Steim
begin

text \<open>
  The Steim1 encoder (src/src/seedlink/apps/seedlink/steim1.cc, steim1.h): four 8-bit, two 16-bit or
  one 32-bit difference in a word.  The operations it shares with Steim2 come from the theory Steim;
  here are its classes, its choice of differences and its words, the decoding of the words, and the
  proof that the contract of the encoders holds.
\<close>

definition steim1_update_spw :: "nat \<Rightarrow> steim \<Rightarrow> steim option" where
  "steim1_update_spw bp e =
     (if \<not> bp < 4 then None
      else
        (let b = sint (buf e ! bp);
             spw1 = (if b < -32768 \<or> b > 32767 then 1 else if b < -128 \<or> b > 127 then 2 else 4)
         in Some (if spw1 < spw e then e\<lparr>spw := spw1\<rparr> else e)))"

definition steim1_store :: "32 word \<Rightarrow> steim \<Rightarrow> steim option" where
  "steim1_store = store_with 4 steim1_update_spw"

text \<open>\<open>while(used < spw) spw >>= 1\<close>\<close>

function halve :: "nat \<Rightarrow> nat \<Rightarrow> nat" where
  "halve used s = (if used < s then halve used (s div 2) else s)"
  by pat_completeness auto
termination by (relation "measure snd") auto

declare halve.simps [simp del]

definition steim1_word :: "nat \<Rightarrow> 32 word list \<Rightarrow> (32 word \<times> 32 word) option" where
  "steim1_word s b =
     (if s = 4 then Some (1, push_bit 24 (b ! 0 AND 0xff) OR push_bit 16 (b ! 1 AND 0xff) OR
        push_bit 8 (b ! 2 AND 0xff) OR (b ! 3 AND 0xff))
      else if s = 2 then Some (2, push_bit 16 (b ! 0 AND 0xffff) OR (b ! 1 AND 0xffff))
      else if s = 1 then Some (3, b ! 0)
      else None)"

definition steim1_update_packet :: "packet \<Rightarrow> steim \<Rightarrow> steim option" where
  "steim1_update_packet p e =
     (if \<not> length (buf e) < 5 then None
      else
        case reduce 4 steim1_update_spw (length (buf e)) e of
          None \<Rightarrow> None
        | Some (used, e) \<Rightarrow>
            (let used = halve used (spw e) in
             case steim1_word used (buf e) of
               None \<Rightarrow> None
             | Some (nibble, w) \<Rightarrow> enter_word 4 steim1_update_spw used nibble w p (e\<lparr>spw := used\<rparr>)))"

definition steim1_send_data :: "nat \<Rightarrow> 32 word \<Rightarrow> steim \<Rightarrow> steim option" where
  "steim1_send_data nframes = send_data_with nframes steim1_store steim1_update_packet"

definition steim1_flush :: "nat \<Rightarrow> steim \<Rightarrow> steim option" where
  "steim1_flush nframes = flush_with nframes steim1_update_packet"

section \<open>Decoding\<close>

text \<open>The differences of a word by the SEED manual; control bits 1, 2 and 3.\<close>

definition steim1_dec :: "32 word \<Rightarrow> 32 word \<Rightarrow> 32 word list" where
  "steim1_dec n w =
     (if n = 1 then map (\<lambda>s. signed_take_bit 7 (drop_bit s w)) [24, 16, 8, 0]
      else if n = 2 then map (\<lambda>s. signed_take_bit 15 (drop_bit s w)) [16, 0]
      else if n = 3 then [w] else [])"

definition steim1_class :: "32 word \<Rightarrow> nat" where
  "steim1_class d = (if - 128 \<le> sint d \<and> sint d \<le> 127 then 4 else if - 32768 \<le> sint d \<and> sint d \<le> 32767 then 2 else 1)"

lemma mask8: "(0xff :: 32 word) = mask 8"
  by (simp add: mask_eq_exp_minus_1)

lemma mask16: "(0xffff :: 32 word) = mask 16"
  by (simp add: mask_eq_exp_minus_1)

lemma steim1_word_4:
  fixes a b c d :: "32 word"
  defines "w \<equiv> push_bit 24 (a AND 0xff) OR push_bit 16 (b AND 0xff) OR push_bit 8 (c AND 0xff) OR (d AND 0xff)"
  shows "signed_take_bit 7 (drop_bit 24 w) = signed_take_bit 7 a" and "signed_take_bit 7 (drop_bit 16 w) = signed_take_bit 7 b"
    and "signed_take_bit 7 (drop_bit 8 w) = signed_take_bit 7 c" and "signed_take_bit 7 w = signed_take_bit 7 d"
  unfolding w_def by (rule bit_word_eqI, simp add: mask8 bit_simps min_def; fail)+

lemma steim1_dec_4: "steim1_dec 1 (push_bit 24 (a AND 0xff) OR push_bit 16 (b AND 0xff) OR push_bit 8 (c AND 0xff) OR (d AND 0xff)) =
    map (signed_take_bit 7) [a, b, c, d]"
  by (simp only: steim1_dec_def steim1_word_4 list.map drop_bit_0 id_apply refl if_True)

lemma steim1_word_2:
  fixes a b :: "32 word"
  defines "w \<equiv> push_bit 16 (a AND 0xffff) OR (b AND 0xffff)"
  shows "signed_take_bit 15 (drop_bit 16 w) = signed_take_bit 15 a" and "signed_take_bit 15 w = signed_take_bit 15 b"
  unfolding w_def by (rule bit_word_eqI, simp add: mask16 bit_simps min_def; fail)+

lemma steim1_dec_2: "steim1_dec 2 (push_bit 16 (a AND 0xffff) OR (b AND 0xffff)) = map (signed_take_bit 15) [a, b]"
proof -
  have "(2 :: 32 word) \<noteq> 1" by simp
  then show ?thesis by (simp only: steim1_dec_def steim1_word_2 list.map drop_bit_0 id_apply refl if_True if_False)
qed

section \<open>The contract\<close>

interpretation s1: steim_classes 4 steim1_update_spw "\<lambda>d. d" steim1_class "\<lambda>n. n \<in> {1, 2, 4}"
proof unfold_locales
  fix i and e :: steim
  assume "i < length (buf e)" and "i < 4"
  then show "steim1_update_spw i e =
      Some (e\<lparr>buf := (buf e)[i := buf e ! i], spw := min (spw e) (steim1_class (buf e ! i))\<rparr>)"
    by (auto simp: steim1_update_spw_def steim1_class_def Let_def min_def)
qed (auto simp: steim1_class_def)

lemma halve_values:
  assumes "1 \<le> u"
  shows "halve u 1 = 1" and "halve u 2 = (if u < 2 then 1 else 2)" and "halve u 4 = (if u < 4 then halve u 2 else 4)"
proof -
  show one: "halve u 1 = 1" using assms by (subst halve.simps) simp
  have "(2 :: nat) div 2 = 1" and "(4 :: nat) div 2 = 2" by simp_all
  then show "halve u 2 = (if u < 2 then 1 else 2)" and "halve u 4 = (if u < 4 then halve u 2 else 4)"
    by (subst halve.simps, simp only: one)+
qed

lemma halve_cases:
  assumes "u \<le> m" and "m \<in> {1, 2, 4}" and "1 \<le> u"
  shows "halve u m \<in> {1, 2, 4}" and "halve u m \<le> u"
  using assms halve_values [OF assms(3)] by (auto split: if_splits)

lemma list_of_nths:
  "4 \<le> length b \<Longrightarrow> take 4 b = [b ! 0, b ! 1, b ! 2, b ! 3]"
  "2 \<le> length b \<Longrightarrow> take 2 b = [b ! 0, b ! 1]"
  "1 \<le> length b \<Longrightarrow> take 1 b = [b ! 0]"
  by (cases b; cases "tl b"; cases "tl (tl b)"; cases "tl (tl (tl b))"; auto)+

lemma steim1_word_decodes:
  assumes s: "s \<in> {1, 2, 4}" and "s \<le> length b" and c: "\<forall>i < s. s \<le> steim1_class (b ! i)"
  shows "\<exists>n w. steim1_word s b = Some (n, w) \<and> take_bit 2 n = n \<and> steim1_dec n w = take s b"
proof -
  consider "s = 4" | "s = 2" | "s = 1" using s by auto
  then show ?thesis
  proof cases
    case 1
    have "signed_take_bit 7 (b ! i) = b ! i" if "i < 4" for i
      using c that 1 by (intro signed_fit) (auto simp: steim1_class_def split: if_splits)
    then have "map (signed_take_bit 7) [b ! 0, b ! 1, b ! 2, b ! 3] = take s b"
      using 1 assms(2) list_of_nths(1) [of b] by simp
    then show ?thesis
      unfolding 1 steim1_word_def by (intro exI conjI, simp only: refl if_True) (simp_all only: steim1_dec_4, simp)
  next
    case 2
    have "signed_take_bit 15 (b ! i) = b ! i" if "i < 2" for i
      using c that 2 by (intro signed_fit) (auto simp: steim1_class_def split: if_splits)
    then have "map (signed_take_bit 15) [b ! 0, b ! 1] = take s b"
      using 2 assms(2) list_of_nths(2) [of b] by simp
    moreover have "(2 :: nat) \<noteq> 4" by simp
    ultimately show ?thesis
      unfolding 2 steim1_word_def by (intro exI conjI, simp only: refl if_True if_False) (simp_all only: steim1_dec_2, simp)
  next
    case 3
    then show ?thesis
      using assms(2) list_of_nths(3) [of b] by (simp add: steim1_word_def steim1_dec_def)
  qed
qed

interpretation s1c: steim_codec 4 steim1_update_spw "\<lambda>d. d" steim1_class "\<lambda>n. n \<in> {1, 2, 4}" steim1_update_packet steim1_dec
proof unfold_locales
  show "steim1_dec 0 w = []" for w by (simp add: steim1_dec_def)
next
  fix e :: steim and p
  assume ne: "buf e \<noteq> []" and le: "length (buf e) \<le> 4" and ok: "spw e \<in> {1, 2, 4}"
    and c: "\<forall>d \<in> set (buf e). d = d \<and> spw e \<le> steim1_class d"
  have "\<forall>i < length (buf e). spw e \<le> steim1_class (buf e ! i)" using c by simp
  then have "\<exists>u m. reduce 4 steim1_update_spw (length (buf e)) e = Some (u, e\<lparr>spw := m\<rparr>) \<and> 1 \<le> u \<and> u \<le> length (buf e) \<and>
      u \<le> m \<and> m \<in> {1, 2, 4} \<and> (\<forall>i < u. m \<le> steim1_class (buf e ! i))"
    using ne le ok by (intro s1.reduce_class) (auto simp: Suc_le_eq)
  then obtain u m where r: "reduce 4 steim1_update_spw (length (buf e)) e = Some (u, e\<lparr>spw := m\<rparr>)" "1 \<le> u" "u \<le> length (buf e)"
      "u \<le> m" "m \<in> {1, 2, 4}" "\<forall>i < u. m \<le> steim1_class (buf e ! i)"
    by blast
  define s where "s = halve u m"
  have s: "s \<in> {1, 2, 4}" "s \<le> u" "s \<le> m" using halve_cases [OF r(4,5,2)] r(4) by (auto simp: s_def)
  have "\<forall>i < s. s \<le> steim1_class (buf e ! i)" using r(6) s(2,3) by (meson less_le_trans order_trans)
  then obtain n w where w: "steim1_word s (buf e) = Some (n, w)" "take_bit 2 n = n" "steim1_dec n w = take s (buf e)"
    using steim1_word_decodes [OF s(1), of "buf e"] le_trans [OF s(2) r(3)] by blast
  have "steim1_update_packet p e = enter_word 4 steim1_update_spw s n w p e"
    using le r(1) w(1) by (simp add: steim1_update_packet_def s_def [symmetric] enter_word_spw)
  then show "\<exists>used nibble w. 1 \<le> used \<and> used \<le> length (buf e) \<and> take_bit 2 nibble = nibble \<and>
      steim1_dec nibble w = take used (buf e) \<and>
      steim1_update_packet p e = enter_word 4 steim1_update_spw used nibble w p e"
    using s r(3) w by (intro exI [of _ s] exI [of _ n] exI [of _ w]) auto
qed

section \<open>The encoder is lossless\<close>

text \<open>
  C15: Sent any samples and flushed, the Steim1 encoder never fails an internal check, leaves nothing
  in its buffer, and the records it queued decode to exactly these samples; each record's first two
  words are its first and last sample, its sample count and start time are right, and the frames after
  the number it reports are zero.
\<close>

theorem steim1_lossless:
  assumes "0 < nframes"
  shows "\<exists>e e'. send_all (steim1_send_data nframes) xs (SteimEncoder nn dd) = Some e \<and> steim1_flush nframes e = Some e' \<and>
    buf e' = [] \<and> current_packet e' = None \<and> records_ok steim1_dec (\<lambda>d. d) nframes nn dd xs 0 (queued e') (length xs) \<and>
    concat (map (packet_samples steim1_dec \<circ> fst) (queued e')) = xs"
proof -
  have ex: "exact (\<lambda>d. d) xs" by (simp add: exact_def)
  show ?thesis
    using s1c.encode_ok [OF assms, of xs nn dd] records_ok_samples [OF _ ex]
    by (fastforce simp: steim1_send_data_def steim1_store_def [abs_def] steim1_flush_def)
qed

theorem steim1_lossless_witness:
  "\<exists>e e'. send_all (steim1_send_data 7) [5, 300, -70000] (SteimEncoder 100 1) = Some e \<and>
    steim1_flush 7 e = Some e' \<and>
    buf e' = [] \<and> current_packet e' = None \<and>
    records_ok steim1_dec (\<lambda>d. d) 7 100 1 [5, 300, -70000] 0 (queued e') (length [5, 300, -70000 :: 32 word]) \<and>
    concat (map (packet_samples steim1_dec \<circ> fst) (queued e')) = [5, 300, -70000]"
  using steim1_lossless [of 7 "[5, 300, -70000]" 100 1] by simp

end
