(* ===== verification/Steim2.thy ===== *)
theory Steim2
  imports Steim
begin

text \<open>
  The Steim2 encoder (src/src/seedlink/apps/seedlink/steim2.cc, steim2.h): one to seven differences of
  30 to 4 bits in a word; a difference that does not fit 30 bits is replaced by the nearest that
  does.  As in Steim1, the shared operations come from the theory Steim; here are the classes, the
  choice of differences and the words of Steim2, their decoding, and the proof of the contract.
\<close>

definition steim2_update_spw :: "nat \<Rightarrow> steim \<Rightarrow> steim option" where
  "steim2_update_spw bp e =
     (if \<not> bp < 7 then None
      else
        (let b = sint (buf e ! bp) in
         if b < -536870912 then Some (e\<lparr>buf := (buf e)[bp := -536870912], spw := 1\<rparr>)
         else if b > 536870911 then Some (e\<lparr>buf := (buf e)[bp := 536870911], spw := 1\<rparr>)
         else
           (let spw1 =
              (if b < -16384 \<or> b > 16383 then 1 else if b < -512 \<or> b > 511 then 2 else if b < -128 \<or> b > 127 then 3
               else if b < -32 \<or> b > 31 then 4 else if b < -16 \<or> b > 15 then 5 else if b < -8 \<or> b > 7 then 6 else 7)
            in Some (if spw1 < spw e then e\<lparr>spw := spw1\<rparr> else e))))"

definition steim2_store :: "32 word \<Rightarrow> steim \<Rightarrow> steim option" where
  "steim2_store = store_with 7 steim2_update_spw"

definition steim2_word :: "nat \<Rightarrow> 32 word list \<Rightarrow> (32 word \<times> 32 word) option" where
  "steim2_word s b =
     (if s = 7 then Some (3,
        push_bit 30 2 OR push_bit 24 (b ! 0 AND 0xf) OR push_bit 20 (b ! 1 AND 0xf) OR
        push_bit 16 (b ! 2 AND 0xf) OR push_bit 12 (b ! 3 AND 0xf) OR push_bit 8 (b ! 4 AND 0xf) OR
        push_bit 4 (b ! 5 AND 0xf) OR (b ! 6 AND 0xf))
      else if s = 6 then Some (3,
        push_bit 30 1 OR push_bit 25 (b ! 0 AND 0x1f) OR push_bit 20 (b ! 1 AND 0x1f) OR
        push_bit 15 (b ! 2 AND 0x1f) OR push_bit 10 (b ! 3 AND 0x1f) OR push_bit 5 (b ! 4 AND 0x1f) OR
        (b ! 5 AND 0x1f))
      else if s = 5 then Some (3,
        push_bit 24 (b ! 0 AND 0x3f) OR push_bit 18 (b ! 1 AND 0x3f) OR push_bit 12 (b ! 2 AND 0x3f) OR
        push_bit 6 (b ! 3 AND 0x3f) OR (b ! 4 AND 0x3f))
      else if s = 4 then Some (1,
        push_bit 24 (b ! 0 AND 0xff) OR push_bit 16 (b ! 1 AND 0xff) OR push_bit 8 (b ! 2 AND 0xff) OR
        (b ! 3 AND 0xff))
      else if s = 3 then Some (2,
        push_bit 30 3 OR push_bit 20 (b ! 0 AND 0x3ff) OR push_bit 10 (b ! 1 AND 0x3ff) OR
        (b ! 2 AND 0x3ff))
      else if s = 2 then Some (2,
        push_bit 30 2 OR push_bit 15 (b ! 0 AND 0x7fff) OR (b ! 1 AND 0x7fff))
      else if s = 1 then Some (2,
        push_bit 30 1 OR (b ! 0 AND 0x3fffffff))
      else None)"

definition steim2_update_packet :: "packet \<Rightarrow> steim \<Rightarrow> steim option" where
  "steim2_update_packet p e =
     (if \<not> length (buf e) < 8 then None
      else
        case reduce 7 steim2_update_spw (length (buf e)) e of
          None \<Rightarrow> None
        | Some (used, e) \<Rightarrow>
            (case steim2_word used (buf e) of
               None \<Rightarrow> None
             | Some (nibble, w) \<Rightarrow> enter_word 7 steim2_update_spw used nibble w p (e\<lparr>spw := used\<rparr>)))"

definition steim2_send_data :: "nat \<Rightarrow> 32 word \<Rightarrow> steim \<Rightarrow> steim option" where
  "steim2_send_data nframes = send_data_with nframes steim2_store steim2_update_packet"

definition steim2_flush :: "nat \<Rightarrow> steim \<Rightarrow> steim option" where
  "steim2_flush nframes = flush_with nframes steim2_update_packet"

section \<open>Decoding\<close>

text \<open>The differences of a word by the SEED manual: its control bits and, for 2 and 3, its own two top bits.\<close>

definition steim2_dec :: "32 word \<Rightarrow> 32 word \<Rightarrow> 32 word list" where
  "steim2_dec n w =
     (let field = \<lambda>m s. signed_take_bit m (drop_bit s w); dnib = drop_bit 30 w in
      if n = 1 then map (field 7) [24, 16, 8, 0]
      else if n = 2 then
        (if dnib = 1 then map (field 29) [0]
         else if dnib = 2 then map (field 14) [15, 0]
         else if dnib = 3 then map (field 9) [20, 10, 0] else [])
      else if n = 3 then
        (if dnib = 0 then map (field 5) [24, 18, 12, 6, 0]
         else if dnib = 1 then map (field 4) [25, 20, 15, 10, 5, 0]
         else if dnib = 2 then map (field 3) [24, 20, 16, 12, 8, 4, 0] else [])
      else [])"

definition steim2_clamp :: "32 word \<Rightarrow> 32 word" where
  "steim2_clamp d = (if sint d < -536870912 then -536870912 else if sint d > 536870911 then 536870911 else d)"

definition steim2_class :: "32 word \<Rightarrow> nat" where
  "steim2_class d =
     (if - 8 \<le> sint d \<and> sint d \<le> 7 then 7 else if - 16 \<le> sint d \<and> sint d \<le> 15 then 6
      else if - 32 \<le> sint d \<and> sint d \<le> 31 then 5 else if - 128 \<le> sint d \<and> sint d \<le> 127 then 4
      else if - 512 \<le> sint d \<and> sint d \<le> 511 then 3 else if - 16384 \<le> sint d \<and> sint d \<le> 16383 then 2 else 1)"

section \<open>The words\<close>

lemma steim2_masks:
  "(0xf :: 32 word) = mask 4"
  "(0x1f :: 32 word) = mask 5"
  "(0x3f :: 32 word) = mask 6"
  "(0xff :: 32 word) = mask 8"
  "(0x3ff :: 32 word) = mask 10"
  "(0x7fff :: 32 word) = mask 15"
  "(0x3fffffff :: 32 word) = mask 30"
  by (simp_all add: mask_eq_exp_minus_1)

lemma steim2_word_7:
  fixes t a b c d f g h :: "32 word"
  defines "w \<equiv> push_bit 30 t OR push_bit 24 (a AND 0xf) OR push_bit 20 (b AND 0xf) OR push_bit 16 (c AND 0xf) OR
    push_bit 12 (d AND 0xf) OR push_bit 8 (f AND 0xf) OR push_bit 4 (g AND 0xf) OR (h AND 0xf)"
  shows "drop_bit 30 w = take_bit 2 t" and
    "signed_take_bit 3 (drop_bit 24 w) = signed_take_bit 3 a" and
    "signed_take_bit 3 (drop_bit 20 w) = signed_take_bit 3 b" and
    "signed_take_bit 3 (drop_bit 16 w) = signed_take_bit 3 c" and
    "signed_take_bit 3 (drop_bit 12 w) = signed_take_bit 3 d" and
    "signed_take_bit 3 (drop_bit 8 w) = signed_take_bit 3 f" and
    "signed_take_bit 3 (drop_bit 4 w) = signed_take_bit 3 g" and
    "signed_take_bit 3 (drop_bit 0 w) = signed_take_bit 3 h"
  unfolding w_def by (rule bit_word_eqI, simp add: steim2_masks bit_simps min_def; fail)+

lemma steim2_word_6:
  fixes t a b c d f g :: "32 word"
  defines "w \<equiv> push_bit 30 t OR push_bit 25 (a AND 0x1f) OR push_bit 20 (b AND 0x1f) OR push_bit 15 (c AND 0x1f) OR
    push_bit 10 (d AND 0x1f) OR push_bit 5 (f AND 0x1f) OR (g AND 0x1f)"
  shows "drop_bit 30 w = take_bit 2 t" and
    "signed_take_bit 4 (drop_bit 25 w) = signed_take_bit 4 a" and
    "signed_take_bit 4 (drop_bit 20 w) = signed_take_bit 4 b" and
    "signed_take_bit 4 (drop_bit 15 w) = signed_take_bit 4 c" and
    "signed_take_bit 4 (drop_bit 10 w) = signed_take_bit 4 d" and
    "signed_take_bit 4 (drop_bit 5 w) = signed_take_bit 4 f" and
    "signed_take_bit 4 (drop_bit 0 w) = signed_take_bit 4 g"
  unfolding w_def by (rule bit_word_eqI, simp add: steim2_masks bit_simps min_def; fail)+

lemma steim2_word_5:
  fixes a b c d f :: "32 word"
  defines "w \<equiv> push_bit 24 (a AND 0x3f) OR push_bit 18 (b AND 0x3f) OR push_bit 12 (c AND 0x3f) OR
    push_bit 6 (d AND 0x3f) OR (f AND 0x3f)"
  shows "drop_bit 30 w = 0" and
    "signed_take_bit 5 (drop_bit 24 w) = signed_take_bit 5 a" and
    "signed_take_bit 5 (drop_bit 18 w) = signed_take_bit 5 b" and
    "signed_take_bit 5 (drop_bit 12 w) = signed_take_bit 5 c" and
    "signed_take_bit 5 (drop_bit 6 w) = signed_take_bit 5 d" and
    "signed_take_bit 5 (drop_bit 0 w) = signed_take_bit 5 f"
  unfolding w_def by (rule bit_word_eqI, simp add: steim2_masks bit_simps min_def; fail)+

lemma steim2_word_4:
  fixes a b c d :: "32 word"
  defines "w \<equiv> push_bit 24 (a AND 0xff) OR push_bit 16 (b AND 0xff) OR push_bit 8 (c AND 0xff) OR (d AND 0xff)"
  shows "signed_take_bit 7 (drop_bit 24 w) = signed_take_bit 7 a" and
    "signed_take_bit 7 (drop_bit 16 w) = signed_take_bit 7 b" and
    "signed_take_bit 7 (drop_bit 8 w) = signed_take_bit 7 c" and
    "signed_take_bit 7 (drop_bit 0 w) = signed_take_bit 7 d"
  unfolding w_def by (rule bit_word_eqI, simp add: steim2_masks bit_simps min_def; fail)+

lemma steim2_word_3:
  fixes t a b c :: "32 word"
  defines "w \<equiv> push_bit 30 t OR push_bit 20 (a AND 0x3ff) OR push_bit 10 (b AND 0x3ff) OR (c AND 0x3ff)"
  shows "drop_bit 30 w = take_bit 2 t" and
    "signed_take_bit 9 (drop_bit 20 w) = signed_take_bit 9 a" and
    "signed_take_bit 9 (drop_bit 10 w) = signed_take_bit 9 b" and
    "signed_take_bit 9 (drop_bit 0 w) = signed_take_bit 9 c"
  unfolding w_def by (rule bit_word_eqI, simp add: steim2_masks bit_simps min_def; fail)+

lemma steim2_word_2:
  fixes t a b :: "32 word"
  defines "w \<equiv> push_bit 30 t OR push_bit 15 (a AND 0x7fff) OR (b AND 0x7fff)"
  shows "drop_bit 30 w = take_bit 2 t" and
    "signed_take_bit 14 (drop_bit 15 w) = signed_take_bit 14 a" and
    "signed_take_bit 14 (drop_bit 0 w) = signed_take_bit 14 b"
  unfolding w_def by (rule bit_word_eqI, simp add: steim2_masks bit_simps min_def; fail)+

lemma steim2_word_1:
  fixes t a :: "32 word"
  defines "w \<equiv> push_bit 30 t OR (a AND 0x3fffffff)"
  shows "drop_bit 30 w = take_bit 2 t" and
    "signed_take_bit 29 (drop_bit 0 w) = signed_take_bit 29 a"
  unfolding w_def by (rule bit_word_eqI, simp add: steim2_masks bit_simps min_def; fail)+

section \<open>The contract\<close>

lemma steim2_clamp_cases:
  "sint d < -536870912 \<and> steim2_clamp d = -536870912 \<or> sint d > 536870911 \<and> steim2_clamp d = 536870911 \<or>
    - 536870912 \<le> sint d \<and> sint d \<le> 536870911 \<and> steim2_clamp d = d"
  by (simp add: steim2_clamp_def linorder_not_less)

lemma sint_limits: "sint (-536870912 :: 32 word) = -536870912" "sint (536870911 :: 32 word) = 536870911"
  by simp_all

lemma steim2_clamp_fits: "- 536870912 \<le> sint (steim2_clamp d) \<and> sint (steim2_clamp d) \<le> 536870911"
  using steim2_clamp_cases [of d] sint_limits by auto

lemma steim2_clamp_same: "- 536870912 \<le> sint d \<Longrightarrow> sint d \<le> 536870911 \<Longrightarrow> steim2_clamp d = d"
  by (simp add: steim2_clamp_def)

lemma steim2_clamp_idem: "steim2_clamp (steim2_clamp d) = steim2_clamp d"
  using steim2_clamp_fits [of d] by (simp add: steim2_clamp_same)

lemma steim2_class_clamp: "steim2_class (steim2_clamp d) = steim2_class d"
  using steim2_clamp_cases [of d] sint_limits by (elim disjE conjE) (simp_all add: steim2_class_def)

interpretation s2: steim_classes 7 steim2_update_spw steim2_clamp steim2_class "\<lambda>n. 1 \<le> n \<and> n \<le> 7"
proof unfold_locales
  fix i and e :: steim
  assume "i < length (buf e)" and "i < 7" and ok: "1 \<le> spw e \<and> spw e \<le> 7"
  let ?b = "buf e ! i"
  consider "sint ?b < -536870912" | "sint ?b > 536870911" | "\<not> sint ?b < -536870912" "\<not> sint ?b > 536870911" by blast
  then show "steim2_update_spw i e =
      Some (e\<lparr>buf := (buf e)[i := steim2_clamp ?b], spw := min (spw e) (steim2_class ?b)\<rparr>)"
  proof cases
    case 1
    then show ?thesis using \<open>i < 7\<close> ok by (simp add: steim2_update_spw_def steim2_clamp_def steim2_class_def)
  next
    case 2
    then show ?thesis using \<open>i < 7\<close> ok by (simp add: steim2_update_spw_def steim2_clamp_def steim2_class_def)
  next
    case 3
    have "(if sint ?b < - 16384 \<or> 16383 < sint ?b then 1 else if sint ?b < - 512 \<or> 511 < sint ?b then 2
        else if sint ?b < - 128 \<or> 127 < sint ?b then 3 else if sint ?b < - 32 \<or> 31 < sint ?b then 4
        else if sint ?b < - 16 \<or> 15 < sint ?b then 5 else if sint ?b < - 8 \<or> 7 < sint ?b then 6 else 7) = steim2_class ?b"
      unfolding steim2_class_def by auto
    then show ?thesis
      using 3 \<open>i < 7\<close> by (simp add: steim2_update_spw_def steim2_clamp_def Let_def min_def)
  qed
next
  show "1 \<le> steim2_class d \<and> steim2_class d \<le> 7" for d by (simp add: steim2_class_def)
qed (simp_all add: steim2_clamp_idem steim2_class_clamp)

lemma steim2_numerals:
  "take_bit 2 (1 :: 32 word) = 1" "take_bit 2 (2 :: 32 word) = 2" "take_bit 2 (3 :: 32 word) = 3"
  "(2 :: 32 word) = 1 \<longleftrightarrow> False" "(3 :: 32 word) = 1 \<longleftrightarrow> False" "(3 :: 32 word) = 2 \<longleftrightarrow> False"
  "(2 :: 32 word) = 0 \<longleftrightarrow> False" "(1 :: 32 word) = 0 \<longleftrightarrow> False" "(0 :: 32 word) = 1 \<longleftrightarrow> False" "(1 :: 32 word) = 2 \<longleftrightarrow> False"
  "(0 :: 32 word) = 2 \<longleftrightarrow> False"
  by simp_all

lemma nat_numerals:
  "(6 :: nat) = 7 \<longleftrightarrow> False" "(5 :: nat) = 7 \<longleftrightarrow> False" "(5 :: nat) = 6 \<longleftrightarrow> False" "(4 :: nat) = 7 \<longleftrightarrow> False"
  "(4 :: nat) = 6 \<longleftrightarrow> False" "(4 :: nat) = 5 \<longleftrightarrow> False" "(3 :: nat) = 7 \<longleftrightarrow> False" "(3 :: nat) = 6 \<longleftrightarrow> False"
  "(3 :: nat) = 5 \<longleftrightarrow> False" "(3 :: nat) = 4 \<longleftrightarrow> False" "(2 :: nat) = 7 \<longleftrightarrow> False" "(2 :: nat) = 6 \<longleftrightarrow> False"
  "(2 :: nat) = 5 \<longleftrightarrow> False" "(2 :: nat) = 4 \<longleftrightarrow> False" "(2 :: nat) = 3 \<longleftrightarrow> False" "(1 :: nat) = 7 \<longleftrightarrow> False"
  "(1 :: nat) = 6 \<longleftrightarrow> False" "(1 :: nat) = 5 \<longleftrightarrow> False" "(1 :: nat) = 4 \<longleftrightarrow> False" "(1 :: nat) = 3 \<longleftrightarrow> False"
  "(1 :: nat) = 2 \<longleftrightarrow> False"
  by simp_all

lemma short_upts:
  "[0..<7] = [0, Suc 0, 2, 3, 4, 5, 6]"
  "[0..<6] = [0, Suc 0, 2, 3, 4, 5]"
  "[0..<5] = [0, Suc 0, 2, 3, 4]"
  "[0..<4] = [0, Suc 0, 2, 3]"
  "[0..<3] = [0, Suc 0, 2]"
  "[0..<2] = [0, Suc 0]"
  "[0..<Suc 0] = [0]"
  by code_simp+

lemma steim2_class_range:
  assumes "s \<le> steim2_class d" and "(s, m) \<in> {(7, 3), (6, 4), (5, 5), (4, 7), (3, 9), (2, 14)}"
  shows "- (2 ^ m) \<le> sint d \<and> sint d < 2 ^ m"
proof -
  from assms(2) consider "s = 7" "m = 3" | "s = 6" "m = 4" | "s = 5" "m = 5" | "s = 4" "m = 7" | "s = 3" "m = 9" | "s = 2" "m = 14"
    by auto
  then show ?thesis
    by cases (use assms(1) in \<open>simp add: steim2_class_def split: if_splits\<close>)+
qed

lemma steim2_word_decodes:
  assumes s: "1 \<le> s" "s \<le> 7" "s \<le> length b" and c: "\<forall>i < s. s \<le> steim2_class (b ! i)"
    and cl: "\<forall>i < s. steim2_clamp (b ! i) = b ! i"
  shows "\<exists>n w. steim2_word s b = Some (n, w) \<and> take_bit 2 n = n \<and> steim2_dec n w = take s b"
proof -
  have fit: "signed_take_bit m (b ! i) = b ! i"
    if "i < s" "(s, m) \<in> {(7, 3), (6, 4), (5, 5), (4, 7), (3, 9), (2, 14)}" for i m
    using steim2_class_range [OF _ that(2), of "b ! i"] c that(1) by (intro signed_fit) simp_all
  have fit1: "signed_take_bit 29 (b ! 0) = b ! 0"
  proof -
    have "steim2_clamp (b ! 0) = b ! 0" using cl s(1) by simp
    then have "- 536870912 \<le> sint (b ! 0) \<and> sint (b ! 0) \<le> 536870911" using steim2_clamp_fits [of "b ! 0"] by simp
    then show ?thesis by (intro signed_fit) auto
  qed
  have tk: "map ((!) b) [0..<s] = take s b"
    using s(3) by (metis map_nth take_map take_upt diff_zero add_0)
  have mp: "map (signed_take_bit m) (take s b) = take s b"
    if "(s, m) \<in> {(7, 3), (6, 4), (5, 5), (4, 7), (3, 9), (2, 14)}" for m
    using fit [OF _ that] by (intro map_idI) (auto simp: in_set_conv_nth)
  consider "s = 7" | "s = 6" | "s = 5" | "s = 4" | "s = 3" | "s = 2" | "s = 1" using s by linarith
  then show ?thesis
  proof cases
    case 1
    have "map (signed_take_bit 3) [b ! 0, b ! 1, b ! 2, b ! 3, b ! 4, b ! 5, b ! 6] = take s b"
      using mp [of 3] tk 1 by (simp add: short_upts)
    then show ?thesis
      by (intro exI conjI, simp only: 1 steim2_word_def refl if_True if_False nat_numerals)
        (simp_all only: steim2_dec_def Let_def steim2_word_7 steim2_numerals list.map refl if_True if_False)
  next
    case 2
    have "map (signed_take_bit 4) [b ! 0, b ! 1, b ! 2, b ! 3, b ! 4, b ! 5] = take s b"
      using mp [of 4] tk 2 by (simp add: short_upts)
    then show ?thesis
      by (intro exI conjI, simp only: 2 steim2_word_def refl if_True if_False nat_numerals)
        (simp_all only: steim2_dec_def Let_def steim2_word_6 steim2_numerals list.map refl if_True if_False)
  next
    case 3
    have "map (signed_take_bit 5) [b ! 0, b ! 1, b ! 2, b ! 3, b ! 4] = take s b"
      using mp [of 5] tk 3 by (simp add: short_upts)
    then show ?thesis
      by (intro exI conjI, simp only: 3 steim2_word_def refl if_True if_False nat_numerals)
        (simp_all only: steim2_dec_def Let_def steim2_word_5 steim2_numerals list.map refl if_True if_False)
  next
    case 4
    have "map (signed_take_bit 7) [b ! 0, b ! 1, b ! 2, b ! 3] = take s b"
      using mp [of 7] tk 4 by (simp add: short_upts)
    then show ?thesis
      by (intro exI conjI, simp only: 4 steim2_word_def refl if_True if_False nat_numerals)
        (simp_all only: steim2_dec_def Let_def steim2_word_4 steim2_numerals list.map refl if_True if_False)
  next
    case 5
    have "map (signed_take_bit 9) [b ! 0, b ! 1, b ! 2] = take s b"
      using mp [of 9] tk 5 by (simp add: short_upts)
    then show ?thesis
      by (intro exI conjI, simp only: 5 steim2_word_def refl if_True if_False nat_numerals)
        (simp_all only: steim2_dec_def Let_def steim2_word_3 steim2_numerals list.map refl if_True if_False)
  next
    case 6
    have "map (signed_take_bit 14) [b ! 0, b ! 1] = take s b"
      using mp [of 14] tk 6 by (simp add: short_upts)
    then show ?thesis
      by (intro exI conjI, simp only: 6 steim2_word_def refl if_True if_False nat_numerals)
        (simp_all only: steim2_dec_def Let_def steim2_word_2 steim2_numerals list.map refl if_True if_False)
  next
    case 7
    have "map (signed_take_bit 29) [b ! 0] = take s b"
      using fit1 s(3) 7 by (cases b) auto
    then show ?thesis
      by (intro exI conjI, simp only: 7 steim2_word_def refl if_True if_False nat_numerals)
        (simp_all only: steim2_dec_def Let_def steim2_word_1 steim2_numerals list.map refl if_True if_False)
  qed
qed

interpretation s2c: steim_codec 7 steim2_update_spw steim2_clamp steim2_class "\<lambda>n. 1 \<le> n \<and> n \<le> 7"
  steim2_update_packet steim2_dec
proof unfold_locales
  show "steim2_dec 0 w = []" for w by (simp add: steim2_dec_def)
next
  fix e :: steim and p
  assume ne: "buf e \<noteq> []" and le: "length (buf e) \<le> 7" and ok: "1 \<le> spw e \<and> spw e \<le> 7"
    and c: "\<forall>d \<in> set (buf e). steim2_clamp d = d \<and> spw e \<le> steim2_class d"
  have "\<exists>u m. reduce 7 steim2_update_spw (length (buf e)) e = Some (u, e\<lparr>spw := m\<rparr>) \<and> 1 \<le> u \<and> u \<le> length (buf e) \<and>
      u \<le> m \<and> (1 \<le> m \<and> m \<le> 7) \<and> (\<forall>i < u. m \<le> steim2_class (buf e ! i))"
    using ne le ok c by (intro s2.reduce_class) (auto simp: Suc_le_eq)
  then obtain u m where r: "reduce 7 steim2_update_spw (length (buf e)) e = Some (u, e\<lparr>spw := m\<rparr>)" "1 \<le> u" "u \<le> length (buf e)"
      "u \<le> m" "\<forall>i < u. m \<le> steim2_class (buf e ! i)"
    by blast
  have "\<forall>i < u. u \<le> steim2_class (buf e ! i)" using r(4,5) by (meson order_trans)
  moreover have "\<forall>i < u. steim2_clamp (buf e ! i) = buf e ! i" using c r(3) by (meson less_le_trans nth_mem)
  ultimately obtain n w where w: "steim2_word u (buf e) = Some (n, w)" "take_bit 2 n = n" "steim2_dec n w = take u (buf e)"
    using steim2_word_decodes [OF r(2) le_trans [OF r(3) le] r(3)] by blast
  have "steim2_update_packet p e = enter_word 7 steim2_update_spw u n w p e"
    using le r(1) w(1) by (simp add: steim2_update_packet_def enter_word_spw)
  then show "\<exists>used nibble w. 1 \<le> used \<and> used \<le> length (buf e) \<and> take_bit 2 nibble = nibble \<and>
      steim2_dec nibble w = take used (buf e) \<and>
      steim2_update_packet p e = enter_word 7 steim2_update_spw used nibble w p e"
    using r(2,3) w by (intro exI [of _ u] exI [of _ n] exI [of _ w]) auto
qed

section \<open>What the encoder sends\<close>

lemma steim2_encode_ok:
  assumes "0 < nframes"
  shows "\<exists>e e'. send_all (steim2_send_data nframes) xs (SteimEncoder nn dd) = Some e \<and> steim2_flush nframes e = Some e' \<and>
    buf e' = [] \<and> current_packet e' = None \<and> records_ok steim2_dec steim2_clamp nframes nn dd xs 0 (queued e') (length xs)"
  using s2c.encode_ok [OF assms, of xs nn dd]
  by (fastforce simp: steim2_send_data_def steim2_store_def [abs_def] steim2_flush_def)

text \<open>
  Sent any samples and flushed, the Steim2 encoder never fails an internal check, whatever the
  differences, and the differences in the words of its records are those of the samples, each brought
  into the 30-bit range.
\<close>

theorem steim2_differences:
  assumes "0 < nframes"
  shows "\<exists>e e'. send_all (steim2_send_data nframes) xs (SteimEncoder nn dd) = Some e \<and> steim2_flush nframes e = Some e' \<and>
    buf e' = [] \<and> current_packet e' = None \<and>
    concat (map (packet_diffs steim2_dec \<circ> fst) (queued e')) = map steim2_clamp (diffs 0 xs)"
  using steim2_encode_ok [OF assms, of xs nn dd] records_ok_diffs [of steim2_dec steim2_clamp nframes nn dd xs 0] by fastforce

theorem steim2_differences_witness:
  "\<exists>e e'. send_all (steim2_send_data 7) [0, 1073741824] (SteimEncoder 20 1) = Some e \<and> steim2_flush 7 e = Some e' \<and>
    buf e' = [] \<and> current_packet e' = None \<and>
    concat (map (packet_diffs steim2_dec \<circ> fst) (queued e')) = map steim2_clamp (diffs 0 [0, 1073741824])"
  using steim2_differences [of 7 "[0, 1073741824]" 20 1] by simp

text \<open>
  C16: If every difference of the samples (the first taken from 0) fits 30 bits, the records the Steim2
  encoder queued decode to exactly the samples; each record's first two words are its first and last
  sample, its sample count and start time are right, and the frames after the number it reports are
  zero.
\<close>

theorem steim2_lossless:
  assumes "0 < nframes" and "\<forall>d \<in> set (diffs 0 xs). - (2 ^ 29) \<le> sint d \<and> sint d < 2 ^ 29"
  shows "\<exists>e e'. send_all (steim2_send_data nframes) xs (SteimEncoder nn dd) = Some e \<and> steim2_flush nframes e = Some e' \<and>
    buf e' = [] \<and> current_packet e' = None \<and> records_ok steim2_dec steim2_clamp nframes nn dd xs 0 (queued e') (length xs) \<and>
    concat (map (packet_samples steim2_dec \<circ> fst) (queued e')) = xs"
proof -
  have ex: "exact steim2_clamp xs" using assms(2) by (auto simp: exact_def intro!: steim2_clamp_same)
  show ?thesis
    using steim2_encode_ok [OF assms(1), of xs nn dd] records_ok_samples [OF _ ex] by fastforce
qed

theorem steim2_lossless_witness:
  "\<exists>e e'. send_all (steim2_send_data 7) [5, 300, -70000] (SteimEncoder 100 1) = Some e \<and>
    steim2_flush 7 e = Some e' \<and> buf e' = [] \<and> current_packet e' = None \<and>
    records_ok steim2_dec steim2_clamp 7 100 1 [5, 300, -70000] 0 (queued e') (length [5, 300, -70000 :: 32 word]) \<and>
    concat (map (packet_samples steim2_dec \<circ> fst) (queued e')) = [5, 300, -70000]"
  using steim2_lossless [of 7 "[5, 300, -70000]" 100 1] by simp

text \<open>
  A difference beyond 30 bits changes samples that are not beside it: of 0, 1073741824, 1073741824,
  1073741830 the record the Steim2 encoder queues decodes to a first sample 536870913.  The start value
  of a packet is computed backwards from the last sample over the clamped differences, so the whole
  record before the difference is moved.
\<close>

theorem steim2_clamped_sample:
  "Option.bind (send_all (steim2_send_data 7) [0, 1073741824, 1073741824, 1073741830] (SteimEncoder 20 1))
     (\<lambda>e. map_option (\<lambda>e. map (packet_samples steim2_dec \<circ> fst) (queued e)) (steim2_flush 7 e)) =
   Some [[536870913, 1073741824, 1073741824, 1073741830]]"
  by code_simp

end
