(* ===== verification/ThreadedQueue.thy ===== *)
theory ThreadedQueue
  imports Prelude
begin

text \<open>
  The queue between the threads of a client application
  (src/src/trunk/libs/seiscomp3/client/queue.h, queue.ipp): a ring of fixed size under one mutex, with
  the conditions "not full" and "not empty".

  A call of \<open>push\<close> or \<open>pop\<close> is a sequence of segments, each running under the mutex from where the
  thread gets it to where it waits or returns; a segment is one step.  \<open>notify_all\<close> makes every waiting
  thread ready to test its condition again, and a thread may also wake without notification, as the
  documentation of the condition variables allows.  Which thread runs next is not determined.
\<close>

section \<open>The ring\<close>

record 'a tqueue =
  q_begin :: nat
  q_end :: nat
  buffered :: nat
  closed :: bool
  buffer :: "'a list"

text \<open>\<open>std::vector(n)\<close> and \<open>resize\<close> fill with the default value of the element type, an argument here.\<close>

definition ThreadedQueue :: "'a \<Rightarrow> nat \<Rightarrow> 'a tqueue" where
  "ThreadedQueue def n = \<lparr>q_begin = 0, q_end = 0, buffered = 0, closed = False, buffer = replicate n def\<rparr>"

definition tq_resize :: "'a \<Rightarrow> nat \<Rightarrow> 'a tqueue \<Rightarrow> 'a tqueue" where
  "tq_resize def n q = q\<lparr>buffer := take n (buffer q) @ replicate (n - length (buffer q)) def\<rparr>"

datatype queue_error = QueueClosedException

definition canPush :: "'a tqueue \<Rightarrow> queue_error + bool" where
  "canPush q = (if closed q then Inl QueueClosedException else Inr (buffered q < length (buffer q)))"

definition canPop :: "'a tqueue \<Rightarrow> queue_error + bool" where
  "canPop q = (if closed q then Inl QueueClosedException else Inr (buffered q > 0))"

definition tq_size :: "'a tqueue \<Rightarrow> nat" where
  "tq_size q = buffered q"

text \<open>The parts of \<open>push\<close> and \<open>pop\<close> behind the waiting loop, for an open queue.\<close>

definition ring_put :: "'a \<Rightarrow> 'a tqueue \<Rightarrow> 'a tqueue" where
  "ring_put v q = q\<lparr>buffer := (buffer q)[q_end q := v], q_end := (q_end q + 1) mod length (buffer q),
     buffered := buffered q + 1\<rparr>"

definition ring_get :: "'a \<Rightarrow> 'a tqueue \<Rightarrow> 'a \<times> 'a tqueue" where
  "ring_get def q =
     (buffer q ! q_begin q,
      q\<lparr>buffer := (buffer q)[q_begin q := def], q_begin := (q_begin q + 1) mod length (buffer q),
        buffered := buffered q - 1\<rparr>)"

section \<open>Threads\<close>

text \<open>
  Where a thread is: in no call, before the test of the loop of \<open>push\<close> or \<open>pop\<close> without the mutex,
  or waiting for a condition.  \<open>pushed\<close> and \<open>popped\<close> are the values for which \<open>push\<close> returned true and
  those \<open>pop\<close> returned, in the order of the segments that did it.
\<close>

datatype 'a pc = Idle | Pushing 'a | WaitNotFull 'a | Popping | WaitNotEmpty

record 'a qsystem =
  queue :: "'a tqueue"
  pcs :: "nat \<Rightarrow> 'a pc"
  pushed :: "'a list"
  popped :: "'a list"

definition notify_notFull :: "(nat \<Rightarrow> 'a pc) \<Rightarrow> nat \<Rightarrow> 'a pc" where
  "notify_notFull p = (\<lambda>t. case p t of WaitNotFull v \<Rightarrow> Pushing v | c \<Rightarrow> c)"

definition notify_notEmpty :: "(nat \<Rightarrow> 'a pc) \<Rightarrow> nat \<Rightarrow> 'a pc" where
  "notify_notEmpty p = (\<lambda>t. case p t of WaitNotEmpty \<Rightarrow> Popping | c \<Rightarrow> c)"

definition push :: "nat \<Rightarrow> 'a \<Rightarrow> 'a qsystem \<Rightarrow> 'a qsystem" where
  "push t v s =
     (let q = queue s in
      if buffered q = length (buffer q) \<and> \<not> closed q then s\<lparr>pcs := (pcs s)(t := WaitNotFull v)\<rparr>
      else if closed q then s\<lparr>pcs := (notify_notEmpty (pcs s))(t := Idle)\<rparr>
      else s\<lparr>queue := ring_put v q, pcs := (notify_notEmpty (pcs s))(t := Idle), pushed := pushed s @ [v]\<rparr>)"

definition pop :: "'a \<Rightarrow> nat \<Rightarrow> 'a qsystem \<Rightarrow> 'a qsystem" where
  "pop def t s =
     (let q = queue s in
      if buffered q = 0 \<and> \<not> closed q then s\<lparr>pcs := (pcs s)(t := WaitNotEmpty)\<rparr>
      else if closed q then s\<lparr>pcs := (pcs s)(t := Idle)\<rparr>
      else (case ring_get def q of (v, q) \<Rightarrow>
              s\<lparr>queue := q, pcs := (notify_notFull (pcs s))(t := Idle), popped := popped s @ [v]\<rparr>))"

definition close :: "'a qsystem \<Rightarrow> 'a qsystem" where
  "close s =
     (if closed (queue s) then s
      else s\<lparr>queue := (queue s)\<lparr>closed := True\<rparr>, pcs := notify_notEmpty (notify_notFull (pcs s))\<rparr>)"

inductive qstep :: "'a \<Rightarrow> 'a qsystem \<Rightarrow> 'a qsystem \<Rightarrow> bool" for def where
  call_push: "pcs s t = Idle \<Longrightarrow> qstep def s (s\<lparr>pcs := (pcs s)(t := Pushing v)\<rparr>)"
| call_pop: "pcs s t = Idle \<Longrightarrow> qstep def s (s\<lparr>pcs := (pcs s)(t := Popping)\<rparr>)"
| run_push: "pcs s t = Pushing v \<Longrightarrow> qstep def s (push t v s)"
| run_pop: "pcs s t = Popping \<Longrightarrow> qstep def s (pop def t s)"
| wake_push: "pcs s t = WaitNotFull v \<Longrightarrow> qstep def s (s\<lparr>pcs := (pcs s)(t := Pushing v)\<rparr>)"
| wake_pop: "pcs s t = WaitNotEmpty \<Longrightarrow> qstep def s (s\<lparr>pcs := (pcs s)(t := Popping)\<rparr>)"
| run_close: "qstep def s (close s)"

definition start_system :: "'a \<Rightarrow> nat \<Rightarrow> 'a qsystem" where
  "start_system def n = \<lparr>queue = ThreadedQueue def n, pcs = (\<lambda>_. Idle), pushed = [], popped = []\<rparr>"

inductive q_reachable :: "'a \<Rightarrow> nat \<Rightarrow> 'a qsystem \<Rightarrow> bool" for def n where
  start: "q_reachable def n (start_system def n)"
| step: "q_reachable def n s \<Longrightarrow> qstep def s s' \<Longrightarrow> q_reachable def n s'"

inductive_cases qstep_cases: "qstep def s s'"

section \<open>The contract of a bounded queue\<close>

text \<open>What the threads rely on: the queue holds a sequence, put adds at its end, get takes its head.\<close>

locale bounded_queue =
  fixes ok :: "'q \<Rightarrow> bool"
    and contents :: "'q \<Rightarrow> 'a list"
    and room :: "'q \<Rightarrow> nat"
    and put :: "'a \<Rightarrow> 'q \<Rightarrow> 'q"
    and get :: "'q \<Rightarrow> 'a \<times> 'q"
  assumes within: "ok q \<Longrightarrow> length (contents q) \<le> room q"
    and put_ok: "ok q \<Longrightarrow> length (contents q) < room q \<Longrightarrow> ok (put v q)"
    and put_contents: "ok q \<Longrightarrow> length (contents q) < room q \<Longrightarrow> contents (put v q) = contents q @ [v]"
    and put_room: "room (put v q) = room q"
    and get_ok: "ok q \<Longrightarrow> contents q \<noteq> [] \<Longrightarrow> ok (snd (get q))"
    and get_contents: "ok q \<Longrightarrow> contents q \<noteq> [] \<Longrightarrow> contents q = fst (get q) # contents (snd (get q))"
    and get_room: "room (snd (get q)) = room q"
begin

definition history :: "'q \<Rightarrow> 'a list \<Rightarrow> 'a list \<Rightarrow> bool" where
  "history q ins outs \<longleftrightarrow> ok q \<and> ins = outs @ contents q"

lemma history_put: "history q ins outs \<Longrightarrow> length (contents q) < room q \<Longrightarrow> history (put v q) (ins @ [v]) outs"
  by (simp add: history_def put_ok put_contents)

lemma history_get: "history q ins outs \<Longrightarrow> contents q \<noteq> [] \<Longrightarrow> history (snd (get q)) ins (outs @ [fst (get q)])"
  using get_contents [of q] by (simp add: history_def get_ok)

end

text \<open>The ring as a sequence.\<close>

definition ring_ok :: "'a tqueue \<Rightarrow> bool" where
  "ring_ok q \<longleftrightarrow> buffered q \<le> length (buffer q) \<and> q_end q = (q_begin q + buffered q) mod length (buffer q) \<and>
     (buffer q \<noteq> [] \<longrightarrow> q_begin q < length (buffer q))"

definition ring_contents :: "'a tqueue \<Rightarrow> 'a list" where
  "ring_contents q = map (\<lambda>i. buffer q ! ((q_begin q + i) mod length (buffer q))) [0..<buffered q]"

lemma length_ring_contents [simp]: "length (ring_contents q) = buffered q"
  by (simp add: ring_contents_def)

lemma mod_distinct:
  assumes "i < k" and "k \<le> n"
  shows "(b + i) mod n \<noteq> (b + k) mod (n :: nat) \<or> (k = n \<and> i = 0)"
proof (rule disjCI)
  assume nk: "\<not> (k = n \<and> i = 0)"
  show "(b + i) mod n \<noteq> (b + k) mod n"
  proof
    assume "(b + i) mod n = (b + k) mod n"
    then have "(b + k) mod n = (b + i) mod n" by simp
    then have "n dvd (b + k) - (b + i)" using mod_eq_dvd_iff_nat [of "b + i" "b + k" n] assms by simp
    then have "n dvd k - i" by simp
    then show False using assms nk by (auto dest!: dvd_imp_le)
  qed
qed

lemma ring_put_contents:
  assumes "ring_ok q" and "buffered q < length (buffer q)"
  shows "ring_contents (ring_put v q) = ring_contents q @ [v]"
proof -
  let ?n = "length (buffer q)"
  have "(buffer q)[q_end q := v] ! ((q_begin q + i) mod ?n) = buffer q ! ((q_begin q + i) mod ?n)" if "i < buffered q" for i
    using mod_distinct [of i "buffered q" ?n "q_begin q"] that assms by (auto simp: ring_ok_def)
  moreover have "(buffer q)[q_end q := v] ! ((q_begin q + buffered q) mod ?n) = v"
  proof -
    have "(q_begin q + buffered q) mod ?n < ?n" using assms(2) by (intro mod_less_divisor) linarith
    then show ?thesis using assms(1) by (simp add: ring_ok_def)
  qed
  ultimately show ?thesis
    by (auto simp: ring_contents_def ring_put_def)
qed

lemma ring_get_contents:
  assumes "ring_ok q" and "ring_contents q \<noteq> []"
  shows "ring_contents q = fst (ring_get def q) # ring_contents (snd (ring_get def q))"
proof -
  let ?n = "length (buffer q)"
  have b: "0 < buffered q" "buffered q \<le> ?n" "q_begin q < ?n"
    using assms by (auto simp: ring_ok_def ring_contents_def intro: gr0I)
  have "(buffer q)[q_begin q := def] ! ((q_begin q + Suc i) mod ?n) = buffer q ! ((q_begin q + Suc i) mod ?n)"
    if "Suc i < buffered q" for i
    using mod_distinct [of 0 "Suc i" ?n "q_begin q"] that b by (auto intro!: nth_list_update_neq)
  moreover have "(Suc (q_begin q) mod ?n + i) mod ?n = (q_begin q + Suc i) mod ?n" for i
    by (simp add: mod_add_left_eq)
  moreover have "[0..<buffered q] = 0 # map Suc [0..<buffered q - 1]"
    using b(1) by (metis One_nat_def Suc_diff_1 map_Suc_upt upt_conv_Cons)
  ultimately show ?thesis
    using b by (auto simp: ring_contents_def ring_get_def)
qed

interpretation ring: bounded_queue ring_ok ring_contents "\<lambda>q. length (buffer q)" ring_put "ring_get def" for def :: 'a
proof unfold_locales
  fix q :: "'a tqueue" and v
  assume ok: "ring_ok q" and "length (ring_contents q) < length (buffer q)"
  then have lt: "buffered q < length (buffer q)" by simp
  then show "ring_contents (ring_put v q) = ring_contents q @ [v]" by (rule ring_put_contents [OF ok])
  have "((q_begin q + buffered q) mod length (buffer q) + 1) mod length (buffer q) =
      (q_begin q + (buffered q + 1)) mod length (buffer q)"
    by (metis add.assoc mod_add_left_eq)
  then show "ring_ok (ring_put v q)" using ok lt by (auto simp: ring_ok_def ring_put_def)
next
  fix q :: "'a tqueue"
  assume ok: "ring_ok q" and ne: "ring_contents q \<noteq> []"
  show "ring_contents q = fst (ring_get def q) # ring_contents (snd (ring_get def q))"
    by (rule ring_get_contents [OF ok ne])
  have b: "0 < buffered q" using ne by (auto simp: ring_contents_def intro: gr0I)
  then obtain k where "buffered q = Suc k" by (cases "buffered q") auto
  then have "((q_begin q + 1) mod length (buffer q) + (buffered q - 1)) mod length (buffer q) =
      (q_begin q + buffered q) mod length (buffer q)"
    by (simp add: mod_add_left_eq)
  then show "ring_ok (snd (ring_get def q))" using ok b by (auto simp: ring_ok_def ring_get_def intro: mod_less_divisor)
qed (auto simp: ring_ok_def ring_put_def ring_get_def)

section \<open>The invariant of the threads\<close>

text \<open>
  A thread waits for room only while the open queue is full, and for a value only while it is open
  and empty: no wake-up is lost.
\<close>

definition system_ok :: "nat \<Rightarrow> 'a qsystem \<Rightarrow> bool" where
  "system_ok n s \<longleftrightarrow> ring.history (queue s) (pushed s) (popped s) \<and> length (buffer (queue s)) = n \<and>
     (\<forall>t v. pcs s t = WaitNotFull v \<longrightarrow> buffered (queue s) = n \<and> \<not> closed (queue s)) \<and>
     (\<forall>t. pcs s t = WaitNotEmpty \<longrightarrow> buffered (queue s) = 0 \<and> \<not> closed (queue s))"

lemma notify_simps [simp]:
  "notify_notFull p t = WaitNotEmpty \<longleftrightarrow> p t = WaitNotEmpty"
  "notify_notFull p t \<noteq> WaitNotFull v"
  "notify_notEmpty p t = WaitNotFull v \<longleftrightarrow> p t = WaitNotFull v"
  "notify_notEmpty p t \<noteq> WaitNotEmpty"
  by (auto simp: notify_notFull_def notify_notEmpty_def split: pc.splits)

lemma start_ok: "system_ok n (start_system def n)"
  by (simp add: system_ok_def start_system_def ThreadedQueue_def ring.history_def ring_ok_def ring_contents_def)

lemma push_ok: "system_ok n s \<Longrightarrow> system_ok n (push t v s)"
  using ring.history_put [of "queue s" "pushed s" "popped s" v]
  by (auto simp: system_ok_def push_def Let_def ring_put_def ring.history_def ring_ok_def)

lemma pop_ok: "system_ok n s \<Longrightarrow> system_ok n (pop def t s)"
  using ring.history_get [of "queue s" "pushed s" "popped s" def]
  by (auto simp: system_ok_def pop_def Let_def ring_get_def ring.history_def ring_contents_def)

lemma close_ok: "system_ok n s \<Longrightarrow> system_ok n (close s)"
  by (auto simp: system_ok_def close_def ring.history_def ring_ok_def ring_contents_def)

lemma qstep_ok: "qstep def s s' \<Longrightarrow> system_ok n s \<Longrightarrow> system_ok n s'"
proof (induction rule: qstep.induct)
  case (run_push s t v)
  then show ?case by (intro push_ok)
next
  case (run_pop s t)
  then show ?case by (intro pop_ok)
next
  case (run_close s)
  then show ?case by (intro close_ok)
qed (auto simp: system_ok_def)

lemma reachable_ok: "q_reachable def n s \<Longrightarrow> system_ok n s"
  by (induction rule: q_reachable.induct) (auto intro: start_ok qstep_ok)

section \<open>Properties\<close>

text \<open>
  C17: Whatever calls the threads make and in whatever order they run, the values \<open>pop\<close> returned,
  followed by those still in the ring, are the values pushed, in their order: nothing is lost,
  doubled or overtaken; and there are never more than \<open>n\<close> values in the ring.
\<close>

theorem queue_fifo:
  assumes "q_reachable def n s"
  shows "pushed s = popped s @ ring_contents (queue s) \<and> length (ring_contents (queue s)) \<le> n"
  using reachable_ok [OF assms] ring.within [of "queue s"] by (auto simp: system_ok_def ring.history_def)

definition one_pushed :: "nat qsystem" where
  "one_pushed = push 0 7 ((start_system 0 1)\<lparr>pcs := (pcs (start_system 0 1))(0 := Pushing 7)\<rparr>)"

lemma one_pushed_reachable: "q_reachable 0 1 one_pushed"
  unfolding one_pushed_def
  by (rule q_reachable.step [OF q_reachable.step [OF q_reachable.start] qstep.run_push])
    (use qstep.call_push [of "start_system 0 1" 0 0 7] in \<open>simp_all add: start_system_def\<close>)

theorem queue_fifo_witness:
  "q_reachable 0 1 one_pushed \<and> pushed one_pushed = popped one_pushed @ ring_contents (queue one_pushed)"
  using queue_fifo [OF one_pushed_reachable] one_pushed_reachable by blast

text \<open>
  C18: No thread waits for nothing: in every reachable state a thread that waits in \<open>push\<close> finds the
  queue open and full, one that waits in \<open>pop\<close> finds it open and empty, so with a ring of at least
  one place threads never wait on both sides at once.
\<close>

theorem queue_no_lost_wakeup:
  assumes "q_reachable def n s"
  shows "(\<forall>t v. pcs s t = WaitNotFull v \<longrightarrow> canPush (queue s) = Inr False) \<and>
         (\<forall>t. pcs s t = WaitNotEmpty \<longrightarrow> canPop (queue s) = Inr False) \<and>
         (0 < n \<longrightarrow> (\<forall>t u v. \<not> (pcs s t = WaitNotFull v \<and> pcs s u = WaitNotEmpty)))"
  using reachable_ok [OF assms] by (auto simp: system_ok_def canPush_def canPop_def)

definition two_waiting :: "nat qsystem" where
  "two_waiting = push 1 8 (one_pushed\<lparr>pcs := (pcs one_pushed)(1 := Pushing 8)\<rparr>)"

lemma one_pushed_eq: "one_pushed = \<lparr>queue = \<lparr>q_begin = 0, q_end = 0, buffered = 1, closed = False, buffer = [7]\<rparr>,
    pcs = (\<lambda>_. Idle), pushed = [7], popped = []\<rparr>"
  by (simp add: one_pushed_def push_def start_system_def ThreadedQueue_def ring_put_def notify_notEmpty_def fun_eq_iff Let_def)

lemma two_waiting_reachable: "q_reachable 0 1 two_waiting"
  unfolding two_waiting_def
  by (rule q_reachable.step [OF q_reachable.step [OF one_pushed_reachable] qstep.run_push])
    (use qstep.call_push [of one_pushed 1 0 8] in \<open>simp_all add: one_pushed_eq\<close>)

lemma two_waiting_pc: "pcs two_waiting 1 = WaitNotFull 8"
  by (simp add: two_waiting_def one_pushed_eq push_def)

theorem queue_no_lost_wakeup_witness:
  "pcs two_waiting 1 = WaitNotFull 8 \<and> canPush (queue two_waiting) = Inr False"
  using queue_no_lost_wakeup [OF two_waiting_reachable] two_waiting_pc by blast

text \<open>
  C19: A waiting call completes when its partner runs: with a thread waiting in \<open>push\<close> and one about to
  run in \<open>pop\<close>, the pop returns the oldest value and the push, when it runs next, returns with its
  value in the ring; likewise a waiting \<open>pop\<close> returns the value of the \<open>push\<close> that runs.
\<close>

theorem queue_progress:
  assumes "q_reachable def n s" and "0 < n" and "t \<noteq> u"
  shows "(pcs s t = WaitNotFull v \<and> pcs s u = Popping \<longrightarrow>
      pcs (pop def u s) u = Idle \<and> popped (pop def u s) = popped s @ [hd (ring_contents (queue s))] \<and>
      pcs (pop def u s) t = Pushing v \<and> pcs (push t v (pop def u s)) t = Idle \<and>
      pushed (push t v (pop def u s)) = pushed s @ [v]) \<and>
    (pcs s t = WaitNotEmpty \<and> pcs s u = Pushing v \<longrightarrow>
      pcs (push u v s) u = Idle \<and> pushed (push u v s) = pushed s @ [v] \<and> pcs (push u v s) t = Popping \<and>
      pcs (pop def t (push u v s)) t = Idle \<and> popped (pop def t (push u v s)) = popped s @ [v])"
proof (intro conjI [where P = "_ \<longrightarrow> _"] impI; elim conjE)
  have ok: "system_ok n s" by (rule reachable_ok [OF assms(1)])
  have r: "ring_ok (queue s)" "length (buffer (queue s)) = n" using ok by (auto simp: system_ok_def ring.history_def)
  {
    assume w: "pcs s t = WaitNotFull v" "pcs s u = Popping"
    then have q: "buffered (queue s) = n" "\<not> closed (queue s)" using ok by (auto simp: system_ok_def)
    have "fst (ring_get def (queue s)) = hd (ring_contents (queue s))"
      using ring.get_contents [OF r(1), of def] q(1) assms(2) by (metis length_ring_contents list.sel(1) list.size(3) less_numeral_extra(3))
    then show "pcs (pop def u s) u = Idle \<and> popped (pop def u s) = popped s @ [hd (ring_contents (queue s))] \<and>
        pcs (pop def u s) t = Pushing v \<and> pcs (push t v (pop def u s)) t = Idle \<and>
        pushed (push t v (pop def u s)) = pushed s @ [v]"
      using w q r assms(2,3) by (simp add: pop_def push_def ring_get_def notify_notFull_def Let_def)
  }
  assume w: "pcs s t = WaitNotEmpty" "pcs s u = Pushing v"
  then have q: "buffered (queue s) = 0" "\<not> closed (queue s)" using ok by (auto simp: system_ok_def)
  have "ring_contents (ring_put v (queue s)) = [v]"
    using ring.put_contents [OF r(1), of v] q(1) r(2) assms(2) by (simp add: ring_contents_def)
  then have "fst (ring_get def (ring_put v (queue s))) = v"
    using ring.get_contents [OF ring.put_ok [OF r(1)], of v def] q(1) r(2) assms(2) by simp
  then show "pcs (push u v s) u = Idle \<and> pushed (push u v s) = pushed s @ [v] \<and> pcs (push u v s) t = Popping \<and>
      pcs (pop def t (push u v s)) t = Idle \<and> popped (pop def t (push u v s)) = popped s @ [v]"
    using w q r assms(2,3) by (simp add: pop_def push_def ring_get_def ring_put_def notify_notEmpty_def Let_def)
qed

theorem queue_progress_witness:
  "\<exists>s. q_reachable 0 1 s \<and> pcs s 1 = WaitNotFull 8 \<and> pushed (push 1 8 (pop 0 2 s)) = pushed s @ [8 :: nat]"
proof -
  let ?s = "two_waiting\<lparr>pcs := (pcs two_waiting)(2 := Popping)\<rparr>"
  have "pcs two_waiting 2 = Idle" by (simp add: two_waiting_def one_pushed_eq push_def)
  then have r: "q_reachable 0 1 ?s" by (rule q_reachable.step [OF two_waiting_reachable qstep.call_pop])
  have "pcs ?s 1 = WaitNotFull 8" and "pcs ?s 2 = Popping" using two_waiting_pc by simp_all
  then show ?thesis using queue_progress [OF r, of 1 2 8] r by (intro exI [of _ ?s]) simp
qed

text \<open>
  Closing releases everybody and is final: afterwards no thread waits, every call that runs
  returns without changing the queue, the values still in the ring stay there, and this holds in
  every later state.
\<close>

theorem queue_close:
  assumes "q_reachable def n s" and "closed (queue s)"
  shows "(\<forall>t v. pcs s t \<noteq> WaitNotFull v) \<and> (\<forall>t. pcs s t \<noteq> WaitNotEmpty) \<and>
         (\<forall>t v. pcs (push t v s) t = Idle \<and> pcs (pop def t s) t = Idle) \<and>
         (\<forall>s'. qstep def s s' \<longrightarrow> queue s' = queue s \<and> pushed s' = pushed s \<and> popped s' = popped s)"
proof -
  have "queue s' = queue s \<and> pushed s' = pushed s \<and> popped s' = popped s" if "qstep def s s'" for s'
    using that assms(2) by (cases rule: qstep.cases) (auto simp: push_def pop_def close_def Let_def)
  then show ?thesis
    using reachable_ok [OF assms(1)] assms(2) by (auto simp: system_ok_def push_def pop_def Let_def)
qed

theorem queue_close_witness:
  "(\<forall>t. pcs (close two_waiting) t \<noteq> WaitNotEmpty) \<and> queue (push 1 8 (close two_waiting)) = queue (close two_waiting)"
proof -
  have r: "q_reachable 0 1 (close two_waiting)" by (rule q_reachable.step [OF two_waiting_reachable qstep.run_close])
  have c: "closed (queue (close two_waiting))" by (simp add: close_def)
  have "pcs (close two_waiting) 1 = Pushing 8"
    by (simp add: close_def two_waiting_def one_pushed_eq push_def notify_notFull_def notify_notEmpty_def)
  then have "qstep 0 (close two_waiting) (push 1 8 (close two_waiting))" by (rule qstep.run_push)
  then show ?thesis using queue_close [OF r c] by blast
qed

text \<open>
  Resizing a queue that is in use does not keep its contents: with the values 2 and 3 in a
  ring of two places whose start is at its second place, growing to four places gives 2 and a
  value nobody pushed.
\<close>

theorem resize_loses_values:
  "let q = ring_put (3 :: nat) (snd (ring_get 0 (ring_put 2 (ring_put 1 (ThreadedQueue 0 2)))))
   in ring_contents q = [2, 3] \<and> ring_contents (tq_resize 0 4 q) = [2, 0]"
  by code_simp

end
