(* ===== verification/Records.thy ===== *)
theory Records
  imports Timewindow
begin

text \<open>
  Waveform records (src/src/trunk/libs/seiscomp3/core/record.cpp): start time, number of samples,
  sampling frequency, timing quality and data, with the end time computed from them, and the
  conversion of a number of seconds to a time span it uses (core/datetime.cpp).

  \<open>double\<close> is \<open>rat\<close>, without rounding.  A data array is a list of numbers, or one of the other types
  (strings, dates, complex) of which only the size matters.  An operation that throws an exception
  returns \<open>None\<close>.
\<close>

section \<open>Time spans of a number of seconds\<close>

text \<open>The C++ conversion to an integer type.\<close>

definition trunc :: "rat \<Rightarrow> int" where
  "trunc x = (if 0 \<le> x then \<lfloor>x\<rfloor> else \<lceil>x\<rceil>)"

definition MinTime :: rat where "MinTime = - 2147483648"
definition MaxTime :: rat where "MaxTime = 2147483647"

definition ts_of_double :: "rat \<Rightarrow> timeval option" where
  "ts_of_double t =
     (if t > MaxTime \<or> t < MinTime then None
      else Some (Timeval (trunc t) (trunc ((t - of_int (trunc t)) * of_int MICROS + 1/2))))"

section \<open>Records\<close>

datatype array = NumArray "rat list" | OtherArray nat

fun array_size :: "array \<Rightarrow> nat" where
  "array_size (NumArray xs) = length xs"
| "array_size (OtherArray n) = n"

record srecord =
  stime :: timeval
  nsamp :: int
  fsamp :: rat
  timequal :: int
  rdata :: "array option"

definition rec_endTime :: "srecord \<Rightarrow> timeval option" where
  "rec_endTime r =
     (if fsamp r > 0 then map_option (ts_add (stime r)) (ts_of_double (of_int (nsamp r) / fsamp r)) else None)"

definition rec_timeWindow :: "srecord \<Rightarrow> timewindow option" where
  "rec_timeWindow r = map_option (TimeWindow_of (stime r)) (rec_endTime r)"

section \<open>Rounding\<close>

lemma trunc_nonneg: "0 \<le> x \<Longrightarrow> trunc (x + 1/2) = \<lfloor>x + 1/2\<rfloor>"
  by (simp add: trunc_def)

lemma half_floor: "\<bar>of_int \<lfloor>x + 1/2\<rfloor> - x\<bar> \<le> (1/2 :: rat)"
  using floor_correct [of "x + 1/2"] by linarith

lemma ts_of_double_usecs:
  "ts_of_double t = Some s \<Longrightarrow> usecs s = trunc t * MICROS + trunc ((t - of_int (trunc t)) * of_int MICROS + 1/2)"
  by (auto simp: ts_of_double_def usecs_def split: if_splits)

lemma ts_of_double_nonneg:
  assumes "0 \<le> t" and s: "ts_of_double t = Some s"
  shows "\<bar>of_int (usecs s) - t * 1000000\<bar> \<le> 1/2" and "0 \<le> usecs s" and "0 \<le> tv_sec s" and "0 \<le> tv_usec s" and "tv_usec s \<le> MICROS"
proof -
  let ?i = "\<lfloor>t\<rfloor>"
  let ?u = "(t - of_int ?i) * 1000000"
  have i: "trunc t = ?i" "0 \<le> ?i" using assms(1) by (simp_all add: trunc_def)
  have f: "0 \<le> t - of_int ?i" "t - of_int ?i < 1" using floor_correct [of t] by linarith+
  then have u: "0 \<le> ?u" "?u < 1000000" by simp_all
  have us: "usecs s = ?i * 1000000 + \<lfloor>?u + 1/2\<rfloor>"
    using ts_of_double_usecs [OF s] u(1) i(1) by (simp add: trunc_nonneg MICROS_def)
  have "of_int (usecs s) - t * 1000000 = of_int \<lfloor>?u + 1/2\<rfloor> - ?u"
    unfolding us by (simp add: algebra_simps)
  then show "\<bar>of_int (usecs s) - t * 1000000\<bar> \<le> 1/2"
    by (simp only: half_floor)
  have s': "s = Timeval ?i \<lfloor>?u + 1/2\<rfloor>"
    using s u(1) i(1) by (auto simp: ts_of_double_def trunc_nonneg MICROS_def split: if_splits)
  have "0 \<le> \<lfloor>?u + 1/2\<rfloor>" and "\<lfloor>?u + 1/2\<rfloor> \<le> 1000000" using u by (simp, linarith)
  then show "0 \<le> usecs s" and "0 \<le> tv_sec s" and "0 \<le> tv_usec s" and "tv_usec s \<le> MICROS"
    using us i(2) by (simp_all add: s' MICROS_def)
qed

section \<open>Properties\<close>

text \<open>
  The time span of a non-negative number of seconds in range is the nearest whole number of
  microseconds.
\<close>

theorem ts_of_double_nearest:
  assumes "0 \<le> t" and "t \<le> MaxTime"
  shows "\<exists>s. ts_of_double t = Some s \<and> \<bar>of_int (usecs s) - t * 1000000\<bar> \<le> 1/2"
proof -
  obtain s where s: "ts_of_double t = Some s"
    using assms by (auto simp: ts_of_double_def MinTime_def)
  then show ?thesis using ts_of_double_nonneg(1) [OF assms(1)] by blast
qed

theorem ts_of_double_nearest_witness:
  "\<exists>s. ts_of_double (1/3) = Some s \<and> \<bar>of_int (usecs s) - 1000000/3\<bar> \<le> (1/2 :: rat)"
  using ts_of_double_nearest [of "1/3"] by (simp add: MaxTime_def)

text \<open>
  The rounding is wrong for negative numbers: every whole number of microseconds between -1
  second and 0 becomes the next greater one, and a part of a second that rounds up to a full second
  gives a time span with 1000000 microseconds, which no other operation yields.
\<close>

theorem ts_of_double_negative:
  "(0 < n \<and> n < 1000000 \<longrightarrow> ts_of_double (- of_int n / 1000000) = Some (Timeval 0 (- (n - 1)))) \<and>
   ts_of_double 0.9999996 = Some (Timeval 0 1000000)"
proof -
  have "ts_of_double (- of_int n / 1000000) = Some (Timeval 0 (- (n - 1)))" if n: "0 < n" "n < 1000000"
  proof -
    let ?t = "- of_int n / 1000000 :: rat"
    have "of_int n < (of_int 1000000 :: rat)" using n(2) by (simp only: of_int_less_iff)
    then have t: "-1 < ?t" "?t < 0" using n(1) by simp_all
    then have "\<lceil>?t\<rceil> = 0" by (intro ceiling_unique) simp_all
    then have tr: "trunc ?t = 0" using t by (simp add: trunc_def)
    have "1 \<le> (of_int n :: rat)" using n(1) by (metis of_int_1 of_int_le_iff zless_imp_add1_zle add_0)
    then have "\<lceil>- of_int n + 1/2 :: rat\<rceil> = - n + 1" by (intro ceiling_unique) simp_all
    then have "trunc (- of_int n + 1/2) = - n + 1" using \<open>1 \<le> of_int n\<close> by (simp add: trunc_def)
    then show ?thesis unfolding ts_of_double_def tr using t by (simp add: MinTime_def MaxTime_def MICROS_def)
  qed
  moreover have "ts_of_double 0.9999996 = Some (Timeval 0 1000000)"
  proof -
    have "\<lfloor>2499999 / 2500000 :: rat\<rfloor> = 0" and "\<lfloor>10000001 / 10 :: rat\<rfloor> = 1000000" by (rule floor_unique; simp)+
    then show ?thesis by (simp add: ts_of_double_def trunc_def MinTime_def MaxTime_def MICROS_def)
  qed
  ultimately show ?thesis by blast
qed

theorem ts_of_double_negative_witness:
  "ts_of_double (- 2 / 1000000) = Some (Timeval 0 (- 1))"
  using ts_of_double_negative [of 2] by simp

end
