(* ===== verification/RecordSequence.thy ===== *)
theory RecordSequence
  imports Records Dictionary
begin

text \<open>
  Sequences of records (src/src/trunk/libs/seiscomp3/core/recordsequence.h, recordsequence.cpp): the
  position of a new record and the two buffers built on it (records that overlap a fixed window, and a
  ring of a number of records or of a time span).

  \<open>None\<close> is an exception of a record's end time, or undefined behaviour (an access to an element of an
  empty container).
\<close>

section \<open>Inserting a record\<close>

type_synonym sequence = "srecord list"

text \<open>The backward search of \<open>findInsertPosition\<close>, on the reversed sequence.\<close>

fun scan_back :: "timeval \<Rightarrow> srecord list \<Rightarrow> nat option option" where
  "scan_back e [] = Some None"
| "scan_back e (r # rs) =
     (case rec_endTime r of None \<Rightarrow> None
      | Some re \<Rightarrow>
          if ts_gt e re then Some (Some (length rs + 1))
          else if ts_eq e re then Some None
          else scan_back e rs)"

text \<open>The index of the iterator, or no position.\<close>

definition findInsertPosition :: "srecord \<Rightarrow> sequence \<Rightarrow> nat option option" where
  "findInsertPosition rec s =
     (if s = [] then Some (Some 0)
      else
       (case rec_endTime rec of None \<Rightarrow> None
        | Some e \<Rightarrow>
           (case rec_endTime (last s) of None \<Rightarrow> None
            | Some le \<Rightarrow>
                if ts_gt e le then Some (Some (length s))
                else
                 (case rec_endTime (hd s) of None \<Rightarrow> None
                  | Some fe \<Rightarrow> if ts_lt e fe then Some (Some 0) else scan_back e (rev s)))))"

definition insert_at :: "nat \<Rightarrow> 'a \<Rightarrow> 'a list \<Rightarrow> 'a list" where
  "insert_at i x xs = take i xs @ [x] @ drop i xs"

section \<open>The buffers\<close>

record timewindowbuffer =
  tb_window :: timewindow
  tb_tolerance :: rat
  tb_records :: sequence

definition TimeWindowBuffer :: "timewindow \<Rightarrow> rat \<Rightarrow> timewindowbuffer" where
  "TimeWindowBuffer tw tolerance = \<lparr>tb_window = tw, tb_tolerance = tolerance, tb_records = []\<rparr>"

definition tb_feed :: "srecord \<Rightarrow> timewindowbuffer \<Rightarrow> (bool \<times> timewindowbuffer) option" where
  "tb_feed rec b =
     (case rec_timeWindow rec of None \<Rightarrow> None
      | Some tw \<Rightarrow>
          if \<not> overlaps (tb_window b) tw then Some (False, b)
          else
           (case findInsertPosition rec (tb_records b) of
              None \<Rightarrow> None
            | Some None \<Rightarrow> Some (False, b)
            | Some (Some i) \<Rightarrow> Some (True, b\<lparr>tb_records := insert_at i rec (tb_records b)\<rparr>)))"

record ringbuffer =
  rb_nmax :: nat
  rb_span :: timeval
  rb_tolerance :: rat
  rb_records :: sequence

definition RingBuffer :: "nat \<Rightarrow> rat \<Rightarrow> ringbuffer" where
  "RingBuffer nmax tolerance = \<lparr>rb_nmax = nmax, rb_span = TimeSpan, rb_tolerance = tolerance, rb_records = []\<rparr>"

definition RingBuffer_span :: "timeval \<Rightarrow> rat \<Rightarrow> ringbuffer" where
  "RingBuffer_span sp tolerance = \<lparr>rb_nmax = 0, rb_span = sp, rb_tolerance = tolerance, rb_records = []\<rparr>"

function pop_count :: "nat \<Rightarrow> sequence \<Rightarrow> sequence" where
  "pop_count n s = (if length s > n then pop_count n (tl s) else s)"
  by auto
termination by (relation "measure (\<lambda>(n, s). length s)") auto

declare pop_count.simps [simp del]

text \<open>The loop that drops what ends at or before \<open>tmin\<close>; \<open>front\<close> of an empty deque is undefined.\<close>

fun pop_old :: "timeval \<Rightarrow> sequence \<Rightarrow> sequence option" where
  "pop_old tmin [] = None"
| "pop_old tmin (r # rs) =
     (case rec_endTime r of None \<Rightarrow> None
      | Some e \<Rightarrow> if ts_le e tmin then pop_old tmin rs else Some (r # rs))"

definition rb_feed :: "srecord \<Rightarrow> ringbuffer \<Rightarrow> (bool \<times> ringbuffer) option" where
  "rb_feed rec b =
     (case findInsertPosition rec (rb_records b) of
        None \<Rightarrow> None
      | Some None \<Rightarrow> Some (False, b)
      | Some (Some i) \<Rightarrow>
          (let s = insert_at i rec (rb_records b); b = b\<lparr>rb_records := s\<rparr> in
           if s = [] then Some (True, b)
           else if rb_nmax b \<noteq> 0 then Some (True, b\<lparr>rb_records := pop_count (rb_nmax b) s\<rparr>)
           else if to_double (rb_span b) \<noteq> 0 then
             (case rec_endTime (last s) of None \<Rightarrow> None
              | Some e \<Rightarrow>
                  (case pop_old (ts_sub e (rb_span b)) s of None \<Rightarrow> None
                   | Some s \<Rightarrow> Some (True, b\<lparr>rb_records := s\<rparr>)))
           else Some (False, b)))"

text \<open>\<open>copy\<close> of the two buffers; \<open>Record::copy\<close> is the identity on these values.\<close>

fun tb_feed_all :: "srecord list \<Rightarrow> timewindowbuffer \<Rightarrow> timewindowbuffer option" where
  "tb_feed_all [] b = Some b"
| "tb_feed_all (r # rs) b = (case tb_feed r b of None \<Rightarrow> None | Some (_, b) \<Rightarrow> tb_feed_all rs b)"

definition tb_clone :: "timewindowbuffer \<Rightarrow> timewindowbuffer" where
  "tb_clone b = TimeWindowBuffer (tb_window b) (tb_tolerance b)"

definition tb_copy :: "timewindowbuffer \<Rightarrow> timewindowbuffer option" where
  "tb_copy b = tb_feed_all (tb_records b) (tb_clone b)"

definition rb_clone :: "ringbuffer \<Rightarrow> ringbuffer" where
  "rb_clone b = (if rb_nmax b \<noteq> 0 then RingBuffer (rb_nmax b) (rb_tolerance b) else RingBuffer_span (rb_span b) (rb_tolerance b))"

definition rb_copy :: "ringbuffer \<Rightarrow> ringbuffer" where
  "rb_copy b = foldl (\<lambda>cp r. cp\<lparr>rb_records := rb_records cp @ [r]\<rparr>) (rb_clone b) (rb_records b)"

fun rb_feed_all :: "srecord list \<Rightarrow> ringbuffer \<Rightarrow> ringbuffer option" where
  "rb_feed_all [] b = Some b"
| "rb_feed_all (r # rs) b = (case rb_feed r b of None \<Rightarrow> None | Some (_, b) \<Rightarrow> rb_feed_all rs b)"

section \<open>The order of the records\<close>

text \<open>On records with an end time \<open>et\<close> is it; the buffers keep their records in strict order of it.\<close>

definition has_end :: "srecord \<Rightarrow> bool" where
  "has_end r \<longleftrightarrow> rec_endTime r \<noteq> None"

definition et :: "srecord \<Rightarrow> timeval" where
  "et r = the (rec_endTime r)"

lemma has_end [simp]: "has_end r \<Longrightarrow> rec_endTime r = Some (et r)"
  by (auto simp: has_end_def et_def)

definition in_order :: "sequence \<Rightarrow> bool" where
  "in_order s \<longleftrightarrow> (\<forall>r \<in> set s. has_end r) \<and> sorted_wrt (<) (map et s)"

text \<open>The reference: insertion into the sorted list unless the end time is there.\<close>

definition insert_record :: "srecord \<Rightarrow> sequence \<Rightarrow> sequence" where
  "insert_record r s = (if et r \<in> et ` set s then s else insort_key et r s)"

lemma insort_split:
  assumes "sorted_wrt (<) (map et s)" and "\<forall>x \<in> set (take i s). et x < et r" and "\<forall>x \<in> set (drop i s). et r < et x"
  shows "insort_key et r s = insert_at i r s" and "et r \<notin> et ` set s"
proof -
  have "insort_key et r (a @ b) = a @ r # b" if "\<forall>x \<in> set a. et x < et r" "\<forall>x \<in> set b. et r < et x" for a b
    using that by (induction a) (cases b, auto)
  from this [OF assms(2,3)] show "insort_key et r s = insert_at i r s" by (simp add: insert_at_def)
  have "set s = set (take i s) \<union> set (drop i s)" by (metis append_take_drop_id set_append)
  then show "et r \<notin> et ` set s" using assms(2,3) by fastforce
qed

lemma scan_back_spec:
  assumes "in_order (rev s)"
  shows "\<exists>p. scan_back e s = Some p \<and>
    (case p of None \<Rightarrow> e \<in> et ` set s \<or> (\<forall>x \<in> set s. e < et x)
     | Some i \<Rightarrow> i \<le> length s \<and> (\<forall>x \<in> set (take i (rev s)). et x < e) \<and> (\<forall>x \<in> set (drop i (rev s)). e < et x))"
  using assms
proof (induction s)
  case (Cons r rs)
  then have r: "has_end r" and io: "in_order (rev rs)" and lt: "\<forall>x \<in> set rs. et x < et r"
    by (auto simp: in_order_def sorted_wrt_append)
  consider "et r < e" | "e = et r" | "e < et r" by (rule linorder_cases [of "et r" e]) auto
  then show ?case
  proof cases
    case 1
    then show ?thesis using r lt by (auto simp: dest: less_trans)
  next
    case 2
    then show ?thesis using r by auto
  next
    case 3
    obtain p where p: "scan_back e rs = Some p" "case p of None \<Rightarrow> e \<in> et ` set rs \<or> (\<forall>x \<in> set rs. e < et x)
        | Some i \<Rightarrow> i \<le> length rs \<and> (\<forall>x \<in> set (take i (rev rs)). et x < e) \<and> (\<forall>x \<in> set (drop i (rev rs)). e < et x)"
      using Cons.IH [OF io] by blast
    then show ?thesis using 3 r by (cases p) auto
  qed
qed simp

lemma in_order_bounds:
  assumes "in_order s"
  shows "\<forall>x \<in> set s. et (hd s) \<le> et x" and "\<forall>x \<in> set s. et x \<le> et (last s)"
proof -
  show "\<forall>x \<in> set s. et (hd s) \<le> et x" using assms by (cases s) (auto simp: in_order_def less_imp_le)
  show "\<forall>x \<in> set s. et x \<le> et (last s)"
    using assms by (cases s rule: rev_cases) (auto simp: in_order_def sorted_wrt_append less_imp_le)
qed

lemma findInsertPosition_spec:
  assumes "in_order s" and "has_end r"
  shows "case findInsertPosition r s of None \<Rightarrow> False
    | Some None \<Rightarrow> insert_record r s = s \<and> et r \<in> et ` set s
    | Some (Some i) \<Rightarrow> insert_record r s = insert_at i r s \<and> et r \<notin> et ` set s"
proof (cases "s = []")
  case True
  then show ?thesis by (simp add: findInsertPosition_def insert_record_def insert_at_def)
next
  case False
  have he: "has_end (last s)" "has_end (hd s)" using assms(1) False by (auto simp: in_order_def)
  have srt: "sorted_wrt (<) (map et s)" using assms(1) by (simp add: in_order_def)
  note lst = in_order_bounds(2) [OF assms(1)] and fst = in_order_bounds(1) [OF assms(1)]
  have at: "insert_record r s = insert_at i r s \<and> et r \<notin> et ` set s"
    if "\<forall>x \<in> set (take i s). et x < et r" "\<forall>x \<in> set (drop i s). et r < et x" for i
    using insort_split [OF srt that] by (simp add: insert_record_def)
  show ?thesis
  proof (cases "et (last s) < et r")
    case True
    then have "insert_record r s = insert_at (length s) r s \<and> et r \<notin> et ` set s" using lst by (intro at) fastforce+
    then show ?thesis using True he assms(2) False by (simp add: findInsertPosition_def)
  next
    case nl: False
    show ?thesis
    proof (cases "et r < et (hd s)")
      case True
      then have "insert_record r s = insert_at 0 r s \<and> et r \<notin> et ` set s" using fst by (intro at) fastforce+
      then show ?thesis using True nl he assms(2) False by (simp add: findInsertPosition_def)
    next
      case nf: False
      obtain p where p: "scan_back (et r) (rev s) = Some p" "case p of None \<Rightarrow> et r \<in> et ` set s \<or> (\<forall>x \<in> set s. et r < et x)
          | Some i \<Rightarrow> i \<le> length s \<and> (\<forall>x \<in> set (take i s). et x < et r) \<and> (\<forall>x \<in> set (drop i s). et r < et x)"
        using scan_back_spec [of "rev s" "et r", unfolded rev_rev_ident set_rev length_rev, OF assms(1)] by blast
      have "et r \<in> et ` set s" if "p = None" using p(2) that nf hd_in_set [OF False] by (auto simp: not_less)
      then show ?thesis
        using p nl nf he assms(2) False at by (auto simp: findInsertPosition_def insert_record_def split: option.splits)
    qed
  qed
qed

lemma in_order_insert: "in_order s \<Longrightarrow> has_end r \<Longrightarrow> in_order (insert_record r s)"
proof (induction s)
  case (Cons x s)
  then have "in_order s" by (simp add: in_order_def)
  then show ?case
    using Cons by (auto simp: in_order_def insert_record_def set_insort_key)
qed (simp add: in_order_def insert_record_def)

section \<open>Feeding\<close>

lemma tb_feed_eq:
  assumes "in_order (tb_records b)" and "has_end r"
  shows "tb_feed r b = Some (overlaps (tb_window b) (TimeWindow_of (stime r) (et r)) \<and> et r \<notin> et ` set (tb_records b),
    if overlaps (tb_window b) (TimeWindow_of (stime r) (et r)) then b\<lparr>tb_records := insert_record r (tb_records b)\<rparr> else b)"
  using findInsertPosition_spec [OF assms] assms(2)
  by (auto simp: tb_feed_def rec_timeWindow_def split: option.splits)

lemma pop_count_drop: "pop_count n s = drop (length s - n) s"
proof (induction n s rule: pop_count.induct)
  case (1 n s)
  show ?case
  proof (cases "length s > n")
    case True
    then have "length (tl s) - n = length s - n - 1" and "length s - n = Suc (length s - n - 1)" by simp_all
    then show ?thesis using 1 True by (subst pop_count.simps) (metis drop_Suc)
  qed (simp add: pop_count.simps)
qed

lemma in_order_drop: "in_order s \<Longrightarrow> in_order (drop k s)"
  by (auto simp: in_order_def drop_map [symmetric] dest: in_set_dropD)

lemma drop_insert_record: "in_order s \<Longrightarrow> et r \<in> et ` set s \<Longrightarrow> insert_record r s = s"
  by (simp add: insert_record_def)

lemma length_insert_record: "et r \<notin> et ` set s \<Longrightarrow> length (insert_record r s) = Suc (length s)"
  by (simp add: insert_record_def)

lemma rb_feed_count:
  assumes "in_order (rb_records b)" and "has_end r" and "0 < rb_nmax b" and "length (rb_records b) \<le> rb_nmax b"
  shows "rb_feed r b = Some (et r \<notin> et ` set (rb_records b),
    b\<lparr>rb_records := (let s = insert_record r (rb_records b) in drop (length s - rb_nmax b) s)\<rparr>)"
  using findInsertPosition_spec [OF assms(1,2)] assms(3,4)
  by (auto simp: rb_feed_def Let_def pop_count_drop insert_at_def split: option.splits)

text \<open>The end times alone: a ring of a number of records keeps the greatest of the set of all fed.\<close>

definition latest :: "nat \<Rightarrow> timeval set \<Rightarrow> timeval list" where
  "latest n E = (let l = sorted_list_of_set E in drop (length l - n) l)"

lemma map_insert_record:
  assumes "in_order s"
  shows "map et (insert_record r s) = sorted_list_of_set (insert (et r) (et ` set s))"
proof -
  have srt: "sorted (map et s)" "distinct (map et s)" using assms by (auto simp: in_order_def strict_sorted_iff)
  have sl: "sorted_list_of_set (et ` set s) = map et s"
    using srt by (metis list.set_map sorted_list_of_set.idem_if_sorted_distinct)
  have ins: "map et (insort_key et r xs) = insort (et r) (map et xs)" for xs by (induction xs) auto
  show ?thesis
    by (cases "et r \<in> et ` set s") (simp_all add: insert_record_def insert_absorb sl ins)
qed

lemma suffix_insort:
  fixes l :: "'a :: linorder list"
  assumes "sorted l"
  shows "drop (Suc (length l) - n) (insort x l) =
    (let t = drop (length l - n) l in drop (Suc (length t) - n) (insort x t))"
proof (cases "n \<le> length l")
  case False
  then show ?thesis by simp
next
  case True
  let ?a = "take (length l - n) l" and ?t = "drop (length l - n) l"
  have t: "length ?t = n" using True by simp
  have l: "l = ?a @ ?t" by simp
  have srt: "\<forall>y \<in> set ?a. \<forall>z \<in> set ?t. y \<le> z" "sorted ?t" using assms by (metis l sorted_append)+
  have "drop (Suc (length l) - n) (insort x (?a @ ?t)) = drop 1 (insort x ?t)"
  proof (cases "\<forall>y \<in> set ?a. y < x")
    case True
    have "insort x (a @ b) = a @ insort x b" if "\<forall>y \<in> set a. y < x" for a b :: "'a list"
      using that by (induction a) auto
    then have "insort x (?a @ ?t) = ?a @ insort x ?t" using True by blast
    moreover have "Suc (length l) - n = length ?a + 1" using \<open>n \<le> length l\<close> by simp
    ultimately show ?thesis by simp
  next
    case False
    then obtain y where y: "y \<in> set ?a" "x \<le> y" by (auto simp: not_less)
    then have "\<forall>z \<in> set ?t. x \<le> z" using srt(1) by fastforce
    then have i: "insort x ?t = x # ?t" by (simp add: insort_is_Cons)
    have "insort x (a @ b) = insort x a @ b" if "\<exists>y \<in> set a. x \<le> y" for a b :: "'a list"
      using that by (induction a) auto
    then have "insort x (?a @ ?t) = insort x ?a @ ?t" using y by blast
    moreover have "Suc (length l) - n = length (insort x ?a)" using \<open>n \<le> length l\<close> by simp
    ultimately show ?thesis using i by simp
  qed
  then show ?thesis using l t True by (simp add: Let_def)
qed

lemma latest_insert:
  assumes "finite E" and "0 < n"
  shows "latest n (insert e E) = latest n (insert e (set (latest n E)))"
proof -
  let ?l = "sorted_list_of_set E"
  let ?t = "drop (length ?l - n) ?l"
  have t: "sorted ?t" "distinct ?t" "set ?t \<subseteq> E" using assms(1) by (auto dest: in_set_dropD)
  then have st: "sorted_list_of_set (set ?t) = ?t"
    by (metis sorted_list_of_set.idem_if_sorted_distinct)
  show ?thesis
  proof (cases "e \<in> E")
    case False
    then have "e \<notin> set ?t" using t(3) by blast
    then show ?thesis
      using False assms(1) suffix_insort [of ?l n e] st by (simp add: latest_def Let_def)
  next
    case True
    then have E: "insert e E = E" by blast
    show ?thesis
    proof (cases "e \<in> set ?t")
      case True
      then have "insert e (set ?t) = set ?t" by blast
      then show ?thesis using st by (simp add: latest_def Let_def E)
    next
      case False
      have "e \<in> set (take (length ?l - n) ?l)"
        using True False assms(1) by (metis append_take_drop_id set_append set_sorted_list_of_set Un_iff)
      then have lt: "length ?l - n > 0" and "\<forall>z \<in> set ?t. e \<le> z"
        using sorted_append [of "take (length ?l - n) ?l" ?t] by (auto simp: in_set_conv_nth)
      then have "insort e ?t = e # ?t" by (simp add: insort_is_Cons)
      moreover have "sorted_list_of_set (insert e (set ?t)) = insort e ?t"
        using False st by simp
      ultimately show ?thesis using lt by (simp add: latest_def Let_def E)
    qed
  qed
qed

lemma latest_length: "length (latest n E) \<le> n"
  by (simp add: latest_def Let_def)

text \<open>A ring of \<open>n\<close> records after feeding: in order, at most \<open>n\<close>, the latest end times of all fed.\<close>

definition ring_state :: "nat \<Rightarrow> timeval set \<Rightarrow> ringbuffer \<Rightarrow> bool" where
  "ring_state n E b \<longleftrightarrow> rb_nmax b = n \<and> in_order (rb_records b) \<and> map et (rb_records b) = latest n E"

lemma ring_state_feed:
  assumes "ring_state n E b" and "0 < n" and "finite E" and "has_end r"
  shows "\<exists>ok b'. rb_feed r b = Some (ok, b') \<and> ring_state n (insert (et r) E) b' \<and> set (rb_records b') \<subseteq> insert r (set (rb_records b))"
proof -
  let ?s = "rb_records b" and ?i = "insert_record r (rb_records b)"
  have io: "in_order ?s" and m: "map et ?s = latest n E" and n: "rb_nmax b = n" using assms(1) by (auto simp: ring_state_def)
  have "length ?s \<le> rb_nmax b" using latest_length [of n E] m n by (metis length_map)
  from rb_feed_count [OF io assms(4) _ this] have f: "rb_feed r b = Some (et r \<notin> et ` set ?s, b\<lparr>rb_records := drop (length ?i - n) ?i\<rparr>)"
    using assms(2) n by (simp add: Let_def)
  have "map et (drop (length ?i - n) ?i) = drop (length (map et ?i) - n) (map et ?i)" by (simp add: drop_map)
  also have "\<dots> = latest n (insert (et r) (et ` set ?s))"
    unfolding latest_def Let_def map_insert_record [OF io] by (rule refl)
  also have "et ` set ?s = set (latest n E)" using m by (metis list.set_map)
  also have "latest n (insert (et r) (set (latest n E))) = latest n (insert (et r) E)"
    using latest_insert [OF assms(3,2)] by simp
  finally have "map et (drop (length ?i - n) ?i) = latest n (insert (et r) E)" .
  moreover have "in_order (drop (length ?i - n) ?i)" by (intro in_order_drop in_order_insert io assms(4))
  moreover have "set (drop (length ?i - n) ?i) \<subseteq> insert r (set ?s)"
    by (auto simp: insert_record_def set_insort_key dest!: in_set_dropD split: if_splits)
  ultimately show ?thesis using f n by (simp add: ring_state_def)
qed

lemma ring_state_feed_all:
  assumes "ring_state n E b" and "0 < n" and "finite E" and "\<forall>r \<in> set rs. has_end r"
  shows "\<exists>b'. rb_feed_all rs b = Some b' \<and> ring_state n (E \<union> et ` set rs) b' \<and> set (rb_records b') \<subseteq> set (rb_records b) \<union> set rs"
  using assms
proof (induction rs arbitrary: b E)
  case (Cons r rs)
  then have "has_end r" by simp
  from ring_state_feed [OF Cons.prems(1-3) this] obtain ok b1 where
    b1: "rb_feed r b = Some (ok, b1)" "ring_state n (insert (et r) E) b1" "set (rb_records b1) \<subseteq> insert r (set (rb_records b))" by blast
  have "finite (insert (et r) E)" and "\<forall>r \<in> set rs. has_end r" using Cons.prems by simp_all
  from Cons.IH [OF b1(2) Cons.prems(2) this] show ?case using b1 by (fastforce simp: insert_commute)
qed simp

section \<open>The buffers keep what they promise\<close>

text \<open>
  C20: A ring of \<open>n\<close> records fed with any records, in any order and with repetitions, holds records of
  those it was fed, in strict order of their end times, and exactly those with the \<open>n\<close> latest end times.
\<close>

theorem ringbuffer_keeps_latest:
  assumes "0 < n" and "\<forall>r \<in> set rs. has_end r"
  shows "\<exists>b. rb_feed_all rs (RingBuffer n tolerance) = Some b \<and> in_order (rb_records b) \<and> set (rb_records b) \<subseteq> set rs \<and>
    map et (rb_records b) = latest n (et ` set rs)"
proof -
  have "ring_state n {} (RingBuffer n tolerance)"
    by (simp add: ring_state_def RingBuffer_def in_order_def latest_def)
  from ring_state_feed_all [OF this assms(1) _ assms(2)] show ?thesis
    by (force simp: ring_state_def RingBuffer_def)
qed

definition sample_record :: "int \<Rightarrow> srecord" where
  "sample_record t = \<lparr>stime = Timeval t 0, nsamp = 10, fsamp = 1, timequal = 100, rdata = Some (NumArray [1, 2, 3])\<rparr>"

lemma sample_record_end: "rec_endTime (sample_record t) = Some (ts_add (Timeval t 0) (Timeval 10 0))"
proof -
  have "\<lfloor>1/2 :: rat\<rfloor> = 0" by (rule floor_unique) simp_all
  then show ?thesis by (simp add: sample_record_def rec_endTime_def ts_of_double_def MaxTime_def MinTime_def trunc_def)
qed

theorem ringbuffer_keeps_latest_witness:
  "\<exists>b. rb_feed_all (map sample_record [30, 10, 20, 10]) (RingBuffer 2 (1/2)) = Some b \<and> in_order (rb_records b)"
proof -
  have "\<forall>r \<in> set (map sample_record [30, 10, 20, 10]). has_end r" by (simp add: has_end_def sample_record_end)
  from ringbuffer_keeps_latest [OF _ this, of 2 "1/2"] show ?thesis by auto
qed

lemma pop_old_filter:
  assumes "in_order s" and "s \<noteq> []" and "tmin < et (last s)"
  shows "pop_old tmin s = Some (filter (\<lambda>r. tmin < et r) s)"
  using assms
proof (induction s)
  case (Cons r s)
  then have r: "has_end r" and io: "in_order s" and lt: "\<forall>x \<in> set s. et r < et x" by (auto simp: in_order_def)
  show ?case
  proof (cases "et r \<le> tmin")
    case True
    then have "s \<noteq> []" using Cons.prems by auto
    then show ?thesis using Cons True r io by simp
  next
    case False
    then have "filter (\<lambda>r. tmin < et r) s = s" using lt by (auto simp: filter_id_conv not_le dest: less_trans)
    then show ?thesis using False r by simp
  qed
qed simp

text \<open>
  A ring of a time span keeps its records in strict order and holds, after each record it takes,
  exactly the records that end later than the span before the end of the last one; in particular it
  never runs empty while it drops records.  The times are those the code computes with (canonical).
\<close>

theorem ringbuffer_span_keeps_window:
  assumes "in_order (rb_records b)" and "has_end r" and "rb_nmax b = 0"
    and "canonical (rb_span b)" and "0 < usecs (rb_span b)" and "\<forall>x \<in> insert r (set (rb_records b)). canonical (et x)"
  shows "\<exists>ok b'. rb_feed r b = Some (ok, b') \<and> in_order (rb_records b') \<and> rb_records b' \<noteq> [] \<and>
    (ok \<longrightarrow> (let s = insort_key et r (rb_records b) in
       rb_records b' = filter (\<lambda>x. ts_sub (et (last s)) (rb_span b) < et x) s)) \<and>
    (\<not> ok \<longrightarrow> b' = b \<and> et r \<in> et ` set (rb_records b))"
proof -
  let ?s = "insert_record r (rb_records b)"
  have "to_double (rb_span b) \<noteq> 0" using assms(5) by (simp add: to_double_usecs)
  note spec = findInsertPosition_spec [OF assms(1,2)]
  have ne: "?s \<noteq> []" by (auto simp: insert_record_def insort_not_Nil)
  have io: "in_order ?s" by (rule in_order_insert [OF assms(1,2)])
  have "last ?s \<in> insert r (set (rb_records b))"
    using last_in_set [OF ne] by (auto simp: insert_record_def set_insort_key split: if_splits)
  then have cl: "canonical (et (last ?s))" "has_end (last ?s)"
    using assms(1,2,6) by (auto simp: in_order_def)
  let ?tmin = "ts_sub (et (last ?s)) (rb_span b)"
  have "?tmin < et (last ?s)"
    using canonical_less [OF canonical_sub(1) [OF cl(1) assms(4)] cl(1)] assms(5) by (simp add: usecs_sub)
  note pop = pop_old_filter [OF io ne this]
  have "in_order (filter (\<lambda>x. ?tmin < et x) ?s)"
    using io by (auto simp: in_order_def sorted_wrt_map sorted_wrt_filter)
  moreover have "filter (\<lambda>x. ?tmin < et x) ?s \<noteq> []"
    using \<open>?tmin < et (last ?s)\<close> last_in_set [OF ne] by (auto simp: filter_empty_conv)
  moreover have "rb_records b \<noteq> []" if "et r \<in> et ` set (rb_records b)" using that by auto
  ultimately show ?thesis
    using spec pop cl(2) \<open>to_double (rb_span b) \<noteq> 0\<close> assms(1,3)
    by (auto simp: rb_feed_def Let_def insert_record_def insert_at_def split: option.splits if_splits)
qed

lemma sample_record_et: "et (sample_record t) = ts_add (Timeval t 0) (Timeval 10 0)" "has_end (sample_record t)"
  by (simp_all add: et_def has_end_def sample_record_end)

theorem ringbuffer_span_keeps_window_witness:
  "\<exists>ok b'. rb_feed (sample_record 10) (RingBuffer_span (Timeval 60 0) (1/2)) = Some (ok, b') \<and> rb_records b' \<noteq> []"
proof -
  let ?b = "RingBuffer_span (Timeval 60 0) (1/2)"
  have "canonical (et (sample_record 10))"
    unfolding sample_record_et by (intro canonical_add) (simp_all add: canonical_def MICROS_def)
  then show ?thesis
    using ringbuffer_span_keeps_window [of ?b "sample_record 10"] sample_record_et(2) [of 10]
    by (auto simp: RingBuffer_span_def in_order_def canonical_def MICROS_def usecs_def)
qed

definition wanted :: "timewindow \<Rightarrow> srecord list \<Rightarrow> srecord set" where
  "wanted tw rs = {r \<in> set rs. overlaps tw (TimeWindow_of (stime r) (et r))}"

text \<open>
  A buffer of a fixed window, fed with any records, holds them in strict order of their end times:
  one for every end time of a record that overlaps the window, and none that does not.
\<close>

theorem timewindowbuffer_contents:
  assumes "\<forall>r \<in> set rs. has_end r"
  shows "\<exists>b. tb_feed_all rs (TimeWindowBuffer tw tolerance) = Some b \<and> in_order (tb_records b) \<and>
    set (tb_records b) \<subseteq> wanted tw rs \<and> et ` set (tb_records b) = et ` wanted tw rs"
proof -
  have "\<exists>b'. tb_feed_all rs b = Some b' \<and> tb_window b' = tb_window b \<and> in_order (tb_records b') \<and>
      set (tb_records b') \<subseteq> set (tb_records b) \<union> {r \<in> set rs. overlaps (tb_window b) (TimeWindow_of (stime r) (et r))} \<and>
      et ` set (tb_records b') = et ` (set (tb_records b) \<union> {r \<in> set rs. overlaps (tb_window b) (TimeWindow_of (stime r) (et r))})"
    if "in_order (tb_records b)" "\<forall>r \<in> set rs. has_end r" for b
    using that
  proof (induction rs arbitrary: b)
    case (Cons r rs)
    let ?o = "overlaps (tb_window b) (TimeWindow_of (stime r) (et r))"
    let ?b = "if ?o then b\<lparr>tb_records := insert_record r (tb_records b)\<rparr> else b"
    have io: "in_order (tb_records ?b)" and he: "has_end r" "\<forall>r \<in> set rs. has_end r"
      using Cons.prems in_order_insert by auto
    have sub: "set (insert_record r s) \<subseteq> insert r (set s)" "et ` set (insert_record r s) = insert (et r) (et ` set s)" for s
      by (auto simp: insert_record_def set_insort_key)
    have tw: "tb_window ?b = tb_window b" by simp
    let ?w = "{r \<in> set rs. overlaps (tb_window b) (TimeWindow_of (stime r) (et r))}"
    let ?n = "if ?o then {r} else {}"
    obtain b' where b': "tb_feed_all rs ?b = Some b'" "tb_window b' = tb_window b" "in_order (tb_records b')"
        "set (tb_records b') \<subseteq> set (tb_records ?b) \<union> ?w" "et ` set (tb_records b') = et ` (set (tb_records ?b) \<union> ?w)"
      using Cons.IH [OF io he(2), unfolded tw] by blast
    have "set (tb_records ?b) \<subseteq> set (tb_records b) \<union> ?n" and e: "et ` set (tb_records ?b) = et ` set (tb_records b) \<union> et ` ?n"
      using sub [of "tb_records b"] by auto
    then have s1: "set (tb_records b') \<subseteq> set (tb_records b) \<union> (?n \<union> ?w)" using b'(4) by blast
    have s2: "et ` set (tb_records b') = et ` (set (tb_records b) \<union> (?n \<union> ?w))"
      unfolding b'(5) image_Un e by (simp only: Un_assoc)
    have W: "?n \<union> ?w = {x \<in> set (r # rs). overlaps (tb_window b) (TimeWindow_of (stime x) (et x))}" by auto
    have "tb_feed_all (r # rs) b = Some b'"
      using b'(1) unfolding tb_feed_all.simps tb_feed_eq [OF Cons.prems(1) he(1)] option.case prod.case .
    then show ?case using b'(2,3) s1 s2 unfolding W by (intro exI [of _ b'] conjI)
  qed simp
  from this [of "TimeWindowBuffer tw tolerance"] show ?thesis
    using assms(1) by (simp add: TimeWindowBuffer_def in_order_def wanted_def) blast
qed

theorem timewindowbuffer_contents_witness:
  "\<exists>b. tb_feed_all (map sample_record [30, 10, 100]) (TimeWindowBuffer (TimeWindow_of (Timeval 0 0) (Timeval 50 0)) (1/2)) = Some b \<and>
    in_order (tb_records b)"
proof -
  have "\<forall>r \<in> set (map sample_record [30, 10, 100]). has_end r" by (simp add: sample_record_et)
  from timewindowbuffer_contents [OF this, of "TimeWindow_of (Timeval 0 0) (Timeval 50 0)" "1/2"] show ?thesis by auto
qed

end
