(* ===== verification/SequenceQueries.thy ===== *)
theory SequenceQueries
  imports RecordSequence
begin

text \<open>
  The questions about a sequence of records (src/src/trunk/libs/seiscomp3/core/recordsequence.cpp):
  its windows and gaps, availability, amplitude range, timing quality, and the record of all its
  data, for samples of type \<open>double\<close>.  \<open>None\<close> is an exception or undefined behaviour, as in the theory
  RecordSequence; the conversion of complex data for \<open>contiguousRecord\<close> is not modelled and also \<open>None\<close>.
\<close>

section \<open>Windows and gaps\<close>

definition seq_timeWindow :: "sequence \<Rightarrow> timewindow option" where
  "seq_timeWindow s =
     (if s = [] then Some TimeWindow
      else map_option (\<lambda>e. tw_set (stime (hd s)) e TimeWindow) (rec_endTime (last s)))"

fun windows_from :: "rat \<Rightarrow> timewindow \<Rightarrow> sequence \<Rightarrow> timewindow list option" where
  "windows_from tol cur [] = Some [cur]"
| "windows_from tol cur (r # rs) =
     (case rec_timeWindow r of None \<Rightarrow> None
      | Some tw \<Rightarrow>
          if contiguous cur tw (tol / fsamp r) then windows_from tol (Timewindow.extend cur tw) rs
          else map_option ((#) cur) (windows_from tol tw rs))"

definition windows :: "rat \<Rightarrow> sequence \<Rightarrow> timewindow list option" where
  "windows tol s =
     (case s of [] \<Rightarrow> Some []
      | r # rs \<Rightarrow> (case rec_timeWindow r of None \<Rightarrow> None | Some tw \<Rightarrow> windows_from tol tw rs))"

fun gaps_from :: "rat \<Rightarrow> timewindow \<Rightarrow> sequence \<Rightarrow> timewindow list option" where
  "gaps_from tol cur [] = Some []"
| "gaps_from tol cur (r # rs) =
     (case rec_timeWindow r of None \<Rightarrow> None
      | Some tw \<Rightarrow>
          if \<not> contiguous cur tw (tol / fsamp r)
          then map_option ((#) (TimeWindow_of (endTime cur) (startTime tw))) (gaps_from tol tw rs)
          else gaps_from tol tw rs)"

definition gaps :: "rat \<Rightarrow> sequence \<Rightarrow> timewindow list option" where
  "gaps tol s =
     (case s of [] \<Rightarrow> Some []
      | r # rs \<Rightarrow> (case rec_timeWindow r of None \<Rightarrow> None | Some tw \<Rightarrow> gaps_from tol tw rs))"

section \<open>Availability and timing quality\<close>

fun missing_from :: "rat \<Rightarrow> timewindow \<Rightarrow> sequence \<Rightarrow> rat option" where
  "missing_from tol lastTw [] = Some 0"
| "missing_from tol lastTw (r # rs) =
     (case rec_timeWindow r of None \<Rightarrow> None
      | Some tw \<Rightarrow>
          map_option (\<lambda>m. (if \<not> contiguous lastTw tw (tol / fsamp r) then to_double (ts_sub (startTime tw) (endTime lastTw)) else 0) + m)
            (missing_from tol tw rs))"

definition availability :: "rat \<Rightarrow> timewindow \<Rightarrow> sequence \<Rightarrow> rat option" where
  "availability tol tw s =
     (if s = [] \<or> tw_length tw = 0 then Some 0
      else
       (case (rec_timeWindow (hd s), rec_endTime (last s)) of
          (Some w, Some le) \<Rightarrow>
            (case missing_from tol w (tl s) of None \<Rightarrow> None
             | Some m \<Rightarrow>
                (let missingData = (if ts_gt (stime (hd s)) (startTime tw) then to_double (ts_sub (stime (hd s)) (startTime tw)) else 0) + m;
                     missingData = missingData + (if ts_lt le (endTime tw) then to_double (ts_sub (endTime tw) le) else 0);
                     requiredData = tw_length tw;
                     missingData = (if missingData < 0 then 0 else if missingData > requiredData then requiredData else missingData)
                 in Some (100 * (1 - missingData / requiredData))))
        | _ \<Rightarrow> None))"

definition tb_availability :: "timewindowbuffer \<Rightarrow> rat option" where
  "tb_availability b = availability (tb_tolerance b) (tb_window b) (tb_records b)"

fun quality_sum :: "sequence \<Rightarrow> int \<Rightarrow> nat \<Rightarrow> int \<times> nat" where
  "quality_sum [] q count = (q, count)"
| "quality_sum (r # rs) q count =
     (if timequal r \<ge> 0 then quality_sum rs (q + timequal r) (count + 1) else quality_sum rs q count)"

definition timingQuality :: "sequence \<Rightarrow> (nat \<times> rat) option" where
  "timingQuality s =
     (case quality_sum s 0 0 of (q, count) \<Rightarrow> if count = 0 then None else Some (count, of_int q / of_nat count))"

section \<open>Amplitude range\<close>

fun updateRange :: "rat \<times> rat \<Rightarrow> rat list \<Rightarrow> rat \<times> rat" where
  "updateRange rg [] = rg"
| "updateRange (lo, hi) (x # xs) =
     updateRange (if x < lo then (x, hi) else if x > hi then (lo, x) else (lo, hi)) xs"

definition getRange :: "rat list \<Rightarrow> rat \<times> rat" where
  "getRange xs = updateRange (hd xs, hd xs) (tl xs)"

text \<open>The samples of a record that count, \<open>None\<close> to skip it; an exception skips it as well.\<close>

definition range_bounds :: "timewindow option \<Rightarrow> srecord \<Rightarrow> nat \<Rightarrow> (int \<times> int) option" where
  "range_bounds tw r sz =
     (case tw of None \<Rightarrow> Some (0, int sz)
      | Some tw \<Rightarrow>
         (case rec_timeWindow r of None \<Rightarrow> None
          | Some rtw \<Rightarrow>
              if overlaps tw rtw then
                (let fs = fsamp r; dt = to_double (ts_sub (startTime tw) (stime r));
                     imin = (if dt > 0 then trunc (dt * fs) else 0);
                     dt = to_double (ts_sub (endTime rtw) (endTime tw));
                     imax = (if dt > 0 then int sz - trunc (dt * fs) else int sz)
                 in Some (imin, imax))
              else None))"

fun amplitude_loop :: "timewindow option \<Rightarrow> sequence \<Rightarrow> rat \<times> rat \<Rightarrow> bool \<Rightarrow> rat \<times> rat" where
  "amplitude_loop tw [] rg found = rg"
| "amplitude_loop tw (r # rs) rg found =
     (case rdata r of
        None \<Rightarrow> amplitude_loop tw rs rg found
      | Some data \<Rightarrow>
          if array_size data = 0 then amplitude_loop tw rs rg found
          else
           (case range_bounds tw r (array_size data) of
              None \<Rightarrow> amplitude_loop tw rs rg found
            | Some (imin, imax) \<Rightarrow>
                if imax \<le> imin then amplitude_loop tw rs rg found
                else
                 (case data of
                    OtherArray n \<Rightarrow> amplitude_loop tw rs rg found
                  | NumArray xs \<Rightarrow>
                      (let part = drop (nat imin) (take (nat imax) xs)
                       in if \<not> found then amplitude_loop tw rs (getRange part) True
                          else amplitude_loop tw rs (updateRange rg part) True))))"

definition amplitudeRange :: "timewindow option \<Rightarrow> sequence \<Rightarrow> rat \<times> rat" where
  "amplitudeRange tw s = amplitude_loop tw s (0, 0) False"

section \<open>One record of all data\<close>

fun interpolated :: "nat \<Rightarrow> rat \<Rightarrow> rat \<Rightarrow> rat \<Rightarrow> rat \<Rightarrow> rat list" where
  "interpolated 0 t dt a b = []"
| "interpolated (Suc n) t dt a b = (a * (1 - t) + b * t) # interpolated n (t + dt) dt a b"

record contig =
  lastRec :: "srecord option"
  lastSample :: rat
  frequency :: rat
  rawData :: "rat list"
  rawRecord :: "timeval option"

definition append_data :: "srecord \<Rightarrow> rat list \<Rightarrow> contig \<Rightarrow> contig option" where
  "append_data r ar st =
     (if ar = [] then None
      else Some (st\<lparr>rawData := rawData st @ ar, lastSample := last ar, lastRec := Some r\<rparr>))"

fun contig_loop :: "timewindow option \<Rightarrow> bool \<Rightarrow> sequence \<Rightarrow> contig \<Rightarrow> contig option" where
  "contig_loop tw interpolate [] st = Some st"
| "contig_loop tw interpolate (r # rs) st =
     (case rdata r of
        None \<Rightarrow> contig_loop tw interpolate rs st
      | Some data \<Rightarrow>
         (case (case tw of None \<Rightarrow> Some True | Some w \<Rightarrow> map_option (overlaps w) (rec_timeWindow r)) of
            None \<Rightarrow> None
          | Some False \<Rightarrow> contig_loop tw interpolate rs st
          | Some True \<Rightarrow>
             (case data of
                OtherArray n \<Rightarrow> None
              | NumArray ar \<Rightarrow>
                 (case lastRec st of
                    None \<Rightarrow>
                      Option.bind (append_data r ar (st\<lparr>frequency := fsamp r, rawRecord := Some (stime r)\<rparr>))
                        (contig_loop tw interpolate rs)
                  | Some lr \<Rightarrow>
                      if frequency st \<noteq> fsamp r then Some st
                      else
                       (case rec_endTime lr of None \<Rightarrow> None
                        | Some le \<Rightarrow>
                           (let diffTime = \<bar>to_double (ts_sub (stime r) le)\<bar>; f = frequency st in
                            if diffTime < - (1/2) / f then
                              (let numSamples = trunc (- diffTime * f + 1/2) in
                               if numSamples \<ge> int (length ar) then contig_loop tw interpolate rs st
                               else Option.bind (append_data r (drop (nat numSamples) ar) st) (contig_loop tw interpolate rs))
                            else if diffTime > (1/2) / f then
                              (if \<not> interpolate then Some st
                               else
                                (let numSamples = trunc (diffTime * f + 1/2) in
                                 if numSamples > 0 \<and> ar = [] then None
                                 else
                                  (let dt = 1 / of_int (numSamples + 1);
                                       fill = (if numSamples > 0 then interpolated (nat numSamples) dt dt (lastSample st) (hd ar) else [])
                                   in Option.bind (append_data r ar (st\<lparr>rawData := rawData st @ fill\<rparr>)) (contig_loop tw interpolate rs))))
                            else Option.bind (append_data r ar st) (contig_loop tw interpolate rs)))))))"

text \<open>The result: no record, or start time, sampling frequency and samples.\<close>

definition contiguousRecord :: "timewindow option \<Rightarrow> bool \<Rightarrow> sequence \<Rightarrow> (timeval \<times> rat \<times> rat list) option option" where
  "contiguousRecord tw interpolate s =
     (if s = [] then Some None
      else map_option (\<lambda>st. map_option (\<lambda>t. (t, frequency st, rawData st)) (rawRecord st))
        (contig_loop tw interpolate s \<lparr>lastRec = None, lastSample = 0, frequency = 0, rawData = [], rawRecord = None\<rparr>))"

section \<open>Properties\<close>

lemma windows_gaps_from:
  assumes "\<forall>r \<in> set rs. has_end r" and "endTime cur = endTime cur'"
  shows "\<exists>ws gs. windows_from tol cur rs = Some ws \<and> gaps_from tol cur' rs = Some gs \<and> ws \<noteq> [] \<and>
    startTime (hd ws) = startTime cur \<and> endTime (last ws) = (if rs = [] then endTime cur else et (last rs)) \<and>
    gs = map2 (\<lambda>a b. TimeWindow_of (endTime a) (startTime b)) ws (tl ws)"
  using assms
proof (induction rs arbitrary: cur cur')
  case (Cons r rs)
  then have r: "has_end r" and he: "\<forall>r \<in> set rs. has_end r" by simp_all
  let ?tw = "TimeWindow_of (stime r) (et r)"
  have tw: "rec_timeWindow r = Some ?tw" using r by (simp add: rec_timeWindow_def)
  have e: "endTime (Timewindow.extend cur ?tw) = et r" "startTime (Timewindow.extend cur ?tw) = startTime cur"
    "endTime ?tw = et r" "startTime ?tw = stime r" by (simp_all add: Timewindow.extend_def TimeWindow_of_def)
  have c: "contiguous cur' ?tw x = contiguous cur ?tw x" for x using Cons.prems(2) by (simp add: contiguous_def)
  show ?case
  proof (cases "contiguous cur ?tw (tol / fsamp r)")
    case True
    from Cons.IH [OF he, of "Timewindow.extend cur ?tw" ?tw] e obtain ws gs where
      "windows_from tol (Timewindow.extend cur ?tw) rs = Some ws" "gaps_from tol ?tw rs = Some gs" "ws \<noteq> []"
      "startTime (hd ws) = startTime cur" "endTime (last ws) = (if rs = [] then et r else et (last rs))"
      "gs = map2 (\<lambda>a b. TimeWindow_of (endTime a) (startTime b)) ws (tl ws)" by auto
    then show ?thesis using True tw c by simp
  next
    case False
    from Cons.IH [OF he, of ?tw ?tw] e obtain ws gs where
      "windows_from tol ?tw rs = Some ws" "gaps_from tol ?tw rs = Some gs" "ws \<noteq> []"
      "startTime (hd ws) = stime r" "endTime (last ws) = (if rs = [] then et r else et (last rs))"
      "gs = map2 (\<lambda>a b. TimeWindow_of (endTime a) (startTime b)) ws (tl ws)" by auto
    then show ?thesis using False tw c e Cons.prems(2) by (cases ws) auto
  qed
qed simp

text \<open>
  Windows and gaps describe the same cuts: of a sequence that is not empty there is one window
  more than there are gaps, the windows reach from the start of the first record to the end of the
  last, and the gaps are exactly the pieces between one window and the next.
\<close>

lemma windows_and_gaps:
  assumes "s \<noteq> []" and "\<forall>r \<in> set s. has_end r"
  shows "\<exists>ws gs. windows tol s = Some ws \<and> gaps tol s = Some gs \<and> length ws = length gs + 1 \<and>
    startTime (hd ws) = stime (hd s) \<and> endTime (last ws) = et (last s) \<and>
    gs = map2 (\<lambda>a b. TimeWindow_of (endTime a) (startTime b)) ws (tl ws)"
proof -
  obtain r rs where s: "s = r # rs" using assms(1) by (cases s) auto
  let ?tw = "TimeWindow_of (stime r) (et r)"
  have tw: "rec_timeWindow r = Some ?tw" using assms(2) by (simp add: s rec_timeWindow_def)
  from windows_gaps_from [of rs ?tw ?tw tol] assms(2) obtain ws gs where
    w: "windows_from tol ?tw rs = Some ws" "gaps_from tol ?tw rs = Some gs" "ws \<noteq> []" "startTime (hd ws) = startTime ?tw"
      "endTime (last ws) = (if rs = [] then endTime ?tw else et (last rs))"
      "gs = map2 (\<lambda>a b. TimeWindow_of (endTime a) (startTime b)) ws (tl ws)" by (auto simp: s)
  then show ?thesis by (cases ws) (auto simp: s windows_def gaps_def tw TimeWindow_of_def)
qed

theorem windows_and_gaps_witness:
  "\<exists>ws gs. windows (1/2) (map sample_record [10, 20, 50]) = Some ws \<and> gaps (1/2) (map sample_record [10, 20, 50]) = Some gs \<and>
    length ws = length gs + 1"
proof -
  have "\<forall>r \<in> set (map sample_record [10, 20, 50]). has_end r" by (simp add: sample_record_et)
  from windows_and_gaps [OF _ this, of "1/2"] show ?thesis by auto
qed








text \<open>The samples an amplitude range without a window looks at.\<close>

definition samples_of :: "srecord \<Rightarrow> rat list" where
  "samples_of r = (case rdata r of Some (NumArray xs) \<Rightarrow> xs | _ \<Rightarrow> [])"

lemma updateRange_Min_Max:
  "lo \<le> hi \<Longrightarrow> updateRange (lo, hi) xs = (Min (set (lo # xs)), Max (set (hi # xs)))"
proof (induction xs arbitrary: lo hi)
  case (Cons x xs)
  have *: "Min (insert a (insert b (set xs))) = Min (insert (min a b) (set xs))"
    "Max (insert a (insert b (set xs))) = Max (insert (max a b) (set xs))" for a b
    by (cases "xs = []", simp_all add: min.assoc max.assoc)+
  show ?case
  proof (cases "x < lo")
    case True
    then show ?thesis using Cons.IH [of x hi] Cons.prems * [of lo x] * [of hi x] by (simp add: min_def max_def)
  next
    case False
    then show ?thesis
      using Cons.IH [of lo x] Cons.IH [of lo hi] Cons.prems * [of lo x] * [of hi x]
      by (cases "hi < x") (simp_all add: min_def max_def)
  qed
qed simp

lemma Min_append: "xs \<noteq> [] \<Longrightarrow> Min (set (Min (set xs) # ys)) = Min (set (xs @ ys))"
  "xs \<noteq> [] \<Longrightarrow> Max (set (Max (set xs) # ys)) = Max (set (xs @ ys))"
  by (cases "ys = []", simp_all add: Min_Un Max_Un)+

lemma amplitude_loop_all:
  "amplitude_loop None s (if acc = [] then (0, 0) else (Min (set acc), Max (set acc))) (acc \<noteq> []) =
    (let xs = acc @ concat (map samples_of s) in if xs = [] then (0, 0) else (Min (set xs), Max (set xs)))"
proof (induction s arbitrary: acc)
  case (Cons r s)
  show ?case
  proof (cases "samples_of r = []")
    case True
    then have "amplitude_loop None (r # s) rg b = amplitude_loop None s rg b" for rg b
      by (auto simp: samples_of_def range_bounds_def split: option.splits array.splits)
    then show ?thesis using Cons.IH [of acc] True by simp
  next
    case False
    then obtain xs where xs: "rdata r = Some (NumArray xs)" "samples_of r = xs" "xs \<noteq> []"
      by (auto simp: samples_of_def split: option.splits array.splits)
    have get: "getRange xs = (Min (set xs), Max (set xs))"
      using xs(3) by (cases xs) (simp_all add: getRange_def updateRange_Min_Max)
    have upd: "updateRange (Min (set acc), Max (set acc)) xs = (Min (set (acc @ xs)), Max (set (acc @ xs)))" if "acc \<noteq> []"
    proof -
      have "Min (set acc) \<le> Max (set acc)" using that by (metis Max_ge Min_in List.finite_set set_empty)
      then show ?thesis using updateRange_Min_Max Min_append [OF that] by metis
    qed
    have "amplitude_loop None (r # s) (if acc = [] then (0, 0) else (Min (set acc), Max (set acc))) (acc \<noteq> []) =
      amplitude_loop None s (Min (set (acc @ xs)), Max (set (acc @ xs))) True"
      using xs get upd by (simp add: range_bounds_def)
    also have "\<dots> = (let ys = (acc @ xs) @ concat (map samples_of s) in if ys = [] then (0, 0) else (Min (set ys), Max (set ys)))"
      using Cons.IH [of "acc @ xs"] xs(3) by simp
    finally show ?thesis by (simp add: xs(2))
  qed
qed simp

text \<open>
  The amplitude range of a sequence without a time window is the smallest and the greatest
  sample of all its records that carry numbers, whatever their order and however many are empty or
  of another type; it is (0, 0) when there is none.
\<close>

theorem amplitude_range_exact:
  "amplitudeRange None s =
    (let xs = concat (map samples_of s) in if xs = [] then (0, 0) else (Min (set xs), Max (set xs)))"
  using amplitude_loop_all [of s "[]"] by (simp add: amplitudeRange_def)

section \<open>The record of all data\<close>

fun follows :: "timeval \<Rightarrow> sequence \<Rightarrow> bool" where
  "follows e [] \<longleftrightarrow> True"
| "follows e (r # rs) \<longleftrightarrow> \<bar>to_double (ts_sub (stime r) e)\<bar> \<le> (1/2) / fsamp r \<and> follows (et r) rs"

definition numeric :: "rat \<Rightarrow> srecord \<Rightarrow> bool" where
  "numeric f r \<longleftrightarrow> has_end r \<and> fsamp r = f \<and> samples_of r \<noteq> []"

lemma numeric_data: "numeric f r \<Longrightarrow> rdata r = Some (NumArray (samples_of r)) \<and> rec_endTime r = Some (et r) \<and> fsamp r = f"
  by (auto simp: numeric_def samples_of_def split: option.splits array.splits)

lemma contig_loop_follows:
  assumes "\<forall>r \<in> set rs. numeric f r" and "numeric f lr" and "follows (et lr) rs" and "0 < f"
    and "lastRec st = Some lr" and "frequency st = f"
  shows "\<exists>st'. contig_loop None i rs st = Some st' \<and> rawData st' = rawData st @ concat (map samples_of rs) \<and>
    rawRecord st' = rawRecord st \<and> frequency st' = f"
  using assms
proof (induction rs arbitrary: lr st)
  case (Cons r rs)
  let ?st = "st\<lparr>rawData := rawData st @ samples_of r, lastSample := last (samples_of r), lastRec := Some r\<rparr>"
  have r: "numeric f r" using Cons.prems(1) by simp
  then have a: "append_data r (samples_of r) st = Some ?st" by (simp add: append_data_def numeric_def)
  have d: "\<not> (1/2) / f < \<bar>to_double (ts_sub (stime r) (et lr))\<bar>" using Cons.prems(3) numeric_data [OF r] by simp
  have "- (1/2) / f < 0" using Cons.prems(4) by simp
  then have d': "\<not> \<bar>to_double (ts_sub (stime r) (et lr))\<bar> < - (1/2) / f" by linarith
  have "contig_loop None i (r # rs) st = contig_loop None i rs ?st"
    using numeric_data [OF r] numeric_data [OF Cons.prems(2)] Cons.prems(5,6) d d' a by (simp add: Let_def)
  then show ?case using Cons.IH [of r ?st] Cons.prems r by simp
qed simp

text \<open>
  Of records with numeric data at one sampling rate that follow each other within half a
  sample, the record of all data starts with the first one, keeps the rate and holds exactly the
  samples of all records in order, with or without interpolation.
\<close>

theorem contiguous_record_concat:
  assumes "\<forall>r \<in> set (r # rs). numeric f r" and "follows (et r) rs"
  shows "contiguousRecord None i (r # rs) = Some (Some (stime r, f, concat (map samples_of (r # rs))))"
proof -
  let ?st = "\<lparr>lastRec = Some r, lastSample = last (samples_of r), frequency = f, rawData = samples_of r, rawRecord = Some (stime r)\<rparr>"
  have r: "numeric f r" using assms(1) by simp
  then have "0 < f" by (auto simp: numeric_def has_end_def rec_endTime_def split: if_splits)
  then obtain st' where "contig_loop None i rs ?st = Some st'" "rawData st' = samples_of r @ concat (map samples_of rs)"
    "rawRecord st' = Some (stime r)" "frequency st' = f"
    using contig_loop_follows [of rs f r ?st i] assms r by auto
  then show ?thesis
    using numeric_data [OF r] r by (simp add: contiguousRecord_def append_data_def numeric_def)
qed

theorem contiguous_record_concat_witness:
  "contiguousRecord None True (map sample_record [10, 20]) = Some (Some (Timeval 10 0, 1, [1, 2, 3, 1, 2, 3]))"
proof -
  have s: "samples_of (sample_record t) = [1, 2, 3]" "fsamp (sample_record t) = 1" for t
    by (simp_all add: samples_of_def sample_record_def)
  then have n: "numeric 1 (sample_record t)" for t by (simp add: numeric_def sample_record_et)
  show ?thesis
    using contiguous_record_concat [of "sample_record 10" "[sample_record 20]" 1 True]
    by (simp add: n s sample_record_et to_double_usecs usecs_sub usecs_add) (simp add: sample_record_def usecs_def)
qed

text \<open>
  An overlap is never cut out: the absolute value of the time difference makes the branch for
  overlaps unreachable, so that a record that overlaps the one before it by more than half a sample
  is handled as a gap of that length: without interpolation its samples are dropped and the record
  ends there, and with interpolation the whole record is appended behind additional samples made up
  for the supposed gap.
\<close>

theorem contiguous_overlap_is_gap:
  assumes "numeric f a" and "numeric f b" and "to_double (ts_sub (stime b) (et a)) = - d" and "(1/2) / f < d"
  shows "contiguousRecord None False [a, b] = Some (Some (stime a, f, samples_of a)) \<and>
    (\<exists>fill. contiguousRecord None True [a, b] = Some (Some (stime a, f, samples_of a @ fill @ samples_of b)) \<and>
      length fill = nat (trunc (d * f + 1/2)))"
proof -
  have f: "0 < f" using assms(1) by (auto simp: numeric_def has_end_def rec_endTime_def split: if_splits)
  then have "0 < (1/2) / f" and neg: "- (1/2) / f < 0" by simp_all
  then have d: "\<bar>to_double (ts_sub (stime b) (et a))\<bar> = d"
    using assms(4) unfolding assms(3) by linarith
  have nd: "\<not> d < - (1/2) / f" using assms(4) neg \<open>0 < (1/2) / f\<close> by linarith
  then have nd': "\<not> d < - (1 / (2 * f))" by simp
  have ne: "samples_of a \<noteq> []" "samples_of b \<noteq> []" using assms by (simp_all add: numeric_def)
  have len: "length (interpolated n t dt x y) = n" for n t dt x y by (induction n arbitrary: t) simp_all
  note rules = contiguousRecord_def append_data_def numeric_data [OF assms(1)] numeric_data [OF assms(2)] ne d nd'
  have "contiguousRecord None False [a, b] = Some (Some (stime a, f, samples_of a))"
    using assms(4) by (simp add: rules Let_def)
  moreover have "\<exists>fill. contiguousRecord None True [a, b] = Some (Some (stime a, f, samples_of a @ fill @ samples_of b)) \<and>
      length fill = nat (trunc (d * f + 1/2))"
    using assms(4) by (simp add: rules Let_def len)
  ultimately show ?thesis by blast
qed

theorem contiguous_overlap_is_gap_witness:
  "contiguousRecord None False (map sample_record [10, 12]) = Some (Some (Timeval 10 0, 1, [1, 2, 3]))"
proof -
  have s: "samples_of (sample_record t) = [1, 2, 3]" "fsamp (sample_record t) = 1" "stime (sample_record t) = Timeval t 0" for t
    by (simp_all add: samples_of_def sample_record_def)
  then have n: "numeric 1 (sample_record t)" for t by (simp add: numeric_def sample_record_et)
  have "to_double (ts_sub (stime (sample_record 12)) (et (sample_record 10))) = - 8"
    by (simp add: sample_record_et s to_double_usecs usecs_sub usecs_add) (simp add: usecs_def MICROS_def)
  from contiguous_overlap_is_gap [OF n n this] show ?thesis by (simp add: s)
qed

end
