(* ===== verification/LeParser.thy ===== *)
theory LeParser
  imports Strings
begin

text \<open>
  Logical expressions such as \<open>a & b & !(c | d)\<close> (src/src/trunk/libs/seiscomp3/utils/leparser.cpp, leparser.ipp,
  leparser.h): the tokenizer, and the parser with its stack of expressions and its stack of
  modes.  The expressions of the user are values made by a factory from their name.

  \<open>None\<close> as the result of a parser operation is undefined behaviour: \<open>top\<close> or \<open>pop\<close> of an empty stack, an
  iterator moved past the end, or the cast of an expression to an operator it is not.
\<close>

section \<open>Operators and expressions\<close>

datatype loperator = OpAnd | OpOr | OpNot | OpPOpen | OpPClose

fun OperatorMap :: "loperator \<Rightarrow> string" where
  "OperatorMap OpAnd = [CHR 0x26]"
| "OperatorMap OpOr = [CHR 0x7C]"
| "OperatorMap OpNot = [CHR 0x21]"
| "OperatorMap OpPOpen = [CHR 0x28]"
| "OperatorMap OpPClose = [CHR 0x29]"

text \<open>An operator is created without operands, \<open>None\<close> is the null pointer.\<close>

datatype 'e lexpr =
    Atom 'e
  | BinaryOperator loperator "'e lexpr option" "'e lexpr option"
  | UnaryOperator "'e lexpr option"

section \<open>The tokenizer\<close>

record letokenizer =
  tk_expr :: string
  tk_tokens :: "string list"
  tk_error :: bool
  tk_errorStr :: string

definition LeTokenizer :: "string \<Rightarrow> letokenizer" where
  "LeTokenizer expr = \<lparr>tk_expr = expr, tk_tokens = [], tk_error = False, tk_errorStr = []\<rparr>"

definition pushToken :: "string \<Rightarrow> string list \<Rightarrow> string list" where
  "pushToken token tokens = (if length token > 0 then tokens @ [token] else tokens)"

fun letokenize_loop :: "bool \<Rightarrow> string \<Rightarrow> string \<Rightarrow> string list \<Rightarrow> int \<Rightarrow> string \<times> string list \<times> int" where
  "letokenize_loop begins [] token tokens parens = (token, tokens, parens)"
| "letokenize_loop begins (c # cs) token tokens parens =
     (if [c] = OperatorMap OpAnd then
        (if begins then (token, tokens, parens)
         else letokenize_loop False cs [] (pushToken token tokens @ [[c]]) parens)
      else if [c] = OperatorMap OpOr then
        (if begins then (token, tokens, parens)
         else letokenize_loop False cs [] (pushToken token tokens @ [[c]]) parens)
      else if [c] = OperatorMap OpNot then
        letokenize_loop False cs [] (pushToken token tokens @ [[c]]) parens
      else if [c] = OperatorMap OpPOpen then
        letokenize_loop False cs [] (pushToken token tokens @ [[c]]) (parens + 1)
      else if [c] = OperatorMap OpPClose then
        letokenize_loop False cs [] (pushToken token tokens @ [[c]]) (parens - 1)
      else if c \<in> set WHITESPACE then letokenize_loop False cs [] (pushToken token tokens) parens
      else letokenize_loop False cs (token @ [c]) tokens parens)"

definition letokenize :: "letokenizer \<Rightarrow> bool \<times> letokenizer" where
  "letokenize t =
     (case letokenize_loop True (tk_expr t) [] (tk_tokens t) 0 of
        (token, tokens, parens) \<Rightarrow>
          let t = t\<lparr>tk_tokens := pushToken token tokens\<rparr> in
          if parens < 0 then
            (False, t\<lparr>tk_errorStr := ''Too many closing parentheses in '' @ tk_expr t, tk_error := True\<rparr>)
          else if parens > 0 then
            (False, t\<lparr>tk_errorStr := ''Too many opening parentheses in '' @ tk_expr t, tk_error := True\<rparr>)
          else (True, t))"

definition letokenize_expr :: "string \<Rightarrow> letokenizer \<Rightarrow> bool \<times> letokenizer" where
  "letokenize_expr expr t = letokenize (t\<lparr>tk_expr := expr\<rparr>)"

section \<open>The parser\<close>

text \<open>The iterator is the list of tokens that are left.\<close>

record 'e leparser =
  lp_it :: "string list"
  lp_stack :: "'e lexpr list"
  lp_modes :: "loperator list"
  lp_error :: bool
  lp_errorStr :: string

definition LeParser :: "string list \<Rightarrow> 'e leparser" where
  "LeParser tokens = \<lparr>lp_it = tokens, lp_stack = [], lp_modes = [], lp_error = False, lp_errorStr = []\<rparr>"

definition applyBinaryOperator :: "'e leparser \<Rightarrow> 'e leparser option" where
  "applyBinaryOperator p =
     (case (lp_modes p, lp_stack p) of
        (m # ms, lhs # BinaryOperator k a b # rhs # es) \<Rightarrow>
          Some (p\<lparr>lp_modes := ms, lp_stack := BinaryOperator k (Some lhs) (Some rhs) # es\<rparr>)
      | _ \<Rightarrow> None)"

definition applyUnaryOperator :: "'e leparser \<Rightarrow> 'e leparser option" where
  "applyUnaryOperator p =
     (case (lp_modes p, lp_stack p) of
        (m # ms, rhs # UnaryOperator a # es) \<Rightarrow>
          Some (p\<lparr>lp_modes := ms, lp_stack := UnaryOperator (Some rhs) # es\<rparr>)
      | _ \<Rightarrow> None)"

text \<open>What \<open>parse\<close> does after an operand.\<close>

definition operand_done :: "'e leparser \<Rightarrow> 'e leparser option" where
  "operand_done p =
     (case lp_modes p of
        [] \<Rightarrow> Some p
      | m # ms \<Rightarrow>
          if m = OpAnd \<or> m = OpOr then applyBinaryOperator p
          else if m = OpNot then
            Option.bind (applyUnaryOperator p) (\<lambda>p. if length (lp_stack p) > 0 then applyBinaryOperator p else Some p)
          else Some p)"

text \<open>The result is the returned pointer (\<open>None\<close> is NULL) and the parser; \<open>create\<close> is the factory.\<close>

partial_function (option) parse ::
  "(string \<Rightarrow> 'e option) \<Rightarrow> 'e leparser \<Rightarrow> ('e lexpr option \<times> 'e leparser) option" where
  "parse create p =
     (case lp_it p of
        [] \<Rightarrow>
          if length (lp_stack p) > 1 then
            Some (None, p\<lparr>lp_errorStr := ''ERROR, stack size is: '' @ show_int (int (length (lp_stack p))) @ [CHR 0x0A], lp_error := True\<rparr>)
          else (case lp_stack p of [] \<Rightarrow> None | e # es \<Rightarrow> Some (Some e, p))
      | t # ts \<Rightarrow>
          if t = OperatorMap OpAnd then
            parse create (p\<lparr>lp_it := ts, lp_stack := BinaryOperator OpAnd None None # lp_stack p, lp_modes := OpAnd # lp_modes p\<rparr>)
          else if t = OperatorMap OpOr then
            parse create (p\<lparr>lp_it := ts, lp_stack := BinaryOperator OpOr None None # lp_stack p, lp_modes := OpOr # lp_modes p\<rparr>)
          else if t = OperatorMap OpNot then
            parse create (p\<lparr>lp_it := ts, lp_stack := UnaryOperator None # lp_stack p, lp_modes := OpNot # lp_modes p\<rparr>)
          else if t = OperatorMap OpPOpen then
            Option.bind (parse create (p\<lparr>lp_it := ts, lp_modes := OpPOpen # lp_modes p\<rparr>))
              (\<lambda>(r, q). Option.bind (operand_done q)
                (\<lambda>q. case lp_it q of [] \<Rightarrow> None | t' # ts' \<Rightarrow> parse create (q\<lparr>lp_it := ts'\<rparr>)))
          else if t = OperatorMap OpPClose then
            (case (lp_modes p, lp_stack p) of
               (m # ms, e # es) \<Rightarrow> Some (Some e, p\<lparr>lp_modes := ms\<rparr>)
             | _ \<Rightarrow> None)
          else
            (case create t of
               None \<Rightarrow> Some (None, p\<lparr>lp_error := True, lp_errorStr := ''Could not create Expression: '' @ t\<rparr>)
             | Some e \<Rightarrow>
                 Option.bind (operand_done (p\<lparr>lp_stack := Atom e # lp_stack p\<rparr>)) (\<lambda>q. parse create (q\<lparr>lp_it := ts\<rparr>))))"

declare parse.simps [code]

section \<open>Expressions the parser handles\<close>

text \<open>
  The expressions as written: operands joined by operators from left to right, where the right
  operand of an operator can be negated; an operand is a name or such an expression in
  parentheses.
\<close>

datatype operand = Name string | Paren chain
  and chain = First operand | Then chain loperator bool operand

definition op_token :: "string \<Rightarrow> bool" where
  "op_token t \<longleftrightarrow> t \<in> OperatorMap ` {OpAnd, OpOr, OpNot, OpPOpen, OpPClose}"

lemma op_token_iff: "op_token t \<longleftrightarrow> t \<in> {[CHR 0x26], [CHR 0x7C], [CHR 0x21], [CHR 0x28], [CHR 0x29]}"
  by (auto simp: op_token_def)

fun operand_tokens :: "operand \<Rightarrow> string list" and chain_tokens :: "chain \<Rightarrow> string list" where
  "operand_tokens (Name t) = [t]"
| "operand_tokens (Paren c) = OperatorMap OpPOpen # chain_tokens c @ [OperatorMap OpPClose]"
| "chain_tokens (First i) = operand_tokens i"
| "chain_tokens (Then c k n i) =
     chain_tokens c @ [OperatorMap k] @ (if n then [OperatorMap OpNot] else []) @ operand_tokens i"

fun operand_ok :: "(string \<Rightarrow> 'e option) \<Rightarrow> operand \<Rightarrow> bool" and chain_ok :: "(string \<Rightarrow> 'e option) \<Rightarrow> chain \<Rightarrow> bool" where
  "operand_ok create (Name t) \<longleftrightarrow> \<not> op_token t \<and> create t \<noteq> None"
| "operand_ok create (Paren c) \<longleftrightarrow> chain_ok create c"
| "chain_ok create (First i) \<longleftrightarrow> operand_ok create i"
| "chain_ok create (Then c k n i) \<longleftrightarrow> chain_ok create c \<and> k \<in> {OpAnd, OpOr} \<and> operand_ok create i"

fun operand_tree :: "(string \<Rightarrow> 'e option) \<Rightarrow> operand \<Rightarrow> 'e lexpr" and chain_tree :: "(string \<Rightarrow> 'e option) \<Rightarrow> chain \<Rightarrow> 'e lexpr" where
  "operand_tree create (Name t) = Atom (the (create t))"
| "operand_tree create (Paren c) = chain_tree create c"
| "chain_tree create (First i) = operand_tree create i"
| "chain_tree create (Then c k n i) =
     BinaryOperator k (Some (if n then UnaryOperator (Some (operand_tree create i)) else operand_tree create i))
       (Some (chain_tree create c))"

text \<open>The parser without error, by its tokens, expressions and modes.\<close>

abbreviation running :: "string list \<Rightarrow> 'e lexpr list \<Rightarrow> loperator list \<Rightarrow> 'e leparser" where
  "running ts es ms \<equiv> \<lparr>lp_it = ts, lp_stack = es, lp_modes = ms, lp_error = False, lp_errorStr = []\<rparr>"

text \<open>The parser after an operand, with the tokens that follow it.\<close>

definition resume :: "(string \<Rightarrow> 'e option) \<Rightarrow> string list \<Rightarrow> 'e lexpr list \<Rightarrow> loperator list \<Rightarrow> ('e lexpr option \<times> 'e leparser) option" where
  "resume create ts es ms = Option.bind (operand_done (running ts es ms)) (parse create)"

lemma operand_done_it:
  "operand_done (running ts es ms) = map_option (\<lambda>q. q\<lparr>lp_it := ts\<rparr>) (operand_done (running us es ms))"
  by (auto simp: operand_done_def applyBinaryOperator_def applyUnaryOperator_def
      split: list.splits lexpr.splits)

lemma resume_at:
  "resume create ts es ms = Option.bind (operand_done (running us es ms)) (\<lambda>q. parse create (q\<lparr>lp_it := ts\<rparr>))"
  unfolding resume_def operand_done_it [of ts es ms us] by (cases "operand_done (running us es ms)") simp_all

lemma parse_operator:
  "parse create (running ([CHR 0x26] # ts) es ms) = parse create (running ts (BinaryOperator OpAnd None None # es) (OpAnd # ms))"
  "parse create (running ([CHR 0x7C] # ts) es ms) = parse create (running ts (BinaryOperator OpOr None None # es) (OpOr # ms))"
  "parse create (running ([CHR 0x21] # ts) es ms) = parse create (running ts (UnaryOperator None # es) (OpNot # ms))"
  by (subst parse.simps, simp)+

lemma parse_name:
  "\<not> op_token t \<Longrightarrow> create t = Some e \<Longrightarrow> parse create (running (t # ts) es ms) = resume create ts (Atom e # es) ms"
  by (subst parse.simps) (simp add: op_token_iff resume_at [where us = "t # ts"])

lemma parse_close:
  "parse create (running ([CHR 0x29] # ts) (e # es) (m # ms)) = Some (Some e, running ([CHR 0x29] # ts) (e # es) ms)"
  by (subst parse.simps) simp

lemma operand_done_keeps_it: "operand_done p = Some q \<Longrightarrow> lp_it q = lp_it p"
  by (auto simp: operand_done_def applyBinaryOperator_def applyUnaryOperator_def
      split: list.splits lexpr.splits if_splits)

lemma parse_paren:
  assumes "parse create (running ts es (OpPOpen # ms)) = Some (r, running (t # us) es' ms')"
  shows "parse create (running ([CHR 0x28] # ts) es ms) = resume create us es' ms'"
  using assms operand_done_keeps_it [of "running (t # us) es' ms'"]
  by (subst parse.simps) (cases "operand_done (running (t # us) es' ms')", simp_all add: resume_at [where us = "t # us"])

definition open_mode :: "loperator list \<Rightarrow> bool" where
  "open_mode ms \<longleftrightarrow> ms = [] \<or> hd ms = OpPOpen"

lemma resume_open: "open_mode ms \<Longrightarrow> resume create ts es ms = parse create (running ts es ms)"
  by (cases ms) (simp_all add: open_mode_def resume_def operand_done_def)

lemma resume_binary:
  "k \<in> {OpAnd, OpOr} \<Longrightarrow> resume create ts (e # BinaryOperator k a b # f # es) (k # ms) =
    parse create (running ts (BinaryOperator k (Some e) (Some f) # es) ms)"
  by (auto simp: resume_def operand_done_def applyBinaryOperator_def)

lemma resume_negated:
  "resume create ts (e # UnaryOperator a' # BinaryOperator k a b # f # es) (OpNot # m # ms) =
    parse create (running ts (BinaryOperator k (Some (UnaryOperator (Some e))) (Some f) # es) ms)"
  by (auto simp: resume_def operand_done_def applyBinaryOperator_def applyUnaryOperator_def)

lemma parse_operand_chain:
  shows "operand_ok create i \<Longrightarrow>
      parse create (running (operand_tokens i @ rest) es ms) = resume create rest (operand_tree create i # es) ms"
    and "chain_ok create c \<Longrightarrow> open_mode ms \<Longrightarrow>
      parse create (running (chain_tokens c @ rest) es ms) = parse create (running rest (chain_tree create c # es) ms)"
proof (induction i and c arbitrary: rest es ms and rest es ms)
  case (Name t)
  then show ?case by (auto simp: parse_name)
next
  case (Paren c)
  have "parse create (running (chain_tokens c @ [CHR 0x29] # rest) es (OpPOpen # ms)) =
    Some (Some (chain_tree create c), running ([CHR 0x29] # rest) (chain_tree create c # es) ms)"
    using Paren by (simp add: open_mode_def parse_close)
  from parse_paren [OF this] show ?case by simp
next
  case (First i)
  then show ?case by (simp add: resume_open)
next
  case (Then c k n i)
  then have k: "k \<in> {OpAnd, OpOr}" and i: "operand_ok create i" by simp_all
  let ?toks = "(if n then [OperatorMap OpNot] else []) @ operand_tokens i @ rest"
  let ?es = "BinaryOperator k None None # chain_tree create c # es"
  have "parse create (running (chain_tokens (Then c k n i) @ rest) es ms) =
    parse create (running (OperatorMap k # ?toks) (chain_tree create c # es) ms)"
    using Then.IH(1) [of ms "OperatorMap k # ?toks" es] Then.prems by simp
  also have "\<dots> = parse create (running ?toks ?es (k # ms))"
    using k by (auto simp: parse_operator)
  also have "\<dots> = parse create (running rest (chain_tree create (Then c k n i) # es) ms)"
  proof (cases n)
    case False
    then show ?thesis using Then.IH(2) [OF i, of rest ?es "k # ms"] k by (simp add: resume_binary)
  next
    case True
    then show ?thesis
      using Then.IH(2) [OF i, of rest "UnaryOperator None # ?es" "OpNot # k # ms"] by (simp add: parse_operator resume_negated)
  qed
  finally show ?case .
qed

section \<open>Tokenizing\<close>

definition plain_token :: "string \<Rightarrow> bool" where
  "plain_token t \<longleftrightarrow> t \<noteq> [] \<and> (\<forall>c \<in> set t. \<not> op_token [c] \<and> c \<notin> set WHITESPACE)"

definition token_depth :: "string \<Rightarrow> int" where
  "token_depth t = (if t = OperatorMap OpPOpen then 1 else if t = OperatorMap OpPClose then -1 else 0)"

fun operand_plain :: "operand \<Rightarrow> bool" and chain_plain :: "chain \<Rightarrow> bool" where
  "operand_plain (Name t) \<longleftrightarrow> plain_token t"
| "operand_plain (Paren c) \<longleftrightarrow> chain_plain c"
| "chain_plain (First i) \<longleftrightarrow> operand_plain i"
| "chain_plain (Then c k n i) \<longleftrightarrow> chain_plain c \<and> operand_plain i"

text \<open>An expression as text, with a blank after every token.\<close>

definition expression_text :: "chain \<Rightarrow> string" where
  "expression_text c = concat (map (\<lambda>t. t @ '' '') (chain_tokens c))"

lemma blank_WHITESPACE: "CHR '' '' \<in> set WHITESPACE" by (simp add: WHITESPACE_def)

lemma letokenize_word:
  "(\<forall>c \<in> set t. \<not> op_token [c] \<and> c \<notin> set WHITESPACE) \<Longrightarrow>
    letokenize_loop begins (t @ '' '' @ s) tok toks n = letokenize_loop False s [] (pushToken (tok @ t) toks) n"
  by (induction t arbitrary: begins tok) (simp_all add: blank_WHITESPACE op_token_iff)

lemma plain_not_op: "plain_token t \<Longrightarrow> \<not> op_token t"
proof
  assume t: "plain_token t" and op: "op_token t"
  from op obtain c where "t = [c]" unfolding op_token_iff by blast
  then show False using t op by (simp add: plain_token_def)
qed

lemma letokenize_token:
  assumes "plain_token t \<or> op_token t" and "begins \<Longrightarrow> t \<noteq> OperatorMap OpAnd \<and> t \<noteq> OperatorMap OpOr"
  shows "letokenize_loop begins (t @ '' '' @ s) [] toks n = letokenize_loop False s [] (toks @ [t]) (n + token_depth t)"
  using assms(1)
proof
  assume t: "plain_token t"
  then have "token_depth t = 0" using plain_not_op [OF t] by (simp add: token_depth_def op_token_iff)
  moreover have "letokenize_loop begins (t @ '' '' @ s) [] toks n = letokenize_loop False s [] (pushToken ([] @ t) toks) n"
    using t unfolding plain_token_def by (intro letokenize_word) blast
  ultimately show ?thesis using t by (simp add: plain_token_def pushToken_def)
next
  assume "op_token t"
  then consider "t = [CHR 0x26]" | "t = [CHR 0x7C]" | "t = [CHR 0x21]" | "t = [CHR 0x28]" | "t = [CHR 0x29]"
    unfolding op_token_iff by blast
  then show ?thesis
    using assms(2) by cases (cases begins, simp_all add: token_depth_def pushToken_def blank_WHITESPACE)+
qed

lemma letokenize_tokens:
  "\<forall>t \<in> set ts. plain_token t \<or> op_token t \<Longrightarrow>
    letokenize_loop False (concat (map (\<lambda>t. t @ '' '') ts)) [] toks n = ([], toks @ ts, n + sum_list (map token_depth ts))"
proof (induction ts arbitrary: toks n)
  case (Cons t ts)
  then show ?case using letokenize_token [of t False "concat (map (\<lambda>t. t @ '' '') ts)" toks n] by simp
qed simp

lemma chain_tokens_good:
  "operand_plain i \<Longrightarrow> operand_ok create i \<Longrightarrow>
    (\<forall>t \<in> set (operand_tokens i). plain_token t \<or> op_token t) \<and> sum_list (map token_depth (operand_tokens i)) = 0 \<and>
    operand_tokens i \<noteq> [] \<and> hd (operand_tokens i) \<noteq> [CHR 0x26] \<and> hd (operand_tokens i) \<noteq> [CHR 0x7C]"
  "chain_plain c \<Longrightarrow> chain_ok create c \<Longrightarrow>
    (\<forall>t \<in> set (chain_tokens c). plain_token t \<or> op_token t) \<and> sum_list (map token_depth (chain_tokens c)) = 0 \<and>
    chain_tokens c \<noteq> [] \<and> hd (chain_tokens c) \<noteq> [CHR 0x26] \<and> hd (chain_tokens c) \<noteq> [CHR 0x7C]"
proof (induction i and c)
  case (Name t)
  then show ?case by (auto simp: op_token_iff token_depth_def)
next
  case (Then c k n i)
  then show ?case by (auto simp: op_token_iff token_depth_def)
qed (auto simp: op_token_iff token_depth_def)

lemma expression_tokens:
  assumes "chain_plain c" and "chain_ok create c"
  shows "letokenize (LeTokenizer (expression_text c)) = (True, (LeTokenizer (expression_text c))\<lparr>tk_tokens := chain_tokens c\<rparr>)"
proof -
  note good = chain_tokens_good(2) [OF assms]
  then obtain t ts where ts: "chain_tokens c = t # ts" by (cases "chain_tokens c") auto
  have "letokenize_loop True (expression_text c) [] [] 0 = ([], chain_tokens c, 0)"
    using good letokenize_token [of t True "concat (map (\<lambda>t. t @ '' '') ts)" "[]" 0]
      letokenize_tokens [of ts "[t]" "token_depth t"] by (simp add: expression_text_def ts)
  then show ?thesis by (simp add: letokenize_def LeTokenizer_def pushToken_def)
qed

lemma parse_chain:
  "chain_ok create c \<Longrightarrow> parse create (LeParser (chain_tokens c)) = Some (Some (chain_tree create c), running [] [chain_tree create c] [])"
  using parse_operand_chain(2) [of create c "[]" "[]" "[]"]
  by (simp add: LeParser_def open_mode_def) (simp add: parse.simps)

section \<open>Properties\<close>

text \<open>
  C22: The text of an expression, written as operands joined by \<open>&\<close> and \<open>|\<close> from left to right, where
  the right operand of an operator can be negated and operands can be expressions in parentheses,
  is tokenized without an error and parsed to its tree: the operators are applied from left to right
  without precedence, each to the operand behind it and to all that stands before it in the same
  parentheses.
\<close>

theorem expression_parsed:
  assumes "chain_plain c" and "chain_ok create c"
  shows "\<exists>t. letokenize (LeTokenizer (expression_text c)) = (True, t) \<and>
    parse create (LeParser (tk_tokens t)) = Some (Some (chain_tree create c), running [] [chain_tree create c] [])"
  using expression_tokens [OF assms] parse_chain [OF assms(2)] by simp

theorem expression_parsed_witness:
  "\<exists>t. letokenize (LeTokenizer ''a & ! ( b | c ) '') = (True, t) \<and>
    parse Some (LeParser (tk_tokens t)) =
      Some (Some (BinaryOperator OpAnd (Some (UnaryOperator (Some (BinaryOperator OpOr (Some (Atom ''c'')) (Some (Atom ''b'')))))) (Some (Atom ''a''))),
        running [] [BinaryOperator OpAnd (Some (UnaryOperator (Some (BinaryOperator OpOr (Some (Atom ''c'')) (Some (Atom ''b'')))))) (Some (Atom ''a''))] [])"
  using expression_parsed [of "Then (First (Name ''a'')) OpAnd True (Paren (Then (First (Name ''b'')) OpOr False (Name ''c'')))" Some]
  by (simp add: plain_token_def op_token_iff WHITESPACE_def expression_text_def)

text \<open>
  Where the first operand is negated the parser fails: after the negation it always applies a
  binary operator. At the start of the expression that takes an operator from the empty stack of
  modes, which is undefined behaviour; behind an opening parenthesis it applies the operator in
  front of it and closes the parenthesis, so that \<open>a & (!b | c)\<close> is read as \<open>(a & !b) | c\<close>.
\<close>

theorem leading_negation:
  assumes "chain_ok create (First i)" and "\<forall>t \<in> {a, b, c}. \<not> op_token t \<and> create t \<noteq> None"
  shows "parse create (LeParser (OperatorMap OpNot # operand_tokens i @ rest)) = None \<and>
    parse create (LeParser [a, OperatorMap OpAnd, OperatorMap OpPOpen, OperatorMap OpNot, b, OperatorMap OpOr, c, OperatorMap OpPClose]) =
    parse create (LeParser [a, OperatorMap OpAnd, OperatorMap OpNot, b, OperatorMap OpOr, c])"
proof -
  have "parse create (running (operand_tokens i @ rest) [UnaryOperator None] [OpNot]) = None"
    using assms(1) by (simp add: parse_operand_chain(1) resume_def operand_done_def applyUnaryOperator_def applyBinaryOperator_def)
  then have "parse create (LeParser (OperatorMap OpNot # operand_tokens i @ rest)) = None"
    by (simp add: LeParser_def parse_operator)
  moreover obtain x y z where e: "create a = Some x" "create b = Some y" "create c = Some z"
    and t: "\<not> op_token a" "\<not> op_token b" "\<not> op_token c" using assms(2) by auto
  let ?and = "BinaryOperator OpAnd (Some (UnaryOperator (Some (Atom y)))) (Some (Atom x))"
  let ?or = "BinaryOperator OpOr (Some (Atom z)) (Some ?and)"
  note rules = parse_operator parse_name [of a create x, OF t(1) e(1)] parse_name [of b create y, OF t(2) e(2)] parse_name [of c create z, OF t(3) e(3)]
    resume_open open_mode_def resume_negated resume_binary
  have "parse create (running [[CHR 0x21], b, [CHR 0x7C], c, [CHR 0x29]] [BinaryOperator OpAnd None None, Atom x] [OpPOpen, OpAnd]) =
    Some (Some ?or, running [[CHR 0x29]] [?or] [])"
    by (simp add: rules parse_close)
  from parse_paren [OF this]
  have "parse create (LeParser [a, OperatorMap OpAnd, OperatorMap OpPOpen, OperatorMap OpNot, b, OperatorMap OpOr, c, OperatorMap OpPClose]) =
    parse create (running [] [?or] [])"
    by (simp add: LeParser_def rules)
  moreover have "parse create (LeParser [a, OperatorMap OpAnd, OperatorMap OpNot, b, OperatorMap OpOr, c]) =
    parse create (running [] [?or] [])"
    by (simp add: LeParser_def rules)
  ultimately show ?thesis by simp
qed

theorem leading_negation_witness:
  "parse Some (LeParser [''!'', ''a'']) = None"
  using leading_negation [of Some "Name ''a''" "''a''" "''b''" "''c''" "[]"] by (simp add: op_token_iff)

text \<open>
  An expression that cannot be created inside parentheses does not make the parser fail: the error
  is recorded, but \<open>parse\<close> goes on and returns an operator without operands.
\<close>

theorem unknown_name_in_parentheses:
  assumes "\<not> op_token a" and "create a = Some x" and "\<not> op_token u" and "create u = None"
  shows "\<exists>q. parse create (LeParser [a, OperatorMap OpOr, OperatorMap OpPOpen, u, OperatorMap OpPClose]) =
      Some (Some (BinaryOperator OpOr None None), q) \<and> lp_error q"
proof -
  let ?es = "[BinaryOperator OpOr None None, Atom x]"
  let ?failed = "\<lambda>ts ms. \<lparr>lp_it = ts, lp_stack = ?es, lp_modes = ms, lp_error = True, lp_errorStr = ''Could not create Expression: '' @ u\<rparr>"
  have u: "parse create (running [u, [CHR 0x29]] ?es [OpPOpen, OpOr]) = Some (None, ?failed [u, [CHR 0x29]] [OpPOpen, OpOr])"
    using assms(3,4) by (subst parse.simps) (simp add: op_token_iff)
  have close: "parse create \<lparr>lp_it = [[CHR 0x29]], lp_stack = ?es, lp_modes = [OpPOpen, OpOr], lp_error = True, lp_errorStr = s\<rparr> =
    Some (Some (BinaryOperator OpOr None None), \<lparr>lp_it = [[CHR 0x29]], lp_stack = ?es, lp_modes = [OpOr], lp_error = True, lp_errorStr = s\<rparr>)" for s
    by (subst parse.simps) simp
  have "parse create (running [[CHR 0x28], u, [CHR 0x29]] ?es [OpOr]) = Some (Some (BinaryOperator OpOr None None), ?failed [[CHR 0x29]] [OpOr])"
    by (subst parse.simps) (simp add: u close operand_done_def)
  then show ?thesis
    by (simp add: LeParser_def parse_operator parse_name [of a create x, OF assms(1,2)] resume_open open_mode_def)
qed

theorem unknown_name_in_parentheses_witness:
  "\<exists>q. parse (\<lambda>t. if t = ''a'' then Some t else None) (LeParser [''a'', ''|'', ''('', ''u'', '')'']) =
    Some (Some (BinaryOperator OpOr None None), q)"
  using unknown_name_in_parentheses [of "''a''" "\<lambda>t. if t = ''a'' then Some t else None" "''a''" "''u''"]
  by (auto simp: op_token_iff)

end
