(* ===== verification/Criteria.thy ===== *)
theory Criteria
  imports LeParser Complex_Main
begin

text \<open>
  The criteria of an import or export sink (src/src/trunk/apps/tools/scimex/criterion.h, criterion.cpp and the
  construction of the criterion in imeximpl.cpp): ranges a single criterion tests, the tests of
  the operators over them, and the criterion made from the text of the configuration.

  A test that goes through a null pointer is \<open>None\<close>.  The texts collected about failed tests are not
  modelled, only where collecting them goes through an operand.  The factory that reads a single
  criterion from the configuration is a parameter.
\<close>

section \<open>A single criterion\<close>

record criterion =
  latitudeRange :: "rat \<times> rat"
  longitudeRange :: "rat \<times> rat"
  magnitudeRange :: "rat \<times> rat"
  arrivalCount :: nat
  agencyIDs :: "string list"

definition criterion_isInLatLonRange :: "rat \<Rightarrow> rat \<Rightarrow> criterion \<Rightarrow> bool" where
  "criterion_isInLatLonRange lat lon c =
     (let result = True;
          result = (if lat < fst (latitudeRange c) \<or> lat > snd (latitudeRange c) then False else result);
          result = (if lon < fst (longitudeRange c) \<or> lon > snd (longitudeRange c) then False else result)
      in result)"

definition criterion_isInMagnitudeRange :: "rat \<Rightarrow> criterion \<Rightarrow> bool" where
  "criterion_isInMagnitudeRange mag c = (if mag \<ge> fst (magnitudeRange c) \<and> mag \<le> snd (magnitudeRange c) then True else False)"

definition criterion_checkArrivalCount :: "nat \<Rightarrow> criterion \<Rightarrow> bool" where
  "criterion_checkArrivalCount count c = (if count \<ge> arrivalCount c then True else False)"

definition criterion_checkAgencyID :: "string \<Rightarrow> criterion \<Rightarrow> bool" where
  "criterion_checkAgencyID ident c = (if agencyIDs c = [] then True else if ident \<in> set (agencyIDs c) then True else False)"

section \<open>Operators\<close>

text \<open>
  The four tests have the same form in each operator.  An operand is \<open>None\<close> for a null pointer and
  else the result of its test; after a failed test the operator asks both operands for their
  messages.
\<close>

definition and_result :: "bool option option \<Rightarrow> bool option option \<Rightarrow> bool option" where
  "and_result lhs rhs =
     (case (lhs, rhs) of
        (Some (Some a), Some b) \<Rightarrow> if a then b else Some False
      | _ \<Rightarrow> None)"

definition or_result :: "bool option option \<Rightarrow> bool option option \<Rightarrow> bool option" where
  "or_result lhs rhs =
     (case lhs of
        Some (Some a) \<Rightarrow> if a then Some True else (case rhs of None \<Rightarrow> None | Some b \<Rightarrow> b)
      | _ \<Rightarrow> None)"

definition not_result :: "bool option option \<Rightarrow> bool option" where
  "not_result rhs = (case rhs of None \<Rightarrow> None | Some b \<Rightarrow> map_option Not b)"

fun criteria_test :: "(criterion \<Rightarrow> bool) \<Rightarrow> criterion lexpr \<Rightarrow> bool option" where
  "criteria_test test (Atom c) = Some (test c)"
| "criteria_test test (BinaryOperator k lhs rhs) =
     (if k = OpAnd then and_result (map_option (criteria_test test) lhs) (map_option (criteria_test test) rhs)
      else or_result (map_option (criteria_test test) lhs) (map_option (criteria_test test) rhs))"
| "criteria_test test (UnaryOperator rhs) = not_result (map_option (criteria_test test) rhs)"

definition isInLatLonRange :: "rat \<Rightarrow> rat \<Rightarrow> criterion lexpr \<Rightarrow> bool option" where
  "isInLatLonRange lat lon = criteria_test (criterion_isInLatLonRange lat lon)"

definition isInMagnitudeRange :: "rat \<Rightarrow> criterion lexpr \<Rightarrow> bool option" where
  "isInMagnitudeRange mag = criteria_test (criterion_isInMagnitudeRange mag)"

definition checkArrivalCount :: "nat \<Rightarrow> criterion lexpr \<Rightarrow> bool option" where
  "checkArrivalCount count = criteria_test (criterion_checkArrivalCount count)"

definition checkAgencyID :: "string \<Rightarrow> criterion lexpr \<Rightarrow> bool option" where
  "checkAgencyID ident = criteria_test (criterion_checkAgencyID ident)"

section \<open>The criterion of a sink\<close>

text \<open>
  The text of the configuration is tokenized and parsed; an error of the tokenizer, or no expression,
  fails with its message, while an error of a parser that returned an expression is only logged.

  The operators the parser creates come from the factory and are the classes of
  \<open>Applications\<close> (criterion.h:108-142), but \<open>LeParser\<close> sets their operands through a \<open>static_cast\<close> to
  \<open>Utils::BinaryOperator\<close> and \<open>Utils::UnaryOperator\<close> (leparser.ipp:161-196), templates they do not derive
  from.  C++ leaves that undefined; it works where the compiler lays the two pairs of templates out
  alike, since both set the same members.  Whether it does is the parameter \<open>same_layout\<close>.
  Outside: undefined behaviour, of the parser or, with another layout, of a text with an operator.
\<close>

definition init_criterion :: "bool \<Rightarrow> (string \<Rightarrow> criterion option) \<Rightarrow> string \<Rightarrow> (string + criterion lexpr) option" where
  "init_criterion same_layout create criteriaStr =
     (case letokenize (LeTokenizer criteriaStr) of (ok, t) \<Rightarrow>
        if \<not> ok then Some (Inl (tk_errorStr t))
        else if \<not> same_layout \<and> (\<exists>k \<in> set (tk_tokens t). k \<in> {OperatorMap OpAnd, OperatorMap OpOr, OperatorMap OpNot}) then None
        else
         (case parse create (LeParser (tk_tokens t)) of
            None \<Rightarrow> None
          | Some (None, p) \<Rightarrow> Some (Inl (lp_errorStr p))
          | Some (Some e, p) \<Rightarrow> Some (Inr e)))"

section \<open>Properties\<close>

text \<open>The meaning of an expression as written: from left to right, parentheses first.\<close>

fun operand_value :: "(string \<Rightarrow> bool) \<Rightarrow> operand \<Rightarrow> bool" and chain_value :: "(string \<Rightarrow> bool) \<Rightarrow> chain \<Rightarrow> bool" where
  "operand_value v (Name t) = v t"
| "operand_value v (Paren c) = chain_value v c"
| "chain_value v (First i) = operand_value v i"
| "chain_value v (Then c k n i) =
     (let b = (if n then \<not> operand_value v i else operand_value v i)
      in if k = OpAnd then chain_value v c \<and> b else chain_value v c \<or> b)"

lemma criteria_test_tree:
  "operand_ok create i \<Longrightarrow> criteria_test test (operand_tree create i) = Some (operand_value (\<lambda>t. test (the (create t))) i)"
  "chain_ok create c \<Longrightarrow> criteria_test test (chain_tree create c) = Some (chain_value (\<lambda>t. test (the (create t))) c)"
  by (induction i and c) (auto simp: and_result_def or_result_def not_result_def Let_def)

text \<open>
  C23: The criterion of a sink means what its text says, for an expression written as operands
  joined by \<open>&\<close> and \<open>|\<close>, with a blank behind every token: where the first operand of the expression
  and of every pair of parentheses is not negated, every name is a token without blanks and special
  characters for which a criterion can be created, and the operator classes of the application are
  laid out like those of the parser it casts them to, \<open>init\<close> returns a criterion, and every
  test of it yields the value of the expression as written: the test of the single criteria for their
  names, the operators applied from left to right without precedence, and negation to the operand
  behind it.
\<close>

theorem criterion_means_text:
  assumes "chain_plain c" and "chain_ok create c" and "same_layout"
  shows "\<exists>e. init_criterion same_layout create (expression_text c) = Some (Inr e) \<and>
    isInLatLonRange lat lon e = Some (chain_value (\<lambda>t. criterion_isInLatLonRange lat lon (the (create t))) c) \<and>
    isInMagnitudeRange mag e = Some (chain_value (\<lambda>t. criterion_isInMagnitudeRange mag (the (create t))) c) \<and>
    checkArrivalCount count e = Some (chain_value (\<lambda>t. criterion_checkArrivalCount count (the (create t))) c) \<and>
    checkAgencyID ident e = Some (chain_value (\<lambda>t. criterion_checkAgencyID ident (the (create t))) c)"
proof -
  have "init_criterion same_layout create (expression_text c) = Some (Inr (chain_tree create c))"
    using expression_tokens [OF assms(1,2)] parse_chain [OF assms(2)] assms(3) by (simp add: init_criterion_def)
  then show ?thesis
    using criteria_test_tree(2) [OF assms(2)]
    by (simp add: isInLatLonRange_def isInMagnitudeRange_def checkArrivalCount_def checkAgencyID_def)
qed

definition small_strong :: "string \<Rightarrow> criterion option" where
  "small_strong t =
     (if t = ''near'' then Some \<lparr>latitudeRange = (0, 10), longitudeRange = (0, 10), magnitudeRange = (3, 9), arrivalCount = 5, agencyIDs = []\<rparr>
      else if t = ''strong'' then Some \<lparr>latitudeRange = (-90, 90), longitudeRange = (-180, 180), magnitudeRange = (6, 9), arrivalCount = 10, agencyIDs = [''GFZ'']\<rparr>
      else None)"

theorem criterion_means_text_witness:
  "\<exists>e. init_criterion True small_strong ''near | strong '' = Some (Inr e) \<and>
    isInLatLonRange 50 5 e = Some True \<and> isInMagnitudeRange 2 e = Some False"
proof -
  let ?c = "Then (First (Name ''near'')) OpOr False (Name ''strong'')"
  have "chain_plain ?c" and "chain_ok small_strong ?c"
    by (simp_all add: plain_token_def op_token_iff WHITESPACE_def small_strong_def)
  from criterion_means_text [OF this TrueI, of 50 5 2 0 "[]"] show ?thesis
    by (simp add: expression_text_def small_strong_def criterion_isInLatLonRange_def criterion_isInMagnitudeRange_def)
      (elim exE conjE, intro exI conjI)
qed

end
