(* ===== verification/BinStream.thy ===== *)
theory BinStream
  imports Datetime
begin

text \<open>
  Reading and writing of the basic types in a binary archive
  (src/src/trunk/libs/seiscomp3/io/archive/binarchive.cpp, with the flags of the base class in
  core/archive.ipp).  The values are stored as they are in memory, here of a little-endian machine
  with 32 bit \<open>int\<close> and 64 bit \<open>time_t\<close>.

  A stream buffer is the bytes before its read position, the bytes after it, and the bytes
  written.  A \<open>float\<close> or \<open>double\<close> is its bit pattern, a non-negative integer.  A read
  that gets less than it asked for has still overwritten the first bytes of the variable.  The
  exception of a container that is resized to a negative number of elements is \<open>Inl\<close>; running out
  of memory is not modelled.
\<close>

section \<open>Bytes\<close>

fun bytes_of :: "nat \<Rightarrow> int \<Rightarrow> char list" where
  "bytes_of 0 v = []"
| "bytes_of (Suc n) v = char_of (v mod 256) # bytes_of n (v div 256)"

fun int_of :: "char list \<Rightarrow> int" where
  "int_of [] = 0"
| "int_of (b # bs) = of_char b + 256 * int_of bs"

lemma length_bytes_of [simp]: "length (bytes_of n v) = n"
  by (induction n arbitrary: v) simp_all

lemma of_char_mod: "of_char (char_of (v mod 256 :: int)) = v mod 256"
  by (simp add: of_char_of)

lemma int_of_bytes_of: "int_of (bytes_of n v) = v mod 256 ^ n"
proof (induction n arbitrary: v)
  case (Suc n)
  have "v mod 256 + 256 * (v div 256 mod 256 ^ n) = v mod (256 * 256 ^ n)"
    by (simp add: zmod_zmult2_eq)
  then show ?case using Suc.IH of_char_mod by simp
qed simp

lemma cast_s_mod: "cast_s w (x mod 2 ^ w) = cast_s w x"
  by (simp add: cast_s_def mod_add_left_eq)

section \<open>The archive\<close>

record stream =
  st_back :: "char list"
  st_in :: "char list"
  st_out :: "char list"

record binarchive =
  ba_buf :: "stream option"
  ba_isReading :: bool
  ba_validObject :: bool
  ba_sequenceSize :: int
  ba_nullable :: bool
  ba_usedObject :: bool
  ba_classname :: string
  ba_classes :: "string list"
  ba_version :: int
  ba_error :: string

definition setValidity :: "bool \<Rightarrow> binarchive \<Rightarrow> binarchive" where
  "setValidity v a = (if \<not> v then a\<lparr>ba_validObject := False\<rparr> else a)"

definition success :: "binarchive \<Rightarrow> bool" where
  "success a = ba_validObject a"

text \<open>\<open>sgetn\<close> of the buffer with no buffer read as 0 bytes, and \<open>sputn\<close>.\<close>

definition sgetn :: "int \<Rightarrow> binarchive \<Rightarrow> char list \<times> binarchive" where
  "sgetn n a =
     (case ba_buf a of
        None \<Rightarrow> ([], a)
      | Some s \<Rightarrow>
          (let got = take (nat n) (st_in s) in
           (got, a\<lparr>ba_buf := Some (s\<lparr>st_back := rev got @ st_back s, st_in := drop (nat n) (st_in s)\<rparr>)\<rparr>)))"

definition writeBytes :: "char list \<Rightarrow> binarchive \<Rightarrow> binarchive" where
  "writeBytes bs a = (case ba_buf a of None \<Rightarrow> a | Some s \<Rightarrow> a\<lparr>ba_buf := Some (s\<lparr>st_out := st_out s @ bs\<rparr>)\<rparr>)"

datatype archive_exception = LengthError | StreamException string

text \<open>A variable of which the first bytes were overwritten.\<close>

definition overlay :: "char list \<Rightarrow> char list \<Rightarrow> char list" where
  "overlay old got = got @ drop (length got) old"

section \<open>Types of fixed size\<close>

definition read_fixed :: "('a \<Rightarrow> char list) \<Rightarrow> (char list \<Rightarrow> 'a) \<Rightarrow> nat \<Rightarrow> 'a \<Rightarrow> binarchive \<Rightarrow> 'a \<times> binarchive" where
  "read_fixed enc dec n v a =
     (case sgetn (int n) a of (got, a) \<Rightarrow>
        (dec (overlay (enc v) got), if length got \<noteq> n then setValidity False a else a))"

definition write_fixed :: "('a \<Rightarrow> char list) \<Rightarrow> 'a \<Rightarrow> binarchive \<Rightarrow> binarchive" where
  "write_fixed enc v a = (if ba_buf a = None then a else writeBytes (enc v) a)"

definition enc_int :: "int \<Rightarrow> char list" where "enc_int v = bytes_of 4 v"
definition dec_int :: "char list \<Rightarrow> int" where "dec_int bs = cast_s 32 (int_of bs)"
definition enc_float :: "int \<Rightarrow> char list" where "enc_float v = bytes_of 4 v"
definition enc_double :: "int \<Rightarrow> char list" where "enc_double v = bytes_of 8 v"
definition enc_char :: "char \<Rightarrow> char list" where "enc_char c = [c]"
definition enc_complex :: "nat \<Rightarrow> int \<times> int \<Rightarrow> char list" where
  "enc_complex n z = bytes_of n (fst z) @ bytes_of n (snd z)"
definition dec_complex :: "nat \<Rightarrow> char list \<Rightarrow> int \<times> int" where
  "dec_complex n bs = (int_of (take n bs), int_of (drop n bs))"

definition read_int :: "int \<Rightarrow> binarchive \<Rightarrow> int \<times> binarchive" where
  "read_int = read_fixed enc_int dec_int 4"
definition read_float :: "int \<Rightarrow> binarchive \<Rightarrow> int \<times> binarchive" where
  "read_float = read_fixed enc_float int_of 4"
definition read_double :: "int \<Rightarrow> binarchive \<Rightarrow> int \<times> binarchive" where
  "read_double = read_fixed enc_double int_of 8"
definition read_complex_float :: "int \<times> int \<Rightarrow> binarchive \<Rightarrow> (int \<times> int) \<times> binarchive" where
  "read_complex_float = read_fixed (enc_complex 4) (dec_complex 4) 8"
definition read_complex_double :: "int \<times> int \<Rightarrow> binarchive \<Rightarrow> (int \<times> int) \<times> binarchive" where
  "read_complex_double = read_fixed (enc_complex 8) (dec_complex 8) 16"

definition write_int :: "int \<Rightarrow> binarchive \<Rightarrow> binarchive" where "write_int = write_fixed enc_int"
definition write_float :: "int \<Rightarrow> binarchive \<Rightarrow> binarchive" where "write_float = write_fixed enc_float"
definition write_double :: "int \<Rightarrow> binarchive \<Rightarrow> binarchive" where "write_double = write_fixed enc_double"
definition write_complex_float :: "int \<times> int \<Rightarrow> binarchive \<Rightarrow> binarchive" where
  "write_complex_float = write_fixed (enc_complex 4)"
definition write_complex_double :: "int \<times> int \<Rightarrow> binarchive \<Rightarrow> binarchive" where
  "write_complex_double = write_fixed (enc_complex 8)"

definition read_bool :: "bool \<Rightarrow> binarchive \<Rightarrow> bool \<times> binarchive" where
  "read_bool v a =
     (case sgetn 1 a of (got, a) \<Rightarrow>
        if length got \<noteq> 1 then (v, setValidity False a) else (hd got \<noteq> CHR 0x00, a))"

definition write_bool :: "bool \<Rightarrow> binarchive \<Rightarrow> binarchive" where
  "write_bool = write_fixed (\<lambda>v. [if v then CHR 0x01 else CHR 0x00])"

text \<open>
  Times are stored in 32 bits.  The local variables read into are not initialized; \<open>junk\<close> is what they
  hold.
\<close>

definition read_time_t :: "int \<Rightarrow> binarchive \<Rightarrow> int \<times> binarchive" where
  "read_time_t junk a =
     (case sgetn 4 a of (got, a) \<Rightarrow>
        (dec_int (overlay (enc_int junk) got), if length got \<noteq> 4 then setValidity False a else a))"

definition write_time_t :: "int \<Rightarrow> binarchive \<Rightarrow> binarchive" where
  "write_time_t v a = (if ba_buf a = None then a else writeBytes (enc_int (cast_s 32 v)) a)"

definition read_Time :: "int \<times> int \<Rightarrow> binarchive \<Rightarrow> timeval \<times> binarchive" where
  "read_Time junk a =
     (case sgetn 4 a of (got1, a) \<Rightarrow>
      case sgetn 4 a of (got2, a) \<Rightarrow>
        (TimeSpan_of (dec_int (overlay (enc_int (fst junk)) got1)) (dec_int (overlay (enc_int (snd junk)) got2)),
         if length got1 + length got2 \<noteq> 8 then setValidity False a else a))"

definition write_Time :: "timeval \<Rightarrow> binarchive \<Rightarrow> binarchive" where
  "write_Time v a =
     (if ba_buf a = None then a
      else writeBytes (enc_int (cast_s 32 (microseconds v))) (writeBytes (enc_int (cast_s 32 (seconds v))) a))"

section \<open>Containers\<close>

definition resize :: "'a \<Rightarrow> nat \<Rightarrow> 'a list \<Rightarrow> 'a list" where
  "resize def n xs = take n xs @ replicate (n - length xs) def"

definition elements :: "(char list \<Rightarrow> 'a) \<Rightarrow> nat \<Rightarrow> nat \<Rightarrow> char list \<Rightarrow> 'a list" where
  "elements dec n m bs = map (\<lambda>i. dec (take n (drop (n * i) bs))) [0..<m]"

text \<open>The number of elements, which must be read in full.\<close>

definition read_length :: "binarchive \<Rightarrow> int option \<times> binarchive" where
  "read_length a =
     (case ba_buf a of
        None \<Rightarrow> (None, setValidity False a)
      | Some s \<Rightarrow>
         (case sgetn 4 a of (got, a) \<Rightarrow>
            if length got \<noteq> 4 then (None, setValidity False a) else (Some (dec_int got), a)))"

definition read_vector :: "('a \<Rightarrow> char list) \<Rightarrow> (char list \<Rightarrow> 'a) \<Rightarrow> nat \<Rightarrow> 'a \<Rightarrow> 'a list \<Rightarrow> binarchive
    \<Rightarrow> archive_exception + ('a list \<times> binarchive)" where
  "read_vector enc dec n def value a =
     (case read_length a of
        (None, a) \<Rightarrow> Inr (value, a)
      | (Some vsize, a) \<Rightarrow>
          if vsize < 0 then Inl LengthError
          else
           (let value = resize def (nat vsize) value;
                bsize = cast_s 32 (vsize * int n)
            in case sgetn bsize a of (got, a) \<Rightarrow>
                 Inr (elements dec n (nat vsize) (overlay (concat (map enc value)) got),
                      if int (length got) \<noteq> bsize then setValidity False a else a)))"

definition write_vector :: "('a \<Rightarrow> char list) \<Rightarrow> nat \<Rightarrow> 'a list \<Rightarrow> binarchive \<Rightarrow> binarchive" where
  "write_vector enc n value a =
     (if ba_buf a = None then a
      else
       (let vsize = cast_s 32 (int (length value));
            a = writeBytes (enc_int vsize) a;
            bsize = cast_s 32 (vsize * int n)
        in writeBytes (take (nat bsize) (concat (map enc value))) a))"

definition read_chars :: "char list \<Rightarrow> binarchive \<Rightarrow> archive_exception + (char list \<times> binarchive)" where
  "read_chars = read_vector enc_char hd 1 CHR 0x00"
definition read_ints :: "int list \<Rightarrow> binarchive \<Rightarrow> archive_exception + (int list \<times> binarchive)" where
  "read_ints = read_vector enc_int dec_int 4 0"
definition read_floats :: "int list \<Rightarrow> binarchive \<Rightarrow> archive_exception + (int list \<times> binarchive)" where
  "read_floats = read_vector enc_float int_of 4 0"
definition read_doubles :: "int list \<Rightarrow> binarchive \<Rightarrow> archive_exception + (int list \<times> binarchive)" where
  "read_doubles = read_vector enc_double int_of 8 0"
definition read_complexes :: "(int \<times> int) list \<Rightarrow> binarchive \<Rightarrow> archive_exception + ((int \<times> int) list \<times> binarchive)" where
  "read_complexes = read_vector (enc_complex 8) (dec_complex 8) 16 (0, 0)"

definition write_chars :: "char list \<Rightarrow> binarchive \<Rightarrow> binarchive" where "write_chars = write_vector enc_char 1"
definition write_ints :: "int list \<Rightarrow> binarchive \<Rightarrow> binarchive" where "write_ints = write_vector enc_int 4"
definition write_floats :: "int list \<Rightarrow> binarchive \<Rightarrow> binarchive" where "write_floats = write_vector enc_float 4"
definition write_doubles :: "int list \<Rightarrow> binarchive \<Rightarrow> binarchive" where "write_doubles = write_vector enc_double 8"
definition write_complexes :: "(int \<times> int) list \<Rightarrow> binarchive \<Rightarrow> binarchive" where
  "write_complexes = write_vector (enc_complex 8) 16"

definition read_string :: "string \<Rightarrow> binarchive \<Rightarrow> archive_exception + (string \<times> binarchive)" where
  "read_string value a =
     (case read_length a of
        (None, a) \<Rightarrow> Inr (value, a)
      | (Some ssize, a) \<Rightarrow>
          if ssize = 0 then Inr ([], a)
          else if ssize < 0 then Inl LengthError
          else
           (let value = resize CHR 0x00 (nat ssize) value in
            case sgetn ssize a of (got, a) \<Rightarrow>
              Inr (overlay value got, if int (length got) \<noteq> ssize then setValidity False a else a)))"

definition write_string :: "string \<Rightarrow> binarchive \<Rightarrow> binarchive" where
  "write_string value a =
     (if ba_buf a = None then a
      else
       (let ssize = cast_s 32 (int (length value))
        in writeBytes (take (nat ssize) value) (writeBytes (enc_int ssize) a)))"

text \<open>The loop over the elements, which stops at the first one that leaves the archive invalid.\<close>

fun read_elems :: "('a \<Rightarrow> binarchive \<Rightarrow> archive_exception + ('a \<times> binarchive)) \<Rightarrow> 'a list \<Rightarrow> binarchive
    \<Rightarrow> archive_exception + ('a list \<times> binarchive)" where
  "read_elems rd [] a = Inr ([], a)"
| "read_elems rd (v # vs) a =
     (case rd v a of
        Inl e \<Rightarrow> Inl e
      | Inr (v, a) \<Rightarrow>
          if \<not> success a then Inr (v # vs, a)
          else (case read_elems rd vs a of Inl e \<Rightarrow> Inl e | Inr (vs, a) \<Rightarrow> Inr (v # vs, a)))"

definition read_list :: "('a \<Rightarrow> binarchive \<Rightarrow> archive_exception + ('a \<times> binarchive)) \<Rightarrow> 'a \<Rightarrow> 'a list \<Rightarrow> binarchive
    \<Rightarrow> archive_exception + ('a list \<times> binarchive)" where
  "read_list rd def value a =
     (case read_length a of
        (None, a) \<Rightarrow> Inr (value, a)
      | (Some vsize, a) \<Rightarrow> if vsize < 0 then Inl LengthError else read_elems rd (resize def (nat vsize) value) a)"

definition write_list :: "('a \<Rightarrow> binarchive \<Rightarrow> binarchive) \<Rightarrow> 'a list \<Rightarrow> binarchive \<Rightarrow> binarchive" where
  "write_list wr value a =
     (if ba_buf a = None then a
      else fold wr value (writeBytes (enc_int (cast_s 32 (int (length value)))) a))"

definition read_strings :: "string list \<Rightarrow> binarchive \<Rightarrow> archive_exception + (string list \<times> binarchive)" where
  "read_strings = read_list read_string []"
definition read_Times :: "int \<times> int \<Rightarrow> timeval list \<Rightarrow> binarchive \<Rightarrow> archive_exception + (timeval list \<times> binarchive)" where
  "read_Times junk = read_list (\<lambda>_ a. Inr (read_Time junk a)) TimeSpan"
definition write_strings :: "string list \<Rightarrow> binarchive \<Rightarrow> binarchive" where "write_strings = write_list write_string"
definition write_Times :: "timeval list \<Rightarrow> binarchive \<Rightarrow> binarchive" where "write_Times = write_list write_Time"

end
