(* ===== verification/BinCodec.thy ===== *)
theory BinCodec
  imports BinStream "HOL-Library.Sublist"
begin

text \<open>
  What the types of a binary archive promise (theory BinStream): what is written is the encoding of
  the value, reading it back yields the value and leaves the rest of the stream, and a stream that
  ends within the encoding makes the archive invalid.  The laws are a locale; every type of the
  archive interprets it, and lists of a type inherit it.
\<close>

section \<open>The stream as a list of bytes\<close>

definition is_open :: "binarchive \<Rightarrow> bool" where
  "is_open a \<longleftrightarrow> ba_buf a \<noteq> None"

definition pending :: "binarchive \<Rightarrow> char list" where
  "pending a = (case ba_buf a of None \<Rightarrow> [] | Some s \<Rightarrow> st_in s)"

definition skip :: "nat \<Rightarrow> binarchive \<Rightarrow> binarchive" where
  "skip n a = snd (sgetn (int n) a)"

named_theorems archive_simps

lemma sgetn_pending [archive_simps]: "sgetn (int n) a = (take n (pending a), skip n a)"
  by (simp add: skip_def sgetn_def pending_def Let_def split: option.split)

lemma sgetn_nat: "0 \<le> n \<Longrightarrow> sgetn n a = (take (nat n) (pending a), skip (nat n) a)"
  using sgetn_pending [of "nat n" a] by simp

lemma sgetn_4 [archive_simps]: "sgetn 4 a = (take 4 (pending a), skip 4 a)"
  using sgetn_pending [of 4 a] by simp

lemma skip_skip [archive_simps]: "skip m (skip n a) = skip (n + m) a"
proof (cases "ba_buf a")
  case (Some s)
  have "take (n + m) (st_in s) = take n (st_in s) @ take m (drop n (st_in s))" by (rule take_add)
  then show ?thesis using Some by (cases a) (simp add: skip_def sgetn_def Let_def add.commute nat_int_add)
qed (simp add: skip_def sgetn_def)

lemma pending_skip [archive_simps]: "pending (skip n a) = drop n (pending a)"
  by (simp add: skip_def sgetn_def pending_def Let_def split: option.split)

lemma is_open_skip [archive_simps]: "is_open (skip n a) = is_open a"
  by (simp add: skip_def sgetn_def is_open_def Let_def split: option.split)

lemma success_skip [archive_simps]: "success (skip n a) = success a"
  by (simp add: skip_def sgetn_def success_def Let_def split: option.split)

lemma success_setValidity [archive_simps]: "\<not> success (setValidity False a)"
  by (simp add: success_def setValidity_def)

lemma is_open_setValidity [archive_simps]: "is_open (setValidity v a) = is_open a"
  by (simp add: is_open_def setValidity_def)

lemma pending_setValidity [archive_simps]: "pending (setValidity v a) = pending a"
  by (simp add: pending_def setValidity_def)

lemma writeBytes_append [archive_simps]: "writeBytes ys (writeBytes xs a) = writeBytes (xs @ ys) a"
  by (cases a) (simp add: writeBytes_def split: option.split)

lemma is_open_write [archive_simps]: "is_open (writeBytes xs a) = is_open a"
  by (simp add: writeBytes_def is_open_def split: option.split)

lemma overlay_all [archive_simps]: "length old = length got \<Longrightarrow> overlay old got = got"
  by (simp add: overlay_def)

text \<open>The state after a read that did not get all it asked for.\<close>

definition failed :: "binarchive \<Rightarrow> bool" where
  "failed a \<longleftrightarrow> is_open a \<and> \<not> success a \<and> pending a = []"

lemma failed_short [archive_simps]:
  "failed (setValidity False (skip n a)) \<longleftrightarrow> is_open a \<and> length (pending a) \<le> n"
  by (simp add: failed_def archive_simps)

section \<open>The interface\<close>

lemma split_prefix:
  "strict_prefix p (xs @ ys) \<Longrightarrow> \<not> strict_prefix p xs \<Longrightarrow> \<exists>q. p = xs @ q \<and> strict_prefix q ys"
  by (auto simp: strict_prefix_def prefix_append)

locale storable =
  fixes rd :: "'a \<Rightarrow> binarchive \<Rightarrow> archive_exception + ('a \<times> binarchive)"
    and wr :: "'a \<Rightarrow> binarchive \<Rightarrow> binarchive"
    and enc :: "'a \<Rightarrow> char list"
    and ok :: "'a \<Rightarrow> bool"
    and similar :: "'a \<Rightarrow> 'a \<Rightarrow> bool"
  assumes written: "ok v \<Longrightarrow> is_open a \<Longrightarrow> wr v a = writeBytes (enc v) a"
    and read_back: "ok v \<Longrightarrow> similar old v \<Longrightarrow> is_open a \<Longrightarrow> success a \<Longrightarrow> pending a = enc v @ rest \<Longrightarrow>
      rd old a = Inr (v, skip (length (enc v)) a)"
    and read_short: "ok v \<Longrightarrow> similar old v \<Longrightarrow> is_open a \<Longrightarrow> success a \<or> pending a = [] \<Longrightarrow> strict_prefix (pending a) (enc v) \<Longrightarrow>
      \<exists>v' a'. rd old a = Inr (v', a') \<and> failed a'"
    and nonempty: "ok v \<Longrightarrow> enc v \<noteq> []"
begin

lemma fold_written:
  "\<forall>v \<in> set vs. ok v \<Longrightarrow> is_open a \<Longrightarrow> fold wr vs a = writeBytes (concat (map enc vs)) a"
proof (induction vs arbitrary: a)
  case Nil
  then show ?case by (cases a) (auto simp: writeBytes_def is_open_def split: option.split)
qed (simp add: written archive_simps)

lemma elems_back:
  assumes "\<forall>v \<in> set vs. ok v" and "list_all2 similar olds vs" and "is_open a" and "success a"
    and "pending a = concat (map enc vs) @ rest"
  shows "read_elems rd olds a = Inr (vs, skip (length (concat (map enc vs))) a)"
  using assms
proof (induction vs arbitrary: olds a)
  case Nil
  have "skip 0 a = a"
    by (cases a) (simp add: skip_def sgetn_def split: option.split)
  then show ?case using Nil by simp
next
  case (Cons v vs)
  then obtain u us where olds: "olds = u # us" "similar u v" "list_all2 similar us vs" by (cases olds) auto
  have "rd u a = Inr (v, skip (length (enc v)) a)"
    using Cons.prems olds(2) by (intro read_back) auto
  moreover have "read_elems rd us (skip (length (enc v)) a) = Inr (vs, skip (length (concat (map enc vs))) (skip (length (enc v)) a))"
    using Cons.prems olds(3) by (intro Cons.IH) (simp_all add: archive_simps)
  ultimately show ?case using Cons.prems(4) by (simp add: olds(1) archive_simps)
qed

lemma elems_short:
  assumes "\<forall>v \<in> set vs. ok v" and "list_all2 similar olds vs" and "is_open a" and "success a"
    and "strict_prefix (pending a) (concat (map enc vs))"
  shows "\<exists>vs' a'. read_elems rd olds a = Inr (vs', a') \<and> failed a'"
  using assms
proof (induction vs arbitrary: olds a)
  case (Cons v vs)
  then obtain u us where olds: "olds = u # us" "similar u v" "list_all2 similar us vs" by (cases olds) auto
  show ?case
  proof (cases "strict_prefix (pending a) (enc v)")
    case True
    then obtain v' a' where "rd u a = Inr (v', a')" "failed a'" using read_short [of v u a] Cons.prems olds by auto
    then show ?thesis by (simp add: olds(1) failed_def)
  next
    case False
    then obtain rest where rest: "pending a = enc v @ rest" "strict_prefix rest (concat (map enc vs))"
      using split_prefix [of "pending a" "enc v"] Cons.prems(5) by auto
    have "rd u a = Inr (v, skip (length (enc v)) a)"
      using Cons.prems olds(2) rest by (intro read_back) auto
    moreover have "\<exists>vs' a'. read_elems rd us (skip (length (enc v)) a) = Inr (vs', a') \<and> failed a'"
      using Cons.prems olds(3) rest by (intro Cons.IH) (simp_all add: archive_simps)
    ultimately show ?thesis using Cons.prems(4) by (auto simp: olds(1) archive_simps)
  qed
qed simp

end

section \<open>Lists\<close>

definition enc_list :: "('a \<Rightarrow> char list) \<Rightarrow> 'a list \<Rightarrow> char list" where
  "enc_list enc vs = enc_int (int (length vs)) @ concat (map enc vs)"

definition ok_list :: "('a \<Rightarrow> bool) \<Rightarrow> 'a list \<Rightarrow> bool" where
  "ok_list ok vs \<longleftrightarrow> int (length vs) < 2 ^ 31 \<and> (\<forall>v \<in> set vs. ok v)"

lemma dec_enc_int: "fits_s 32 v \<Longrightarrow> dec_int (enc_int v) = v"
  using cast_s_mod [of 32 v] by (simp add: dec_int_def enc_int_def int_of_bytes_of cast_s_id)

lemma length_enc_int [simp]: "length (enc_int v) = 4"
  by (simp add: enc_int_def)

lemma fits_length: "int n < 2 ^ 31 \<Longrightarrow> fits_s 32 (int n)"
  by (simp add: fits_s_def)

lemma read_length_full:
  assumes "is_open a" and "pending a = enc_int (int n) @ rest" and "int n < 2 ^ 31"
  shows "read_length a = (Some (int n), skip 4 a)"
  using assms dec_enc_int [OF fits_length [OF assms(3)]]
  by (auto simp: read_length_def is_open_def archive_simps)

lemma read_length_short:
  "is_open a \<Longrightarrow> length (pending a) < 4 \<Longrightarrow> read_length a = (None, setValidity False (skip 4 a))"
  by (auto simp: read_length_def is_open_def archive_simps)

lemma prefix_of_length:
  assumes "strict_prefix p (enc_int n @ body)"
  obtains "length p < 4" | q where "p = enc_int n @ q" and "strict_prefix q body"
proof (cases "strict_prefix p (enc_int n)")
  case True
  then have "length p < 4" using prefix_length_less [OF True] by simp
  then show ?thesis by (rule that(1))
next
  case False
  then show ?thesis using split_prefix [OF assms] that(2) by blast
qed

lemma length_resize [simp]: "length (resize def n xs) = n"
  by (simp add: resize_def)

context storable begin

lemma storable_list:
  assumes sim: "\<And>u v. similar u v"
  shows "storable (read_list rd def) (write_list wr) (enc_list enc) (ok_list ok) (\<lambda>_ _. True)"
proof
  fix vs a assume ok: "ok_list ok vs" and a: "is_open a"
  have "fold wr vs (writeBytes (enc_int (int (length vs))) a) = writeBytes (enc_int (int (length vs)) @ concat (map enc vs)) a"
    using fold_written [of vs "writeBytes (enc_int (int (length vs))) a"] ok a by (simp add: ok_list_def archive_simps)
  then show "write_list wr vs a = writeBytes (enc_list enc vs) a"
    using a ok cast_s_id [OF _ fits_length] by (auto simp: write_list_def ok_list_def enc_list_def is_open_def)
next
  fix vs old a rest assume ok: "ok_list ok vs" and a: "is_open a" "success a" "pending a = enc_list enc vs @ rest"
  have len: "read_length a = (Some (int (length vs)), skip 4 a)"
    using a ok by (intro read_length_full [of _ _ "concat (map enc vs) @ rest"]) (auto simp: enc_list_def ok_list_def)
  have body: "pending (skip 4 a) = concat (map enc vs) @ rest" using a(3) by (simp add: archive_simps enc_list_def)
  have sims: "list_all2 similar (resize def (length vs) old) vs" using sim by (simp add: list_all2_conv_all_nth)
  show "read_list rd def old a = Inr (vs, skip (length (enc_list enc vs)) a)"
    using elems_back [OF _ sims _ _ body] ok a(1,2) len
    by (simp add: read_list_def archive_simps ok_list_def enc_list_def)
next
  fix vs old a assume ok: "ok_list ok vs" and a: "is_open a" "success a \<or> pending a = []" "strict_prefix (pending a) (enc_list enc vs)"
  from a(3) [unfolded enc_list_def] show "\<exists>v' a'. read_list rd def old a = Inr (v', a') \<and> failed a'"
  proof (cases rule: prefix_of_length)
    case 1
    then show ?thesis using a(1) by (auto simp: read_list_def read_length_short archive_simps)
  next
    case (2 q)
    have sims: "list_all2 similar (resize def (length vs) old) vs" using sim by (simp add: list_all2_conv_all_nth)
    have len: "read_length a = (Some (int (length vs)), skip 4 a)"
      using a 2 ok by (intro read_length_full [of _ _ q]) (auto simp: ok_list_def)
    moreover have "success a" using a(2) arg_cong [OF 2(1), of length] by auto
    ultimately show ?thesis
      using elems_short [OF _ sims, of "skip 4 a"] a(1) 2 ok
      by (simp add: read_list_def archive_simps ok_list_def)
  qed
qed (auto simp: enc_list_def dest: arg_cong [where f = length])

end

section \<open>Types of fixed size\<close>

locale fixed_codec =
  fixes enc :: "'a \<Rightarrow> char list" and dec :: "char list \<Rightarrow> 'a" and n :: nat and ok :: "'a \<Rightarrow> bool"
  assumes enc_length: "length (enc v) = n"
    and dec_enc: "ok v \<Longrightarrow> dec (enc v) = v"
    and positive: "0 < n"
begin

lemma storable_fixed: "storable (\<lambda>v a. Inr (read_fixed enc dec n v a)) (write_fixed enc) enc ok (\<lambda>_ _. True)"
proof
  fix v a assume "is_open a"
  then show "write_fixed enc v a = writeBytes (enc v) a" by (auto simp: write_fixed_def is_open_def)
next
  fix v old a rest assume "ok v" and "pending a = enc v @ rest"
  then show "Inr (read_fixed enc dec n old a) = Inr (v, skip (length (enc v)) a)"
    by (simp add: read_fixed_def archive_simps enc_length dec_enc)
next
  fix v old a assume "is_open a" and "strict_prefix (pending a) (enc v)"
  then have "length (pending a) < n" using prefix_length_less enc_length by metis
  then show "\<exists>v' a'. Inr (read_fixed enc dec n old a) = Inr (v', a') \<and> failed a'"
    using \<open>is_open a\<close> by (simp add: read_fixed_def archive_simps)
next
  show "enc v \<noteq> []" for v using enc_length [of v] positive by auto
qed

lemma length_concat_enc: "length (concat (map enc vs)) = n * length vs"
  by (induction vs) (simp_all add: enc_length)

lemma elements_concat:
  "\<forall>v \<in> set vs. ok v \<Longrightarrow> elements dec n (length vs) (concat (map enc vs)) = vs"
proof (induction vs)
  case (Cons v vs)
  have "elements dec n (length (v # vs)) (concat (map enc (v # vs))) = dec (enc v) # elements dec n (length vs) (concat (map enc vs))"
    by (simp add: elements_def enc_length upt_conv_Cons map_Suc_upt [symmetric] del: upt_Suc)
  then show ?case using Cons by (simp add: dec_enc)
qed (simp add: elements_def)

definition ok_vector :: "'a list \<Rightarrow> bool" where
  "ok_vector vs \<longleftrightarrow> int (length vs) * int n < 2 ^ 31 \<and> (\<forall>v \<in> set vs. ok v)"

lemma sizes:
  assumes "ok_vector vs"
  shows "int (length vs) < 2 ^ 31" and "cast_s 32 (int (length vs)) = int (length vs)"
    and "cast_s 32 (int (length vs) * int n) = int (n * length vs)"
proof -
  have "int (length vs) * 1 \<le> int (length vs) * int n" using positive by (intro mult_left_mono) auto
  then show "int (length vs) < 2 ^ 31" using assms unfolding ok_vector_def by linarith
  then show "cast_s 32 (int (length vs)) = int (length vs)" by (intro cast_s_id fits_length) simp_all
  have "int (n * length vs) < 2 ^ 31" using assms by (simp add: ok_vector_def mult.commute)
  then show "cast_s 32 (int (length vs) * int n) = int (n * length vs)"
    using cast_s_id [of 32, OF _ fits_length [of "n * length vs"]] by (simp add: mult.commute)
qed

lemma storable_vector: "storable (read_vector enc dec n def) (write_vector enc n) (enc_list enc) ok_vector (\<lambda>_ _. True)"
proof
  fix vs a assume ok: "ok_vector vs" and a: "is_open a"
  have "take (nat (int (n * length vs))) (concat (map enc vs)) = concat (map enc vs)"
    by (simp only: nat_int take_all_iff length_concat_enc)
  then show "write_vector enc n vs a = writeBytes (enc_list enc vs) a"
    using a sizes [OF ok] by (auto simp: write_vector_def enc_list_def is_open_def archive_simps Let_def)
next
  fix vs old a rest assume ok: "ok_vector vs" and a: "is_open a" "pending a = enc_list enc vs @ rest"
  have len: "read_length a = (Some (int (length vs)), skip 4 a)"
    using a sizes(1) [OF ok] by (intro read_length_full [of _ _ "concat (map enc vs) @ rest"]) (auto simp: enc_list_def)
  have got: "take (n * length vs) (pending (skip 4 a)) = concat (map enc vs)"
    using a(2) length_concat_enc [of vs] by (simp add: archive_simps enc_list_def)
  have "overlay (concat (map enc (resize def (length vs) old))) (concat (map enc vs)) = concat (map enc vs)"
    by (intro overlay_all) (simp only: length_concat_enc length_resize)
  moreover have "n * length vs \<le> length (pending (skip 4 a))"
    using arg_cong [OF got, of length] length_concat_enc [of vs] by simp
  ultimately show "read_vector enc dec n def old a = Inr (vs, skip (length (enc_list enc vs)) a)"
    using elements_concat [of vs] ok length_concat_enc [of vs]
    by (simp add: read_vector_def len sizes(3) [OF ok] sgetn_pending got ok_vector_def Let_def skip_skip enc_list_def del: of_nat_mult)
next
  fix vs old a assume ok: "ok_vector vs" and a: "is_open a" "strict_prefix (pending a) (enc_list enc vs)"
  from a(2) [unfolded enc_list_def] show "\<exists>v' a'. read_vector enc dec n def old a = Inr (v', a') \<and> failed a'"
  proof (cases rule: prefix_of_length)
    case 1
    then show ?thesis using a(1) by (auto simp: read_vector_def read_length_short archive_simps)
  next
    case (2 q)
    have len: "read_length a = (Some (int (length vs)), skip 4 a)"
      using a 2 sizes(1) [OF ok] by (intro read_length_full [of _ _ q]) auto
    have "length q < n * length vs" using prefix_length_less [OF 2(2)] by (simp only: length_concat_enc)
    moreover have "pending (skip 4 a) = q" and "length (pending a) = 4 + length q" using 2(1) by (simp_all add: archive_simps)
    ultimately show ?thesis
      using a(1) by (simp add: read_vector_def len sizes(3) [OF ok] sgetn_pending Let_def archive_simps del: of_nat_mult)
  qed
qed (auto simp: enc_list_def dest: arg_cong [where f = length])

end

lemma int_of_append: "int_of (xs @ ys) = int_of xs + 256 ^ length xs * int_of ys"
  by (induction xs) (simp_all add: algebra_simps)

definition bits :: "nat \<Rightarrow> int \<Rightarrow> bool" where
  "bits n v \<longleftrightarrow> 0 \<le> v \<and> v < 256 ^ n"

lemma int_of_bits: "bits n v \<Longrightarrow> int_of (bytes_of n v) = v"
  by (simp add: bits_def int_of_bytes_of)

definition ok_complex :: "nat \<Rightarrow> int \<times> int \<Rightarrow> bool" where
  "ok_complex n z \<longleftrightarrow> bits n (fst z) \<and> bits n (snd z)"

interpretation int32: fixed_codec enc_int dec_int 4 "fits_s 32"
  by unfold_locales (simp_all add: dec_enc_int)

interpretation float32: fixed_codec enc_float int_of 4 "bits 4"
  by unfold_locales (simp_all add: enc_float_def int_of_bits)

interpretation double64: fixed_codec enc_double int_of 8 "bits 8"
  by unfold_locales (simp_all add: enc_double_def int_of_bits)

interpretation char8: fixed_codec enc_char hd 1 "\<lambda>_. True"
  by unfold_locales (simp_all add: enc_char_def)

interpretation complex64: fixed_codec "enc_complex 4" "dec_complex 4" 8 "ok_complex 4"
  by unfold_locales (simp_all add: enc_complex_def dec_complex_def ok_complex_def int_of_bits)

interpretation complex128: fixed_codec "enc_complex 8" "dec_complex 8" 16 "ok_complex 8"
  by unfold_locales (simp_all add: enc_complex_def dec_complex_def ok_complex_def int_of_bits)

section \<open>The types of the archive\<close>

lemma storable_bool: "storable (\<lambda>v a. Inr (read_bool v a)) write_bool (\<lambda>v. [if v then CHR 0x01 else CHR 0x00]) (\<lambda>_. True) (\<lambda>_ _. True)"
proof
  fix v a assume "is_open a"
  then show "write_bool v a = writeBytes [if v then CHR 0x01 else CHR 0x00] a"
    by (auto simp: write_bool_def write_fixed_def is_open_def)
next
  have sgetn1: "sgetn 1 a = (take 1 (pending a), skip 1 a)" for a using sgetn_pending [of 1 a] by simp
  fix v old a
  {
    fix rest assume "pending a = [if v then CHR 0x01 else CHR 0x00] @ rest"
    then show "Inr (read_bool old a) = Inr (v, skip (length [if v then CHR 0x01 else CHR 0x00]) a)"
      by (simp add: read_bool_def sgetn1)
  next
    assume "is_open a" and "strict_prefix (pending a) [if v then CHR 0x01 else CHR 0x00]"
    then show "\<exists>v' a'. Inr (read_bool old a) = Inr (v', a') \<and> failed a'"
      using prefix_length_less [of "pending a"] by (fastforce simp: read_bool_def sgetn1 archive_simps)
  }
qed simp

definition ok_Time :: "timeval \<Rightarrow> bool" where
  "ok_Time t \<longleftrightarrow> fits_s 32 (tv_sec t) \<and> \<bar>tv_usec t\<bar> < MICROS"

definition enc_Time :: "timeval \<Rightarrow> char list" where
  "enc_Time t = enc_int (tv_sec t) @ enc_int (tv_usec t)"

lemma ok_Time_values:
  assumes "ok_Time t"
  shows "cast_s 32 (tv_sec t) = tv_sec t" "cast_s 32 (tv_usec t) = tv_usec t"
    "fits_s 32 (tv_sec t)" "fits_s 32 (tv_usec t)" "TimeSpan_of (tv_sec t) (tv_usec t) = t"
proof -
  show "fits_s 32 (tv_sec t)" and fu: "fits_s 32 (tv_usec t)" using assms by (auto simp: ok_Time_def fits_s_def MICROS_def)
  then show "cast_s 32 (tv_sec t) = tv_sec t" and "cast_s 32 (tv_usec t) = tv_usec t" by (simp_all add: cast_s_id)
  have "tv_usec t sdiv MICROS = 0" and "tv_usec t smod MICROS = tv_usec t"
    using assms by (simp_all add: ok_Time_def signed_divide_int_def signed_modulo_int_def MICROS_def sgn_mult_abs)
  then show "TimeSpan_of (tv_sec t) (tv_usec t) = t" by (cases t) (simp add: TimeSpan_of_def)
qed

lemma storable_Time: "storable (\<lambda>_ a. Inr (read_Time junk a)) write_Time enc_Time ok_Time (\<lambda>_ _. True)"
proof
  fix v a assume "ok_Time v" and "is_open a"
  then show "write_Time v a = writeBytes (enc_Time v) a"
    by (auto simp: write_Time_def is_open_def ok_Time_values seconds_def microseconds_def enc_Time_def archive_simps)
next
  fix v old a rest assume ok: "ok_Time v" and p: "pending a = enc_Time v @ rest"
  then have "take 4 (pending a) = enc_int (tv_sec v)" "take 4 (drop 4 (pending a)) = enc_int (tv_usec v)" "8 \<le> length (pending a)"
    by (simp_all add: enc_Time_def)
  then show "Inr (read_Time junk a) = Inr (v, skip (length (enc_Time v)) a)"
    using ok_Time_values [OF ok] by (simp add: read_Time_def archive_simps dec_enc_int enc_Time_def)
next
  fix v old a assume "is_open a" and p: "strict_prefix (pending a) (enc_Time v)"
  moreover have short: "length (pending a) < 8" using prefix_length_less [OF p] by (simp add: enc_Time_def)
  moreover from short have "min (length (pending a)) 4 + (length (pending a) - 4) \<noteq> 8" by (simp add: min_def)
  ultimately show "\<exists>v' a'. Inr (read_Time junk a) = Inr (v', a') \<and> failed a'"
    by (simp add: read_Time_def archive_simps)
qed (auto simp: enc_Time_def dest: arg_cong [where f = length])

lemma storable_time_t: "storable (\<lambda>_ a. Inr (read_time_t junk a)) write_time_t enc_int (fits_s 32) (\<lambda>_ _. True)"
proof
  fix v a assume "fits_s 32 v" and "is_open a"
  then show "write_time_t v a = writeBytes (enc_int v) a"
    by (auto simp: write_time_t_def is_open_def cast_s_id)
next
  fix v :: int and old :: int and a
  {
    fix rest assume "fits_s 32 v" and "pending a = enc_int v @ rest"
    then show "Inr (read_time_t junk a) = Inr (v, skip (length (enc_int v)) a)"
      by (simp add: read_time_t_def archive_simps dec_enc_int)
  next
    assume "is_open a" and p: "strict_prefix (pending a) (enc_int v)"
    then show "\<exists>v' a'. Inr (read_time_t junk a) = Inr (v', a') \<and> failed a'"
      using prefix_length_less [OF p] by (simp add: read_time_t_def archive_simps)
  }
qed (auto dest: arg_cong [where f = length])

definition enc_string :: "string \<Rightarrow> char list" where
  "enc_string s = enc_int (int (length s)) @ s"

definition ok_string :: "string \<Rightarrow> bool" where
  "ok_string s \<longleftrightarrow> int (length s) < 2 ^ 31"

lemma storable_string: "storable read_string write_string enc_string ok_string (\<lambda>_ _. True)"
proof
  fix v a assume "ok_string v" and "is_open a"
  then show "write_string v a = writeBytes (enc_string v) a"
    using cast_s_id [of 32, OF _ fits_length [of "length v"]]
    by (auto simp: write_string_def is_open_def ok_string_def enc_string_def archive_simps)
next
  fix v old a rest assume ok: "ok_string v" and a: "is_open a" "pending a = enc_string v @ rest"
  have len: "read_length a = (Some (int (length v)), skip 4 a)"
    using a ok by (intro read_length_full [of _ _ "v @ rest"]) (auto simp: enc_string_def ok_string_def)
  moreover have "take (length v) (pending (skip 4 a)) = v" and "length v \<le> length (pending (skip 4 a))"
    using a(2) by (simp_all add: archive_simps enc_string_def)
  ultimately show "read_string old a = Inr (v, skip (length (enc_string v)) a)"
    by (auto simp: read_string_def Let_def sgetn_pending enc_string_def skip_skip overlay_def)
next
  fix v old a assume ok: "ok_string v" and a: "is_open a" "strict_prefix (pending a) (enc_string v)"
  from a(2) [unfolded enc_string_def] show "\<exists>v' a'. read_string old a = Inr (v', a') \<and> failed a'"
  proof (cases rule: prefix_of_length)
    case 1
    then show ?thesis using a(1) by (auto simp: read_string_def read_length_short archive_simps)
  next
    case (2 q)
    have len: "read_length a = (Some (int (length v)), skip 4 a)"
      using a 2 ok by (intro read_length_full [of _ _ q]) (auto simp: ok_string_def)
    moreover have "pending (skip 4 a) = q" and "length (pending a) = 4 + length q" using 2(1) by (simp_all add: archive_simps)
    ultimately show ?thesis
      using a(1) prefix_length_less [OF 2(2)] by (auto simp: read_string_def sgetn_pending Let_def archive_simps)
  qed
qed (auto simp: enc_string_def dest: arg_cong [where f = length])

interpretation boolean: storable "\<lambda>v a. Inr (read_bool v a)" write_bool "\<lambda>v. [if v then CHR 0x01 else CHR 0x00]" "\<lambda>_. True" "\<lambda>_ _. True"
  by (rule storable_bool)

interpretation str: storable read_string write_string enc_string ok_string "\<lambda>_ _. True"
  by (rule storable_string)

interpretation time: storable "\<lambda>_ a. Inr (read_Time junk a)" write_Time enc_Time ok_Time "\<lambda>_ _. True" for junk
  by (rule storable_Time)

end
