(* ===== verification/BinArchive.thy ===== *)
theory BinArchive
  imports BinCodec
begin

text \<open>
  Binary archives (src/src/trunk/libs/seiscomp3/io/archive/binarchive.cpp): sequences of values of all the types,
  the class names and sequences of objects, and the header with the version.  The exception of an
  archive is \<open>Inl\<close>.
\<close>

section \<open>Values\<close>

text \<open>A value with its type, which selects the overloaded function.\<close>

datatype avalue =
    VInt int | VFloat int | VDouble int | VComplexFloat "int \<times> int" | VComplexDouble "int \<times> int"
  | VBool bool | VString string | VTimeT int | VTime timeval
  | VChars "char list" | VInts "int list" | VFloats "int list" | VDoubles "int list" | VComplexes "(int \<times> int) list"
  | VStrings "string list" | VTimes "timeval list"

fun write_value :: "avalue \<Rightarrow> binarchive \<Rightarrow> binarchive" where
  "write_value (VInt v) = write_int v"
| "write_value (VFloat v) = write_float v"
| "write_value (VDouble v) = write_double v"
| "write_value (VComplexFloat v) = write_complex_float v"
| "write_value (VComplexDouble v) = write_complex_double v"
| "write_value (VBool v) = write_bool v"
| "write_value (VString v) = write_string v"
| "write_value (VTimeT v) = write_time_t v"
| "write_value (VTime v) = write_Time v"
| "write_value (VChars v) = write_chars v"
| "write_value (VInts v) = write_ints v"
| "write_value (VFloats v) = write_floats v"
| "write_value (VDoubles v) = write_doubles v"
| "write_value (VComplexes v) = write_complexes v"
| "write_value (VStrings v) = write_strings v"
| "write_value (VTimes v) = write_Times v"

text \<open>The variable that is read into gives the type and the old value.\<close>

definition typed :: "('a \<Rightarrow> avalue) \<Rightarrow> archive_exception + ('a \<times> binarchive) \<Rightarrow> archive_exception + (avalue \<times> binarchive)" where
  "typed C r = (case r of Inl e \<Rightarrow> Inl e | Inr (v, a) \<Rightarrow> Inr (C v, a))"

fun read_value :: "int \<times> int \<Rightarrow> avalue \<Rightarrow> binarchive \<Rightarrow> archive_exception + (avalue \<times> binarchive)" where
  "read_value junk (VInt v) = (\<lambda>a. typed VInt (Inr (read_int v a)))"
| "read_value junk (VFloat v) = (\<lambda>a. typed VFloat (Inr (read_float v a)))"
| "read_value junk (VDouble v) = (\<lambda>a. typed VDouble (Inr (read_double v a)))"
| "read_value junk (VComplexFloat v) = (\<lambda>a. typed VComplexFloat (Inr (read_complex_float v a)))"
| "read_value junk (VComplexDouble v) = (\<lambda>a. typed VComplexDouble (Inr (read_complex_double v a)))"
| "read_value junk (VBool v) = (\<lambda>a. typed VBool (Inr (read_bool v a)))"
| "read_value junk (VString v) = (\<lambda>a. typed VString (read_string v a))"
| "read_value junk (VTimeT v) = (\<lambda>a. typed VTimeT (Inr (read_time_t (fst junk) a)))"
| "read_value junk (VTime v) = (\<lambda>a. typed VTime (Inr (read_Time junk a)))"
| "read_value junk (VChars v) = (\<lambda>a. typed VChars (read_chars v a))"
| "read_value junk (VInts v) = (\<lambda>a. typed VInts (read_ints v a))"
| "read_value junk (VFloats v) = (\<lambda>a. typed VFloats (read_floats v a))"
| "read_value junk (VDoubles v) = (\<lambda>a. typed VDoubles (read_doubles v a))"
| "read_value junk (VComplexes v) = (\<lambda>a. typed VComplexes (read_complexes v a))"
| "read_value junk (VStrings v) = (\<lambda>a. typed VStrings (read_strings v a))"
| "read_value junk (VTimes v) = (\<lambda>a. typed VTimes (read_Times junk v a))"

text \<open>Values read one after the other, as an object's \<open>serialize\<close> does, without a look at the validity.\<close>

fun read_values :: "int \<times> int \<Rightarrow> avalue list \<Rightarrow> binarchive \<Rightarrow> archive_exception + (avalue list \<times> binarchive)" where
  "read_values junk [] a = Inr ([], a)"
| "read_values junk (v # vs) a =
     (case read_value junk v a of
        Inl e \<Rightarrow> Inl e
      | Inr (v, a) \<Rightarrow> (case read_values junk vs a of Inl e \<Rightarrow> Inl e | Inr (vs, a) \<Rightarrow> Inr (v # vs, a)))"

section \<open>Opening and closing\<close>

definition new_stream :: "char list \<Rightarrow> stream" where
  "new_stream bs = \<lparr>st_back = [], st_in = bs, st_out = []\<rparr>"

text \<open>The archive on a stream buffer, as constructed.\<close>

definition BinaryArchive :: "stream option \<Rightarrow> bool \<Rightarrow> binarchive" where
  "BinaryArchive b isReading =
     \<lparr>ba_buf = b, ba_isReading = isReading, ba_validObject = True, ba_sequenceSize = -1, ba_nullable = False,
      ba_usedObject = False, ba_classname = [], ba_classes = [], ba_version = 0, ba_error = []\<rparr>"

definition ba_close :: "binarchive \<Rightarrow> binarchive" where
  "ba_close a = a\<lparr>ba_classes := [], ba_sequenceSize := -1, ba_buf := None\<rparr>"

definition ba_open :: "stream \<Rightarrow> binarchive \<Rightarrow> bool \<times> binarchive" where
  "ba_open b a = (True, (ba_close a)\<lparr>ba_buf := Some b, ba_isReading := True, ba_validObject := True\<rparr>)"

definition ba_create :: "stream \<Rightarrow> binarchive \<Rightarrow> bool \<times> binarchive" where
  "ba_create b a = (True, (ba_close a)\<lparr>ba_buf := Some b, ba_isReading := False, ba_validObject := True\<rparr>)"

section \<open>Objects\<close>

definition classId :: "string \<Rightarrow> binarchive \<Rightarrow> int \<times> binarchive" where
  "classId classname a =
     (case find_index (\<lambda>c. c = classname) (ba_classes a) of
        Some i \<Rightarrow> (int i, a)
      | None \<Rightarrow> (-1, a\<lparr>ba_classes := ba_classes a @ [classname]\<rparr>))"

definition setClassName :: "string option \<Rightarrow> binarchive \<Rightarrow> binarchive" where
  "setClassName className a =
     (if ba_buf a = None then a
      else
       (let a = (case className of Some c \<Rightarrow> a\<lparr>ba_classname := c\<rparr> | None \<Rightarrow> a) in
        if ba_classname a = [] then a
        else
         (case classId (ba_classname a) a of (class_id, a) \<Rightarrow>
            let a = write_int class_id a;
                a = (if class_id < 0 then write_string (ba_classname a) a else a);
                a = a\<lparr>ba_classname := []\<rparr>
            in if ba_nullable a then write_bool (ba_usedObject a) a else a)))"

text \<open>
  \<open>isTypeOf target name\<close> is the class factory; \<open>junk\<close> are the local variables the class index and the
  flag are read into.
\<close>

definition locateObjectByName :: "(string \<Rightarrow> string \<Rightarrow> bool) \<Rightarrow> int \<times> bool \<Rightarrow> string option \<Rightarrow> bool \<Rightarrow> binarchive
    \<Rightarrow> archive_exception + (bool \<times> binarchive)" where
  "locateObjectByName isTypeOf junk targetClass nullable a =
     (if ba_buf a = None then Inr (False, a)
      else if ba_isReading a then
        (if ba_sequenceSize a = 0 then Inr (False, a\<lparr>ba_sequenceSize := -1\<rparr>)
         else
          (let a = (if ba_sequenceSize a > 0 then a\<lparr>ba_sequenceSize := ba_sequenceSize a - 1\<rparr> else a);
               r = (case targetClass of
                      None \<Rightarrow> Inr a
                    | Some target \<Rightarrow>
                        (case read_int (fst junk) a of (class_id, a) \<Rightarrow>
                         case (if class_id = -1 then
                                 (case read_string (ba_classname a) a of
                                    Inl e \<Rightarrow> Inl e
                                  | Inr (c, a) \<Rightarrow> Inr (a\<lparr>ba_classname := c, ba_classes := ba_classes a @ [c]\<rparr>))
                               else if class_id \<ge> 0 \<and> class_id < int (length (ba_classes a)) then
                                 Inr (a\<lparr>ba_classname := ba_classes a ! nat class_id\<rparr>)
                               else Inl (StreamException ''unknown class id'')) of
                           Inl e \<Rightarrow> Inl e
                         | Inr a \<Rightarrow>
                             if \<not> isTypeOf target (ba_classname a) then
                               Inl (StreamException (''expected exact or derived from '' @ target @ '', found '' @ ba_classname a))
                             else Inr a))
           in case r of
                Inl e \<Rightarrow> Inl e
              | Inr a \<Rightarrow>
                  if nullable then
                    (case read_bool (snd junk) a of (used, a) \<Rightarrow> if \<not> used then Inr (False, a) else Inr (True, a))
                  else Inr (True, a)))
      else
       (let a = a\<lparr>ba_nullable := nullable, ba_usedObject := True\<rparr> in
        case targetClass of
          Some target \<Rightarrow> Inr (True, a\<lparr>ba_classname := target\<rparr>)
        | None \<Rightarrow> Inr (True, if ba_nullable a then write_bool (ba_usedObject a) a else a)))"

definition locateNullObjectByName :: "string option \<Rightarrow> binarchive \<Rightarrow> binarchive" where
  "locateNullObjectByName targetClass a =
     (if ba_buf a = None then a
      else
       (let a = a\<lparr>ba_nullable := True, ba_usedObject := False\<rparr> in
        case targetClass of
          Some target \<Rightarrow> setClassName (Some target) a
        | None \<Rightarrow> write_bool (ba_usedObject a) a))"

definition readSequence :: "binarchive \<Rightarrow> binarchive" where
  "readSequence a = (case read_int 0 (a\<lparr>ba_sequenceSize := 0\<rparr>) of (n, a) \<Rightarrow> a\<lparr>ba_sequenceSize := n\<rparr>)"

definition writeSequence :: "int \<Rightarrow> binarchive \<Rightarrow> binarchive" where
  "writeSequence n a = write_int n (a\<lparr>ba_sequenceSize := n\<rparr>)"

text \<open>
  An object is its class and the values it serializes; a null pointer is \<open>None\<close>.  The first object of
  a sequence can be null, the following ones are located with \<open>locateNextObjectByName\<close>, where they
  cannot (core/archive.inl and archive.ipp).
\<close>

definition write_object :: "(string \<Rightarrow> string \<Rightarrow> bool) \<Rightarrow> string \<Rightarrow> bool \<Rightarrow> (string \<times> avalue list) option \<Rightarrow> binarchive
    \<Rightarrow> archive_exception + binarchive" where
  "write_object isTypeOf target first object a =
     (case object of
        None \<Rightarrow> Inr (locateNullObjectByName (Some target) a)
      | Some (c, vs) \<Rightarrow>
         (case locateObjectByName isTypeOf (0, False) (Some target) first a of
            Inl e \<Rightarrow> Inl e
          | Inr (_, a) \<Rightarrow>
             (let a = setClassName (Some c) a;
                  tmpSeqSize = ba_sequenceSize a;
                  a = fold write_value vs (a\<lparr>ba_sequenceSize := -1\<rparr>)
              in Inr (a\<lparr>ba_sequenceSize := tmpSeqSize\<rparr>))))"

fun write_objects :: "(string \<Rightarrow> string \<Rightarrow> bool) \<Rightarrow> string \<Rightarrow> bool \<Rightarrow> (string \<times> avalue list) option list \<Rightarrow> binarchive
    \<Rightarrow> archive_exception + binarchive" where
  "write_objects isTypeOf target first [] a = Inr a"
| "write_objects isTypeOf target first (ob # obs) a =
     (case write_object isTypeOf target first ob a of
        Inl e \<Rightarrow> Inl e
      | Inr a \<Rightarrow> write_objects isTypeOf target False obs a)"

definition write_sequence :: "(string \<Rightarrow> string \<Rightarrow> bool) \<Rightarrow> string \<Rightarrow> (string \<times> avalue list) option list \<Rightarrow> binarchive
    \<Rightarrow> archive_exception + binarchive" where
  "write_sequence isTypeOf target obs a = write_objects isTypeOf target True obs (writeSequence (cast_s 32 (int (length obs))) a)"

text \<open>
  \<open>create\<close> is the factory, with the fresh variables of an object of the class; without a factory the
  exception \<open>ClassNotFound\<close> is thrown.  The pointer read into is a null pointer before; an empty class name
  leaves it so.  The result tells whether an object was found.
\<close>

definition read_object :: "(string \<Rightarrow> string \<Rightarrow> bool) \<Rightarrow> (string \<Rightarrow> avalue list option) \<Rightarrow> int \<times> bool \<Rightarrow> string \<Rightarrow> bool \<Rightarrow> binarchive
    \<Rightarrow> archive_exception + (bool \<times> (string \<times> avalue list) option \<times> binarchive)" where
  "read_object isTypeOf create junk target first a =
     (case locateObjectByName isTypeOf junk (Some target) first a of
        Inl e \<Rightarrow> Inl e
      | Inr (found, a) \<Rightarrow>
          if \<not> found then Inr (False, None, a)
          else
           (let c = ba_classname a in
            if c = [] then Inr (True, None, a)
            else if \<not> isTypeOf target c then Inr (True, None, setValidity False a)
            else
             (case create c of
                None \<Rightarrow> Inl (StreamException (''ClassNotFound: '' @ c))
              | Some fresh \<Rightarrow>
                 (let tmpSeqSize = ba_sequenceSize a in
                  case read_values (fst junk, 0) fresh (a\<lparr>ba_sequenceSize := -1\<rparr>) of
                    Inl e \<Rightarrow> Inl e
                  | Inr (vs, a) \<Rightarrow>
                     (let a = a\<lparr>ba_sequenceSize := tmpSeqSize\<rparr>
                      in Inr (True, if success a then Some (c, vs) else None, a))))))"

partial_function (option) read_objects ::
  "(string \<Rightarrow> string \<Rightarrow> bool) \<Rightarrow> (string \<Rightarrow> avalue list option) \<Rightarrow> int \<times> bool \<Rightarrow> string \<Rightarrow> bool
    \<Rightarrow> (string \<times> avalue list) option list \<Rightarrow> binarchive \<Rightarrow> (archive_exception + ((string \<times> avalue list) option list \<times> binarchive)) option" where
  "read_objects isTypeOf create junk target first acc a =
     (case read_object isTypeOf create junk target first a of
        Inl e \<Rightarrow> Some (Inl e)
      | Inr (found, ob, a) \<Rightarrow>
          if \<not> found then Some (Inr (acc, a))
          else read_objects isTypeOf create junk target False (if success a then acc @ [ob] else acc) a)"

declare read_objects.simps [code]

definition read_sequence :: "(string \<Rightarrow> string \<Rightarrow> bool) \<Rightarrow> (string \<Rightarrow> avalue list option) \<Rightarrow> int \<times> bool \<Rightarrow> bool \<Rightarrow> string \<Rightarrow> binarchive
    \<Rightarrow> (archive_exception + ((string \<times> avalue list) option list \<times> binarchive)) option" where
  "read_sequence isTypeOf create junk strict target a =
     map_option (\<lambda>r. case r of Inl e \<Rightarrow> Inl e | Inr (obs, b) \<Rightarrow> Inr (obs, if \<not> strict then b\<lparr>ba_validObject := success a\<rparr> else b))
       (read_objects isTypeOf create junk target True [] (readSequence a))"

section \<open>The header\<close>

definition MAGIC :: string where "MAGIC = ''SCBA''"

text \<open>\<open>current\<close> is the packed version of the data model.\<close>

definition writeHeader :: "int \<Rightarrow> int \<Rightarrow> binarchive \<Rightarrow> binarchive" where
  "writeHeader current forceWriteVersion a =
     (if forceWriteVersion = 0 then a\<lparr>ba_version := 0\<rparr>
      else
       (let a = a\<lparr>ba_version := (if forceWriteVersion = -1 then current else forceWriteVersion)\<rparr>
        in write_int (ba_version a) (writeBytes MAGIC a)))"

definition sgetc :: "binarchive \<Rightarrow> char option" where
  "sgetc a = (case ba_buf a of None \<Rightarrow> None | Some s \<Rightarrow> (case st_in s of [] \<Rightarrow> None | c # cs \<Rightarrow> Some c))"

definition snextc :: "binarchive \<Rightarrow> binarchive" where
  "snextc a = (case ba_buf a of None \<Rightarrow> a | Some s \<Rightarrow>
     (case st_in s of [] \<Rightarrow> a | c # cs \<Rightarrow> a\<lparr>ba_buf := Some (s\<lparr>st_back := c # st_back s, st_in := cs\<rparr>)\<rparr>))"

definition sungetc :: "binarchive \<Rightarrow> binarchive" where
  "sungetc a = (case ba_buf a of None \<Rightarrow> a | Some s \<Rightarrow>
     (case st_back s of [] \<Rightarrow> a | c # cs \<Rightarrow> a\<lparr>ba_buf := Some (s\<lparr>st_back := cs, st_in := c # st_in s\<rparr>)\<rparr>))"

text \<open>The loop over the magic bytes: how many matched, and the one that did not.\<close>

fun match_magic :: "string \<Rightarrow> nat \<Rightarrow> binarchive \<Rightarrow> nat \<times> char option \<times> binarchive" where
  "match_magic [] k a = (k, None, a)"
| "match_magic (m # ms) k a = (if sgetc a = Some m then match_magic ms (k + 1) (snextc a) else (k, Some m, a))"

definition versionMajor :: "int \<Rightarrow> int" where "versionMajor v = v div 65536"
definition versionMinor :: "int \<Rightarrow> int" where "versionMinor v = v mod 65536"

definition readHeader :: "int \<Rightarrow> binarchive \<Rightarrow> bool \<times> binarchive" where
  "readHeader junk a =
     (case match_magic MAGIC 0 a of (k, mismatch, a) \<Rightarrow>
        let a = (case mismatch of Some m \<Rightarrow> a\<lparr>ba_error := ''invalid header, expected '' @ [m]\<rparr> | None \<Rightarrow> a) in
        if ba_error a \<noteq> [] then (True, ((sungetc ^^ k) a)\<lparr>ba_version := 0\<rparr>)
        else
         (case read_int junk a of (v, a) \<Rightarrow>
            let a = a\<lparr>ba_version := v\<rparr> in
            if v \<le> 0 \<or> versionMajor v < 0 \<or> versionMinor v < 0 then (False, a\<lparr>ba_error := ''invalid version''\<rparr>)
            else (True, a)))"

section \<open>The interface of a value\<close>

fun ok_value :: "avalue \<Rightarrow> bool" where
  "ok_value (VInt v) \<longleftrightarrow> fits_s 32 v"
| "ok_value (VFloat v) \<longleftrightarrow> bits 4 v"
| "ok_value (VDouble v) \<longleftrightarrow> bits 8 v"
| "ok_value (VComplexFloat v) \<longleftrightarrow> ok_complex 4 v"
| "ok_value (VComplexDouble v) \<longleftrightarrow> ok_complex 8 v"
| "ok_value (VBool v) \<longleftrightarrow> True"
| "ok_value (VString v) \<longleftrightarrow> ok_string v"
| "ok_value (VTimeT v) \<longleftrightarrow> fits_s 32 v"
| "ok_value (VTime v) \<longleftrightarrow> ok_Time v"
| "ok_value (VChars v) \<longleftrightarrow> char8.ok_vector v"
| "ok_value (VInts v) \<longleftrightarrow> int32.ok_vector v"
| "ok_value (VFloats v) \<longleftrightarrow> float32.ok_vector v"
| "ok_value (VDoubles v) \<longleftrightarrow> double64.ok_vector v"
| "ok_value (VComplexes v) \<longleftrightarrow> complex128.ok_vector v"
| "ok_value (VStrings v) \<longleftrightarrow> ok_list ok_string v"
| "ok_value (VTimes v) \<longleftrightarrow> ok_list ok_Time v"

fun enc_value :: "avalue \<Rightarrow> char list" where
  "enc_value (VInt v) = enc_int v"
| "enc_value (VFloat v) = enc_float v"
| "enc_value (VDouble v) = enc_double v"
| "enc_value (VComplexFloat v) = enc_complex 4 v"
| "enc_value (VComplexDouble v) = enc_complex 8 v"
| "enc_value (VBool v) = [if v then CHR 0x01 else CHR 0x00]"
| "enc_value (VString v) = enc_string v"
| "enc_value (VTimeT v) = enc_int v"
| "enc_value (VTime v) = enc_Time v"
| "enc_value (VChars v) = enc_list enc_char v"
| "enc_value (VInts v) = enc_list enc_int v"
| "enc_value (VFloats v) = enc_list enc_float v"
| "enc_value (VDoubles v) = enc_list enc_double v"
| "enc_value (VComplexes v) = enc_list (enc_complex 8) v"
| "enc_value (VStrings v) = enc_list enc_string v"
| "enc_value (VTimes v) = enc_list enc_Time v"

fun type_of :: "avalue \<Rightarrow> nat" where
  "type_of (VInt v) = 0"
| "type_of (VFloat v) = 1"
| "type_of (VDouble v) = 2"
| "type_of (VComplexFloat v) = 3"
| "type_of (VComplexDouble v) = 4"
| "type_of (VBool v) = 5"
| "type_of (VString v) = 6"
| "type_of (VTimeT v) = 7"
| "type_of (VTime v) = 8"
| "type_of (VChars v) = 9"
| "type_of (VInts v) = 10"
| "type_of (VFloats v) = 11"
| "type_of (VDoubles v) = 12"
| "type_of (VComplexes v) = 13"
| "type_of (VStrings v) = 14"
| "type_of (VTimes v) = 15"

text \<open>The laws of the interface for one value.\<close>

definition stores :: "(binarchive \<Rightarrow> archive_exception + ('a \<times> binarchive)) \<Rightarrow> (binarchive \<Rightarrow> binarchive) \<Rightarrow> char list \<Rightarrow> 'a \<Rightarrow> bool" where
  "stores r w e v \<longleftrightarrow> e \<noteq> [] \<and>
     (\<forall>a. is_open a \<longrightarrow>
        w a = writeBytes e a \<and>
        (success a \<longrightarrow> (\<forall>rest. pending a = e @ rest \<longrightarrow> r a = Inr (v, skip (length e) a))) \<and>
        ((success a \<or> pending a = []) \<and> strict_prefix (pending a) e \<longrightarrow> (\<exists>v' a'. r a = Inr (v', a') \<and> failed a')))"

context storable begin

lemma stores_typed:
  assumes "ok v" and "similar old v"
  shows "stores (\<lambda>a. typed C (rd old a)) (wr v) (enc v) (C v)"
  unfolding stores_def
proof (intro conjI allI impI)
  fix a assume a: "is_open a"
  show "wr v a = writeBytes (enc v) a" using assms(1) a by (rule written)
  show "typed C (rd old a) = Inr (C v, skip (length (enc v)) a)" if "success a" and "pending a = enc v @ rest" for rest
    using read_back [OF assms a that] by (simp add: typed_def)
  assume "(success a \<or> pending a = []) \<and> strict_prefix (pending a) (enc v)"
  then show "\<exists>v' a'. typed C (rd old a) = Inr (v', a') \<and> failed a'"
    using read_short [OF assms a] by (auto simp: typed_def)
qed (rule nonempty [OF assms(1)])

end

lemmas value_laws =
  storable.stores_typed [OF int32.storable_fixed, where C = VInt, folded read_int_def write_int_def]
  storable.stores_typed [OF float32.storable_fixed, where C = VFloat, folded read_float_def write_float_def]
  storable.stores_typed [OF double64.storable_fixed, where C = VDouble, folded read_double_def write_double_def]
  storable.stores_typed [OF complex64.storable_fixed, where C = VComplexFloat, folded read_complex_float_def write_complex_float_def]
  storable.stores_typed [OF complex128.storable_fixed, where C = VComplexDouble, folded read_complex_double_def write_complex_double_def]
  storable.stores_typed [OF storable_bool, where C = VBool]
  storable.stores_typed [OF storable_string, where C = VString]
  storable.stores_typed [OF storable_time_t, where C = VTimeT]
  storable.stores_typed [OF storable_Time, where C = VTime]
  storable.stores_typed [OF char8.storable_vector [where def = "CHR 0x00"], where C = VChars, folded read_chars_def write_chars_def]
  storable.stores_typed [OF int32.storable_vector [where def = "0"], where C = VInts, folded read_ints_def write_ints_def]
  storable.stores_typed [OF float32.storable_vector [where def = "0"], where C = VFloats, folded read_floats_def write_floats_def]
  storable.stores_typed [OF double64.storable_vector [where def = "0"], where C = VDoubles, folded read_doubles_def write_doubles_def]
  storable.stores_typed [OF complex128.storable_vector [where def = "(0, 0)"], where C = VComplexes, folded read_complexes_def write_complexes_def]
  storable.stores_typed [OF str.storable_list [where def = "[]"], where C = VStrings, folded read_strings_def write_strings_def]
  storable.stores_typed [OF time.storable_list [where def = "TimeSpan"], where C = VTimes, folded read_Times_def write_Times_def]

lemma stores_value:
  assumes "ok_value v" and "type_of u = type_of v"
  shows "stores (read_value junk u) (write_value v) (enc_value v) v"
  using assms
  by (cases v; cases u; (simp; fail)?)
    (simp only: read_value.simps write_value.simps enc_value.simps ok_value.simps; rule value_laws; simp)+

interpretation item: storable "read_value junk" write_value enc_value ok_value "\<lambda>u v. type_of u = type_of v" for junk
proof
  fix u v a rest assume v: "ok_value v" "type_of u = type_of v" and a: "is_open a"
  note laws = stores_value [OF v, of junk, unfolded stores_def]
  show "success a \<Longrightarrow> pending a = enc_value v @ rest \<Longrightarrow> read_value junk u a = Inr (v, skip (length (enc_value v)) a)"
    using laws a by blast
  show "success a \<or> pending a = [] \<Longrightarrow> strict_prefix (pending a) (enc_value v) \<Longrightarrow> \<exists>v' a'. read_value junk u a = Inr (v', a') \<and> failed a'"
    using laws a by blast
next
  fix v a assume "ok_value v"
  then have laws: "stores (read_value junk v) (write_value v) (enc_value v) v" by (simp add: stores_value)
  then show "enc_value v \<noteq> []" by (simp add: stores_def)
  show "is_open a \<Longrightarrow> write_value v a = writeBytes (enc_value v) a" using laws by (simp add: stores_def)
qed


section \<open>Sequences of values\<close>

definition written :: "binarchive \<Rightarrow> char list" where
  "written a = (case ba_buf a of None \<Rightarrow> [] | Some s \<Rightarrow> st_out s)"

lemma written_writeBytes [archive_simps]: "is_open a \<Longrightarrow> written (writeBytes bs a) = written a @ bs"
  by (auto simp: written_def writeBytes_def is_open_def)

lemma BinaryArchive_open [archive_simps]:
  "is_open (BinaryArchive (Some s) b)" "success (BinaryArchive (Some s) b)"
  "pending (BinaryArchive (Some (new_stream bs)) b) = bs" "written (BinaryArchive (Some (new_stream bs)) b) = []"
  by (simp_all add: is_open_def success_def pending_def BinaryArchive_def new_stream_def written_def)

lemma read_values_back:
  assumes "\<forall>v \<in> set vs. ok_value v" and "map type_of olds = map type_of vs" and "is_open a" and "success a"
    and "pending a = concat (map enc_value vs) @ rest"
  shows "read_values junk olds a = Inr (vs, skip (length (concat (map enc_value vs))) a)"
  using assms
proof (induction vs arbitrary: olds a)
  case Nil
  have "skip 0 a = a" by (cases a) (simp add: skip_def sgetn_def split: option.split)
  then show ?case using Nil by simp
next
  case (Cons v vs)
  then obtain u us where olds: "olds = u # us" "type_of u = type_of v" "map type_of us = map type_of vs" by (cases olds) auto
  have "read_value junk u a = Inr (v, skip (length (enc_value v)) a)"
    using Cons.prems olds(2) by (intro item.read_back) auto
  moreover have "read_values junk us (skip (length (enc_value v)) a) =
      Inr (vs, skip (length (concat (map enc_value vs))) (skip (length (enc_value v)) a))"
    using Cons.prems olds(3) by (intro Cons.IH) (simp_all add: archive_simps)
  ultimately show ?case by (simp add: olds(1) archive_simps)
qed

lemma read_values_failed:
  assumes "\<forall>v \<in> set vs. ok_value v" and "map type_of olds = map type_of vs" and "failed a"
  shows "\<exists>vs' a'. read_values junk olds a = Inr (vs', a') \<and> failed a'"
  using assms
proof (induction vs arbitrary: olds a)
  case (Cons v vs)
  then obtain u us where olds: "olds = u # us" "type_of u = type_of v" "map type_of us = map type_of vs" by (cases olds) auto
  have "strict_prefix (pending a) (enc_value v)"
    using Cons.prems item.nonempty [of v] by (auto simp: failed_def strict_prefix_def)
  then obtain v' a' where "read_value junk u a = Inr (v', a')" "failed a'"
    using item.read_short [where junk = junk and v = v and old = u and a = a] Cons.prems olds(2) by (auto simp: failed_def)
  moreover from this Cons.IH [of us a'] Cons.prems olds(3) obtain vs' a'' where "read_values junk us a' = Inr (vs', a'')" "failed a''" by auto
  ultimately show ?case by (simp add: olds(1))
qed simp

lemma read_values_short:
  assumes "\<forall>v \<in> set vs. ok_value v" and "map type_of olds = map type_of vs" and "is_open a" and "success a"
    and "strict_prefix (pending a) (concat (map enc_value vs))"
  shows "\<exists>vs' a'. read_values junk olds a = Inr (vs', a') \<and> failed a'"
  using assms
proof (induction vs arbitrary: olds a)
  case (Cons v vs)
  then obtain u us where olds: "olds = u # us" "type_of u = type_of v" "map type_of us = map type_of vs" by (cases olds) auto
  show ?case
  proof (cases "strict_prefix (pending a) (enc_value v)")
    case True
    then obtain v' a' where r: "read_value junk u a = Inr (v', a')" "failed a'"
      using item.read_short [where junk = junk and v = v and old = u and a = a] Cons.prems olds(2) by auto
    with read_values_failed [of vs us a' junk] Cons.prems olds(3) show ?thesis by (auto simp: olds(1))
  next
    case False
    then obtain rest where rest: "pending a = enc_value v @ rest" "strict_prefix rest (concat (map enc_value vs))"
      using split_prefix [of "pending a" "enc_value v"] Cons.prems(5) by auto
    have "read_value junk u a = Inr (v, skip (length (enc_value v)) a)"
      using Cons.prems olds(2) rest by (intro item.read_back) auto
    moreover have "\<exists>vs' a'. read_values junk us (skip (length (enc_value v)) a) = Inr (vs', a') \<and> failed a'"
      using Cons.prems olds(3) rest by (intro Cons.IH) (simp_all add: archive_simps)
    ultimately show ?thesis by (auto simp: olds(1))
  qed
qed simp

section \<open>Properties\<close>

text \<open>The bytes of values written to a new archive.\<close>

definition archived :: "avalue list \<Rightarrow> char list" where
  "archived vs = written (fold write_value vs (BinaryArchive (Some (new_stream [])) False))"

lemma archived_enc: "\<forall>v \<in> set vs. ok_value v \<Longrightarrow> archived vs = concat (map enc_value vs)"
  by (simp add: archived_def item.fold_written archive_simps)

text \<open>
  C24: Values of any types written to a binary archive one after the other are read back by
  variables of the same types, whatever these held before: the values are equal, the archive is
  valid, and what follows in the stream is left.  It holds for all values within the ranges of
  their types, for times within 32 bits of seconds, and containers of less than 2 GB.
\<close>

theorem archive_roundtrip:
  assumes "\<forall>v \<in> set vs. ok_value v" and "map type_of olds = map type_of vs"
  shows "\<exists>a. read_values junk olds (BinaryArchive (Some (new_stream (archived vs @ rest))) True) = Inr (vs, a) \<and>
    success a \<and> pending a = rest"
  using read_values_back [OF assms, of "BinaryArchive (Some (new_stream (archived vs @ rest))) True" rest junk] assms(1)
  by (simp add: archive_simps archived_enc)

theorem archive_roundtrip_witness:
  "\<exists>a. read_values (0, 0) [VString ''old'', VTime TimeSpan, VInts [9], VStrings []]
      (BinaryArchive (Some (new_stream (archived [VString ''AB'', VTime (Timeval 1000000000 5), VInts [-1, 70000], VStrings [''x'', []]] @ ''rest''))) True) =
      Inr ([VString ''AB'', VTime (Timeval 1000000000 5), VInts [-1, 70000], VStrings [''x'', []]], a) \<and>
    success a \<and> pending a = ''rest''"
  by (rule archive_roundtrip)
    (auto simp: ok_string_def ok_Time_def fits_s_def MICROS_def int32.ok_vector_def ok_list_def)

text \<open>
  C25: A truncated archive is noticed: if the stream ends anywhere before the last byte of the
  values, reading them throws no exception but leaves the archive invalid, and the stream is used
  up.
\<close>

theorem archive_truncation:
  assumes "\<forall>v \<in> set vs. ok_value v" and "map type_of olds = map type_of vs" and "strict_prefix p (archived vs)"
  shows "\<exists>vs' a. read_values junk olds (BinaryArchive (Some (new_stream p)) True) = Inr (vs', a) \<and>
    \<not> success a \<and> pending a = []"
  using read_values_short [OF assms(1,2), of "BinaryArchive (Some (new_stream p)) True" junk] assms(1,3)
  by (auto simp: archive_simps archived_enc failed_def)

theorem archive_truncation_witness:
  "\<exists>vs' a. read_values (0, 0) [VString ''old'', VInt 7] (BinaryArchive (Some (new_stream [CHR 0x02, CHR 0x00, CHR 0x00, CHR 0x00, CHR ''A''])) True) =
    Inr (vs', a) \<and> \<not> success a \<and> pending a = []"
proof (rule archive_truncation)
  show ok: "\<forall>v \<in> set [VString ''AB'', VInt 1]. ok_value v" by (simp add: ok_string_def fits_s_def)
  show "strict_prefix [CHR 0x02, CHR 0x00, CHR 0x00, CHR 0x00, CHR ''A''] (archived [VString ''AB'', VInt 1])"
    unfolding archived_enc [OF ok] by (simp add: enc_string_def enc_int_def numeral_eq_Suc char_of_def bit_simps)
qed simp

end
