(* ===== verification/BinObjects.thy ===== *)
theory BinObjects
  imports BinArchive
begin

text \<open>
  Sequences of objects in a binary archive and its header (theory BinArchive): the reader of a
  sequence gets the objects that were written and holds the same table of class names as the writer.
\<close>

section \<open>Writing an object\<close>

definition add_class :: "string \<Rightarrow> string list \<Rightarrow> string list" where
  "add_class c cs = (if c \<in> set cs then cs else cs @ [c])"

definition enc_class :: "string list \<Rightarrow> string \<Rightarrow> char list" where
  "enc_class cs c = (case find_index (\<lambda>x. x = c) cs of Some i \<Rightarrow> enc_int (int i) | None \<Rightarrow> enc_int (-1) @ enc_string c)"

definition enc_object :: "bool \<Rightarrow> string list \<Rightarrow> string \<times> avalue list \<Rightarrow> char list" where
  "enc_object first cs ob =
     enc_class cs (fst ob) @ (if first then [CHR 0x01] else []) @ concat (map enc_value (snd ob))"

definition writing :: "string list \<Rightarrow> char list \<Rightarrow> binarchive \<Rightarrow> bool" where
  "writing cs bs a \<longleftrightarrow> is_open a \<and> \<not> ba_isReading a \<and> ba_classes a = cs \<and> written a = bs"

lemma write_keeps [archive_simps]:
  "ba_isReading (writeBytes bs a) = ba_isReading a" "ba_classes (writeBytes bs a) = ba_classes a"
  "ba_nullable (writeBytes bs a) = ba_nullable a" "ba_usedObject (writeBytes bs a) = ba_usedObject a"
  "ba_classname (writeBytes bs a) = ba_classname a" "ba_sequenceSize (writeBytes bs a) = ba_sequenceSize a"
  by (simp_all add: writeBytes_def split: option.split)

lemma open_updates [simp]:
  "is_open (a\<lparr>ba_sequenceSize := n\<rparr>) = is_open a" "is_open (a\<lparr>ba_classname := c\<rparr>) = is_open a"
  "is_open (a\<lparr>ba_classes := cs\<rparr>) = is_open a" "is_open (a\<lparr>ba_nullable := b\<rparr>) = is_open a" "is_open (a\<lparr>ba_usedObject := b\<rparr>) = is_open a"
  "is_open (a\<lparr>ba_version := v\<rparr>) = is_open a" "is_open (a\<lparr>ba_error := s\<rparr>) = is_open a"
  "written (a\<lparr>ba_sequenceSize := n\<rparr>) = written a" "written (a\<lparr>ba_classname := c\<rparr>) = written a"
  "written (a\<lparr>ba_classes := cs\<rparr>) = written a" "written (a\<lparr>ba_nullable := b\<rparr>) = written a" "written (a\<lparr>ba_usedObject := b\<rparr>) = written a"
  "written (a\<lparr>ba_version := v\<rparr>) = written a"
  "pending (a\<lparr>ba_sequenceSize := n\<rparr>) = pending a" "pending (a\<lparr>ba_classname := c\<rparr>) = pending a"
  "pending (a\<lparr>ba_classes := cs\<rparr>) = pending a" "pending (a\<lparr>ba_version := v\<rparr>) = pending a" "pending (a\<lparr>ba_error := s\<rparr>) = pending a"
  "success (a\<lparr>ba_sequenceSize := n\<rparr>) = success a" "success (a\<lparr>ba_classname := c\<rparr>) = success a"
  "success (a\<lparr>ba_classes := cs\<rparr>) = success a" "success (a\<lparr>ba_version := v\<rparr>) = success a"
  by (simp_all add: is_open_def written_def pending_def success_def)

lemma write_int_open [archive_simps]: "is_open a \<Longrightarrow> write_int v a = writeBytes (enc_int v) a"
  by (auto simp: write_int_def write_fixed_def is_open_def)

lemma write_class:
  assumes "writing cs bs a" and "c \<noteq> []" and "ok_string c" and "ba_usedObject a"
  shows "writing (add_class c cs) (bs @ enc_class cs c @ (if ba_nullable a then [CHR 0x01] else [])) (setClassName (Some c) a)"
proof -
  have o: "is_open a" "ba_buf a \<noteq> None" using assms(1) by (auto simp: writing_def is_open_def)
  show ?thesis
  proof (cases "find_index (\<lambda>x. x = c) cs")
    case (Some i)
    then have "c \<in> set cs" using find_index_Some by fastforce
    then show ?thesis
      using assms o Some by (auto simp: setClassName_def classId_def writing_def archive_simps boolean.written add_class_def enc_class_def Let_def)
  next
    case None
    then have "c \<notin> set cs" by (auto simp: find_index_None)
    then show ?thesis
      using assms o None
      by (auto simp: setClassName_def classId_def writing_def archive_simps boolean.written str.written add_class_def enc_class_def Let_def)
  qed
qed

lemma write_object_written:
  assumes w: "writing cs bs a" and c: "c \<noteq> []" "ok_string c" and vs: "\<forall>v \<in> set vs. ok_value v"
  shows "\<exists>b. write_object isTypeOf target first (Some (c, vs)) a = Inr b \<and>
    writing (add_class c cs) (bs @ enc_object first cs (c, vs)) b"
proof -
  let ?a = "a\<lparr>ba_nullable := first, ba_usedObject := True, ba_classname := target\<rparr>"
  have loc: "locateObjectByName isTypeOf (0, False) (Some target) first a = Inr (True, ?a)"
    using w by (auto simp: locateObjectByName_def writing_def is_open_def Let_def)
  have "writing cs bs ?a" using w by (simp add: writing_def)
  from write_class [OF this c]
  have cls: "writing (add_class c cs) (bs @ enc_class cs c @ (if first then [CHR 0x01] else [])) (setClassName (Some c) ?a)" by simp
  let ?b = "fold write_value vs ((setClassName (Some c) ?a)\<lparr>ba_sequenceSize := -1\<rparr>)"
  have "?b = writeBytes (concat (map enc_value vs)) ((setClassName (Some c) ?a)\<lparr>ba_sequenceSize := -1\<rparr>)"
    using vs cls by (intro item.fold_written) (simp_all add: writing_def)
  then have "writing (add_class c cs) (bs @ enc_object first cs (c, vs)) ?b"
    using cls by (simp add: writing_def archive_simps enc_object_def)
  then show ?thesis
    by (simp add: write_object_def loc Let_def) (simp add: writing_def)
qed

fun enc_objects :: "bool \<Rightarrow> string list \<Rightarrow> (string \<times> avalue list) list \<Rightarrow> char list" where
  "enc_objects first cs [] = []"
| "enc_objects first cs (ob # obs) = enc_object first cs ob @ enc_objects False (add_class (fst ob) cs) obs"

definition ok_object :: "(string \<Rightarrow> string \<Rightarrow> bool) \<Rightarrow> (string \<Rightarrow> avalue list option) \<Rightarrow> string \<Rightarrow> string \<times> avalue list \<Rightarrow> bool" where
  "ok_object isTypeOf create target ob \<longleftrightarrow>
     fst ob \<noteq> [] \<and> ok_string (fst ob) \<and> isTypeOf target (fst ob) \<and> (\<forall>v \<in> set (snd ob). ok_value v) \<and>
     map_option (map type_of) (create (fst ob)) = Some (map type_of (snd ob))"

lemma write_objects_written:
  assumes "writing cs bs a" and "\<forall>ob \<in> set obs. ok_object isTypeOf create target ob"
  shows "\<exists>b. write_objects isTypeOf target first (map Some obs) a = Inr b \<and>
    writing (fold add_class (map fst obs) cs) (bs @ enc_objects first cs obs) b"
  using assms
proof (induction obs arbitrary: first cs bs a)
  case (Cons ob obs)
  obtain c vs where ob: "ob = (c, vs)" by (cases ob)
  with Cons.prems(2) have "c \<noteq> []" "ok_string c" "\<forall>v \<in> set vs. ok_value v" by (auto simp: ok_object_def)
  from write_object_written [OF Cons.prems(1) this] obtain b where
    "write_object isTypeOf target first (Some (c, vs)) a = Inr b"
    "writing (add_class c cs) (bs @ enc_object first cs (c, vs)) b" by blast
  with Cons.IH [OF this(2), of False] Cons.prems(2) show ?case by (simp add: ob)
qed simp

section \<open>Reading an object\<close>

definition reading :: "string list \<Rightarrow> int \<Rightarrow> char list \<Rightarrow> binarchive \<Rightarrow> bool" where
  "reading cs n bs a \<longleftrightarrow> is_open a \<and> ba_isReading a \<and> success a \<and> ba_classes a = cs \<and> ba_sequenceSize a = n \<and> pending a = bs"

lemma skip_keeps [archive_simps]:
  "ba_isReading (skip k a) = ba_isReading a" "ba_classes (skip k a) = ba_classes a"
  "ba_classname (skip k a) = ba_classname a" "ba_sequenceSize (skip k a) = ba_sequenceSize a"
  by (simp_all add: skip_def sgetn_def Let_def split: option.split)

lemma read_int_back:
  assumes "is_open a" and "pending a = enc_int v @ rest" and "fits_s 32 v"
  shows "read_int old a = (v, skip 4 a)"
  using assms by (simp add: read_int_def read_fixed_def archive_simps dec_enc_int)

lemma read_class:
  assumes r: "reading cs n (enc_class cs c @ rest) a" and c: "c \<noteq> []" "ok_string c" "isTypeOf target c"
    and n: "0 < n" and len: "int (length cs) < 2 ^ 31"
  shows "\<exists>b. locateObjectByName isTypeOf junk (Some target) first a =
      (if first then (case read_bool (snd junk) b of (used, b) \<Rightarrow> if \<not> used then Inr (False, b) else Inr (True, b)) else Inr (True, b)) \<and>
    reading (add_class c cs) (n - 1) rest b \<and> ba_classname b = c"
proof -
  let ?a = "a\<lparr>ba_sequenceSize := n - 1\<rparr>"
  have o: "is_open ?a" "ba_buf a \<noteq> None" "ba_isReading a" "ba_sequenceSize a = n" "success ?a" "ba_classes a = cs"
    using r by (auto simp: reading_def is_open_def)
  show ?thesis
  proof (cases "find_index (\<lambda>x. x = c) cs")
    case (Some i)
    then have i: "i < length cs" "cs ! i = c" and mem: "c \<in> set cs" using find_index_Some by fastforce+
    then have "fits_s 32 (int i)" using len by (intro fits_length) simp
    moreover have "pending ?a = enc_int (int i) @ rest" using r Some by (simp add: reading_def enc_class_def)
    ultimately have rd: "read_int (fst junk) ?a = (int i, skip 4 ?a)" using o(1) by (intro read_int_back)
    let ?b = "(skip 4 ?a)\<lparr>ba_classname := c\<rparr>"
    have "locateObjectByName isTypeOf junk (Some target) first a =
      (if first then (case read_bool (snd junk) ?b of (used, b) \<Rightarrow> if \<not> used then Inr (False, b) else Inr (True, b)) else Inr (True, ?b))"
      using o n i c(3) rd by (auto simp: locateObjectByName_def archive_simps)
    moreover have "reading (add_class c cs) (n - 1) rest ?b"
      using r Some mem by (simp add: reading_def archive_simps add_class_def enc_class_def)
    ultimately show ?thesis by fastforce
  next
    case None
    then have mem: "c \<notin> set cs" by (auto simp: find_index_None)
    have p: "pending ?a = enc_int (-1) @ enc_string c @ rest" using r None by (simp add: reading_def enc_class_def)
    moreover have "fits_s 32 (-1)" by (simp add: fits_s_def)
    ultimately have rd: "read_int (fst junk) ?a = (-1, skip 4 ?a)" using o(1) by (intro read_int_back)
    have rs: "read_string (ba_classname (skip 4 ?a)) (skip 4 ?a) = Inr (c, skip (length (enc_string c)) (skip 4 ?a))"
      using c(2) o(1,5) p by (intro str.read_back) (simp_all add: archive_simps)
    let ?b = "(skip (length (enc_string c)) (skip 4 ?a))\<lparr>ba_classname := c, ba_classes := cs @ [c]\<rparr>"
    have "locateObjectByName isTypeOf junk (Some target) first a =
      (if first then (case read_bool (snd junk) ?b of (used, b) \<Rightarrow> if \<not> used then Inr (False, b) else Inr (True, b)) else Inr (True, ?b))"
      using o n c(3) rd rs by (auto simp: locateObjectByName_def archive_simps)
    moreover have "reading (add_class c cs) (n - 1) rest ?b"
      using o p mem by (simp add: reading_def archive_simps add_class_def enc_string_def)
    ultimately show ?thesis by fastforce
  qed
qed

lemma read_object_back:
  assumes r: "reading cs n (enc_object first cs ob @ rest) a" and ok: "ok_object isTypeOf create target ob"
    and n: "0 < n" and len: "int (length cs) < 2 ^ 31"
  shows "\<exists>b. read_object isTypeOf create junk target first a = Inr (True, Some ob, b) \<and>
    reading (add_class (fst ob) cs) (n - 1) rest b"
proof -
  obtain c vs where ob: "ob = (c, vs)" by (cases ob)
  then have c: "c \<noteq> []" "ok_string c" "isTypeOf target c" and vs: "\<forall>v \<in> set vs. ok_value v"
    and cr: "map_option (map type_of) (create c) = Some (map type_of vs)" using ok by (auto simp: ok_object_def)
  then obtain fresh where fresh: "create c = Some fresh" "map type_of fresh = map type_of vs" by auto
  let ?body = "concat (map enc_value vs) @ rest"
  have "reading cs n (enc_class cs c @ (if first then [CHR 0x01] else []) @ ?body) a" using r by (simp add: ob enc_object_def)
  from read_class [where isTypeOf = isTypeOf and target = target and first = first and junk = junk, OF this c n len] obtain b0 where b0:
    "locateObjectByName isTypeOf junk (Some target) first a =
      (if first then (case read_bool (snd junk) b0 of (used, b) \<Rightarrow> if \<not> used then Inr (False, b) else Inr (True, b)) else Inr (True, b0))"
    "reading (add_class c cs) (n - 1) ((if first then [CHR 0x01] else []) @ ?body) b0" "ba_classname b0 = c" by blast
  have "\<exists>b1. locateObjectByName isTypeOf junk (Some target) first a = Inr (True, b1) \<and>
    reading (add_class c cs) (n - 1) ?body b1 \<and> ba_classname b1 = c"
  proof (cases first)
    case True
    have "Inr (read_bool (snd junk) b0) = (Inr (True, skip 1 b0) :: archive_exception + bool \<times> binarchive)"
      using boolean.read_back [where v = True and old = "snd junk" and a = b0 and rest = ?body] b0(2) True by (simp add: reading_def)
    then have "read_bool (snd junk) b0 = (True, skip 1 b0)" by simp
    then show ?thesis using b0 True by (simp add: reading_def archive_simps)
  qed (use b0 in simp)
  then obtain b1 where b1: "locateObjectByName isTypeOf junk (Some target) first a = Inr (True, b1)"
    "reading (add_class c cs) (n - 1) ?body b1" "ba_classname b1 = c" by blast
  let ?b = "b1\<lparr>ba_sequenceSize := -1\<rparr>"
  have rv: "read_values (fst junk, 0) fresh ?b = Inr (vs, skip (length (concat (map enc_value vs))) ?b)"
    using b1(2) vs fresh(2) by (intro read_values_back [of _ _ _ rest]) (simp_all add: reading_def)
  show ?thesis
    using b1 c(1,3) fresh(1) by (auto simp: read_object_def rv Let_def ob reading_def archive_simps)
qed

lemma read_objects_back:
  assumes "reading cs (int (length obs)) (enc_objects first cs obs @ rest) a" and "\<forall>ob \<in> set obs. ok_object isTypeOf create target ob"
    and "int (length cs) + int (length obs) < 2 ^ 31"
  shows "\<exists>b. read_objects isTypeOf create junk target first acc a = Some (Inr (acc @ map Some obs, b)) \<and>
    reading (fold add_class (map fst obs) cs) (-1) rest b"
  using assms
proof (induction obs arbitrary: first cs acc a)
  case Nil
  then have "locateObjectByName isTypeOf junk (Some target) first a = Inr (False, a\<lparr>ba_sequenceSize := -1\<rparr>)"
    by (auto simp: locateObjectByName_def reading_def is_open_def)
  then show ?case
    using Nil.prems(1) by (subst read_objects.simps) (simp add: read_object_def reading_def)
next
  case (Cons ob obs)
  have "reading cs (int (length (ob # obs))) (enc_object first cs ob @ enc_objects False (add_class (fst ob) cs) obs @ rest) a"
    using Cons.prems(1) by simp
  from read_object_back [OF this, of isTypeOf create target junk] Cons.prems(2,3) obtain b where b:
    "read_object isTypeOf create junk target first a = Inr (True, Some ob, b)"
    "reading (add_class (fst ob) cs) (int (length obs)) (enc_objects False (add_class (fst ob) cs) obs @ rest) b" by auto
  have "length (add_class (fst ob) cs) \<le> length cs + 1" by (simp add: add_class_def)
  then have "int (length (add_class (fst ob) cs)) + int (length obs) < 2 ^ 31" using Cons.prems(3) by simp
  from Cons.IH [OF b(2) _ this, of "acc @ [Some ob]"] Cons.prems(2) obtain b' where b':
    "read_objects isTypeOf create junk target False (acc @ [Some ob]) b = Some (Inr ((acc @ [Some ob]) @ map Some obs, b'))"
    "reading (fold add_class (map fst obs) (add_class (fst ob) cs)) (-1) rest b'" by auto
  have "success b" using b(2) by (simp add: reading_def)
  then show ?case using b(1) b' by (subst read_objects.simps) simp
qed

section \<open>The header\<close>

lemma skip_0 [simp]: "skip 0 a = a"
  by (cases a) (simp add: skip_def sgetn_def split: option.split)

lemma snextc_skip: "pending a \<noteq> [] \<Longrightarrow> snextc a = skip 1 a"
  by (cases a) (auto simp: snextc_def skip_def sgetn_def pending_def Let_def split: option.splits list.splits)

lemma sgetc_pending: "sgetc a = (case pending a of [] \<Rightarrow> None | c # cs \<Rightarrow> Some c)"
  by (simp add: sgetc_def pending_def split: option.split)

lemma match_magic_full: "pending a = ms @ rest \<Longrightarrow> match_magic ms k a = (k + length ms, None, skip (length ms) a)"
  by (induction ms arbitrary: k a) (simp_all add: sgetc_pending snextc_skip archive_simps)

lemma match_magic_part:
  "\<not> prefix ms (pending a) \<Longrightarrow> \<exists>j m. match_magic ms k a = (k + j, Some m, skip j a) \<and> j \<le> length (pending a)"
proof (induction ms arbitrary: k a)
  case (Cons m ms)
  show ?case
  proof (cases "sgetc a = Some m")
    case True
    then obtain cs where p: "pending a = m # cs" by (auto simp: sgetc_pending split: list.splits)
    then have "\<not> prefix ms (pending (skip 1 a))" using Cons.prems by (simp add: archive_simps)
    from Cons.IH [OF this, of "k + 1"] obtain j m' where
      "match_magic ms (k + 1) (skip 1 a) = (k + 1 + j, Some m', skip j (skip 1 a))" "j \<le> length (pending (skip 1 a))" by blast
    then show ?thesis using True p by (intro exI [of _ "Suc j"] exI [of _ m']) (simp add: snextc_skip archive_simps)
  qed (intro exI [of _ 0], simp)
qed simp

lemma sungetc_skip:
  assumes "Suc j \<le> length (pending a)"
  shows "sungetc (skip (Suc j) a) = skip j a"
proof -
  obtain s where s: "ba_buf a = Some s" using assms by (auto simp: pending_def split: option.splits)
  then have j: "j < length (st_in s)" using assms by (simp add: pending_def)
  have "take (Suc j) (st_in s) = take j (st_in s) @ [st_in s ! j]" and "drop j (st_in s) = st_in s ! j # drop (Suc j) (st_in s)"
    using j by (simp_all add: take_Suc_conv_app_nth Cons_nth_drop_Suc)
  then show ?thesis using s by (cases a) (simp add: sungetc_def skip_def sgetn_def Let_def nat_add_distrib)
qed

lemma sungetc_all: "j \<le> length (pending a) \<Longrightarrow> (sungetc ^^ j) (skip j a) = a"
  by (induction j) (simp_all add: sungetc_skip funpow_swap1 del: funpow.simps(2), simp add: funpow_Suc_right sungetc_skip del: funpow.simps(2))

section \<open>Properties\<close>

text \<open>
  C27: A sequence of objects written to a new binary archive is read back: the reading loop ends and
  yields the same objects with the same classes and values, the archive stays valid, what follows
  in the stream is left, and the reader has built the same table of class names as the writer, in
  which both look up the index of a class that was seen before.
\<close>

theorem object_sequence_roundtrip:
  assumes "\<forall>ob \<in> set obs. ok_object isTypeOf create target ob" and "int (length obs) < 2 ^ 31"
  shows "\<exists>w r. write_sequence isTypeOf target (map Some obs) (BinaryArchive (Some (new_stream [])) False) = Inr w \<and>
    read_sequence isTypeOf create junk strict target (BinaryArchive (Some (new_stream (written w @ rest))) True) = Some (Inr (map Some obs, r)) \<and>
    success r \<and> pending r = rest \<and> ba_classes r = ba_classes w"
proof -
  let ?n = "int (length obs)"
  have n: "cast_s 32 ?n = ?n" "fits_s 32 ?n" using fits_length [OF assms(2)] by (simp_all add: cast_s_id)
  let ?a = "writeSequence ?n (BinaryArchive (Some (new_stream [])) False)"
  have "is_open ((BinaryArchive (Some (new_stream [])) False)\<lparr>ba_sequenceSize := ?n\<rparr>)" by (simp add: archive_simps)
  then have "writing [] (enc_int ?n) ?a"
    by (simp add: writeSequence_def archive_simps writing_def) (simp add: BinaryArchive_def)
  from write_objects_written [OF this assms(1)] obtain w where
    w: "write_objects isTypeOf target True (map Some obs) ?a = Inr w"
      "writing (fold add_class (map fst obs) []) (enc_int ?n @ enc_objects True [] obs) w" by blast
  let ?r = "BinaryArchive (Some (new_stream (written w @ rest))) True"
  let ?start = "?r\<lparr>ba_sequenceSize := 0\<rparr>"
  have r0: "is_open ?start" "pending ?start = enc_int ?n @ enc_objects True [] obs @ rest" using w(2) by (simp_all add: writing_def archive_simps)
  then have rs: "readSequence ?r = (skip 4 ?start)\<lparr>ba_sequenceSize := ?n\<rparr>"
    using read_int_back [OF r0 n(2), of 0] by (simp add: readSequence_def)
  have "reading [] ?n (enc_objects True [] obs @ rest) (readSequence ?r)"
    unfolding rs reading_def using r0 by (simp add: archive_simps) (simp add: BinaryArchive_def)
  from read_objects_back [OF this assms(1), of junk "[]"] assms(2) obtain b where
    b: "read_objects isTypeOf create junk target True [] (readSequence ?r) = Some (Inr (map Some obs, b))"
      "reading (fold add_class (map fst obs) []) (-1) rest b" by auto
  let ?b = "if \<not> strict then b\<lparr>ba_validObject := success ?r\<rparr> else b"
  have R: "read_sequence isTypeOf create junk strict target ?r = Some (Inr (map Some obs, ?b))"
    by (simp add: read_sequence_def b(1))
  have S: "success ?b \<and> pending ?b = rest \<and> ba_classes ?b = ba_classes w"
    using b(2) w(2) by (simp add: reading_def writing_def archive_simps) (simp add: success_def pending_def)
  have "write_sequence isTypeOf target (map Some obs) (BinaryArchive (Some (new_stream [])) False) = Inr w"
    by (simp add: write_sequence_def n(1) w(1))
  then show ?thesis using R S by (intro exI [of _ w] exI [of _ ?b]) (elim conjE, intro conjI)
qed

theorem object_sequence_roundtrip_witness:
  "\<exists>w r. write_sequence (\<lambda>t c. True) ''Obj'' [Some (''Pick'', [VInt 3]), Some (''Pick'', [VInt 4])] (BinaryArchive (Some (new_stream [])) False) = Inr w \<and>
    read_sequence (\<lambda>t c. True) (\<lambda>c. Some [VInt 0]) (0, False) True ''Obj'' (BinaryArchive (Some (new_stream (written w @ ''rest''))) True) =
      Some (Inr ([Some (''Pick'', [VInt 3]), Some (''Pick'', [VInt 4])], r)) \<and> pending r = ''rest''"
  using object_sequence_roundtrip [of "[(''Pick'', [VInt 3]), (''Pick'', [VInt 4])]" "\<lambda>t c. True" "\<lambda>c. Some [VInt 0]" "''Obj''" "(0, False)" True "''rest''"]
  by (auto simp: ok_object_def ok_string_def fits_s_def)

text \<open>
  A null pointer behind the first element of a sequence destroys it: the writer adds the flag of a
  nullable object, which the reader only expects for the first element, so that every following
  object is shifted by a byte.
\<close>

theorem null_in_sequence:
  "(case write_sequence (\<lambda>t c. True) ''P'' [Some (''P'', [VInt 7]), None, Some (''P'', [VInt 5])] (BinaryArchive (Some (new_stream [])) False) of
      Inl e \<Rightarrow> False
    | Inr w \<Rightarrow>
        (case read_sequence (\<lambda>t c. True) (\<lambda>c. Some [VInt 0]) (0, False) False ''P'' (BinaryArchive (Some (new_stream (written w))) True) of
           Some (Inl e) \<Rightarrow> e = StreamException ''unknown class id''
         | _ \<Rightarrow> False))"
  by code_simp

text \<open>
  The header of an archive: a version that was written is read back and the stream stands behind
  the header; and a stream that does not start with the magic bytes, even if it is shorter or shares
  some of them, is accepted as unversioned with nothing of it consumed.
\<close>

theorem header_roundtrip:
  assumes "is_open a" and "success a" and "ba_error a = []" and "0 < v" and "fits_s 32 v"
  shows "(pending a = written (writeHeader current v (BinaryArchive (Some (new_stream [])) False)) @ rest \<longrightarrow>
      (\<exists>b. readHeader junk a = (True, b) \<and> ba_version b = v \<and> pending b = rest \<and> success b)) \<and>
    (\<not> prefix MAGIC (pending a) \<longrightarrow>
      (\<exists>b. readHeader junk a = (True, b) \<and> ba_version b = 0 \<and> pending b = pending a \<and> success b))"
proof (intro conjI impI)
  assume p: "pending a = written (writeHeader current v (BinaryArchive (Some (new_stream [])) False)) @ rest"
  have "written (writeHeader current v (BinaryArchive (Some (new_stream [])) False)) = MAGIC @ enc_int v"
    using assms(4) by (simp add: writeHeader_def archive_simps)
  then have p: "pending a = MAGIC @ enc_int v @ rest" using p by simp
  let ?b = "skip 4 (skip (length MAGIC) a)"
  have "read_int junk (skip (length MAGIC) a) = (v, ?b)"
    using assms(1,5) p by (intro read_int_back) (simp_all add: archive_simps)
  moreover have "ba_error (skip (length MAGIC) a) = []"
    using assms(3) by (simp add: skip_def sgetn_def Let_def split: option.split)
  moreover have "0 \<le> versionMajor v" and "0 \<le> versionMinor v"
    using assms(4) by (simp_all add: versionMajor_def versionMinor_def pos_imp_zdiv_nonneg_iff)
  ultimately have "readHeader junk a = (True, ?b\<lparr>ba_version := v\<rparr>)"
    using match_magic_full [OF p, of 0] assms(4) by (simp add: readHeader_def Let_def)
  moreover have "pending ?b = rest" using p by (simp add: archive_simps MAGIC_def)
  ultimately show "\<exists>b. readHeader junk a = (True, b) \<and> ba_version b = v \<and> pending b = rest \<and> success b"
    using assms(2) by (simp add: archive_simps)
next
  assume "\<not> prefix MAGIC (pending a)"
  from match_magic_part [OF this, of 0] obtain j m where
    m: "match_magic MAGIC 0 a = (j, Some m, skip j a)" "j \<le> length (pending a)" by auto
  have err: "(skip j a)\<lparr>ba_error := e\<rparr> = skip j (a\<lparr>ba_error := e\<rparr>)" for e
    by (cases a) (simp add: skip_def sgetn_def Let_def split: option.split)
  have "readHeader junk a = (True, ((sungetc ^^ j) (skip j (a\<lparr>ba_error := ''invalid header, expected '' @ [m]\<rparr>)))\<lparr>ba_version := 0\<rparr>)"
    by (simp add: readHeader_def m(1) Let_def err)
  also have "\<dots> = (True, a\<lparr>ba_error := ''invalid header, expected '' @ [m], ba_version := 0\<rparr>)"
    using m(2) by (simp add: sungetc_all)
  finally show "\<exists>b. readHeader junk a = (True, b) \<and> ba_version b = 0 \<and> pending b = pending a \<and> success b"
    using assms(2) by (simp add: pending_def success_def)
qed

theorem header_roundtrip_witness:
  "(\<exists>b. readHeader 0 (BinaryArchive (Some (new_stream (written (writeHeader 11 720896 (BinaryArchive (Some (new_stream [])) False)) @ ''data''))) True) = (True, b) \<and>
      ba_version b = 720896 \<and> pending b = ''data'') \<and>
    (\<exists>b. readHeader 0 (BinaryArchive (Some (new_stream ''SCx'')) True) = (True, b) \<and> pending b = ''SCx'')"
proof -
  have "ba_error (BinaryArchive x b) = []" for x b by (simp add: BinaryArchive_def)
  moreover have "fits_s 32 720896" by (simp add: fits_s_def)
  ultimately show ?thesis
    using header_roundtrip [of "BinaryArchive (Some (new_stream (written (writeHeader 11 720896 (BinaryArchive (Some (new_stream [])) False)) @ ''data''))) True" 720896 11 "''data''" 0]
      header_roundtrip [of "BinaryArchive (Some (new_stream ''SCx'')) True" 720896 11 "''data''" 0]
    by (auto simp: archive_simps MAGIC_def)
qed

text \<open>
  Times are stored in 32 bits of seconds: a time from January 2038 on, or before December 1901, is
  read back as another one, without any sign of an error.
\<close>

theorem archived_time_wraps:
  assumes "\<bar>tv_usec t\<bar> < MICROS"
  shows "\<exists>a. read_Time junk (BinaryArchive (Some (new_stream (archived [VTime t]))) True) = (Timeval (cast_s 32 (tv_sec t)) (tv_usec t), a) \<and>
    success a"
proof -
  let ?t = "Timeval (cast_s 32 (tv_sec t)) (tv_usec t)"
  have ok: "ok_Time ?t" using assms cast_s_fits [of 32] by (simp add: ok_Time_def)
  have wrap: "cast_s 32 (cast_s 32 (tv_sec t)) = cast_s 32 (tv_sec t)" using cast_s_fits [of 32] by (intro cast_s_id) simp_all
  have "write_Time t a = write_Time ?t a" for a
    by (simp add: write_Time_def seconds_def microseconds_def wrap)
  then have e: "archived [VTime t] = enc_Time ?t"
    using archived_enc [of "[VTime ?t]"] ok by (simp add: archived_def)
  let ?a = "BinaryArchive (Some (new_stream (enc_Time ?t))) True"
  have "Inr (read_Time junk ?a) = (Inr (?t, skip (length (enc_Time ?t)) ?a) :: archive_exception + timeval \<times> binarchive)"
    using ok time.read_back [where junk = junk and v = ?t and a = ?a and rest = "[]"] by (simp add: archive_simps)
  then show ?thesis unfolding e by (simp add: archive_simps)
qed

theorem archived_time_wraps_witness:
  "\<exists>a. read_Time (0, 0) (BinaryArchive (Some (new_stream (archived [VTime (Timeval 2147483648 0)]))) True) = (Timeval (- 2147483648) 0, a) \<and> success a"
  using archived_time_wraps [of "Timeval 2147483648 0" "(0, 0)"] by (simp add: MICROS_def cast_s_def)

end
