(* ===== verification/BinExact.thy ===== *)
theory BinExact
  imports BinArchive
begin

text \<open>
  The converse of the round trip of binary archives (src/src/trunk/libs/seiscomp3/io/archive/binarchive.cpp):
  what a read that leaves the archive valid took from the stream.  The law of a single reader is a
  locale, which the readers of all types interpret and lists inherit.
\<close>

section \<open>Bytes\<close>

lemma bytes_of_int_of: "bytes_of (length bs) (int_of bs) = bs"
proof (induction bs)
  case (Cons b bs)
  have range: "0 \<le> (of_char b :: int)" "(of_char b :: int) < 256"
    using pos_mod_bound [of 256 "of_char b :: int"] pos_mod_sign [of 256 "of_char b :: int"] by simp_all
  have "(of_char b + 256 * int_of bs) mod 256 = of_char b" "(of_char b + 256 * int_of bs) div 256 = int_of bs"
    using range by simp_all
  then show ?case using Cons by simp
qed simp

lemma int_of_range: "bits (length bs) (int_of bs)"
  using int_of_bytes_of [of "length bs" "int_of bs"] pos_mod_bound [of "256 ^ length bs" "int_of bs"]
    pos_mod_sign [of "256 ^ length bs" "int_of bs"] by (simp add: bytes_of_int_of bits_def)

lemma bytes_of_mod: "bytes_of n (v mod 256 ^ n) = bytes_of n v"
  using bytes_of_int_of [of "bytes_of n v"] by (simp add: int_of_bytes_of)

lemma enc_dec_int: "length bs = 4 \<Longrightarrow> enc_int (dec_int bs) = bs"
proof -
  assume len: "length bs = 4"
  have "cast_s 32 (int_of bs) mod 256 ^ 4 = int_of bs mod 256 ^ 4"
    by (simp add: cast_s_def mod_diff_left_eq)
  then show ?thesis
    using bytes_of_mod [of 4 "cast_s 32 (int_of bs)"] bytes_of_mod [of 4 "int_of bs"] bytes_of_int_of [of bs]
    by (simp add: enc_int_def dec_int_def len)
qed

lemma enc_dec_complex:
  assumes "length bs = 2 * n"
  shows "enc_complex n (dec_complex n bs) = bs" and "ok_complex n (dec_complex n bs)"
  using assms bytes_of_int_of [of "take n bs"] bytes_of_int_of [of "drop n bs"]
    int_of_range [of "take n bs"] int_of_range [of "drop n bs"]
  by (simp_all add: enc_complex_def dec_complex_def ok_complex_def)

section \<open>The law of a reader\<close>

text \<open>
  \<open>stored v bs\<close> tells what the bytes \<open>bs\<close> have to do with the value \<open>v\<close>.  A reader does not make an
  archive valid or close it, and what it took from the stream of an archive that is valid behind it
  is stored for its result.
\<close>

locale exact_reader =
  fixes rd :: "'a \<Rightarrow> binarchive \<Rightarrow> archive_exception + ('a \<times> binarchive)"
    and stored :: "'a \<Rightarrow> char list \<Rightarrow> bool"
  assumes valid_before: "rd u a = Inr (v, a') \<Longrightarrow> success a' \<Longrightarrow> success a"
    and stays_open: "rd u a = Inr (v, a') \<Longrightarrow> is_open a' = is_open a"
    and taken: "rd u a = Inr (v, a') \<Longrightarrow> success a' \<Longrightarrow> \<exists>bs. stored v bs \<and> pending a = bs @ pending a'"
begin

lemma elems_exact:
  assumes "read_elems rd us a = Inr (vs, a')"
  shows "is_open a' = is_open a" and "success a' \<Longrightarrow> success a"
    and "success a' \<Longrightarrow> length vs = length us \<and> (\<exists>bss. list_all2 stored vs bss \<and> pending a = concat bss @ pending a')"
  using assms
proof (induction us arbitrary: a vs)
  case (Cons u us)
  {
    case 1
    then show ?case by (auto dest: stays_open Cons.IH(1) split: sum.splits prod.splits if_splits)
  next
    case 2
    then show ?case by (auto dest: valid_before Cons.IH(2) split: sum.splits prod.splits if_splits)
  next
    case 3
    obtain v b where v: "rd u a = Inr (v, b)" using 3(2) by (auto split: sum.splits)
    with 3 obtain ws where ws: "success b" "read_elems rd us b = Inr (ws, a')" "vs = v # ws"
      by (auto split: sum.splits if_splits)
    obtain bs where bs: "stored v bs" "pending a = bs @ pending b" using taken [OF v ws(1)] by blast
    obtain bss where "length ws = length us" "list_all2 stored ws bss" "pending b = concat bss @ pending a'"
      using Cons.IH(3) [OF 3(1) ws(2)] by blast
    with bs show ?case unfolding ws(3) by (intro conjI exI [of _ "bs # bss"]) simp_all
  }
qed simp_all

end

definition stored_list :: "('a \<Rightarrow> char list \<Rightarrow> bool) \<Rightarrow> 'a list \<Rightarrow> char list \<Rightarrow> bool" where
  "stored_list stored vs bs \<longleftrightarrow>
     int (length vs) < 2 ^ 31 \<and> (\<exists>bss. list_all2 stored vs bss \<and> bs = enc_int (int (length vs)) @ concat bss)"

lemma read_length_exact:
  assumes "read_length a = (r, a')"
  shows "is_open a' = is_open a" and "success a' \<Longrightarrow> success a" and "success a' \<Longrightarrow> r \<noteq> None"
    and "r = Some n \<Longrightarrow> fits_s 32 n \<and> pending a = enc_int n @ pending a'"
proof -
  have "pending a = enc_int n @ pending a'" if "r = Some n"
  proof -
    have "enc_int n = take 4 (pending a)" "a' = skip 4 a"
      using assms that by (auto simp: read_length_def archive_simps enc_dec_int split: option.splits if_splits)
    then show ?thesis by (simp add: archive_simps)
  qed
  then show "r = Some n \<Longrightarrow> fits_s 32 n \<and> pending a = enc_int n @ pending a'"
    using assms by (auto simp: read_length_def dec_int_def cast_s_fits split: option.splits prod.splits if_splits)
qed (use assms in \<open>auto simp: read_length_def archive_simps split: option.splits if_splits\<close>)

lemma count_of_int: "fits_s 32 n \<Longrightarrow> \<not> n < 0 \<Longrightarrow> int (nat n) = n \<and> n < 2 ^ 31"
  by (simp add: fits_s_def)

context exact_reader begin

lemma exact_list: "exact_reader (read_list rd def) (stored_list stored)"
proof
  fix us a vs a' assume r: "read_list rd def us a = Inr (vs, a')"
  obtain l b where l: "read_length a = (l, b)" by (cases "read_length a")
  note len = read_length_exact [OF l]
  show "is_open a' = is_open a"
    using r len(1) by (auto simp: read_list_def l dest: elems_exact(1) split: option.splits if_splits)
  show "success a" if "success a'"
    using r len(2) that by (auto simp: read_list_def l dest: elems_exact(2) split: option.splits if_splits)
  show "\<exists>bs. stored_list stored vs bs \<and> pending a = bs @ pending a'" if s: "success a'"
  proof (cases l)
    case None
    then show ?thesis using r s len(3) by (simp add: read_list_def l)
  next
    case (Some n)
    then have n: "\<not> n < 0" and e: "read_elems rd (resize def (nat n) us) b = Inr (vs, a')"
      using r by (simp_all add: read_list_def l split: if_splits)
    obtain bss where bss: "length vs = nat n" "list_all2 stored vs bss" "pending b = concat bss @ pending a'"
      using elems_exact(3) [OF e s] by auto
    show ?thesis
      using len(4) [OF Some] count_of_int [of n] n bss
      by (intro exI [of _ "enc_int n @ concat bss"]) (auto simp: stored_list_def)
  qed
qed

end

section \<open>Types of fixed size\<close>

locale exact_codec = fixed_codec +
  assumes enc_dec: "length bs = n \<Longrightarrow> enc (dec bs) = bs"
    and ok_dec: "length bs = n \<Longrightarrow> ok (dec bs)"
begin

lemma exact_fixed: "exact_reader (\<lambda>v a. Inr (read_fixed enc dec n v a)) (\<lambda>v bs. ok v \<and> bs = enc v)"
  by unfold_locales
    (auto simp: read_fixed_def archive_simps overlay_all enc_length enc_dec ok_dec split: if_splits intro!: exI [of _ "take n _"])

lemma concat_elements:
  "length bs = n * m \<Longrightarrow> concat (map enc (elements dec n m bs)) = bs \<and> (\<forall>v \<in> set (elements dec n m bs). ok v)"
proof (induction m arbitrary: bs)
  case (Suc m)
  have split: "elements dec n (Suc m) bs = dec (take n bs) # elements dec n m (drop n bs)"
    by (simp add: elements_def upt_conv_Cons map_Suc_upt [symmetric] add.commute del: upt_Suc)
  show ?case unfolding split using Suc.IH [of "drop n bs"] Suc.prems by (simp add: enc_dec ok_dec)
qed (simp add: elements_def)

text \<open>A vector whose size in bytes does not fit into an \<open>int\<close> is not described: the code computes it with overflow.\<close>

definition stored_vector :: "'a list \<Rightarrow> char list \<Rightarrow> bool" where
  "stored_vector vs bs \<longleftrightarrow> (int (length vs) * int n < 2 ^ 31 \<longrightarrow> ok_vector vs \<and> bs = enc_list enc vs)"

lemma length_elements: "length (elements dec n m bs) = m"
  by (simp add: elements_def)

lemma exact_vector: "exact_reader (read_vector enc dec n def) stored_vector"
proof
  fix us a vs a' assume r: "read_vector enc dec n def us a = Inr (vs, a')"
  obtain l b where l: "read_length a = (l, b)" by (cases "read_length a")
  note len = read_length_exact [OF l]
  show "is_open a' = is_open a"
    using r len(1) by (auto simp: read_vector_def l Let_def sgetn_def is_open_def setValidity_def split: option.splits if_splits prod.splits)
  show "success a" if "success a'"
    using r len(2) that by (auto simp: read_vector_def l Let_def sgetn_def success_def setValidity_def split: option.splits if_splits prod.splits)
  show "\<exists>bs. stored_vector vs bs \<and> pending a = bs @ pending a'" if s: "success a'"
  proof (cases l)
    case None
    then show ?thesis using r s len(3) by (simp add: read_vector_def l)
  next
    case (Some k)
    define size where "size = cast_s 32 (k * int n)"
    obtain got c where g: "sgetn size b = (got, c)" by (cases "sgetn size b")
    have k: "\<not> k < 0" and vs: "vs = elements dec n (nat k) (overlay (concat (map enc (resize def (nat k) us))) got)"
      and a': "a' = (if int (length got) \<noteq> size then setValidity False c else c)"
      using r by (auto simp: read_vector_def l Some Let_def size_def [symmetric] g split: if_splits)
    from a' s have full: "int (length got) = size" "a' = c" by (auto simp: archive_simps split: if_splits)
    then have got: "got = take (nat size) (pending b)" "c = skip (nat size) b" using g sgetn_nat [of size b] by auto
    have p: "pending b = got @ pending a'" unfolding got full(2) by (simp add: archive_simps)
    have cnt: "int (nat k) = k" "k < 2 ^ 31" using len(4) [OF Some] count_of_int [of k] k by auto
    have "stored_vector vs (enc_int k @ got)"
    proof -
      {
        assume small: "int (length vs) * int n < 2 ^ 31"
        have lvs: "length vs = nat k" by (simp add: vs length_elements)
        have "int (n * nat k) < 2 ^ 31" using small unfolding lvs by (simp add: mult.commute)
        then have "cast_s 32 (int (n * nat k)) = int (n * nat k)" by (intro cast_s_id fits_length) simp_all
        moreover have "k * int n = int (n * nat k)" using cnt(1) by (simp add: mult.commute)
        ultimately have "int (length got) = int (n * nat k)" using full(1) unfolding size_def by (simp only:)
        then have lg: "length got = n * nat k" by (simp only: of_nat_eq_iff)
        have "overlay (concat (map enc (resize def (nat k) us))) got = got"
          by (rule overlay_all) (simp only: length_concat_enc length_resize lg)
        with concat_elements [OF lg] vs have "concat (map enc vs) = got" "\<forall>v \<in> set vs. ok v" by simp_all
        then have "ok_vector vs \<and> enc_int k @ got = enc_list enc vs"
          using small cnt(1) by (simp add: ok_vector_def enc_list_def lvs)
      }
      then show ?thesis by (simp add: stored_vector_def)
    qed
    then show ?thesis using len(4) [OF Some] p by (intro exI [of _ "enc_int k @ got"]) simp
  qed
qed

end

interpretation int32: exact_codec enc_int dec_int 4 "fits_s 32"
  by unfold_locales (simp_all add: enc_dec_int, simp add: dec_int_def cast_s_fits)

interpretation float32: exact_codec enc_float int_of 4 "bits 4"
proof
  fix bs :: "char list" assume "length bs = 4"
  then show "enc_float (int_of bs) = bs" "bits 4 (int_of bs)"
    using bytes_of_int_of [of bs] int_of_range [of bs] by (simp_all add: enc_float_def)
qed

interpretation double64: exact_codec enc_double int_of 8 "bits 8"
proof
  fix bs :: "char list" assume "length bs = 8"
  then show "enc_double (int_of bs) = bs" "bits 8 (int_of bs)"
    using bytes_of_int_of [of bs] int_of_range [of bs] by (simp_all add: enc_double_def)
qed

interpretation char8: exact_codec enc_char hd 1 "\<lambda>_. True"
  by unfold_locales (auto simp: enc_char_def length_Suc_conv)

interpretation complex64: exact_codec "enc_complex 4" "dec_complex 4" 8 "ok_complex 4"
  by unfold_locales (simp_all add: enc_dec_complex)

interpretation complex128: exact_codec "enc_complex 8" "dec_complex 8" 16 "ok_complex 8"
  by unfold_locales (simp_all add: enc_dec_complex)

section \<open>The other types\<close>

definition stored_Time :: "timeval \<Rightarrow> char list \<Rightarrow> bool" where
  "stored_Time t bs \<longleftrightarrow>
     (\<exists>s u. fits_s 32 s \<and> fits_s 32 u \<and> bs = enc_int s @ enc_int u \<and> t = TimeSpan_of s u)"

definition stored_bool :: "bool \<Rightarrow> char list \<Rightarrow> bool" where
  "stored_bool v bs \<longleftrightarrow> (\<exists>c. bs = [c] \<and> v = (c \<noteq> CHR 0x00))"

interpretation boolean: exact_reader "\<lambda>v a. Inr (read_bool v a)" stored_bool
proof
  have sgetn1: "sgetn 1 a = (take 1 (pending a), skip 1 a)" for a using sgetn_pending [of 1 a] by simp
  fix u a v a' assume r: "Inr (read_bool u a) = (Inr (v, a') :: archive_exception + (bool \<times> binarchive))"
  then show "is_open a' = is_open a" by (auto simp: read_bool_def sgetn1 archive_simps split: if_splits)
  show "success a" if "success a'" using r that by (auto simp: read_bool_def sgetn1 archive_simps split: if_splits)
  show "\<exists>bs. stored_bool v bs \<and> pending a = bs @ pending a'" if "success a'"
  proof (cases "pending a")
    case Nil
    then have "a' = setValidity False (skip 1 a)" using r by (simp add: read_bool_def sgetn1)
    then show ?thesis using that by (simp add: archive_simps)
  next
    case (Cons c cs)
    then have "v = (c \<noteq> CHR 0x00)" and "a' = skip 1 a" using r by (simp_all add: read_bool_def sgetn1)
    then show ?thesis using Cons by (intro exI [of _ "[c]"]) (simp add: stored_bool_def pending_skip)
  qed
qed

interpretation str: exact_reader read_string "\<lambda>v bs. ok_string v \<and> bs = enc_string v"
proof
  fix u a v a' assume r: "read_string u a = Inr (v, a')"
  obtain l b where l: "read_length a = (l, b)" by (cases "read_length a")
  note len = read_length_exact [OF l]
  show "is_open a' = is_open a"
    using r len(1) by (auto simp: read_string_def l Let_def sgetn_nat archive_simps split: option.splits if_splits)
  show "success a" if "success a'"
    using r len(2) that by (auto simp: read_string_def l Let_def sgetn_nat archive_simps split: option.splits if_splits)
  show "\<exists>bs. (ok_string v \<and> bs = enc_string v) \<and> pending a = bs @ pending a'" if s: "success a'"
  proof (cases l)
    case None
    then show ?thesis using r s len(3) by (simp add: read_string_def l)
  next
    case (Some k)
    have k: "\<not> k < 0" using r by (auto simp: read_string_def l Some split: if_splits)
    have "length v = nat k \<and> pending b = v @ pending a'"
      using r s k by (auto simp: read_string_def l Some Let_def sgetn_nat archive_simps overlay_all split: if_splits)
    then show ?thesis
      using len(4) [OF Some] count_of_int [of k] k by (auto simp: ok_string_def enc_string_def)
  qed
qed

interpretation time_t: exact_reader "\<lambda>_ a. Inr (read_time_t junk a)" "\<lambda>v bs. fits_s 32 v \<and> bs = enc_int v" for junk
proof
  fix u :: int and a v a' assume r: "Inr (read_time_t junk a) = (Inr (v, a') :: archive_exception + (int \<times> binarchive))"
  show "is_open a' = is_open a" using r by (auto simp: read_time_t_def archive_simps split: if_splits)
  show "success a" if "success a'" using r that by (auto simp: read_time_t_def archive_simps split: if_splits)
  show "\<exists>bs. (fits_s 32 v \<and> bs = enc_int v) \<and> pending a = bs @ pending a'" if "success a'"
  proof -
    let ?bs = "take 4 (pending a)"
    have len: "length ?bs = 4" and a': "a' = skip 4 a" and v: "v = dec_int (overlay (enc_int junk) ?bs)"
      using r that by (auto simp: read_time_t_def archive_simps split: if_splits)
    have "fits_s 32 v" "?bs = enc_int v"
      using int32.enc_dec [OF len] int32.ok_dec [OF len] len by (simp_all add: v overlay_all)
    moreover have "pending a = ?bs @ pending a'" unfolding a' by (simp add: archive_simps)
    ultimately show ?thesis by blast
  qed
qed

interpretation time: exact_reader "\<lambda>_ a. Inr (read_Time junk a)" stored_Time for junk
proof
  fix u :: timeval and a v a' assume r: "Inr (read_Time junk a) = (Inr (v, a') :: archive_exception + (timeval \<times> binarchive))"
  show "is_open a' = is_open a" using r by (auto simp: read_Time_def archive_simps split: if_splits)
  show "success a" if "success a'" using r that by (auto simp: read_Time_def archive_simps split: if_splits)
  show "\<exists>bs. stored_Time v bs \<and> pending a = bs @ pending a'" if "success a'"
  proof -
    let ?s = "take 4 (pending a)" and ?u = "take 4 (drop 4 (pending a))"
    have "length ?s + length ?u = 8" and a': "a' = skip 8 a"
      and v: "v = TimeSpan_of (dec_int (overlay (enc_int (fst junk)) ?s)) (dec_int (overlay (enc_int (snd junk)) ?u))"
      using r that by (auto simp: read_Time_def archive_simps split: if_splits)
    then have len: "length ?s = 4" "length ?u = 4" by (auto simp: min_def split: if_splits)
    have "pending a = (?s @ ?u) @ pending a'"
      unfolding a' by (simp add: archive_simps) (metis append_take_drop_id drop_drop numeral_Bit0)
    moreover have "stored_Time v (?s @ ?u)"
      unfolding stored_Time_def using int32.enc_dec [OF len(1)] int32.enc_dec [OF len(2)] int32.ok_dec [OF len(1)] int32.ok_dec [OF len(2)] len
      by (intro exI [of _ "dec_int ?s"] exI [of _ "dec_int ?u"]) (simp add: v overlay_all)
    ultimately show ?thesis by blast
  qed
qed

section \<open>Values\<close>

fun stored_value :: "avalue \<Rightarrow> char list \<Rightarrow> bool" where
  "stored_value (VBool v) bs \<longleftrightarrow> stored_bool v bs"
| "stored_value (VTime v) bs \<longleftrightarrow> stored_Time v bs"
| "stored_value (VTimes v) bs \<longleftrightarrow> stored_list stored_Time v bs"
| "stored_value (VChars v) bs \<longleftrightarrow> char8.stored_vector v bs"
| "stored_value (VInts v) bs \<longleftrightarrow> int32.stored_vector v bs"
| "stored_value (VFloats v) bs \<longleftrightarrow> float32.stored_vector v bs"
| "stored_value (VDoubles v) bs \<longleftrightarrow> double64.stored_vector v bs"
| "stored_value (VComplexes v) bs \<longleftrightarrow> complex128.stored_vector v bs"
| "stored_value v bs \<longleftrightarrow> ok_value v \<and> bs = enc_value v"

lemma stored_strings:
  "stored_list (\<lambda>v bs. ok_string v \<and> bs = enc_string v) vs bs \<Longrightarrow> ok_list ok_string vs \<and> bs = enc_list enc_string vs"
proof -
  assume st: "stored_list (\<lambda>v bs. ok_string v \<and> bs = enc_string v) vs bs"
  have "(\<forall>v \<in> set vs. ok_string v) \<and> bss = map enc_string vs" if "list_all2 (\<lambda>v bs. ok_string v \<and> bs = enc_string v) vs bss" for bss
    using that by (induction rule: list_all2_induct) auto
  with st show ?thesis by (auto simp: stored_list_def ok_list_def enc_list_def)
qed

lemma typedE:
  assumes "typed C r = Inr (v, a')"
  obtains x where "r = Inr (x, a')" and "v = C x"
  using assms by (auto simp: typed_def split: sum.splits)

text \<open>A reader of one type as a reader of values.\<close>

definition exact_at :: "(binarchive \<Rightarrow> archive_exception + (avalue \<times> binarchive)) \<Rightarrow> bool" where
  "exact_at r \<longleftrightarrow> (\<forall>a v a'. r a = Inr (v, a') \<longrightarrow> is_open a' = is_open a \<and>
     (success a' \<longrightarrow> success a \<and> (\<exists>bs. stored_value v bs \<and> pending a = bs @ pending a')))"

context exact_reader begin

lemma exact_typed: "(\<And>x bs. stored x bs \<Longrightarrow> stored_value (C x) bs) \<Longrightarrow> exact_at (\<lambda>a. typed C (rd u a))"
  unfolding exact_at_def by (blast elim: typedE dest: stays_open valid_before taken)

end

lemmas value_exact =
  exact_reader.exact_typed [OF int32.exact_fixed, where C = VInt, folded read_int_def]
  exact_reader.exact_typed [OF float32.exact_fixed, where C = VFloat, folded read_float_def]
  exact_reader.exact_typed [OF double64.exact_fixed, where C = VDouble, folded read_double_def]
  exact_reader.exact_typed [OF complex64.exact_fixed, where C = VComplexFloat, folded read_complex_float_def]
  exact_reader.exact_typed [OF complex128.exact_fixed, where C = VComplexDouble, folded read_complex_double_def]
  boolean.exact_typed [where C = VBool]
  str.exact_typed [where C = VString]
  time_t.exact_typed [where C = VTimeT]
  time.exact_typed [where C = VTime]
  exact_reader.exact_typed [OF char8.exact_vector [where def = "CHR 0x00"], where C = VChars, folded read_chars_def]
  exact_reader.exact_typed [OF int32.exact_vector [where def = 0], where C = VInts, folded read_ints_def]
  exact_reader.exact_typed [OF float32.exact_vector [where def = 0], where C = VFloats, folded read_floats_def]
  exact_reader.exact_typed [OF double64.exact_vector [where def = 0], where C = VDoubles, folded read_doubles_def]
  exact_reader.exact_typed [OF complex128.exact_vector [where def = "(0, 0)"], where C = VComplexes, folded read_complexes_def]
  exact_reader.exact_typed [OF str.exact_list [where def = "[]"], where C = VStrings, folded read_strings_def]
  exact_reader.exact_typed [OF time.exact_list [where def = TimeSpan], where C = VTimes, folded read_Times_def]

lemma exact_value: "exact_at (read_value junk u)"
  by (cases u) (simp only: read_value.simps; rule value_exact; simp add: stored_strings)+

interpretation item_exact: exact_reader "read_value junk" stored_value for junk
  by unfold_locales (use exact_value [of junk] in \<open>unfold exact_at_def, blast+\<close>)

lemma read_value_type: "read_value junk u a = Inr (v, a') \<Longrightarrow> type_of v = type_of u"
  by (cases u) (auto elim!: typedE)

lemma read_values_exact:
  assumes "read_values junk us a = Inr (vs, a')"
  shows "map type_of vs = map type_of us" and "success a' \<Longrightarrow> success a"
    and "success a' \<Longrightarrow> \<exists>bss. list_all2 stored_value vs bss \<and> pending a = concat bss @ pending a'"
  using assms
proof (induction us arbitrary: a vs)
  case (Cons u us)
  {
    case 1
    then obtain v b ws where v: "read_value junk u a = Inr (v, b)" "read_values junk us b = Inr (ws, a')" "vs = v # ws"
      by (auto split: sum.splits)
    show ?case unfolding v(3) using read_value_type [OF v(1)] Cons.IH(1) [OF v(2)] by simp
  next
    case 2
    then obtain v b ws where v: "read_value junk u a = Inr (v, b)" "read_values junk us b = Inr (ws, a')" "vs = v # ws"
      by (auto split: sum.splits)
    show ?case using item_exact.valid_before [OF v(1) Cons.IH(2) [OF 2(1) v(2)]] .
  next
    case 3
    then obtain v b ws where v: "read_value junk u a = Inr (v, b)" "read_values junk us b = Inr (ws, a')" "vs = v # ws"
      by (auto split: sum.splits)
    obtain bs where bs: "stored_value v bs" "pending a = bs @ pending b"
      using item_exact.taken [OF v(1) Cons.IH(2) [OF 3(1) v(2)]] by blast
    obtain bss where "list_all2 stored_value ws bss" "pending b = concat bss @ pending a'"
      using Cons.IH(3) [OF 3(1) v(2)] by blast
    with bs show ?case unfolding v(3) by (intro exI [of _ "bs # bss"]) simp
  }
qed simp_all

section \<open>Property\<close>

text \<open>
  C26: Nothing but what a stream stores is read from it: if values of any types, read one after the
  other from any bytes by variables holding anything, leave the archive valid, the bytes read are
  those of the values, one value after the other, and the rest of the stream is left.  The
  bytes of a value are its encoding, the one the writer produces, and the value is in the range of
  its type; but a \<open>bool\<close> may be stored by any byte (zero for false), a time by any numbers of seconds
  and microseconds that it is normalized from, and a vector of numbers counts only if its size in
  bytes fits into an \<open>int\<close>.
\<close>

theorem archive_reads_stored:
  assumes "read_values junk olds (BinaryArchive (Some (new_stream bytes)) True) = Inr (vs, a)" and "success a"
  shows "\<exists>bss. list_all2 stored_value vs bss \<and> bytes = concat bss @ pending a \<and> map type_of vs = map type_of olds"
  using read_values_exact(1,3) [OF assms(1)] assms(2) by (simp add: archive_simps)

text \<open>Five bytes read as a string of one character, and the two bytes behind it as two flags.\<close>

theorem archive_reads_stored_witness:
  "\<exists>vs a bss. read_values (0, 0) [VString ''old'', VBool False, VBool False]
      (BinaryArchive (Some (new_stream ([CHR 0x01, CHR 0x00, CHR 0x00, CHR 0x00] @ ''A'' @ [CHR 0x07, CHR 0x00, CHR ''x'']))) True) = Inr (vs, a) \<and>
    success a \<and> vs = [VString ''A'', VBool True, VBool False] \<and>
    list_all2 stored_value vs bss \<and> concat bss = [CHR 0x01, CHR 0x00, CHR 0x00, CHR 0x00] @ ''A'' @ [CHR 0x07, CHR 0x00] \<and> pending a = ''x''"
proof -
  let ?a = "BinaryArchive (Some (new_stream ([CHR 0x01, CHR 0x00, CHR 0x00, CHR 0x00] @ ''A'' @ [CHR 0x07, CHR 0x00, CHR ''x'']))) True"
  have "(case read_values (0, 0) [VString ''old'', VBool False, VBool False] ?a of
      Inl e \<Rightarrow> False
    | Inr (vs, a) \<Rightarrow> success a \<and> vs = [VString ''A'', VBool True, VBool False] \<and> pending a = ''x'')" by code_simp
  then obtain vs a where r: "read_values (0, 0) [VString ''old'', VBool False, VBool False] ?a = Inr (vs, a)"
    and p: "success a" "vs = [VString ''A'', VBool True, VBool False]" "pending a = ''x''" by (auto split: sum.splits)
  from archive_reads_stored [OF r p(1)] p r show ?thesis by auto
qed

end
