(* ===== verification/StringMap.thy ===== *)
theory StringMap
  imports Dictionary
begin

text \<open>
  \<open>std::map\<close> with strings as keys: a list of entries in the order of the keys, which is the order in which the code
  goes through the map.
\<close>

text \<open>The order of \<open>std::string\<close>: the first different byte decides.\<close>

fun str_less :: "string \<Rightarrow> string \<Rightarrow> bool" where
  "str_less s [] = False"
| "str_less [] (d # ds) = True"
| "str_less (c # cs) (d # ds) = (code c < code d \<or> (c = d \<and> str_less cs ds))"

fun map_insert :: "string \<Rightarrow> 'v \<Rightarrow> (string \<times> 'v) list \<Rightarrow> (string \<times> 'v) list" where
  "map_insert k v [] = [(k, v)]"
| "map_insert k v ((k', v') # es) =
     (if k = k' then (k, v) # es
      else if str_less k k' then (k, v) # (k', v') # es
      else (k', v') # map_insert k v es)"

lemma str_less_irrefl [simp]: "\<not> str_less s s"
  by (induction s) auto

lemma str_less_trans: "str_less a b \<Longrightarrow> str_less b c \<Longrightarrow> str_less a c"
proof (induction a b arbitrary: c rule: str_less.induct)
  case (2 d ds)
  then show ?case by (cases c) auto
next
  case (3 x xs y ys)
  then show ?case by (cases c) auto
qed simp

lemma str_less_total: "s \<noteq> t \<Longrightarrow> str_less s t \<or> str_less t s"
proof (induction s t rule: str_less.induct)
  case (1 s)
  then show ?case by (cases s) auto
next
  case (3 c cs d ds)
  then show ?case using code_inj [of c d] by (cases "c = d") auto
qed simp

definition keys_sorted :: "(string \<times> 'v) list \<Rightarrow> bool" where
  "keys_sorted es = sorted_wrt str_less (map fst es)"

lemma keys_sorted_distinct: "keys_sorted es \<Longrightarrow> distinct (map fst es)"
  by (induction es) (auto simp: keys_sorted_def)

lemma map_insert_keys: "fst ` set (map_insert k v es) = insert k (fst ` set es)"
  by (induction k v es rule: map_insert.induct) auto

lemma map_insert_sorted: "keys_sorted es \<Longrightarrow> keys_sorted (map_insert k v es)"
proof (induction k v es rule: map_insert.induct)
  case (2 k v k' v' es)
  have rest: "keys_sorted es" and first: "\<forall>x \<in> fst ` set es. str_less k' x" using 2(2) by (auto simp: keys_sorted_def)
  consider "k = k'" | "str_less k k'" | "k \<noteq> k'" "\<not> str_less k k'" "str_less k' k" using str_less_total by blast
  then show ?case
  proof cases
    case 1
    then show ?thesis using 2(2) by (simp add: keys_sorted_def)
  next
    case 2
    then have "\<forall>x \<in> fst ` set es. str_less k x" using first str_less_trans by blast
    with 2 first rest show ?thesis by (auto simp: keys_sorted_def)
  next
    case 3
    with 2(1) rest have "keys_sorted (map_insert k v es)" by simp
    moreover have "\<forall>x \<in> fst ` set (map_insert k v es). str_less k' x"
      using first 3(3) by (simp add: map_insert_keys)
    ultimately show ?thesis using 3 by (auto simp: keys_sorted_def)
  qed
qed (simp add: keys_sorted_def)

lemma map_insert_lookup [simp]: "map_of (map_insert k v es) = (map_of es)(k \<mapsto> v)"
  by (induction k v es rule: map_insert.induct) auto

lemma filter_keys_sorted: "keys_sorted es \<Longrightarrow> keys_sorted (filter P es)"
  by (induction es) (auto simp: keys_sorted_def)

lemma filter_lookup: "map_of (filter (\<lambda>(k, _). k \<noteq> x) es) k' = (if k' = x then None else map_of es k')"
  by (induction es) auto

text \<open>The map keeps the laws of a dictionary, with its keys in order.\<close>

interpretation string_map: dictionary keys_sorted map_of map_insert "\<lambda>k. filter (\<lambda>(k', _). k' \<noteq> k)"
  by unfold_locales (simp_all add: map_insert_sorted filter_keys_sorted filter_lookup)

end
