(* ===== verification/ObjectTrees.thy ===== *)
theory ObjectTrees
  imports Complex_Main DmObjects Datetime StringMap
begin

text \<open>
  The comparison of two trees of data model objects (src/src/trunk/libs/seiscomp3/datamodel/diff.cpp), whose result are the
  notifiers that turn the one into the other, and the visitor that collects the notifiers of a whole subtree
  (datamodel/notifier.h).

  An object is its class, its identifier if it is a public object, and its properties as its class describes
  them, in order, with their values.  A property is read from another object through the class that declares it: an object of
  another class does not have it.  \<open>None\<close> stands for an exception.  What is written to the tree of log nodes is not modelled, but that there is
  a log: its level decides whether the comparison goes on after the first difference, and the titles of its nodes may
  throw.
\<close>

section \<open>Objects\<close>

record meta_property =
  p_name :: string
  p_type :: string
  p_isArray :: bool
  p_isClass :: bool
  p_isIndex :: bool
  p_isEnum :: bool

datatype tree = Tree (t_class: string) (t_publicID: "string option") (t_props: "(meta_property \<times> content) list")
  and content = Unset | MInt int | MDouble rat | MString string | MTime timeval | MBool bool | MObject tree
    | MNumbers "rat list" | MArray "tree list"

definition read_prop :: "string \<Rightarrow> meta_property \<Rightarrow> tree \<Rightarrow> content" where
  "read_prop cn m x = (if t_class x = cn then (case map_of (t_props x) m of None \<Rightarrow> Unset | Some v \<Rightarrow> v) else Unset)"

text \<open>The objects of an array; an array of numbers has none.\<close>

fun elements :: "content \<Rightarrow> tree list" where
  "elements (MArray xs) = xs"
| "elements _ = []"

definition arrayObjects :: "string \<Rightarrow> meta_property \<Rightarrow> tree \<Rightarrow> tree list option" where
  "arrayObjects cn m x = (if t_class x = cn then Some (elements (read_prop cn m x)) else None)"

text \<open>The type of a value.\<close>

fun same_type :: "content \<Rightarrow> content \<Rightarrow> bool" where
  "same_type (MInt _) (MInt _) = True"
| "same_type (MDouble _) (MDouble _) = True"
| "same_type (MString _) (MString _) = True"
| "same_type (MTime _) (MTime _) = True"
| "same_type (MBool _) (MBool _) = True"
| "same_type (MObject _) (MObject _) = True"
| "same_type (MNumbers _) (MNumbers _) = True"
| "same_type (MArray _) (MArray _) = True"
| "same_type _ _ = False"

section \<open>Comparing properties\<close>

text \<open>The values of a simple property.  A value that is not of the declared type cannot be cast.\<close>

definition compare_simple :: "meta_property \<Rightarrow> content \<Rightarrow> content \<Rightarrow> bool option" where
  "compare_simple m v1 v2 =
     (if p_isEnum m \<or> p_type m = ''int'' then (case (v1, v2) of (MInt a, MInt b) \<Rightarrow> Some (a = b) | _ \<Rightarrow> None)
      else if p_type m = ''float'' then (case (v1, v2) of (MDouble a, MDouble b) \<Rightarrow> Some (a = b) | _ \<Rightarrow> None)
      else if p_type m = ''string'' then (case (v1, v2) of (MString a, MString b) \<Rightarrow> Some (a = b) | _ \<Rightarrow> None)
      else if p_type m = ''datetime'' then (case (v1, v2) of (MTime a, MTime b) \<Rightarrow> Some (ts_eq a b) | _ \<Rightarrow> None)
      else if p_type m = ''boolean'' then (case (v1, v2) of (MBool a, MBool b) \<Rightarrow> Some (a = b) | _ \<Rightarrow> None)
      else None)"

abbreviation props_size :: "(meta_property \<times> content) list \<Rightarrow> nat" where
  "props_size \<equiv> size_list (size_prod (\<lambda>_. 0) size)"

lemma props_size_less: "props_size (t_props x) < size x"
  by (cases x) simp

function (sequential) compare :: "bool \<Rightarrow> bool \<Rightarrow> tree \<Rightarrow> tree \<Rightarrow> bool option"
  and compare_props :: "bool \<Rightarrow> bool \<Rightarrow> string \<Rightarrow> (meta_property \<times> content) list \<Rightarrow> tree \<Rightarrow> bool \<Rightarrow> bool option"
  and compareNonArrayProperty :: "bool \<Rightarrow> meta_property \<Rightarrow> content \<Rightarrow> content \<Rightarrow> bool option" where
  "compare indexOnly full x y =
     (if t_class x \<noteq> t_class y then Some False else compare_props indexOnly full (t_class x) (t_props x) y True)"
| "compare_props indexOnly full cn [] y result = Some result"
| "compare_props indexOnly full cn ((m, v) # ps) y result =
     (if (indexOnly \<and> \<not> p_isIndex m) \<or> p_isArray m then compare_props indexOnly full cn ps y result
      else
        (case compareNonArrayProperty full m v (read_prop cn m y) of
           None \<Rightarrow> None
         | Some equals \<Rightarrow>
             if \<not> equals \<and> result
             then (if indexOnly \<or> \<not> full then Some False else compare_props indexOnly full cn ps y False)
             else compare_props indexOnly full cn ps y result))"
| "compareNonArrayProperty full m v1 v2 =
     (if p_isArray m then None
      else if v1 = Unset \<and> v2 = Unset then Some True
      else if v1 = Unset \<or> v2 = Unset then Some False
      else if \<not> same_type v1 v2 then Some False
      else if p_isClass m then (case (v1, v2) of (MObject a, MObject b) \<Rightarrow> compare False full a b | _ \<Rightarrow> None)
      else compare_simple m v1 v2)"
  by pat_completeness auto

termination
  by (relation "measure (\<lambda>a. case a of Inl (_, _, x, _) \<Rightarrow> size x | Inr (Inl (_, _, _, ps, _, _)) \<Rightarrow> props_size ps
        | Inr (Inr (_, _, v, _)) \<Rightarrow> size v)")
     (auto intro: props_size_less)

section \<open>Notifiers of a subtree\<close>

datatype diff_notifier = Note (n_parent: string) (n_op: Operation) (n_object: tree)

definition children :: "tree \<Rightarrow> tree list" where
  "children x = concat (map (elements \<circ> snd) (t_props x))"

lemma size_element: "y \<in> set (elements v) \<Longrightarrow> size y < size v"
  by (cases v) (auto dest: size_list_estimation' [where f = size] simp: less_Suc_eq_le elim: size_list_estimation')

lemma size_child: "y \<in> set (children x) \<Longrightarrow> size y < size x"
proof -
  assume "y \<in> set (children x)"
  then obtain m v where v: "(m, v) \<in> set (t_props x)" and y: "y \<in> set (elements v)" by (auto simp: children_def)
  have "size v < props_size (t_props x)" using v by (rule size_list_estimation) simp
  with size_element [OF y] props_size_less [of x] show ?thesis by simp
qed

text \<open>
  The visitor, with the identifier of the parent of the object: parents come before their children, but behind them if they are
  removed.  Objects that are not public have no children to visit.
\<close>

function notify :: "Operation \<Rightarrow> string \<Rightarrow> tree \<Rightarrow> diff_notifier list" where
  "notify op par x =
     (case t_publicID x of
        None \<Rightarrow> [Note par op x]
      | Some i \<Rightarrow>
          let below = concat (map (notify op i) (children x))
          in if op = OP_REMOVE then below @ [Note par op x] else Note par op x # below)"
  by pat_completeness auto
termination by (relation "measure (\<lambda>(_, _, x). size x)") (auto simp: size_child)

declare notify.simps [simp del]

text \<open>
  \<open>AppendNotifier\<close>: \<open>own\<close> is the identifier of the object that the visited one is a child of, if it is one.  The given parent counts
  instead for the object itself.  \<open>visited\<close> has the notifiers with the parents that their objects name themselves.
\<close>

definition visited :: "Operation \<Rightarrow> string \<Rightarrow> string option \<Rightarrow> tree \<Rightarrow> diff_notifier list" where
  "visited op par own x =
     (case own of
        Some p \<Rightarrow> notify op p x
      | None \<Rightarrow> if par \<noteq> [] then notify op [] x else if op = OP_REMOVE then butlast (notify op [] x) else [])"

definition AppendNotifier :: "Operation \<Rightarrow> string \<Rightarrow> string option \<Rightarrow> tree \<Rightarrow> diff_notifier list" where
  "AppendNotifier op par own x = (if par \<noteq> [] then notify op par x else visited op par own x)"

section \<open>Log nodes\<close>

datatype LogLevel = LOG_OPERATIONS | LOG_DIFFERENCES | LOG_ALL

definition detailed :: "LogLevel option \<Rightarrow> bool" where
  "detailed lg = (lg \<noteq> None \<and> lg \<noteq> Some LOG_OPERATIONS)"

text \<open>Whether an object has a title: all index values must be simple, and of the declared type.\<close>

definition title_of_prop :: "meta_property \<Rightarrow> content \<Rightarrow> bool" where
  "title_of_prop m v \<longleftrightarrow>
     \<not> p_isClass m \<and>
     (v = Unset \<or>
       (p_isEnum m \<or> p_type m = ''int'' \<longrightarrow> (case v of MInt _ \<Rightarrow> True | _ \<Rightarrow> False)) \<and>
       (p_type m = ''float'' \<longrightarrow> (case v of MDouble _ \<Rightarrow> True | _ \<Rightarrow> False)) \<and>
       (p_type m = ''string'' \<longrightarrow> (case v of MString _ \<Rightarrow> True | _ \<Rightarrow> False)) \<and>
       (p_type m = ''datetime'' \<longrightarrow> (case v of MTime _ \<Rightarrow> True | _ \<Rightarrow> False)) \<and>
       (p_type m = ''boolean'' \<longrightarrow> (case v of MBool _ \<Rightarrow> True | _ \<Rightarrow> False)) \<and>
       (p_type m = ''ComplexArray'' \<or> p_type m = ''RealArray'' \<longrightarrow> (case v of MObject z \<Rightarrow> t_class z = p_type m | _ \<Rightarrow> False)) \<and>
       (p_type m = ''Blob'' \<longrightarrow> (case v of MObject _ \<Rightarrow> True | _ \<Rightarrow> False)))"

definition o2t :: "tree \<Rightarrow> bool" where
  "o2t x = (t_publicID x \<noteq> None \<or> list_all (\<lambda>(m, v). p_isIndex m \<longrightarrow> title_of_prop m v) (t_props x))"

text \<open>
  The nodes of added or removed objects: all of them get a title, but without a log those below the root that are not public
  do not.  (A public one always has a title.)
\<close>

definition createLogNodes :: "bool \<Rightarrow> string \<Rightarrow> diff_notifier list \<Rightarrow> bool" where
  "createLogNodes lg rootID ns = list_all (\<lambda>n. (\<not> lg \<and> n_parent n = rootID) \<or> o2t (n_object n)) ns"

section \<open>The comparison\<close>

text \<open>
  What classes and subclasses differ in: objects left out, on the local or the remote side, the confirmation of updates, and
  whether the nodes of a removed subtree are created without a log as well, as \<open>Diff2\<close> does.
\<close>

record hooks =
  blocked :: "tree \<Rightarrow> bool \<Rightarrow> bool"
  confirmUpdate :: "tree \<Rightarrow> tree \<Rightarrow> bool"
  nodes_always :: bool

definition diff_added :: "hooks \<Rightarrow> LogLevel option \<Rightarrow> string \<Rightarrow> string option \<Rightarrow> tree \<Rightarrow> diff_notifier list option" where
  "diff_added h lg par own y =
     (if blocked h y False then Some []
      else if lg \<noteq> None \<and> \<not> createLogNodes True par (visited OP_ADD par own y) then None
      else Some (AppendNotifier OP_ADD par own y))"

definition diff_removed :: "hooks \<Rightarrow> LogLevel option \<Rightarrow> string \<Rightarrow> string option \<Rightarrow> tree \<Rightarrow> diff_notifier list option" where
  "diff_removed h lg par own x =
     (if blocked h x True then Some []
      else if (lg \<noteq> None \<or> nodes_always h) \<and> \<not> createLogNodes (lg \<noteq> None) par (visited OP_REMOVE par own x) then None
      else Some (AppendNotifier OP_REMOVE par own x))"

text \<open>The objects without a counterpart.\<close>

fun diff_rest :: "hooks \<Rightarrow> LogLevel option \<Rightarrow> string \<Rightarrow> string option \<Rightarrow> tree list \<Rightarrow> diff_notifier list option" where
  "diff_rest h lg par own [] = Some []"
| "diff_rest h lg par own (y # ys) =
     (case diff_added h lg par own y of
        None \<Rightarrow> None
      | Some ns \<Rightarrow> map_option (append ns) (diff_rest h lg par own ys))"

text \<open>The first object with the same index.\<close>

fun take_index :: "tree \<Rightarrow> tree list \<Rightarrow> (tree option \<times> tree list) option" where
  "take_index x [] = Some (None, [])"
| "take_index x (y # ys) =
     (case compare True False x y of
        None \<Rightarrow> None
      | Some True \<Rightarrow> Some (Some y, ys)
      | Some False \<Rightarrow> (case take_index x ys of None \<Rightarrow> None | Some (found, rest) \<Rightarrow> Some (found, y # rest)))"

text \<open>The counterpart of an object: the rest is left for the others.\<close>

definition counterpart :: "tree \<Rightarrow> (string \<times> tree) list \<times> tree list \<Rightarrow> (tree option \<times> (string \<times> tree) list \<times> tree list) option" where
  "counterpart x s =
     (case s of (byID, others) \<Rightarrow>
        case t_publicID x of
          Some i \<Rightarrow> Some (map_of byID i, filter (\<lambda>(k, _). k \<noteq> i) byID, others)
        | None \<Rightarrow> map_option (\<lambda>(found, rest). (found, byID, rest)) (take_index x others))"

text \<open>The elements of the other array, the public ones by their identifiers.\<close>

definition sort_out :: "tree list \<Rightarrow> (string \<times> tree) list \<times> tree list" where
  "sort_out ys =
     (fold (\<lambda>y byID. case t_publicID y of None \<Rightarrow> byID | Some i \<Rightarrow> map_insert i y byID) ys [],
      filter (\<lambda>y. t_publicID y = None) ys)"

lemma elements_size: "size_list size (elements v) \<le> Suc (size v + n)"
  by (cases v) simp_all

function (sequential) diff ::
    "hooks \<Rightarrow> LogLevel option \<Rightarrow> tree option \<Rightarrow> tree option \<Rightarrow> string \<Rightarrow> string option \<Rightarrow> string option \<Rightarrow> diff_notifier list option"
  and diff_props :: "hooks \<Rightarrow> LogLevel option \<Rightarrow> tree \<Rightarrow> tree \<Rightarrow> string \<Rightarrow> (meta_property \<times> content) list \<Rightarrow> bool \<Rightarrow> diff_notifier list option"
  and diff_children :: "hooks \<Rightarrow> LogLevel option \<Rightarrow> string \<Rightarrow> string option \<Rightarrow> tree list \<Rightarrow> (string \<times> tree) list \<times> tree list \<Rightarrow> diff_notifier list option" where
  "diff h lg None None par own1 own2 = Some []"
| "diff h lg None (Some y) par own1 own2 = diff_added h lg par own2 y"
| "diff h lg (Some x) None par own1 own2 = diff_removed h lg par own1 x"
| "diff h lg (Some x) (Some y) par own1 own2 =
     (if blocked h x True \<or> blocked h y False then Some []
      else if lg \<noteq> None \<and> \<not> o2t x then None
      else diff_props h lg x y par (t_props x) False)"
| "diff_props h lg x y par [] updateAdded = Some []"
| "diff_props h lg x y par ((m, v) # ps) updateAdded =
     (if \<not> p_isArray m then
        (if updateAdded \<and> \<not> detailed lg then diff_props h lg x y par ps updateAdded
         else
           (case compareNonArrayProperty (detailed lg) m v (read_prop (t_class x) m y) of
              None \<Rightarrow> None
            | Some status \<Rightarrow>
                map_option (append (if \<not> updateAdded \<and> \<not> status \<and> confirmUpdate h x y then [Note par OP_UPDATE y] else []))
                  (diff_props h lg x y par ps (updateAdded \<or> \<not> status))))
      else
        (case t_publicID x of
           None \<Rightarrow> diff_props h lg x y par ps updateAdded
         | Some i \<Rightarrow>
             (case arrayObjects (t_class x) m y of
                None \<Rightarrow> None
              | Some ys \<Rightarrow>
                  (case diff_children h lg i (t_publicID y) (elements v) (sort_out ys) of
                     None \<Rightarrow> None
                   | Some ns \<Rightarrow> map_option (append ns) (diff_props h lg x y par ps updateAdded)))))"
| "diff_children h lg i own2 [] (byID, others) =
     diff_rest h lg i own2 (map snd byID @ others)"
| "diff_children h lg i own2 (x # xs) s =
     (case counterpart x s of
        None \<Rightarrow> None
      | Some (y, s) \<Rightarrow>
          (case diff h lg (Some x) y i (Some i) own2 of
             None \<Rightarrow> None
           | Some ns \<Rightarrow> map_option (append ns) (diff_children h lg i own2 xs s)))"
  by pat_completeness auto

termination
  by (relation "measure (\<lambda>a. case a of
        Inl (_, _, x, _) \<Rightarrow> (case x of None \<Rightarrow> 0 | Some x \<Rightarrow> size x)
      | Inr (Inl (_, _, _, _, _, ps, _)) \<Rightarrow> props_size ps
      | Inr (Inr (_, _, _, _, xs, _)) \<Rightarrow> size_list size xs)")
     (auto intro: props_size_less simp: less_Suc_eq_le elements_size)

text \<open>\<open>Diff2\<close> confirms all updates.\<close>

definition Diff2_diff :: "hooks \<Rightarrow> LogLevel option \<Rightarrow> tree option \<Rightarrow> tree option \<Rightarrow> string \<Rightarrow> string option \<Rightarrow> string option \<Rightarrow> diff_notifier list option" where
  "Diff2_diff h = diff (h\<lparr>confirmUpdate := \<lambda>_ _. True, nodes_always := True\<rparr>)"

definition Diff3_diff :: "hooks \<Rightarrow> LogLevel option \<Rightarrow> tree option \<Rightarrow> tree option \<Rightarrow> string \<Rightarrow> string option \<Rightarrow> string option \<Rightarrow> diff_notifier list option" where
  "Diff3_diff h = diff (h\<lparr>nodes_always := False\<rparr>)"

text \<open>A message, or none.  It keeps a log of its own.  As \<open>diff\<close> is not virtual, this is that of \<open>Diff2\<close> for a \<open>Diff3\<close> as well.\<close>

definition diff2Message :: "hooks \<Rightarrow> tree option \<Rightarrow> tree option \<Rightarrow> string \<Rightarrow> string option \<Rightarrow> string option \<Rightarrow> diff_notifier list option option" where
  "diff2Message h x y par own1 own2 =
     map_option (\<lambda>ns. if ns = [] then None else Some ns) (Diff2_diff h (Some LOG_DIFFERENCES) x y par own1 own2)"

end
