(* ===== verification/TreeStores.thy ===== *)
theory TreeStores
  imports ObjectTrees
begin

text \<open>
  What a receiver of notifiers makes of them: objects that conform to a schema, the part of an object that is compared, the store
  of rows that a tree stands for, and the effect of a list of notifiers on a part of a store.
\<close>

section \<open>Well-typed objects\<close>

text \<open>What a class describes: its properties in order, with values of their types; only public objects have children, and
  their class tells in which array they are; the index of the other objects consists of simple values.\<close>

definition type_names :: "string list" where
  "type_names = [''float'', ''string'', ''datetime'', ''boolean'', ''ComplexArray'', ''RealArray'', ''Blob'']"

definition simple_fits :: "meta_property \<Rightarrow> content \<Rightarrow> bool" where
  "simple_fits m v =
     (if p_isEnum m \<or> p_type m = ''int'' then p_type m \<notin> set type_names \<and> (\<exists>a. v = MInt a)
      else if p_type m = ''float'' then (\<exists>a. v = MDouble a)
      else if p_type m = ''string'' then (\<exists>a. v = MString a)
      else if p_type m = ''datetime'' then (\<exists>a. v = MTime a)
      else if p_type m = ''boolean'' then (\<exists>a. v = MBool a)
      else False)"

lemma size_prop: "a \<in> set ps \<Longrightarrow> size (snd a) < props_size ps"
  by (rule size_list_estimation, assumption) (cases a, simp)

lemma size_array: "x \<in> set xs \<Longrightarrow> size x < Suc (size_list size xs)"
  by (simp add: less_Suc_eq_le size_list_estimation')

function (sequential) conforms :: "(string \<Rightarrow> meta_property list) \<Rightarrow> tree \<Rightarrow> bool"
  and fits :: "(string \<Rightarrow> meta_property list) \<Rightarrow> bool \<Rightarrow> meta_property \<Rightarrow> content \<Rightarrow> bool" where
  "conforms S (Tree c i ps) \<longleftrightarrow>
     map fst ps = S c \<and> distinct (S c) \<and> distinct (map p_type (filter p_isArray (S c))) \<and>
     (i = None \<longrightarrow> (\<forall>m \<in> set (S c). p_isIndex m \<longrightarrow> \<not> p_isArray m \<and> \<not> p_isClass m)) \<and>
     (\<forall>a \<in> set ps. fits S (i \<noteq> None) (fst a) (snd a))"
| "fits S pub m v \<longleftrightarrow>
     (if p_isArray m then (case v of MArray xs \<Rightarrow> pub \<and> (\<forall>x \<in> set xs. t_class x = p_type m \<and> conforms S x) | MNumbers _ \<Rightarrow> True | _ \<Rightarrow> False)
      else if v = Unset then True
      else if p_isClass m then (case v of MObject x \<Rightarrow> conforms S x | _ \<Rightarrow> False)
      else simple_fits m v)"
  by pat_completeness auto

termination
  by (relation "measure (\<lambda>a. case a of Inl (_, x) \<Rightarrow> size x | Inr (_, _, _, v) \<Rightarrow> size v)")
     (auto simp: size_array dest: size_prop)

text \<open>What is compared: everything but arrays.  The identifier is not a property.\<close>

function (sequential) view_tree :: "tree \<Rightarrow> tree" and view :: "content \<Rightarrow> content"
  and view_props :: "(meta_property \<times> content) list \<Rightarrow> (meta_property \<times> content) list" where
  "view_tree (Tree c i ps) = Tree c None (view_props ps)"
| "view (MObject x) = MObject (view_tree x)"
| "view v = v"
| "view_props [] = []"
| "view_props ((m, v) # ps) = (if p_isArray m then view_props ps else (m, view v) # view_props ps)"
  by pat_completeness auto
termination
  by (relation "measure (\<lambda>a. case a of Inl x \<Rightarrow> size x | Inr (Inl v) \<Rightarrow> size v | Inr (Inr ps) \<Rightarrow> props_size ps)") auto

definition index_props :: "(meta_property \<times> content) list \<Rightarrow> (meta_property \<times> content) list" where
  "index_props = filter (\<lambda>a. p_isIndex (fst a))"

lemma view_simple [simp]: "view v = Unset \<longleftrightarrow> v = Unset" "same_type v v' \<Longrightarrow> \<not> (\<exists>x. v = MObject x) \<Longrightarrow> view v = v \<and> view v' = v'"
  by (cases v; cases v'; simp)+

lemma ts_eq_iff [simp]: "ts_eq a b \<longleftrightarrow> a = b"
  by (cases a; cases b) (simp add: ts_eq_def)

lemma compare_simple_view:
  "simple_fits m v1 \<Longrightarrow> simple_fits m v2 \<Longrightarrow> compare_simple m v1 v2 = Some (view v1 = view v2)"
  by (auto simp: simple_fits_def compare_simple_def split: if_splits)

lemma same_type_simple: "simple_fits m v1 \<Longrightarrow> simple_fits m v2 \<Longrightarrow> same_type v1 v2"
  by (auto simp: simple_fits_def split: if_splits)

text \<open>Comparing is equality of what is compared, whether the log asks for more or not.\<close>

lemma compare_view_aux:
  "(conforms S x \<longrightarrow> conforms S y \<longrightarrow> compare indexOnly full x y =
      Some (t_class x = t_class y \<and>
        view_props (if indexOnly then index_props (t_props x) else t_props x) = view_props (if indexOnly then index_props (t_props y) else t_props y)))"
  "\<forall>qs. map fst ps = map fst qs \<longrightarrow> (\<forall>a \<in> set qs. read_prop c (fst a) y = snd a) \<longrightarrow>
      (\<forall>a \<in> set ps. \<exists>pub. fits S pub (fst a) (snd a)) \<longrightarrow> (\<forall>a \<in> set qs. \<exists>pub. fits S pub (fst a) (snd a)) \<longrightarrow>
      compare_props indexOnly full c ps y result =
        Some (result \<and> view_props (if indexOnly then index_props ps else ps) = view_props (if indexOnly then index_props qs else qs))"
  "\<not> p_isArray m \<longrightarrow> fits S pub m v1 \<longrightarrow> fits S pub' m v2 \<longrightarrow> compareNonArrayProperty full m v1 v2 = Some (view v1 = view v2)"
proof (induction indexOnly full x y and indexOnly full c ps y result and full m v1 v2
    arbitrary: and and pub pub' rule: compare_compare_props_compareNonArrayProperty.induct)
  case (1 indexOnly full x y)
  obtain c i ps where x: "x = Tree c i ps" by (cases x)
  obtain c' j qs where y: "y = Tree c' j qs" by (cases y)
  show ?case
  proof (intro impI, cases "c = c'")
    case True
    assume "conforms S x" "conforms S y"
    then have "map fst ps = map fst qs" "\<forall>a \<in> set ps. \<exists>pub. fits S pub (fst a) (snd a)" "\<forall>a \<in> set qs. \<exists>pub. fits S pub (fst a) (snd a)"
      and d: "distinct (map fst qs)"
      using True by (auto simp: x y simp del: fits.simps)
    moreover have "\<forall>a \<in> set qs. read_prop c (fst a) y = snd a"
      using d by (auto simp: read_prop_def y True map_of_is_SomeI)
    ultimately show "compare indexOnly full x y = Some (t_class x = t_class y \<and>
        view_props (if indexOnly then index_props (t_props x) else t_props x) = view_props (if indexOnly then index_props (t_props y) else t_props y))"
      using 1 True by (simp add: x y)
  qed (simp add: x y)
next
  case (2 indexOnly full c y result)
  then show ?case by (simp add: index_props_def)
next
  case (3 indexOnly full c m v ps y result)
  show ?case
  proof (intro allI impI)
    fix qs0
    assume fst: "map fst ((m, v) # ps) = map fst qs0" and read: "\<forall>a \<in> set qs0. read_prop c (fst a) y = snd a"
      and fp: "\<forall>a \<in> set ((m, v) # ps). \<exists>pub. fits S pub (fst a) (snd a)" and fq: "\<forall>a \<in> set qs0. \<exists>pub. fits S pub (fst a) (snd a)"
    then obtain v' qs where q: "qs0 = (m, v') # qs" by (cases qs0) auto
    let ?res = "\<lambda>r. Some (r \<and> view_props (if indexOnly then index_props ps else ps) = view_props (if indexOnly then index_props qs else qs))"
    have rest: "map fst ps = map fst qs" "\<forall>a \<in> set qs. read_prop c (fst a) y = snd a" "\<forall>a \<in> set ps. \<exists>pub. fits S pub (fst a) (snd a)"
      "\<forall>a \<in> set qs. \<exists>pub. fits S pub (fst a) (snd a)"
      using fst read fp fq by (auto simp: q simp del: fits.simps)
    show "compare_props indexOnly full c ((m, v) # ps) y result =
        Some (result \<and> view_props (if indexOnly then index_props ((m, v) # ps) else (m, v) # ps) = view_props (if indexOnly then index_props qs0 else qs0))"
    proof (cases "(indexOnly \<and> \<not> p_isIndex m) \<or> p_isArray m")
      case True
      then have "compare_props indexOnly full c ps y result = ?res result" using 3(1) rest by blast
      with True show ?thesis by (auto simp: q index_props_def simp del: compareNonArrayProperty.simps)
    next
      case False
      obtain pub pub' where "fits S pub m v" "fits S pub' m v'" using fp fq by (auto simp: q simp del: fits.simps)
      moreover have r: "read_prop c m y = v'" using read by (simp add: q)
      ultimately have eq: "compareNonArrayProperty full m v (read_prop c m y) = Some (view v = view v')"
        using 3(2) [OF False] False by blast
      show ?thesis
      proof (cases "view v \<noteq> view v' \<and> result")
        case True
        show ?thesis
        proof (cases "indexOnly \<or> \<not> full")
          case True
          with False eq \<open>view v \<noteq> view v' \<and> result\<close> show ?thesis by (auto simp: q index_props_def simp del: compareNonArrayProperty.simps)
        next
          case full: False
          have "compare_props indexOnly full c ps y False = ?res False"
            using 3(3) [OF False eq] True full rest by blast
          with False eq True full show ?thesis by (auto simp: q index_props_def simp del: compareNonArrayProperty.simps)
        qed
      next
        case same: False
        have "compare_props indexOnly full c ps y result = ?res result"
          using 3(4) [OF False eq] same rest by blast
        with False eq same show ?thesis by (auto simp: q index_props_def simp del: compareNonArrayProperty.simps)
      qed
    qed
  qed
next
  case (4 full m v1 v2)
  show ?case
  proof (intro impI)
    assume m: "\<not> p_isArray m" and f: "fits S pub m v1" "fits S pub' m v2"
    consider "v1 = Unset \<or> v2 = Unset" | "v1 \<noteq> Unset" "v2 \<noteq> Unset" "p_isClass m" | "v1 \<noteq> Unset" "v2 \<noteq> Unset" "\<not> p_isClass m" by blast
    then show "compareNonArrayProperty full m v1 v2 = Some (view v1 = view v2)"
    proof cases
      case 1
      with m show ?thesis by (auto simp: eq_commute [of Unset])
    next
      case 2
      then obtain a b where ab: "v1 = MObject a" "v2 = MObject b" "conforms S a" "conforms S b"
        using f m by (auto split: content.splits)
      then have "compare False full a b = Some (t_class a = t_class b \<and> view_props (t_props a) = view_props (t_props b))"
        using 4 2 m by simp
      then show ?thesis using m 2 ab by (cases a; cases b) simp
    next
      case 3
      with f m have sf: "simple_fits m v1" "simple_fits m v2" by simp_all
      then show ?thesis using m 3 compare_simple_view same_type_simple by simp
    qed
  qed
qed

lemma compare_view:
  assumes "conforms S x" and "conforms S y" and "t_class x = t_class y"
  shows "compare True full x y = Some (view_props (index_props (t_props x)) = view_props (index_props (t_props y)))"
  using compare_view_aux(1) [of S x y True full] assms by simp

lemma property_view:
  "\<not> p_isArray m \<Longrightarrow> fits S pub m v1 \<Longrightarrow> fits S pub' m v2 \<Longrightarrow> compareNonArrayProperty full m v1 v2 = Some (view v1 = view v2)"
  using compare_view_aux(3) [of m S pub v1 pub' v2 full] by blast

section \<open>The store of a receiver\<close>

text \<open>
  A receiver keeps a row for every object, found by the identifier of the parent, the class, and the identifier of the object
  or, if it is not public, its index.  An added object needs its parent and must be new; one that is updated or removed must be
  there, with its parent.
\<close>

datatype ident = ById string | ByIndex "(meta_property \<times> content) list"

type_synonym row_key = "string \<times> string \<times> ident"
type_synonym store = "row_key \<Rightarrow> tree option"

definition ident :: "tree \<Rightarrow> ident" where
  "ident x = (case t_publicID x of Some i \<Rightarrow> ById i | None \<Rightarrow> ByIndex (view_props (index_props (t_props x))))"

definition row_key :: "string \<Rightarrow> tree \<Rightarrow> row_key" where
  "row_key p x = (p, t_class x, ident x)"

definition has_object :: "string \<Rightarrow> string \<Rightarrow> store \<Rightarrow> bool" where
  "has_object home p m \<longleftrightarrow> p = home \<or> (\<exists>k \<in> dom m. snd (snd k) = ById p)"

fun apply_note :: "string \<Rightarrow> diff_notifier \<Rightarrow> store \<Rightarrow> store option" where
  "apply_note home (Note p op x) m =
     (if \<not> has_object home p m then None
      else
        case op of
          OP_ADD \<Rightarrow> if m (row_key p x) = None then Some (m(row_key p x \<mapsto> view_tree x)) else None
        | OP_UPDATE \<Rightarrow> if m (row_key p x) \<noteq> None then Some (m(row_key p x \<mapsto> view_tree x)) else None
        | OP_REMOVE \<Rightarrow> if m (row_key p x) \<noteq> None then Some (m(row_key p x := None)) else None
        | OP_UNDEFINED \<Rightarrow> None)"

fun apply_notes :: "string \<Rightarrow> diff_notifier list \<Rightarrow> store \<Rightarrow> store option" where
  "apply_notes home [] m = Some m"
| "apply_notes home (n # ns) m = (case apply_note home n m of None \<Rightarrow> None | Some m \<Rightarrow> apply_notes home ns m)"

lemma apply_notes_append:
  "apply_notes home (ns @ ns') m = (case apply_notes home ns m of None \<Rightarrow> None | Some m \<Rightarrow> apply_notes home ns' m)"
  by (induction ns arbitrary: m) (auto split: option.split)

text \<open>The rows of a tree.\<close>

function rows :: "string \<Rightarrow> tree \<Rightarrow> (row_key \<times> tree) list" where
  "rows p x = (row_key p x, view_tree x) #
     (case t_publicID x of None \<Rightarrow> [] | Some i \<Rightarrow> concat (map (rows i) (children x)))"
  by pat_completeness auto
termination by (relation "measure (\<lambda>(_, x). size x)") (auto simp: size_child)

declare rows.simps [simp del]

definition keys :: "string \<Rightarrow> tree \<Rightarrow> row_key set" where
  "keys p x = fst ` set (rows p x)"

definition store_of :: "string \<Rightarrow> tree \<Rightarrow> store" where
  "store_of p x = map_of (rows p x)"

section \<open>The effect of notifiers on a part of the store\<close>

text \<open>
  In a store that holds \<open>F\<close> on the keys \<open>K\<close>, and the objects \<open>P\<close> outside of them, the notifiers are applied without a failure, leave
  \<open>G\<close> on \<open>K\<close> and the rest alone; each is for a row that differs.
\<close>

definition present :: "string \<Rightarrow> string \<Rightarrow> row_key set \<Rightarrow> store \<Rightarrow> bool" where
  "present home p K m \<longleftrightarrow> p = home \<or> (\<exists>k \<in> dom m - K. snd (snd k) = ById p)"

definition note_key :: "diff_notifier \<Rightarrow> row_key" where
  "note_key n = row_key (n_parent n) (n_object n)"

definition turns :: "string \<Rightarrow> string \<Rightarrow> diff_notifier list \<Rightarrow> row_key set \<Rightarrow> store \<Rightarrow> store \<Rightarrow> bool" where
  "turns home p ns K F G \<longleftrightarrow>
     (\<forall>n \<in> set ns. note_key n \<in> K \<and> F (note_key n) \<noteq> G (note_key n)) \<and>
     (\<forall>m. present home p K m \<longrightarrow> (\<forall>k \<in> K. m k = F k) \<longrightarrow>
        (\<exists>m'. apply_notes home ns m = Some m' \<and> (\<forall>k \<in> K. m' k = G k) \<and> (\<forall>k. k \<notin> K \<longrightarrow> m' k = m k)))"

lemma present_outside: "(\<forall>k. k \<notin> K' \<longrightarrow> m' k = m k) \<Longrightarrow> present home p (K \<union> K') m \<Longrightarrow> present home p K m'"
  by (auto simp: present_def)

lemma turns_nil: "(\<forall>k \<in> K. F k = G k) \<Longrightarrow> turns home p [] K F G"
  by (auto simp: turns_def)

text \<open>Notifiers for separate parts of the store one after the other.\<close>

lemma turns_append:
  assumes "turns home p ns K F G" and "turns home p ns' K' F G" and sep: "K \<inter> K' = {}"
  shows "turns home p (ns @ ns') (K \<union> K') F G"
  unfolding turns_def
proof (intro conjI allI impI)
  show "\<forall>n \<in> set (ns @ ns'). note_key n \<in> K \<union> K' \<and> F (note_key n) \<noteq> G (note_key n)"
    using assms by (auto simp: turns_def)
next
  fix m assume pres: "present home p (K \<union> K') m" and m: "\<forall>k \<in> K \<union> K'. m k = F k"
  have "present home p K m" using pres by (auto simp: present_def)
  then obtain m1 where m1: "apply_notes home ns m = Some m1" "\<forall>k \<in> K. m1 k = G k" "\<forall>k. k \<notin> K \<longrightarrow> m1 k = m k"
    using assms(1) m by (auto simp: turns_def)
  have "present home p K' m1" using present_outside [of K m1 m home p K'] m1(3) pres by (simp add: Un_commute)
  moreover have "\<forall>k \<in> K'. m1 k = F k" using m m1(3) sep by (metis IntI UnI2 empty_iff)
  ultimately obtain m2 where m2: "apply_notes home ns' m1 = Some m2" "\<forall>k \<in> K'. m2 k = G k" "\<forall>k. k \<notin> K' \<longrightarrow> m2 k = m1 k"
    using assms(2) unfolding turns_def by blast
  show "\<exists>m'. apply_notes home (ns @ ns') m = Some m' \<and> (\<forall>k \<in> K \<union> K'. m' k = G k) \<and> (\<forall>k. k \<notin> K \<union> K' \<longrightarrow> m' k = m k)"
    using m1 m2 sep by (intro exI [of _ m2]) (auto simp: apply_notes_append disjoint_iff)
qed

lemma turns_concat:
  "(\<And>x. x \<in> set xs \<Longrightarrow> turns home p (f x) (K x) F G) \<Longrightarrow> sorted_wrt (\<lambda>x y. K x \<inter> K y = {}) xs \<Longrightarrow>
     turns home p (concat (map f xs)) (\<Union>x \<in> set xs. K x) F G"
proof (induction xs)
  case Nil
  show ?case by (simp add: turns_nil)
next
  case (Cons x xs)
  have "turns home p (f x @ concat (map f xs)) (K x \<union> (\<Union>x \<in> set xs. K x)) F G"
    by (rule turns_append) (use Cons in auto)
  then show ?case by simp
qed

lemma turns_cong:
  assumes "turns home p ns K F G" and "\<And>k. k \<in> K \<Longrightarrow> F k = F' k" and "\<And>k. k \<in> K \<Longrightarrow> G k = G' k"
  shows "turns home p ns K F' G'"
proof -
  have "(\<forall>k \<in> K. m k = F' k) = (\<forall>k \<in> K. m k = F k)" "(\<forall>k \<in> K. m k = G' k) = (\<forall>k \<in> K. m k = G k)" for m
    using assms(2,3) by auto
  moreover have "note_key n \<in> K \<and> F' (note_key n) \<noteq> G' (note_key n)" if "n \<in> set ns" for n
  proof -
    have "note_key n \<in> K" "F (note_key n) \<noteq> G (note_key n)" using assms(1) that by (simp_all add: turns_def)
    with assms(2,3) show ?thesis by simp
  qed
  ultimately show ?thesis using assms(1) by (simp add: turns_def)
qed

text \<open>An object and what is below it.\<close>

lemma turns_below_first:
  assumes A: "turns home i ns KA F G" and N: "turns home p ns' K F G" and k: "k \<in> K" "F k \<noteq> None" "snd (snd k) = ById i"
    and sep: "KA \<inter> K = {}"
  shows "turns home p (ns @ ns') (KA \<union> K) F G"
  unfolding turns_def
proof (intro conjI allI impI)
  show "\<forall>n \<in> set (ns @ ns'). note_key n \<in> KA \<union> K \<and> F (note_key n) \<noteq> G (note_key n)"
    using A N by (auto simp: turns_def)
next
  fix m assume pres: "present home p (KA \<union> K) m" and m: "\<forall>k \<in> KA \<union> K. m k = F k"
  have "k \<in> dom m - KA" using m k(1,2) sep by auto
  then have "present home i KA m" using k(3) unfolding present_def by blast
  then obtain m1 where m1: "apply_notes home ns m = Some m1" "\<forall>k \<in> KA. m1 k = G k" "\<forall>k. k \<notin> KA \<longrightarrow> m1 k = m k"
    using A m unfolding turns_def by blast
  have "present home p K m1" using present_outside [of KA m1 m home p K] m1(3) pres by (simp add: Un_commute)
  moreover have "\<forall>k \<in> K. m1 k = F k" using m m1(3) sep by (metis IntI UnI2 empty_iff)
  ultimately obtain m2 where m2: "apply_notes home ns' m1 = Some m2" "\<forall>k \<in> K. m2 k = G k" "\<forall>k. k \<notin> K \<longrightarrow> m2 k = m1 k"
    using N unfolding turns_def by blast
  show "\<exists>m'. apply_notes home (ns @ ns') m = Some m' \<and> (\<forall>k \<in> KA \<union> K. m' k = G k) \<and> (\<forall>k. k \<notin> KA \<union> K \<longrightarrow> m' k = m k)"
    using m1 m2 sep by (intro exI [of _ m2]) (auto simp: apply_notes_append disjoint_iff)
qed

lemma turns_below_last:
  assumes N: "turns home p ns' K F G" and A: "turns home i ns KA F G" and k: "k \<in> K" "G k \<noteq> None" "snd (snd k) = ById i"
    and sep: "KA \<inter> K = {}"
  shows "turns home p (ns' @ ns) (KA \<union> K) F G"
  unfolding turns_def
proof (intro conjI allI impI)
  show "\<forall>n \<in> set (ns' @ ns). note_key n \<in> KA \<union> K \<and> F (note_key n) \<noteq> G (note_key n)"
    using A N by (auto simp: turns_def)
next
  fix m assume pres: "present home p (KA \<union> K) m" and m: "\<forall>k \<in> KA \<union> K. m k = F k"
  have "present home p K m" using pres by (auto simp: present_def)
  then obtain m1 where m1: "apply_notes home ns' m = Some m1" "\<forall>k \<in> K. m1 k = G k" "\<forall>k. k \<notin> K \<longrightarrow> m1 k = m k"
    using N m unfolding turns_def by blast
  have "k \<in> dom m1 - KA" using m1(2) k(1,2) sep by auto
  then have "present home i KA m1" using k(3) unfolding present_def by blast
  moreover have "\<forall>k \<in> KA. m1 k = F k" using m m1(3) sep by (metis IntI UnI1 empty_iff)
  ultimately obtain m2 where m2: "apply_notes home ns m1 = Some m2" "\<forall>k \<in> KA. m2 k = G k" "\<forall>k. k \<notin> KA \<longrightarrow> m2 k = m1 k"
    using A unfolding turns_def by blast
  show "\<exists>m'. apply_notes home (ns' @ ns) m = Some m' \<and> (\<forall>k \<in> KA \<union> K. m' k = G k) \<and> (\<forall>k. k \<notin> KA \<union> K \<longrightarrow> m' k = m k)"
    using m1 m2 sep by (intro exI [of _ m2]) (auto simp: apply_notes_append disjoint_iff)
qed

text \<open>A single notifier.\<close>

lemma present_has: "present home p K m \<Longrightarrow> has_object home p m"
  by (auto simp: present_def has_object_def)

lemma turns_add: "F (row_key p x) = None \<Longrightarrow> G (row_key p x) = Some (view_tree x) \<Longrightarrow> turns home p [Note p OP_ADD x] {row_key p x} F G"
  by (auto simp: turns_def note_key_def dest: present_has)

lemma turns_remove: "F (row_key p x) \<noteq> None \<Longrightarrow> G (row_key p x) = None \<Longrightarrow> turns home p [Note p OP_REMOVE x] {row_key p x} F G"
  by (auto simp: turns_def note_key_def dest: present_has)

lemma turns_update:
  "F k \<noteq> None \<Longrightarrow> F k \<noteq> G k \<Longrightarrow> G k = Some (view_tree x) \<Longrightarrow> k = row_key p x \<Longrightarrow> turns home p [Note p OP_UPDATE x] {k} F G"
  by (auto simp: turns_def note_key_def dest: present_has)

section \<open>Adding and removing a subtree\<close>

lemma keys_concat: "fst ` set (concat (map (rows i) xs)) = (\<Union>x \<in> set xs. keys i x)"
  by (auto simp: keys_def image_Union)

lemma distinct_concat_rows:
  "distinct (map fst (concat (map (rows i) xs))) \<Longrightarrow>
     distinct xs \<and> (\<forall>a \<in> set xs. distinct (map fst (rows i a))) \<and> (\<forall>a \<in> set xs. \<forall>b \<in> set xs. a \<noteq> b \<longrightarrow> keys i a \<inter> keys i b = {})"
proof (induction xs)
  case (Cons x xs)
  have self: "row_key i y \<in> keys i y" for y by (simp add: keys_def rows.simps [of i y])
  have sep: "keys i x \<inter> (\<Union>x \<in> set xs. keys i x) = {}" "distinct (map fst (rows i x))" "distinct (map fst (concat (map (rows i) xs)))"
    using Cons.prems unfolding keys_concat [symmetric] by (simp_all add: keys_def)
  then have "x \<notin> set xs" using self by blast
  with sep Cons.IH show ?case by (auto simp: Int_commute)
qed simp

lemma keys_rows: "keys p x = insert (row_key p x) (case t_publicID x of None \<Rightarrow> {} | Some i \<Rightarrow> (\<Union>y \<in> set (children x). keys i y))"
  by (auto simp: keys_def rows.simps [of p x] split: option.split)

lemma sorted_wrt_distinct: "distinct xs \<Longrightarrow> (\<forall>a \<in> set xs. \<forall>b \<in> set xs. a \<noteq> b \<longrightarrow> R a b) \<Longrightarrow> sorted_wrt R xs"
  by (induction xs) auto

lemma store_of_key: "store_of p x (row_key p x) = Some (view_tree x)"
  by (simp add: store_of_def rows.simps [of p x])

lemma store_of_none: "k \<notin> keys p x \<Longrightarrow> store_of p x k = None"
  by (simp add: store_of_def keys_def map_of_eq_None_iff)

lemma store_of_some: "k \<in> keys p x \<Longrightarrow> store_of p x k \<noteq> None"
  by (simp add: store_of_def keys_def map_of_eq_None_iff)

lemma map_of_part:
  "distinct (map fst (concat (map f xs))) \<Longrightarrow> x \<in> set xs \<Longrightarrow> k \<in> fst ` set (f x) \<Longrightarrow> map_of (concat (map f xs)) k = map_of (f x) k"
proof (induction xs)
  case (Cons y xs)
  show ?case
  proof (cases "x \<in> set xs")
    case False
    with Cons.prems have "x = y" by simp
    moreover obtain v where "map_of (f x) k = Some v" using Cons.prems(3) by (metis map_of_eq_None_iff not_None_eq)
    ultimately show ?thesis using Cons.prems(1) by (simp add: map_add_comm [of "map_of (f y)"] dom_map_of_conv_image_fst)
  next
    case True
    with Cons.prems have "k \<notin> fst ` set (f y)" by (auto simp: disjoint_iff)
    with True Cons show ?thesis by (simp add: map_add_def map_of_eq_None_iff [THEN iffD2] split: option.split)
  qed
qed simp

lemma store_of_child:
  assumes "distinct (map fst (rows p x))" and "t_publicID x = Some i" and "y \<in> set (children x)" and "k \<in> keys i y"
  shows "store_of p x k = store_of i y k"
proof -
  have "k \<in> fst ` set (concat (map (rows i) (children x)))" unfolding keys_concat using assms(3,4) by blast
  moreover have "row_key p x \<notin> fst ` set (concat (map (rows i) (children x)))" using assms(1,2) by (simp add: rows.simps [of p x])
  ultimately have "k \<noteq> row_key p x" by blast
  then show ?thesis
    using assms map_of_part [of "rows i" "children x" y k] by (simp add: store_of_def rows.simps [of p x] keys_def)
qed

lemma rows_below:
  assumes "distinct (map fst (rows p x))" and "t_publicID x = Some i"
  shows "distinct (map fst (concat (map (rows i) (children x))))" and "row_key p x \<notin> (\<Union>y \<in> set (children x). keys i y)"
    and "keys p x = (\<Union>y \<in> set (children x). keys i y) \<union> {row_key p x}" and "distinct (children x)"
    and "\<And>y. y \<in> set (children x) \<Longrightarrow> distinct (map fst (rows i y))"
    and "sorted_wrt (\<lambda>a b. keys i a \<inter> keys i b = {}) (children x)"
proof -
  show d: "distinct (map fst (concat (map (rows i) (children x))))" and "row_key p x \<notin> (\<Union>y \<in> set (children x). keys i y)"
    using assms by (auto simp: rows.simps [of p x] keys_def)
  show "keys p x = (\<Union>y \<in> set (children x). keys i y) \<union> {row_key p x}" by (simp add: keys_rows [of p x] assms(2))
  show "distinct (children x)" "\<And>y. y \<in> set (children x) \<Longrightarrow> distinct (map fst (rows i y))"
    "sorted_wrt (\<lambda>a b. keys i a \<inter> keys i b = {}) (children x)"
    using distinct_concat_rows [OF d] by (auto intro!: sorted_wrt_distinct)
qed

lemma notify_add_turns:
  "distinct (map fst (rows p x)) \<Longrightarrow> \<forall>k \<in> keys p x. F k = None \<and> G k = store_of p x k \<Longrightarrow>
     turns home p (notify OP_ADD p x) (keys p x) F G"
proof (induction p x rule: rows.induct)
  case (1 p x)
  have k: "F (row_key p x) = None" "G (row_key p x) = Some (view_tree x)" using "1.prems"(2) by (simp_all add: keys_rows [of p x] store_of_key)
  show ?case
  proof (cases "t_publicID x")
    case None
    with k show ?thesis by (simp add: notify.simps [of _ p x] keys_rows [of p x] turns_add)
  next
    case (Some i)
    note below = rows_below [OF "1.prems"(1) Some]
    have "turns home i (notify OP_ADD i y) (keys i y) F G" if y: "y \<in> set (children x)" for y
    proof (rule "1.IH" [OF Some y below(5) [OF y]])
      show "\<forall>k \<in> keys i y. F k = None \<and> G k = store_of i y k"
        using "1.prems"(2) store_of_child [OF "1.prems"(1) Some y] y by (auto simp: below(3))
    qed
    then have "turns home i (concat (map (notify OP_ADD i) (children x))) (\<Union>y \<in> set (children x). keys i y) F G"
      using below(6) by (rule turns_concat)
    from turns_below_last [OF turns_add this, of p x] k below(2) Some show ?thesis
      by (simp add: notify.simps [of _ p x] below(3) row_key_def ident_def)
  qed
qed

lemma notify_remove_turns:
  "distinct (map fst (rows p x)) \<Longrightarrow> \<forall>k \<in> keys p x. G k = None \<and> F k = store_of p x k \<Longrightarrow>
     turns home p (notify OP_REMOVE p x) (keys p x) F G"
proof (induction p x rule: rows.induct)
  case (1 p x)
  have k: "G (row_key p x) = None" "F (row_key p x) \<noteq> None" using "1.prems"(2) by (simp_all add: keys_rows [of p x] store_of_key)
  show ?case
  proof (cases "t_publicID x")
    case None
    with k show ?thesis by (simp add: notify.simps [of _ p x] keys_rows [of p x] turns_remove)
  next
    case (Some i)
    note below = rows_below [OF "1.prems"(1) Some]
    have "turns home i (notify OP_REMOVE i y) (keys i y) F G" if y: "y \<in> set (children x)" for y
    proof (rule "1.IH" [OF Some y below(5) [OF y]])
      show "\<forall>k \<in> keys i y. G k = None \<and> F k = store_of i y k"
        using "1.prems"(2) store_of_child [OF "1.prems"(1) Some y] y by (auto simp: below(3))
    qed
    then have "turns home i (concat (map (notify OP_REMOVE i) (children x))) (\<Union>y \<in> set (children x). keys i y) F G"
      using below(6) by (rule turns_concat)
    from turns_below_first [OF this turns_remove, of p x] k below(2) Some show ?thesis
      by (simp add: notify.simps [of _ p x] below(3) row_key_def ident_def)
  qed
qed

end
