(* ===== verification/TreePairs.thy ===== *)
theory TreePairs
  imports TreeStores
begin

text \<open>
  Pairs of trees that can be compared: their identifiers, the rows they share, and the search for the counterpart of an
  object.
\<close>

section \<open>Identifiers and places\<close>

function ids :: "tree \<Rightarrow> string list" where
  "ids x = (case t_publicID x of None \<Rightarrow> [] | Some i \<Rightarrow> i # concat (map ids (children x)))"
  by pat_completeness auto
termination by (relation "measure size") (auto simp: size_child)

declare ids.simps [simp del]

lemma ids_child: "t_publicID x = Some i \<Longrightarrow> y \<in> set (children x) \<Longrightarrow> set (ids y) \<subseteq> set (ids x)"
  by (auto simp: ids.simps [of x])

lemma ids_distinct_child:
  assumes "distinct (ids x)" and "t_publicID x = Some i" and "y \<in> set (children x)"
  shows "distinct (ids y)" and "i \<notin> set (ids y)"
  using assms by (auto simp: ids.simps [of x] dest: split_list)

text \<open>Every key is that of a child of the given object or of one of the tree.\<close>

lemma key_parent: "k \<in> keys p x \<Longrightarrow> k = row_key p x \<or> (fst k \<in> set (ids x) \<and> (\<exists>k' \<in> keys p x. snd (snd k') = ById (fst k)))"
proof (induction p x rule: rows.induct)
  case (1 p x)
  show ?case
  proof (cases "k = row_key p x")
    case False
    with "1.prems" obtain i y where i: "t_publicID x = Some i" and y: "y \<in> set (children x)" "k \<in> keys i y"
      by (auto simp: keys_rows [of p x] split: option.splits)
    have sub: "keys i y \<subseteq> keys p x" "set (ids y) \<subseteq> set (ids x)" "i \<in> set (ids x)" "row_key p x \<in> keys p x"
      using i y ids_child [OF i y(1)] by (auto simp: keys_rows [of p x] ids.simps [of x])
    from "1.IH" [OF i y] show ?thesis
    proof
      assume "k = row_key i y"
      moreover have "snd (snd (row_key p x)) = ById i" by (simp add: row_key_def ident_def i)
      ultimately have "fst k = i" "\<exists>k' \<in> keys p x. snd (snd k') = ById i"
        using bexI [OF _ sub(4), of "\<lambda>k. snd (snd k) = ById i"] by (simp_all add: row_key_def)
      with sub(3) show ?thesis by simp
    next
      assume "fst k \<in> set (ids y) \<and> (\<exists>k' \<in> keys i y. snd (snd k') = ById (fst k))"
      with sub show ?thesis by blast
    qed
  qed simp
qed

text \<open>No public object has another place in the second tree.\<close>

definition same_place :: "row_key set \<Rightarrow> row_key set \<Rightarrow> bool" where
  "same_place K K' \<longleftrightarrow> (\<forall>k \<in> K. \<forall>k' \<in> K'. \<forall>i. snd (snd k) = ById i \<longrightarrow> snd (snd k') = ById i \<longrightarrow> k = k')"

lemma same_place_mono: "same_place K K' \<Longrightarrow> L \<subseteq> K \<Longrightarrow> L' \<subseteq> K' \<Longrightarrow> same_place L L'"
  unfolding same_place_def by blast

lemma same_place_sym: "same_place K K' \<Longrightarrow> same_place K' K"
  unfolding same_place_def by metis

lemma keys_child: "t_publicID x = Some i \<Longrightarrow> y \<in> set (children x) \<Longrightarrow> keys i y \<subseteq> keys p x"
  by (auto simp: keys_rows [of p x])

lemma shared_key_up:
  "k \<in> keys q a \<Longrightarrow> k \<in> keys r b \<Longrightarrow> same_place (keys q a) (keys r b) \<Longrightarrow> r \<notin> set (ids a) \<Longrightarrow> row_key q a \<in> keys r b"
proof (induction q a rule: rows.induct)
  case (1 q a)
  show ?case
  proof (cases "k = row_key q a")
    case False
    with "1.prems"(1) obtain i c where i: "t_publicID a = Some i" and c: "c \<in> set (children a)" "k \<in> keys i c"
      by (auto simp: keys_rows [of q a] split: option.splits)
    have sub: "keys i c \<subseteq> keys q a" "r \<notin> set (ids c)" "r \<noteq> i"
      using keys_child [OF i c(1)] ids_child [OF i c(1)] "1.prems"(4) i by (auto simp: ids.simps [of a])
    have up: "row_key i c \<in> keys r b"
      using "1.IH" [OF i c "1.prems"(2) same_place_mono [OF "1.prems"(3) sub(1) order.refl] sub(2)] .
    have "row_key i c \<noteq> row_key r b" using sub(3) by (simp add: row_key_def)
    with key_parent [OF up] obtain k' where k': "k' \<in> keys r b" "snd (snd k') = ById i" by (auto simp: row_key_def)
    have "row_key q a \<in> keys q a" "snd (snd (row_key q a)) = ById i" by (simp_all add: keys_rows [of q a] row_key_def ident_def i)
    with "1.prems"(3) k' show ?thesis unfolding same_place_def by metis
  qed (use "1.prems" in simp)
qed

text \<open>Children of the two objects that share a key are counterparts.\<close>

lemma shared_key:
  assumes "k \<in> keys i a" and "k \<in> keys i b" and "same_place (keys i a) (keys i b)" and "i \<notin> set (ids a)" and "i \<notin> set (ids b)"
  shows "row_key i a = row_key i b"
proof -
  have "row_key i a \<in> keys i b" by (rule shared_key_up [OF assms(1,2,3,4)])
  from key_parent [OF this] show ?thesis using assms(5) by (auto simp: row_key_def)
qed

section \<open>The two trees\<close>

text \<open>
  Two objects with the same place and class, well typed, with identifiers that are used once and are not empty, whose siblings are told
  apart, and of which no public object has moved.
\<close>

definition comparable :: "(string \<Rightarrow> meta_property list) \<Rightarrow> string \<Rightarrow> tree \<Rightarrow> tree \<Rightarrow> bool" where
  "comparable S p x y \<longleftrightarrow> row_key p x = row_key p y \<and> conforms S x \<and> conforms S y \<and>
     distinct (map fst (rows p x)) \<and> distinct (map fst (rows p y)) \<and> distinct (ids x) \<and> distinct (ids y) \<and>
     [] \<notin> set (ids x) \<and> [] \<notin> set (ids y) \<and> p \<notin> set (ids x) \<and> p \<notin> set (ids y) \<and> same_place (keys p x) (keys p y)"

lemma same_class: "comparable S p x y \<Longrightarrow> t_class x = t_class y" and same_id: "comparable S p x y \<Longrightarrow> t_publicID x = t_publicID y"
  by (auto simp: comparable_def row_key_def ident_def split: option.splits)

lemma conforms_child:
  assumes "conforms S x" and "y \<in> set (children x)"
  shows "conforms S y" and "\<exists>i. t_publicID x = Some i"
proof -
  obtain c i ps where x: "x = Tree c i ps" by (cases x)
  obtain m v where v: "(m, v) \<in> set ps" "y \<in> set (elements v)" using assms(2) by (auto simp: children_def x)
  then obtain xs where xs: "v = MArray xs" by (cases v) auto
  have "fits S (i \<noteq> None) m v" using assms(1) v(1) by (auto simp: x simp del: fits.simps)
  moreover have "p_isArray m" using calculation by (auto simp: xs simple_fits_def split: if_splits)
  ultimately show "conforms S y" and "\<exists>i. t_publicID x = Some i" using v(2) by (auto simp: xs x)
qed

lemma child_comparable:
  assumes xy: "comparable S p x y" and i: "t_publicID x = Some i" and a: "a \<in> set (children x)" and b: "b \<in> set (children y)"
    and key: "row_key i a = row_key i b"
  shows "comparable S i a b"
proof -
  have iy: "t_publicID y = Some i" using same_id [OF xy] i by simp
  have keys: "keys i a \<subseteq> keys p x" "keys i b \<subseteq> keys p y" by (rule keys_child [OF i a], rule keys_child [OF iy b])
  have d: "distinct (ids x)" "distinct (ids y)" "distinct (map fst (rows p x))" "distinct (map fst (rows p y))"
    using xy by (simp_all add: comparable_def)
  have "i \<in> set (ids x)" using i by (simp add: ids.simps [of x])
  then show ?thesis
    using xy key conforms_child(1) [OF _ a] conforms_child(1) [OF _ b] rows_below(5) [OF d(3) i a] rows_below(5) [OF d(4) iy b]
      ids_distinct_child [OF d(1) i a] ids_distinct_child [OF d(2) iy b] ids_child [OF i a] ids_child [OF iy b] same_place_mono [OF _ keys]
    by (auto simp: comparable_def)
qed

lemma children_shared:
  assumes xy: "comparable S p x y" and i: "t_publicID x = Some i" and a: "a \<in> set (children x)" and b: "b \<in> set (children y)"
    and k: "k \<in> keys i a" "k \<in> keys i b"
  shows "row_key i a = row_key i b"
proof (rule shared_key [OF k])
  have iy: "t_publicID y = Some i" using same_id [OF xy] i by simp
  show "same_place (keys i a) (keys i b)"
    using xy same_place_mono [OF _ keys_child [OF i a, of p] keys_child [OF iy b, of p]] by (simp add: comparable_def)
  show "i \<notin> set (ids a)" "i \<notin> set (ids b)"
    using ids_distinct_child(2) [OF _ i a] ids_distinct_child(2) [OF _ iy b] xy by (simp_all add: comparable_def)
qed

text \<open>Keys of children are not that of the object.\<close>

lemma other_tree_none:
  assumes xy: "comparable S p x y" and i: "t_publicID x = Some i" and a: "a \<in> set (children x)" and k: "k \<in> keys i a"
    and none: "\<And>b. b \<in> set (children y) \<Longrightarrow> row_key i b = row_key i a \<Longrightarrow> k \<notin> keys i b"
  shows "store_of p y k = None"
proof (rule store_of_none)
  have iy: "t_publicID y = Some i" using same_id [OF xy] i by simp
  have "k \<noteq> row_key p y"
    using rows_below(2) [of p x i] xy i a k by (auto simp: comparable_def)
  moreover have "k \<notin> keys i b" if "b \<in> set (children y)" for b
    using none [OF that] children_shared [OF xy i a that k] by metis
  ultimately show "k \<notin> keys p y" by (simp add: keys_rows [of p y] iy)
qed

lemma comparable_sym: "comparable S p x y \<Longrightarrow> comparable S p y x"
  by (auto simp: comparable_def same_place_sym)

section \<open>Counterparts\<close>

text \<open>What is left of the other array: the public objects by their identifiers, and the others.\<close>

definition left :: "(string \<times> tree) list \<times> tree list \<Rightarrow> tree list" where
  "left s = map snd (fst s) @ snd s"

definition left_ok :: "(string \<times> tree) list \<times> tree list \<Rightarrow> bool" where
  "left_ok s \<longleftrightarrow> (\<forall>(k, y) \<in> set (fst s). t_publicID y = Some k) \<and> distinct (map fst (fst s)) \<and>
     (\<forall>y \<in> set (snd s). t_publicID y = None) \<and> distinct (snd s)"

lemma left_distinct: "left_ok s \<Longrightarrow> distinct (left s)"
proof -
  assume ok: "left_ok s"
  have "inj_on snd (set (fst s))"
  proof (rule inj_onI)
    fix a b assume "a \<in> set (fst s)" "b \<in> set (fst s)" "snd a = snd b"
    moreover have "\<forall>e \<in> set (fst s). t_publicID (snd e) = Some (fst e)" using ok by (auto simp: left_ok_def)
    ultimately have "fst a = fst b" by (metis option.inject)
    with \<open>snd a = snd b\<close> show "a = b" by (simp add: prod_eqI)
  qed
  moreover have "distinct (fst s)" using ok by (auto simp: left_ok_def distinct_map)
  moreover have "snd ` set (fst s) \<inter> set (snd s) = {}" using ok by (fastforce simp: left_ok_def)
  ultimately show ?thesis using ok by (simp add: left_def distinct_map left_ok_def)
qed

definition sorted_in :: "tree \<Rightarrow> (string \<times> tree) list \<Rightarrow> (string \<times> tree) list" where
  "sorted_in y byID = (case t_publicID y of None \<Rightarrow> byID | Some i \<Rightarrow> map_insert i y byID)"

lemma map_insert_new: "k \<notin> fst ` set es \<Longrightarrow> set (map_insert k v es) = insert (k, v) (set es)"
  by (induction k v es rule: map_insert.induct) auto

lemma sort_out_left:
  assumes "inj_on (row_key i) (set ys)" and "distinct ys" and cls: "\<forall>y \<in> set ys. t_class y = c"
  shows "left_ok (sort_out ys)" and "set (left (sort_out ys)) = set ys"
proof -
  have sorted: "keys_sorted es \<Longrightarrow> keys_sorted (fold sorted_in zs es)" for es zs
    by (induction zs arbitrary: es) (simp_all add: sorted_in_def map_insert_sorted split: option.split)
  have fold: "set (fold sorted_in zs es) = set es \<union> {(j, y). y \<in> set zs \<and> t_publicID y = Some j}"
    if "inj_on (row_key i) (set zs)" "distinct zs" "\<forall>y \<in> set zs. t_class y = c"
      "\<forall>y \<in> set zs. \<forall>j. t_publicID y = Some j \<longrightarrow> j \<notin> fst ` set es" for es zs
    using that
  proof (induction zs arbitrary: es)
    case (Cons z zs)
    have hyp: "inj_on (row_key i) (set zs)" "distinct zs" "\<forall>y \<in> set zs. t_class y = c"
      using Cons.prems by (simp_all add: inj_on_def)
    show ?case
    proof (cases "t_publicID z")
      case None
      have "\<forall>y \<in> set zs. \<forall>j. t_publicID y = Some j \<longrightarrow> j \<notin> fst ` set es" using Cons.prems(4) by simp
      note IH = Cons.IH [OF hyp this]
      have "sorted_in z es = es" by (simp add: sorted_in_def None)
      moreover have "{(j, y). y \<in> set (z # zs) \<and> t_publicID y = Some j} = {(j, y). y \<in> set zs \<and> t_publicID y = Some j}"
        using None by auto
      ultimately show ?thesis using IH by (simp only: fold_Cons comp_apply)
    next
      case (Some j)
      have new: "set (map_insert j z es) = insert (j, z) (set es)" by (rule map_insert_new) (use Cons.prems(4) Some in auto)
      have "t_publicID y \<noteq> Some j" if "y \<in> set zs" for y
      proof
        assume "t_publicID y = Some j"
        then have "row_key i y = row_key i z" using Cons.prems(3) Some that by (simp add: row_key_def ident_def)
        then show False using Cons.prems(1,2) that by (auto simp: inj_on_def)
      qed
      then have "\<forall>y \<in> set zs. \<forall>j'. t_publicID y = Some j' \<longrightarrow> j' \<notin> fst ` set (map_insert j z es)"
        using Cons.prems(4) by (auto simp: map_insert_keys)
      from Cons.IH [OF hyp this] Some show ?thesis by (auto simp: sorted_in_def new)
    qed
  qed simp
  have sort: "sort_out ys = (fold sorted_in ys [], filter (\<lambda>y. t_publicID y = None) ys)"
    by (simp add: sort_out_def sorted_in_def [abs_def])
  have byID: "keys_sorted (fold sorted_in ys [])" "set (fold sorted_in ys []) = {(j, y). y \<in> set ys \<and> t_publicID y = Some j}"
    using sorted [of "[]" ys] fold [of ys "[]"] assms by (simp_all add: keys_sorted_def)
  then show "left_ok (sort_out ys)" using assms(2) by (auto simp: left_ok_def sort keys_sorted_distinct)
  show "set (left (sort_out ys)) = set ys"
    by (auto simp: left_def sort byID(2) image_iff)
qed

text \<open>The search finds the object with the same key, if there is one, and takes it out.\<close>

lemma take_index_found:
  assumes "\<forall>y \<in> set ys. conforms S y \<and> t_class y = t_class x \<and> t_publicID y = None" and "conforms S x" and "t_publicID x = None"
    and "distinct ys"
  shows "\<exists>found rest. take_index x ys = Some (found, rest) \<and> set rest = set ys - set_option found \<and> distinct rest \<and>
    (case found of None \<Rightarrow> \<forall>y \<in> set ys. row_key i y \<noteq> row_key i x | Some y \<Rightarrow> y \<in> set ys \<and> row_key i y = row_key i x)"
  using assms(1,4)
proof (induction ys)
  case (Cons y ys)
  then have y: "conforms S y" "t_class y = t_class x" "t_publicID y = None" by simp_all
  have cmp: "compare True False x y = Some (row_key i y = row_key i x)"
    using compare_view [OF assms(2) y(1)] y assms(3) by (auto simp: row_key_def ident_def)
  obtain found rest where rec: "take_index x ys = Some (found, rest)" "set rest = set ys - set_option found" "distinct rest"
      "case found of None \<Rightarrow> \<forall>y \<in> set ys. row_key i y \<noteq> row_key i x | Some y \<Rightarrow> y \<in> set ys \<and> row_key i y = row_key i x"
    using Cons by auto
  show ?case
  proof (cases "row_key i y = row_key i x")
    case True
    with cmp Cons.prems show ?thesis by auto
  next
    case False
    with cmp rec Cons.prems show ?thesis by (auto split: option.splits)
  qed
qed simp

lemma counterpart_found:
  assumes ok: "left_ok s" and x: "conforms S x" and ys: "\<forall>y \<in> set (left s). conforms S y \<and> t_class y = t_class x"
  shows "\<exists>found s'. counterpart x s = Some (found, s') \<and> left_ok s' \<and> set (left s') = set (left s) - set_option found \<and>
    (case found of None \<Rightarrow> \<forall>y \<in> set (left s). row_key i y \<noteq> row_key i x | Some y \<Rightarrow> y \<in> set (left s) \<and> row_key i y = row_key i x)"
proof -
  obtain byID others where s: "s = (byID, others)" by (cases s)
  have byID: "\<forall>(k, y) \<in> set byID. t_publicID y = Some k" "distinct (map fst byID)" and others: "\<forall>y \<in> set others. t_publicID y = None" "distinct others"
    using ok by (simp_all add: left_ok_def s)
  show ?thesis
  proof (cases "t_publicID x")
    case None
    obtain found rest where rec: "take_index x others = Some (found, rest)" "set rest = set others - set_option found" "distinct rest"
        "case found of None \<Rightarrow> \<forall>y \<in> set others. row_key i y \<noteq> row_key i x | Some y \<Rightarrow> y \<in> set others \<and> row_key i y = row_key i x"
      using take_index_found [of others S x i] ys others x None by (auto simp: left_def s)
    have "row_key i y \<noteq> row_key i x" if "(k, y) \<in> set byID" for k y
      using byID(1) that None by (fastforce simp: row_key_def ident_def)
    moreover have "set_option found \<inter> snd ` set byID = {}"
      using rec(4) others byID(1) by (cases found) fastforce+
    ultimately show ?thesis
      using rec None byID others by (auto simp: counterpart_def s left_def left_ok_def split: option.splits)
  next
    case (Some j)
    have key: "row_key i y = row_key i x \<longleftrightarrow> t_publicID y = Some j" if "y \<in> set (left s)" for y
      using ys that Some by (auto simp: row_key_def ident_def split: option.splits)
    define rest where "rest = filter (\<lambda>(k, _). k \<noteq> j) byID"
    have ok': "left_ok (rest, others)" using byID others by (auto simp: left_ok_def rest_def distinct_map_filter)
    show ?thesis
    proof (cases "map_of byID j")
      case None
      then have "j \<notin> fst ` set byID" by (simp add: map_of_eq_None_iff)
      then have "rest = byID" by (force simp: rest_def filter_id_conv)
      moreover have "\<forall>y \<in> set (left s). t_publicID y \<noteq> Some j"
      proof
        fix y assume "y \<in> set (left s)"
        then consider k where "(k, y) \<in> set byID" | "y \<in> set others" by (auto simp: left_def s)
        then show "t_publicID y \<noteq> Some j"
          by cases (use byID(1) others(1) \<open>j \<notin> fst ` set byID\<close> in force)+
      qed
      ultimately show ?thesis using Some None ok' key by (auto simp: counterpart_def s rest_def)
    next
      case found: (Some y)
      then have y: "(j, y) \<in> set byID" by (rule map_of_SomeD)
      have "z = y" if "(j, z) \<in> set byID" for z using that y byID(2) by (metis eq_key_imp_eq_value)
      moreover have "t_publicID y = Some j" using y byID(1) by auto
      moreover have "z \<noteq> y" if "(k, z) \<in> set byID" "k \<noteq> j" for k z
        using byID(1) that \<open>t_publicID y = Some j\<close> by auto
      moreover have "y \<notin> set others" using others(1) \<open>t_publicID y = Some j\<close> by auto
      ultimately have "set (left (rest, others)) = set (left s) - {y}"
        by (auto simp: left_def s rest_def image_iff) blast
      moreover have "y \<in> set (left s)" using y by (force simp: left_def s)
      moreover have "t_publicID y = Some j" using y byID(1) by auto
      ultimately show ?thesis using Some found ok' key by (auto simp: counterpart_def s rest_def)
    qed
  qed
qed

end
