(* ===== verification/TreeDiff.thy ===== *)
theory TreeDiff
  imports TreePairs
begin

text \<open>
  The notifiers of a comparison turn the one tree into the other (src/src/trunk/libs/seiscomp3/datamodel/diff.cpp).
\<close>

section \<open>The comparison of two trees\<close>

definition plain :: "hooks \<Rightarrow> bool" where
  "plain h \<longleftrightarrow> (\<forall>x b. \<not> blocked h x b) \<and> (\<forall>x y. confirmUpdate h x y)"

definition both :: "string \<Rightarrow> tree \<Rightarrow> tree \<Rightarrow> row_key set" where
  "both p x y = keys p x \<union> keys p y"

definition keys_of :: "string \<Rightarrow> tree set \<Rightarrow> row_key set" where
  "keys_of i X = (\<Union>z \<in> X. keys i z)"

lemma keys_of_union: "keys_of i (X \<union> Y) = keys_of i X \<union> keys_of i Y"
  by (auto simp: keys_of_def)

lemma elements_children: "(m, v) \<in> set (t_props x) \<Longrightarrow> set (elements v) \<subseteq> set (children x)"
  by (auto simp: children_def)

lemma children_apart:
  assumes "distinct (map fst (rows p x))" and "t_publicID x = Some i" and "A \<subseteq> set (children x)" and "B \<subseteq> set (children x)" and "A \<inter> B = {}"
  shows "keys_of i A \<inter> keys_of i B = {}"
proof -
  have "keys i a \<inter> keys i b = {}" if "a \<in> A" "b \<in> B" for a b
  proof -
    have "a \<in> set (children x)" "b \<in> set (children x)" "a \<noteq> b" using that assms(3-5) by auto
    with distinct_concat_rows [OF rows_below(1) [OF assms(1,2)]] show ?thesis by blast
  qed
  then show ?thesis unfolding keys_of_def by blast
qed

lemma children_apart_other:
  assumes xy: "comparable S p x y" and i: "t_publicID x = Some i" and "A \<subseteq> set (children x)" and "B \<subseteq> set (children y)"
    and "\<forall>a \<in> A. \<forall>b \<in> B. row_key i a \<noteq> row_key i b"
  shows "keys_of i A \<inter> keys_of i B = {}"
proof -
  have "keys i a \<inter> keys i b = {}" if "a \<in> A" "b \<in> B" for a b
    using children_shared [OF xy i, of a b] that assms(3-5) by blast
  then show ?thesis unfolding keys_of_def by blast
qed

lemma row_key_inj:
  assumes "distinct (map fst (rows p x))" and "t_publicID x = Some i"
  shows "inj_on (row_key i) (set (children x))"
proof (rule inj_onI)
  fix a b assume ab: "a \<in> set (children x)" "b \<in> set (children x)" "row_key i a = row_key i b"
  have "row_key i a \<in> keys i a \<inter> keys i b" using ab(3) by (simp add: keys_rows [of i a] keys_rows [of i b])
  with distinct_concat_rows [OF rows_below(1) [OF assms]] ab(1,2) show "a = b" by blast
qed

text \<open>The stores of counterparts are parts of the stores of the trees.\<close>

lemma store_of_pair:
  assumes xy: "comparable S p x y" and i: "t_publicID x = Some i" and a: "a \<in> set (children x)" and b: "b \<in> set (children y)"
    and key: "row_key i a = row_key i b" and k: "k \<in> both i a b"
  shows "store_of p x k = store_of i a k" and "store_of p y k = store_of i b k"
proof -
  have iy: "t_publicID y = Some i" using same_id [OF xy] i by simp
  have d: "distinct (map fst (rows p x))" "distinct (map fst (rows p y))" using xy by (simp_all add: comparable_def)
  have one: "store_of p x k = store_of i a k"
    if "comparable S p x y" "t_publicID x = Some i" "distinct (map fst (rows p x))" "a \<in> set (children x)" "b \<in> set (children y)"
      "row_key i a = row_key i b" "k \<in> keys i b" "k \<notin> keys i a" "t_publicID y = Some i" for x y a b
  proof -
    have "store_of p x k = None"
    proof (rule other_tree_none [OF comparable_sym [OF that(1)] that(9,5,7)])
      fix c assume "c \<in> set (children x)" "row_key i c = row_key i b"
      then have "c = a" using row_key_inj [OF that(3,2)] that(4,6) by (auto simp: inj_on_def)
      then show "k \<notin> keys i c" using that(8) by simp
    qed
    with store_of_none [OF that(8)] show ?thesis by simp
  qed
  show "store_of p x k = store_of i a k"
    using one [OF xy i d(1) a b key] iy k store_of_child [OF d(1) i a] unfolding both_def by blast
  show "store_of p y k = store_of i b k"
    using one [OF comparable_sym [OF xy] iy d(2) b a key [symmetric]] i k store_of_child [OF d(2) iy b] unfolding both_def by blast
qed

lemma Append_id: "i \<noteq> [] \<Longrightarrow> AppendNotifier op i own x = notify op i x"
  by (simp add: AppendNotifier_def)

text \<open>Nothing throws: objects that conform to their class have a title.\<close>

lemma o2t_conforms: "conforms S x \<Longrightarrow> o2t x"
proof (cases x)
  fix c i ps assume x: "x = Tree c i ps" and ok: "conforms S x"
  have "title_of_prop m v" if "i = None" "(m, v) \<in> set ps" "p_isIndex m" for m v
  proof -
    have "m \<in> set (map fst ps)" using that(2) by force
    moreover have "map fst ps = S c" using ok unfolding x by (simp del: fits.simps)
    ultimately have m: "m \<in> set (S c)" by metis
    then have "\<not> p_isArray m" "\<not> p_isClass m" using ok that(1,3) unfolding x by (simp_all del: fits.simps)
    moreover have "fits S False m v" using ok that(1,2) unfolding x by (fastforce simp del: fits.simps)
    ultimately have "v = Unset \<or> simple_fits m v" by (simp split: if_splits)
    with \<open>\<not> p_isClass m\<close> show ?thesis by (auto simp: title_of_prop_def simple_fits_def type_names_def split: if_splits)
  qed
  then show "o2t x" by (auto simp: o2t_def x list_all_iff)
qed

lemma notify_titles: "conforms S x \<Longrightarrow> n \<in> set (notify op p x) \<Longrightarrow> o2t (n_object n)"
proof (induction op p x arbitrary: n rule: notify.induct)
  case (1 op par x)
  have here: "o2t x" using "1.prems"(1) by (rule o2t_conforms)
  show ?case
  proof (cases "n = Note par op x")
    case False
    then obtain i y where "t_publicID x = Some i" "y \<in> set (children x)" "n \<in> set (notify op i y)"
      using "1.prems"(2) by (auto simp: notify.simps [of op par x] Let_def split: option.splits if_splits)
    then show ?thesis using "1.IH" conforms_child(1) [OF "1.prems"(1)] by blast
  qed (use here in simp)
qed

lemma createLogNodes_conforms: "conforms S x \<Longrightarrow> createLogNodes lg home (visited op par own x)"
  by (auto simp: createLogNodes_def list_all_iff visited_def notify_titles split: option.splits if_splits dest: in_set_butlastD)

lemma diff_removed_conforms: "plain h \<Longrightarrow> conforms S x \<Longrightarrow> diff_removed h lg par own x = Some (AppendNotifier OP_REMOVE par own x)"
  by (simp add: diff_removed_def plain_def createLogNodes_conforms)

lemma diff_rest_conforms:
  "plain h \<Longrightarrow> \<forall>y \<in> set ys. conforms S y \<Longrightarrow> diff_rest h lg par own ys = Some (concat (map (AppendNotifier OP_ADD par own) ys))"
proof (induction ys)
  case (Cons y ys)
  then show ?case using createLogNodes_conforms [of S y] by (auto simp: diff_added_def plain_def)
qed simp

lemma diff_children_turns:
  assumes h: "plain h" and xy: "comparable S p x y" and i: "t_publicID x = Some i"
    and arr: "set ax = {a \<in> set (children x). t_class a = c}" "set ay = {b \<in> set (children y). t_class b = c}"
    and IH: "\<And>a b own. a \<in> set ax \<Longrightarrow> comparable S i a b \<Longrightarrow>
        \<exists>ns. diff h lg (Some a) (Some b) i (Some i) own = Some ns \<and> turns home i ns (both i a b) (store_of i a) (store_of i b)"
  shows "set xs \<subseteq> set ax \<Longrightarrow> distinct xs \<Longrightarrow> left_ok s \<Longrightarrow> set (left s) \<subseteq> set ay \<Longrightarrow>
      \<forall>a \<in> set ax. \<forall>b \<in> set ay. row_key i a = row_key i b \<longrightarrow> (a \<in> set xs \<longleftrightarrow> b \<in> set (left s)) \<Longrightarrow>
      \<exists>ns. diff_children h lg i own xs s = Some ns \<and> turns home i ns (keys_of i (set xs) \<union> keys_of i (set (left s))) (store_of p x) (store_of p y)"
proof (induction xs arbitrary: s)
  case Nil
  have iy: "t_publicID y = Some i" using same_id [OF xy] i by simp
  have d: "distinct (map fst (rows p y))" and ne: "i \<noteq> []" using xy i by (auto simp: comparable_def ids.simps [of x])
  have sub: "set (left s) \<subseteq> set (children y)" using Nil(4) arr by auto
  have "turns home i (AppendNotifier OP_ADD i own b) (keys i b) (store_of p x) (store_of p y)" if b: "b \<in> set (left s)" for b
  proof -
    have b': "b \<in> set ay" "b \<in> set (children y)" "t_class b = c" using Nil b arr by auto
    have none: "store_of p x k = None" if "k \<in> keys i b" for k
    proof (rule other_tree_none [OF comparable_sym [OF xy] iy b'(2) that])
      fix a assume a: "a \<in> set (children x)" "row_key i a = row_key i b"
      then have "a \<in> set ax" using arr b'(3) by (simp add: row_key_def)
      with Nil(5) a(2) b b'(1) show "k \<notin> keys i a" by simp
    qed
    have "turns home i (notify OP_ADD i b) (keys i b) (store_of p x) (store_of p y)"
      by (rule notify_add_turns [OF rows_below(5) [OF d iy b'(2)]]) (use none store_of_child [OF d iy b'(2)] in auto)
    then show ?thesis by (simp add: Append_id [OF ne])
  qed
  moreover have "sorted_wrt (\<lambda>a b. keys i a \<inter> keys i b = {}) (left s)"
    using left_distinct [OF Nil(3)] distinct_concat_rows [OF rows_below(1) [OF d iy]] sub by (blast intro: sorted_wrt_distinct)
  ultimately have "turns home i (concat (map (AppendNotifier OP_ADD i own) (left s))) (keys_of i (set (left s))) (store_of p x) (store_of p y)"
    unfolding keys_of_def by (rule turns_concat)
  moreover have "diff_children h lg i own [] s = Some (concat (map (AppendNotifier OP_ADD i own) (left s)))"
  proof -
    have "\<forall>b \<in> set (left s). conforms S b"
      using xy conforms_child(1) sub unfolding comparable_def by blast
    from diff_rest_conforms [OF h this] show ?thesis by (cases s) (simp add: left_def)
  qed
  ultimately show ?case by (simp add: keys_of_def)
next
  case (Cons a xs)
  have iy: "t_publicID y = Some i" using same_id [OF xy] i by simp
  have d: "distinct (map fst (rows p x))" "distinct (map fst (rows p y))" and ne: "i \<noteq> []"
    using xy i by (auto simp: comparable_def ids.simps [of x])
  have a: "a \<in> set ax" "a \<in> set (children x)" "t_class a = c" "set xs \<subseteq> set (children x)" "a \<notin> set xs"
    using Cons.prems(1,2) arr by auto
  have sub: "set (left s) \<subseteq> set (children y)" "\<forall>b \<in> set (left s). t_class b = c" using Cons.prems(4) arr by auto
  have "conforms S a" "\<forall>b \<in> set (left s). conforms S b \<and> t_class b = t_class a"
    using xy conforms_child(1) a(2,3) sub unfolding comparable_def by blast+
  then obtain found s' where found: "counterpart a s = Some (found, s')" "left_ok s'" "set (left s') = set (left s) - set_option found"
      "case found of None \<Rightarrow> \<forall>b \<in> set (left s). row_key i b \<noteq> row_key i a | Some b \<Rightarrow> b \<in> set (left s) \<and> row_key i b = row_key i a"
    using counterpart_found [OF Cons.prems(3), of S a i] by blast
  have inj: "inj_on (row_key i) (set (children x))" "inj_on (row_key i) (set (children y))"
    by (rule row_key_inj [OF d(1) i], rule row_key_inj [OF d(2) iy])
  have links: "\<forall>z \<in> set ax. \<forall>b \<in> set ay. row_key i z = row_key i b \<longrightarrow> (z \<in> set xs \<longleftrightarrow> b \<in> set (left s'))"
  proof (intro ballI impI)
    fix z b assume z: "z \<in> set ax" "b \<in> set ay" "row_key i z = row_key i b"
    have zb: "z \<in> set (children x)" "b \<in> set (children y)" using z arr by auto
    have link: "z \<in> set (a # xs) \<longleftrightarrow> b \<in> set (left s)" using Cons.prems(5) z by blast
    show "z \<in> set xs \<longleftrightarrow> b \<in> set (left s')"
    proof (cases "z = a")
      case True
      with link z(3) have "b \<in> set (left s)" "row_key i b = row_key i a" by simp_all
      then have "found \<noteq> None" using found(4) by (cases found) auto
      then obtain b' where b': "found = Some b'" "b' \<in> set (left s)" "row_key i b' = row_key i a" using found(4) by auto
      then have "b = b'" using inj(2) zb(2) sub(1) z(3) True by (auto simp: inj_on_def)
      with True a(5) found(3) b'(1) show ?thesis by simp
    next
      case False
      have "b \<notin> set_option found"
      proof
        assume "b \<in> set_option found"
        then have "row_key i z = row_key i a" using found(4) z(3) by auto
        then show False using inj(1) zb(1) a(2) False by (auto simp: inj_on_def)
      qed
      with link False found(3) show ?thesis by simp
    qed
  qed
  obtain ns' where rest: "diff_children h lg i own xs s' = Some ns'"
      "turns home i ns' (keys_of i (set xs) \<union> keys_of i (set (left s'))) (store_of p x) (store_of p y)"
    using Cons.IH [OF _ _ found(2) _ links] Cons.prems(1,2,4) found(3) by auto
  have apart: "keys i a \<inter> keys_of i (set xs) = {}" "keys i a \<inter> keys_of i (set (left s')) = {}"
  proof -
    show "keys i a \<inter> keys_of i (set xs) = {}"
      using children_apart [OF d(1) i, of "{a}" "set xs"] a by (simp add: keys_of_def)
    have "row_key i a \<noteq> row_key i b" if "b \<in> set (left s')" for b
      using links a(1,5) Cons.prems(4) found(3) that by auto
    then show "keys i a \<inter> keys_of i (set (left s')) = {}"
      using children_apart_other [OF xy i, of "{a}" "set (left s')"] a(2) sub(1) found(3) by (auto simp: keys_of_def)
  qed
  show ?case
  proof (cases found)
    case None
    have none: "store_of p y k = None" if "k \<in> keys i a" for k
    proof (rule other_tree_none [OF xy i a(2) that])
      fix b assume b: "b \<in> set (children y)" "row_key i b = row_key i a"
      then have "b \<in> set ay" using arr a(3) by (simp add: row_key_def)
      then have "b \<in> set (left s)" using Cons.prems(5) a(1) b(2) by auto
      with found(4) None b(2) show "k \<notin> keys i b" by simp
    qed
    have "turns home i (notify OP_REMOVE i a) (keys i a) (store_of p x) (store_of p y)"
      by (rule notify_remove_turns [OF rows_below(5) [OF d(1) i a(2)]]) (use none store_of_child [OF d(1) i a(2)] in auto)
    then have "turns home i (notify OP_REMOVE i a @ ns') (keys i a \<union> (keys_of i (set xs) \<union> keys_of i (set (left s')))) (store_of p x) (store_of p y)"
      using rest(2) apart by (intro turns_append) auto
    moreover have "diff h lg (Some a) None i (Some i) own = Some (notify OP_REMOVE i a)"
      using diff_removed_conforms [OF h \<open>conforms S a\<close>] by (simp add: Append_id [OF ne])
    ultimately show ?thesis
      using found(1,3) None rest(1) by (auto simp: keys_of_def Un_assoc)
  next
    case (Some b)
    then have b: "b \<in> set (left s)" "row_key i b = row_key i a" "b \<in> set (children y)" "b \<in> set ay"
      using found(4) sub(1) Cons.prems(4) by auto
    obtain ns where ns: "diff h lg (Some a) (Some b) i (Some i) own = Some ns" "turns home i ns (both i a b) (store_of i a) (store_of i b)"
      using IH [OF a(1) child_comparable [OF xy i a(2) b(3) b(2) [symmetric]]] by blast
    have "turns home i ns (both i a b) (store_of p x) (store_of p y)"
      by (rule turns_cong [OF ns(2)]) (use store_of_pair [OF xy i a(2) b(3) b(2) [symmetric]] in simp_all)
    moreover have "keys i b \<inter> keys_of i (set (left s')) = {}"
      using children_apart [OF d(2) iy, of "{b}" "set (left s')"] b(3) sub(1) found(3) Some by (auto simp: keys_of_def)
    moreover have "keys i b \<inter> keys_of i (set xs) = {}"
    proof -
      have "row_key i b \<noteq> row_key i z" if "z \<in> set xs" for z
        using inj(1) a b(2) that by (auto simp: inj_on_def)
      then show ?thesis
        using children_apart_other [OF comparable_sym [OF xy] iy, of "{b}" "set xs"] b(3) a(4) by (simp add: keys_of_def)
    qed
    ultimately have "turns home i (ns @ ns') (both i a b \<union> (keys_of i (set xs) \<union> keys_of i (set (left s')))) (store_of p x) (store_of p y)"
      using rest(2) apart by (intro turns_append) (auto simp: both_def)
    moreover have "both i a b \<union> (keys_of i (set xs) \<union> keys_of i (set (left s'))) = keys_of i (set (a # xs)) \<union> keys_of i (set (left s))"
      using b(1) found(3) Some by (auto simp: both_def keys_of_def)
    ultimately show ?thesis using found(1) Some ns(1) rest(1) by auto
  qed
qed

definition array_children :: "(meta_property \<times> content) list \<Rightarrow> tree set" where
  "array_children ps = set (concat (map (elements \<circ> snd) ps))"

lemma fits_elements: "fits S pub m v \<Longrightarrow> z \<in> set (elements v) \<Longrightarrow> p_isArray m \<and> t_class z = p_type m"
  by (cases v) (auto simp: simple_fits_def split: if_splits)

text \<open>The objects of one array are the children of its class.\<close>

lemma array_class:
  assumes "conforms S x" and "(m, v) \<in> set (t_props x)" and "p_isArray m"
  shows "set (elements v) = {z \<in> set (children x). t_class z = p_type m}"
proof -
  obtain c i ps where x: "x = Tree c i ps" by (cases x)
  have meta: "map fst ps = S c" "distinct (map p_type (filter p_isArray (S c)))" "distinct (S c)" and fit: "\<forall>a \<in> set ps. fits S (i \<noteq> None) (fst a) (snd a)"
    using assms(1) by (simp_all add: x del: fits.simps)
  have "z \<in> set (elements v)" if z: "z \<in> set (children x)" "t_class z = p_type m" for z
  proof -
    obtain m' v' where v': "(m', v') \<in> set ps" "z \<in> set (elements v')" using z(1) by (auto simp: children_def x)
    then have "p_isArray m'" "p_type m' = p_type m" using fits_elements [of S _ m' v' z] fit z(2) by (force simp del: fits.simps)+
    moreover have "m' \<in> set (S c)" "m \<in> set (S c)" using v'(1) assms(2) meta(1) [symmetric] by (force simp: x)+
    ultimately have "m' = m" using meta(2) assms(3) by (auto simp: distinct_map inj_on_def)
    then have "v' = v" using v'(1) assms(2) meta(1,3) by (metis eq_key_imp_eq_value tree.sel(3) x)
    with v'(2) show ?thesis by simp
  qed
  moreover have "t_class z = p_type m" if "z \<in> set (elements v)" for z
    using fits_elements [of S "i \<noteq> None" m v z] fit assms(2) that by (auto simp: x simp del: fits.simps)
  ultimately show ?thesis using elements_children [OF assms(2)] by blast
qed

lemma elements_distinct:
  assumes "distinct (children x)" and "(m, v) \<in> set (t_props x)"
  shows "distinct (elements v)"
  using assms by (auto simp: children_def dest!: split_list)

lemma read_same:
  assumes "conforms S y" and "(m, v) \<in> set (t_props y)"
  shows "read_prop (t_class y) m y = v"
proof -
  obtain c i ps where y: "y = Tree c i ps" by (cases y)
  have "distinct (map fst ps)" using assms(1) by (simp add: y del: fits.simps)
  then show ?thesis using assms(2) by (simp add: read_prop_def y map_of_is_SomeI)
qed

lemma fits_prop: "conforms S x \<Longrightarrow> (m, v) \<in> set (t_props x) \<Longrightarrow> \<exists>pub. fits S pub m v"
  by (cases x) (fastforce simp del: fits.simps)

lemma view_props_append: "view_props (a @ b) = view_props a @ view_props b"
  by (induction a) auto

lemma fits_no_elements: "\<not> p_isArray m \<Longrightarrow> fits S pub m v \<Longrightarrow> elements v = []"
  by (cases v) (auto simp: simple_fits_def split: if_splits)

lemma view_tree_props: "view_tree x = Tree (t_class x) None (view_props (t_props x))"
  by (cases x) simp

definition array_keys :: "string option \<Rightarrow> (meta_property \<times> content) list \<Rightarrow> (meta_property \<times> content) list \<Rightarrow> row_key set" where
  "array_keys j ps qs = (case j of None \<Rightarrow> {} | Some i \<Rightarrow> keys_of i (array_children ps) \<union> keys_of i (array_children qs))"

lemma array_children_part: "t_props x = pre @ ps \<Longrightarrow> array_children ps \<subseteq> set (children x)"
  by (auto simp: array_children_def children_def)

text \<open>The keys of the children are not that of the object.\<close>

lemma key_apart:
  assumes "comparable S p x y" and "t_publicID x = Some i" and "t_props x = pre @ ps" and "t_props y = pre' @ qs"
  shows "(keys_of i (array_children ps) \<union> keys_of i (array_children qs)) \<inter> {row_key p x} = {}"
proof -
  have "t_publicID y = Some i" and d: "distinct (map fst (rows p x))" "distinct (map fst (rows p y))" and k: "row_key p x = row_key p y"
    using assms(1,2) same_id [OF assms(1)] by (simp_all add: comparable_def)
  with rows_below(2) [OF d(1) assms(2)] rows_below(2) [OF d(2)] array_children_part [OF assms(3)] array_children_part [OF assms(4)]
  show ?thesis unfolding keys_of_def by (auto simp: k)
qed

text \<open>The keys of one array are not those of the following ones.\<close>

lemma arrays_apart:
  assumes xy: "comparable S p x y" and i: "t_publicID x = Some i" and x: "t_props x = pre @ (m, v) # ps" and y: "t_props y = pre' @ (m, v') # qs"
    and m: "p_isArray m"
  shows "(keys_of i (set (elements v)) \<union> keys_of i (set (elements v'))) \<inter> (keys_of i (array_children ps) \<union> keys_of i (array_children qs)) = {}"
proof -
  have one: "keys_of i (set (elements v)) \<inter> keys_of i (array_children ps) = {} \<and> keys_of i (set (elements v)) \<inter> keys_of i (array_children qs) = {}"
    if xy: "comparable S p x y" and i: "t_publicID x = Some i" and x: "t_props x = pre @ (m, v) # ps" and y: "t_props y = pre' @ (m, v') # qs"
    for x y pre v ps pre' v' qs
  proof -
    have iy: "t_publicID y = Some i" using same_id [OF xy] i by simp
    have d: "distinct (map fst (rows p x))" "distinct (map fst (rows p y))" and S: "conforms S x" "conforms S y"
      using xy by (simp_all add: comparable_def)
    have sub: "set (elements v) \<subseteq> set (children x)" "array_children ps \<subseteq> set (children x)" "array_children qs \<subseteq> set (children y)"
      by (auto simp: children_def array_children_def x y)
    have sep: "set (elements v) \<inter> array_children ps = {}" "set (elements v') \<inter> array_children qs = {}"
      using rows_below(4) [OF d(1) i] rows_below(4) [OF d(2) iy] by (auto simp: children_def array_children_def x y)
    have "row_key i a \<noteq> row_key i b" if "a \<in> set (elements v)" "b \<in> array_children qs" for a b
    proof
      assume "row_key i a = row_key i b"
      then have "t_class b = p_type m" using array_class [OF S(1) _ m, of v] that(1) by (auto simp: x row_key_def)
      then have "b \<in> set (elements v')" using array_class [OF S(2) _ m, of v'] that(2) sub(3) by (auto simp: y)
      with sep(2) that(2) show False by blast
    qed
    then show ?thesis
      using children_apart [OF d(1) i sub(1,2) sep(1)] children_apart_other [OF xy i sub(1,3)] by blast
  qed
  show ?thesis
    using one [OF xy i x y] one [OF comparable_sym [OF xy] _ y x] same_id [OF xy] i by auto
qed

lemma diff_props_turns:
  assumes h: "plain h" and xy: "comparable S p x y"
    and IH: "\<And>i a b own. t_publicID x = Some i \<Longrightarrow> a \<in> set (children x) \<Longrightarrow> comparable S i a b \<Longrightarrow>
        \<exists>ns. diff h lg (Some a) (Some b) i (Some i) own = Some ns \<and> turns home i ns (both i a b) (store_of i a) (store_of i b)"
  shows "t_props x = pre @ ps \<Longrightarrow> t_props y = pre' @ qs \<Longrightarrow> map fst ps = map fst qs \<Longrightarrow>
      (\<not> updated \<longrightarrow> view_props pre = view_props pre') \<Longrightarrow>
      \<exists>ns. diff_props h lg x y p ps updated = Some ns \<and>
        (if updated then (case t_publicID x of None \<Rightarrow> ns = []
            | Some i \<Rightarrow> turns home i ns (array_keys (Some i) ps qs) (store_of p x) (store_of p y))
         else turns home p ns (array_keys (t_publicID x) ps qs \<union> {row_key p x}) (store_of p x) (store_of p y))"
proof (induction ps arbitrary: pre pre' qs updated)
  case Nil
  have k: "row_key p x = row_key p y" using xy by (simp add: comparable_def)
  have "view_tree x = view_tree y" if "\<not> updated"
    using that Nil same_class [OF xy] by (simp add: view_tree_props)
  moreover have "store_of p x (row_key p x) = Some (view_tree x)" "store_of p y (row_key p x) = Some (view_tree y)"
    using store_of_key [of p x] store_of_key [of p y] k by simp_all
  ultimately show ?case
    using Nil(3) by (auto simp: array_keys_def array_children_def keys_of_def intro!: turns_nil split: option.split)
next
  case (Cons mv ps)
  obtain m v where mv: "mv = (m, v)" by (cases mv)
  obtain v' qs' where q: "qs = (m, v') # qs'" using Cons.prems(3) by (cases qs) (auto simp: mv)
  have fst: "map fst ps = map fst qs'" using Cons.prems(3) by (simp add: mv q)
  have props: "(m, v) \<in> set (t_props x)" "(m, v') \<in> set (t_props y)" using Cons.prems(1,2) by (simp_all add: mv q)
  have S: "conforms S x" "conforms S y" and cls: "t_class x = t_class y" and id: "t_publicID x = t_publicID y"
    using xy same_class [OF xy] same_id [OF xy] by (simp_all add: comparable_def)
  have step: "t_props x = (pre @ [mv]) @ ps" "t_props y = (pre' @ [(m, v')]) @ qs'" using Cons.prems(1,2) by (simp_all add: q)
  obtain pub pub' where fit: "fits S pub m v" "fits S pub' m v'" using fits_prop [OF S(1) props(1)] fits_prop [OF S(2) props(2)] by blast
  have read: "read_prop (t_class x) m y = v'" using read_same [OF S(2) props(2)] cls by simp
  have k: "row_key p x = row_key p y" using xy by (simp add: comparable_def)
  have stores: "store_of p x (row_key p x) = Some (view_tree x)" "store_of p y (row_key p x) = Some (view_tree y)"
    using store_of_key [of p x] store_of_key [of p y] k by simp_all
  show ?case
  proof (cases "p_isArray m")
    case False
    then have "elements v = []" "elements v' = []" using fits_no_elements fit by blast+
    then have same: "array_keys j (mv # ps) qs = array_keys j ps qs'" for j
      by (simp add: array_keys_def array_children_def mv q split: option.split)
    have cmp: "compareNonArrayProperty (detailed lg) m v (read_prop (t_class x) m y) = Some (view v = view v')"
      unfolding read by (rule property_view [OF False fit])
    show ?thesis
    proof (cases updated)
      case True
      from Cons.IH [OF step fst, of True] obtain ns where ns: "diff_props h lg x y p ps True = Some ns"
          "case t_publicID x of None \<Rightarrow> ns = [] | Some i \<Rightarrow> turns home i ns (array_keys (Some i) ps qs') (store_of p x) (store_of p y)"
        by auto
      have "diff_props h lg x y p (mv # ps) True = Some ns"
        using False cmp ns(1) by (cases "detailed lg") (simp_all add: mv del: compareNonArrayProperty.simps)
      with True ns(2) show ?thesis by (simp add: same cong: option.case_cong)
    next
      case notyet: False
      then have pre: "view_props pre = view_props pre'" using Cons.prems(4) by simp
      show ?thesis
      proof (cases "view v = view v'")
        case True
        have "view_props (pre @ [mv]) = view_props (pre' @ [(m, v')])" using pre True by (simp add: view_props_append mv)
        from Cons.IH [OF step fst, of False] this obtain ns where "diff_props h lg x y p ps False = Some ns"
            "turns home p ns (array_keys (t_publicID x) ps qs' \<union> {row_key p x}) (store_of p x) (store_of p y)"
          by auto
        with True False cmp notyet show ?thesis by (simp add: mv same [unfolded mv] del: compareNonArrayProperty.simps)
      next
        case differ: False
        from Cons.IH [OF step fst, of True] obtain ns where ns: "diff_props h lg x y p ps True = Some ns"
            "case t_publicID x of None \<Rightarrow> ns = [] | Some i \<Rightarrow> turns home i ns (array_keys (Some i) ps qs') (store_of p x) (store_of p y)"
          by auto
        have "view_tree x \<noteq> view_tree y"
          using differ pre False by (simp add: view_tree_props step view_props_append mv)
        then have upd: "turns home p [Note p OP_UPDATE y] {row_key p x} (store_of p x) (store_of p y)"
          by (intro turns_update) (simp_all add: stores, rule k)
        have run: "diff_props h lg x y p (mv # ps) updated = Some (Note p OP_UPDATE y # ns)"
          using False cmp notyet differ ns(1) h by (simp add: mv plain_def del: compareNonArrayProperty.simps)
        show ?thesis
        proof (cases "t_publicID x")
          case None
          with upd ns(2) run notyet show ?thesis by (simp add: same) (simp add: array_keys_def)
        next
          case (Some i)
          have "array_keys (Some i) ps qs' \<inter> {row_key p x} = {}"
            using key_apart [OF xy Some] step by (simp add: array_keys_def)
          with turns_below_last [OF upd, of i ns "array_keys (Some i) ps qs'" "row_key p x"] ns(2) Some stores run notyet show ?thesis
            by (simp add: same row_key_def ident_def)
        qed
      qed
    qed
  next
    case True
    show ?thesis
    proof (cases "t_publicID x")
      case None
      have "view_props (pre @ [mv]) = view_props (pre' @ [(m, v')])" if "\<not> updated"
        using Cons.prems(4) True that by (simp add: view_props_append mv)
      from Cons.IH [OF step fst, of updated] this obtain ns where "diff_props h lg x y p ps updated = Some ns"
          "if updated then ns = [] else turns home p ns (array_keys None ps qs' \<union> {row_key p x}) (store_of p x) (store_of p y)"
        using None by (cases updated) auto
      with True None show ?thesis by (cases updated) (simp_all add: mv array_keys_def)
    next
      case (Some i)
      have "view_props (pre @ [mv]) = view_props (pre' @ [(m, v')])" if "\<not> updated"
        using Cons.prems(4) True that by (simp add: view_props_append mv)
      from Cons.IH [OF step fst, of updated] this obtain ns2 where ns2: "diff_props h lg x y p ps updated = Some ns2"
          "if updated then turns home i ns2 (array_keys (Some i) ps qs') (store_of p x) (store_of p y)
           else turns home p ns2 (array_keys (Some i) ps qs' \<union> {row_key p x}) (store_of p x) (store_of p y)"
        using Some by (cases updated) auto
      define KA where "KA = keys_of i (set (elements v)) \<union> keys_of i (set (elements v'))"
      have all: "array_keys (Some i) (mv # ps) qs = KA \<union> array_keys (Some i) ps qs'"
        by (auto simp: array_keys_def array_children_def mv q KA_def keys_of_union)
      have iy: "t_publicID y = Some i" using id Some by simp
      have d: "distinct (map fst (rows p x))" "distinct (map fst (rows p y))" using xy by (simp_all add: comparable_def)
      have dist: "distinct (elements v)" "distinct (elements v')"
        using elements_distinct rows_below(4) [OF d(1) Some] rows_below(4) [OF d(2) iy] props by blast+
      have inj: "inj_on (row_key i) (set (elements v'))"
        using row_key_inj [OF d(2) iy] elements_children [OF props(2)] by (rule inj_on_subset)
      have arr: "set (elements v) = {a \<in> set (children x). t_class a = p_type m}" "set (elements v') = {b \<in> set (children y). t_class b = p_type m}"
        using array_class [OF S(1) props(1) True] array_class [OF S(2) props(2) True] by blast+
      then have cl: "\<forall>b \<in> set (elements v'). t_class b = p_type m" by blast
      note out = sort_out_left [OF inj dist(2) cl]
      have "\<exists>ns. diff_children h lg i (Some i) (elements v) (sort_out (elements v')) = Some ns \<and>
          turns home i ns (keys_of i (set (elements v)) \<union> keys_of i (set (left (sort_out (elements v'))))) (store_of p x) (store_of p y)"
      proof (rule diff_children_turns [OF h xy Some arr])
        fix a b own assume "a \<in> set (elements v)" "comparable S i a b"
        then show "\<exists>ns. diff h lg (Some a) (Some b) i (Some i) own = Some ns \<and> turns home i ns (both i a b) (store_of i a) (store_of i b)"
          using IH [OF Some] elements_children [OF props(1)] by blast
      qed (use out dist in auto)
      then obtain ns1 where ns1: "diff_children h lg i (Some i) (elements v) (sort_out (elements v')) = Some ns1"
          "turns home i ns1 KA (store_of p x) (store_of p y)"
        by (auto simp: KA_def out(2))
      have run: "diff_props h lg x y p (mv # ps) updated = Some (ns1 @ ns2)"
        using True Some iy ns1(1) ns2(1) read cls by (simp add: mv arrayObjects_def)
      have apart: "KA \<inter> array_keys (Some i) ps qs' = {}" "KA \<inter> {row_key p x} = {}"
        using arrays_apart [OF xy Some _ _ True, of pre v ps pre' v' qs'] key_apart [OF xy Some Cons.prems(1,2)] Cons.prems(1,2) all
        by (auto simp: mv q KA_def array_keys_def)
      show ?thesis
      proof (cases updated)
        case True
        with turns_append [OF ns1(2) _ apart(1)] ns2(2) run Some show ?thesis by (simp add: all)
      next
        case False
        then have "turns home p (ns1 @ ns2) (KA \<union> (array_keys (Some i) ps qs' \<union> {row_key p x})) (store_of p x) (store_of p y)"
          using ns2(2) apart Some stores
          by (intro turns_below_first [OF ns1(2), of p ns2 _ "row_key p x"]) (auto simp: row_key_def ident_def)
        with False run Some show ?thesis by (simp add: all Un_assoc)
      qed
    qed
  qed
qed

lemma diff_turns:
  "plain h \<Longrightarrow> comparable S p x y \<Longrightarrow>
     \<exists>ns. diff h lg (Some x) (Some y) p own own' = Some ns \<and> turns home p ns (both p x y) (store_of p x) (store_of p y)"
proof (induction "size x" arbitrary: p x y own own' rule: less_induct)
  case less
  have sub: "\<exists>ns. diff h lg (Some a) (Some b) i (Some i) own = Some ns \<and> turns home i ns (both i a b) (store_of i a) (store_of i b)"
    if "t_publicID x = Some i" "a \<in> set (children x)" "comparable S i a b" for i a b own
    using less(1) [OF size_child [OF that(2)] less(2) that(3)] .
  have cls: "map fst (t_props x) = map fst (t_props y)"
    using less(3) same_class [OF less(3)] by (cases x; cases y) (simp add: comparable_def del: fits.simps)
  obtain ns where ns: "diff_props h lg x y p (t_props x) False = Some ns"
      "turns home p ns (array_keys (t_publicID x) (t_props x) (t_props y) \<union> {row_key p x}) (store_of p x) (store_of p y)"
    using diff_props_turns [OF less(2,3) sub, of "[]" "t_props x" "[]" "t_props y" False] cls by auto
  have "array_keys (t_publicID x) (t_props x) (t_props y) \<union> {row_key p x} = both p x y"
  proof -
    have "t_publicID y = t_publicID x" "row_key p y = row_key p x" using less(3) same_id [OF less(3)] by (simp_all add: comparable_def)
    then show ?thesis
      by (auto simp: both_def keys_rows [of p x] keys_rows [of p y] array_keys_def array_children_def keys_of_def children_def split: option.split)
  qed
  moreover have "o2t x" using less(3) o2t_conforms unfolding comparable_def by blast
  ultimately show ?case using ns less(2) by (simp add: plain_def)
qed

section \<open>Properties\<close>

lemma turns_whole:
  assumes t: "turns home p ns K F G" and "present home p K F" and "\<forall>k. k \<notin> K \<longrightarrow> G k = F k"
  shows "apply_notes home ns F = Some G"
proof -
  obtain m where m: "apply_notes home ns F = Some m" "\<forall>k \<in> K. m k = G k" "\<forall>k. k \<notin> K \<longrightarrow> m k = F k"
    using t assms(2) unfolding turns_def by blast
  have "m k = G k" for k using m(2,3) assms(3) by (cases "k \<in> K") (blast, metis)
  then have "m = G" by blast
  with m(1) show ?thesis by simp
qed

lemma diff_rows:
  assumes h: "plain h" and xy: "comparable S p x y"
  shows "\<exists>ns. diff h lg (Some x) (Some y) p own own' = Some ns \<and>
     apply_notes p ns (store_of p x) = Some (store_of p y) \<and>
     (\<forall>n \<in> set ns. note_key n \<in> both p x y \<and> store_of p x (note_key n) \<noteq> store_of p y (note_key n))"
proof -
  obtain ns where ns: "diff h lg (Some x) (Some y) p own own' = Some ns"
      and t: "turns p p ns (both p x y) (store_of p x) (store_of p y)"
    using diff_turns [OF h xy] by blast
  have "store_of p y k = store_of p x k" if "k \<notin> both p x y" for k
  proof -
    have "k \<notin> keys p x" "k \<notin> keys p y" using that by (simp_all add: both_def)
    then show ?thesis using store_of_none by metis
  qed
  then have "apply_notes p ns (store_of p x) = Some (store_of p y)"
    by (intro turns_whole [OF t]) (simp_all add: present_def)
  with ns t show ?thesis by (auto simp: turns_def)
qed

abbreviation unblocked :: "hooks \<Rightarrow> bool" where
  "unblocked h \<equiv> \<forall>x b. \<not> blocked h x b"

lemma Diff2_plain: "unblocked h \<Longrightarrow> plain (h\<lparr>confirmUpdate := \<lambda>_ _. True, nodes_always := True\<rparr>)"
  by (simp add: plain_def)

text \<open>
  C9: if nothing is blocked and the trees are \<open>comparable\<close>, the comparison does not throw, and its notifiers, applied one by
  one to the rows of the first tree, are all accepted and leave exactly the rows of the second, with a log or without.
  Comparable are two trees of the same parent, class and identifier (or index, if they are not public) whose objects
  conform to the descriptions of their classes: properties in order, values of the declared types, children only in
  arrays of public objects and of the class of the array, and for objects that are not public an index of simple
  values.  In each tree identifiers are not empty and used once, and siblings of a class that are not public differ in
  their index; and no public object of the one tree is at another place in the other.
\<close>

theorem diff_applies:
  assumes "\<forall>z local. \<not> blocked h z local" and "comparable S p x y"
  shows "\<exists>ns. Diff2_diff h lg (Some x) (Some y) p own own' = Some ns \<and> apply_notes p ns (store_of p x) = Some (store_of p y)"
  using diff_rows [OF Diff2_plain [OF assms(1)] assms(2)] unfolding Diff2_diff_def by blast

text \<open>
  C10: if nothing is blocked and the trees are \<open>comparable\<close> (as above: well-typed, with unique identifiers and
  indices, simple indices, and no public object moved), \<open>diff2Message\<close> does not throw; it makes a message if and only if the trees
  differ in a row (the parent, class, identifier and the properties of an object, without the numbers of arrays), and each
  of its notifiers is for a row that differs.
\<close>

theorem message_if_different:
  assumes "\<forall>z local. \<not> blocked h z local" and "comparable S p x y"
  shows "\<exists>msg. diff2Message h (Some x) (Some y) p own own' = Some msg \<and>
    (msg = None \<longleftrightarrow> store_of p x = store_of p y) \<and>
    (case msg of None \<Rightarrow> True | Some ns \<Rightarrow> \<forall>n \<in> set ns. store_of p x (note_key n) \<noteq> store_of p y (note_key n))"
proof -
  obtain ns where ns: "Diff2_diff h (Some LOG_DIFFERENCES) (Some x) (Some y) p own own' = Some ns"
      "apply_notes p ns (store_of p x) = Some (store_of p y)"
      "\<forall>n \<in> set ns. store_of p x (note_key n) \<noteq> store_of p y (note_key n)"
    using diff_rows [OF Diff2_plain [OF assms(1)] assms(2)] unfolding Diff2_diff_def by blast
  have "ns = [] \<longleftrightarrow> store_of p x = store_of p y" using ns(2,3) by (cases ns) auto
  with ns(1,3) show ?thesis by (auto simp: diff2Message_def)
qed

text \<open>
  C11: a subtree that is new to the receiver is added completely, parents before their children, and removed completely, parents behind
  their children, so that the receiver has again what it had before.
\<close>

theorem subtree_added_and_removed:
  assumes "p \<noteq> []" and "distinct (map fst (rows p x))" and "\<forall>k \<in> keys p x. m k = None"
  shows "apply_notes p (AppendNotifier OP_ADD p own x) m = Some (m ++ store_of p x) \<and>
    apply_notes p (AppendNotifier OP_REMOVE p own x) (m ++ store_of p x) = Some m"
proof -
  let ?G = "m ++ store_of p x"
  have G: "\<forall>k \<in> keys p x. ?G k = store_of p x k" "\<forall>k. k \<notin> keys p x \<longrightarrow> ?G k = m k"
    using assms(3) by (auto simp: map_add_def store_of_none split: option.split)
  have at_home: "present p p (keys p x) m'" for m' by (simp add: present_def)
  have add: "turns p p (notify OP_ADD p x) (keys p x) m ?G"
    using assms(3) G(1) by (intro notify_add_turns [OF assms(2)]) blast
  have remove: "turns p p (notify OP_REMOVE p x) (keys p x) ?G m"
    using assms(3) G(1) by (intro notify_remove_turns [OF assms(2)]) blast
  show ?thesis
    using turns_whole [OF add] turns_whole [OF remove] at_home G(2) assms(1) by (simp add: AppendNotifier_def)
qed

section \<open>An example\<close>

definition ex_prop :: "string \<Rightarrow> string \<Rightarrow> bool \<Rightarrow> bool \<Rightarrow> bool \<Rightarrow> meta_property" where
  "ex_prop n t arr c idx = \<lparr>p_name = n, p_type = t, p_isArray = arr, p_isClass = c, p_isIndex = idx, p_isEnum = False\<rparr>"

abbreviation "ex_org \<equiv> ex_prop ''preferredOriginID'' ''string'' False False False"
abbreviation "ex_info \<equiv> ex_prop ''creationInfo'' ''CreationInfo'' False True False"
abbreviation "ex_agency \<equiv> ex_prop ''agencyID'' ''string'' False False False"
abbreviation "ex_comments \<equiv> ex_prop ''comment'' ''Comment'' True True False"
abbreviation "ex_refs \<equiv> ex_prop ''originReference'' ''OriginReference'' True True False"
abbreviation "ex_id \<equiv> ex_prop ''id'' ''string'' False False True"
abbreviation "ex_text \<equiv> ex_prop ''text'' ''string'' False False False"
abbreviation "ex_ref \<equiv> ex_prop ''originID'' ''string'' False False True"

definition ex_schema :: "string \<Rightarrow> meta_property list" where
  "ex_schema c =
     (if c = ''Event'' then [ex_org, ex_info, ex_comments, ex_refs]
      else if c = ''Comment'' then [ex_text, ex_id]
      else if c = ''OriginReference'' then [ex_ref]
      else if c = ''CreationInfo'' then [ex_agency] else [])"

definition ex_comment :: "string \<Rightarrow> string \<Rightarrow> tree" where
  "ex_comment i t = Tree ''Comment'' None [(ex_text, MString t), (ex_id, MString i)]"

definition ex_reference :: "string \<Rightarrow> tree" where
  "ex_reference i = Tree ''OriginReference'' None [(ex_ref, MString i)]"

definition ex_event :: "string \<Rightarrow> content \<Rightarrow> tree list \<Rightarrow> tree list \<Rightarrow> tree" where
  "ex_event org info cs rs = Tree ''Event'' (Some ''ev'') [(ex_org, MString org), (ex_info, info), (ex_comments, MArray cs), (ex_refs, MArray rs)]"

definition ex_old :: tree where
  "ex_old = ex_event ''o1'' Unset [ex_comment ''a'' ''x'', ex_comment ''b'' ''y''] [ex_reference ''o1'']"

definition ex_new :: tree where
  "ex_new = ex_event ''o2'' (MObject (Tree ''CreationInfo'' None [(ex_agency, MString ''GFZ'')]))
     [ex_comment ''b'' ''z'', ex_comment ''c'' ''x''] [ex_reference ''o2'', ex_reference ''o1'']"

lemmas ex_defs = ex_old_def ex_new_def ex_event_def ex_reference_def ex_comment_def ex_schema_def ex_prop_def

lemma ex_comparable: "comparable ex_schema ''EventParameters'' ex_old ex_new"
  by (simp add: comparable_def ex_defs same_place_def keys_def rows.simps ids.simps children_def row_key_def ident_def index_props_def simple_fits_def type_names_def)


abbreviation ex_hooks :: hooks where
  "ex_hooks \<equiv> \<lparr>blocked = \<lambda>_ _. False, confirmUpdate = \<lambda>_ _. True, nodes_always = True\<rparr>"

lemma diff_applies_witness:
  "\<exists>ns. Diff2_diff ex_hooks None (Some ex_old) (Some ex_new) ''EventParameters'' None None = Some ns \<and>
     apply_notes ''EventParameters'' ns (store_of ''EventParameters'' ex_old) = Some (store_of ''EventParameters'' ex_new)"
  by (rule diff_applies [OF _ ex_comparable]) simp

lemma message_if_different_witness:
  "\<exists>msg. diff2Message ex_hooks (Some ex_old) (Some ex_new) ''EventParameters'' None None = Some msg \<and>
    (msg = None \<longleftrightarrow> store_of ''EventParameters'' ex_old = store_of ''EventParameters'' ex_new) \<and>
    (case msg of None \<Rightarrow> True
       | Some ns \<Rightarrow> \<forall>n \<in> set ns. store_of ''EventParameters'' ex_old (note_key n) \<noteq> store_of ''EventParameters'' ex_new (note_key n))"
  by (rule message_if_different [OF _ ex_comparable]) simp

lemma subtree_added_and_removed_witness:
  "apply_notes ''ep'' (AppendNotifier OP_ADD ''ep'' None ex_old) Map.empty = Some (Map.empty ++ store_of ''ep'' ex_old) \<and>
    apply_notes ''ep'' (AppendNotifier OP_REMOVE ''ep'' None ex_old) (Map.empty ++ store_of ''ep'' ex_old) = Some Map.empty"
  by (rule subtree_added_and_removed)
    (simp_all add: ex_defs rows.simps children_def row_key_def ident_def index_props_def)

text \<open>The notifiers of the example: the event, one new text, a removed and an added comment, an added reference.\<close>

lemma ex_diff:
  "map_option (map (\<lambda>n. (n_op n, t_class (n_object n)))) (Diff2_diff ex_hooks None (Some ex_old) (Some ex_new) ''EventParameters'' None None) =
     Some [(OP_UPDATE, ''Event''), (OP_REMOVE, ''Comment''), (OP_UPDATE, ''Comment''), (OP_ADD, ''Comment''), (OP_ADD, ''OriginReference'')]"
  by code_simp

text \<open>The numbers of an array are not compared.\<close>

definition ex_array :: "rat list \<Rightarrow> tree" where
  "ex_array xs = Tree ''RealArray'' None [(\<lparr>p_name = ''content'', p_type = ''float'', p_isArray = True, p_isClass = False, p_isIndex = False, p_isEnum = False\<rparr>, MNumbers xs)]"

lemma array_content_not_compared: "compare False full (ex_array [1]) (ex_array [2]) = Some True"
  by (simp add: ex_array_def)

text \<open>
  A public object that has moved to another parent is added there while it is still in its old place, if the new parent comes first.
\<close>

definition ex_mag :: tree where
  "ex_mag = Tree ''Magnitude'' (Some ''m'') []"

abbreviation "ex_mags \<equiv> ex_prop ''magnitude'' ''Magnitude'' True True False"
abbreviation "ex_origins \<equiv> ex_prop ''origin'' ''Origin'' True True False"

definition ex_origin :: "string \<Rightarrow> tree list \<Rightarrow> tree" where
  "ex_origin i ms = Tree ''Origin'' (Some i) [(ex_mags, MArray ms)]"

definition ex_root :: "tree list \<Rightarrow> tree" where
  "ex_root os = Tree ''EventParameters'' (Some ''ep'') [(ex_origins, MArray os)]"

lemma moved_object_added_first:
  "Diff2_diff ex_hooks None (Some (ex_root [ex_origin ''a'' [], ex_origin ''b'' [ex_mag]]))
      (Some (ex_root [ex_origin ''a'' [ex_mag], ex_origin ''b'' []])) [] None None =
    Some [Note ''a'' OP_ADD ex_mag, Note ''b'' OP_REMOVE ex_mag]"
  by code_simp

text \<open>
  The index of some classes holds an object (\<open>ArclinkRequestLine\<close>, \<open>Outage\<close>, \<open>WaveformQuality\<close>), which \<open>o2t\<close> takes for a violation of
  contract: with a log, and so in a message, their comparison throws.  The removal of an object that has such children throws
  with \<open>Diff2\<close> also without a log, but not with \<open>Diff3\<close>.
\<close>

definition ex_line :: tree where
  "ex_line = Tree ''ArclinkRequestLine'' None
     [(ex_prop ''streamID'' ''WaveformStreamID'' False True True, MObject (Tree ''WaveformStreamID'' None []))]"

definition ex_request :: tree where
  "ex_request = Tree ''ArclinkRequest'' (Some ''r'') [(ex_prop ''line'' ''ArclinkRequestLine'' True True False, MArray [ex_line])]"

lemma class_index_throws: "diff2Message ex_hooks (Some ex_line) (Some ex_line) ''r'' None None = None"
  by code_simp

lemma removal_throws_without_log:
  "Diff2_diff ex_hooks None (Some ex_request) None ''ArclinkLog'' None None = None"
  "Diff3_diff ex_hooks None (Some ex_request) None ''ArclinkLog'' None None =
     Some [Note ''r'' OP_REMOVE ex_line, Note ''ArclinkLog'' OP_REMOVE ex_request]"
  by code_simp+

end
