(* ===== verification/ObjectCache.thy ===== *)
theory ObjectCache
  imports Complex_Main DmObjects Timewindow "HOL-Library.Monad_Syntax"
begin

text \<open>
  The cache of public objects (src/src/trunk/libs/seiscomp3/datamodel/publicobjectcache.cpp): a doubly linked
  list of items, the oldest first, with a table from identifiers to items, and its two subclasses, which keep a number
  of objects or a span of time.

  Items live at addresses of a heap; a pointer is an address, and a null pointer is \<open>None\<close>.  An operation yields \<open>None\<close> if
  it goes through a null pointer or uses a deleted item, or does not return.  The objects are those of the data model;
  their reference counts are not modelled.  The calls of the pop callback are a log.
\<close>

section \<open>State\<close>

record item =
  it_object :: objref
  it_time :: int
  it_prev :: "nat option"
  it_next :: "nat option"
  it_lookup :: string

record cache =
  heap :: "nat \<Rightarrow> item option"
  brk :: nat
  c_size :: nat
  c_front :: "nat option"
  c_back :: "nat option"
  c_lookup :: "string \<Rightarrow> nat option"
  c_cached :: bool
  callback :: bool
  popped :: "objref list"

definition PublicObjectCache :: cache where
  "PublicObjectCache = \<lparr>heap = Map.empty, brk = 0, c_size = 0, c_front = None, c_back = None, c_lookup = Map.empty, c_cached = False,
     callback = False, popped = []\<rparr>"

definition setPopCallback :: "cache \<Rightarrow> cache" where
  "setPopCallback c = c\<lparr>callback := True\<rparr>"

definition removePopCallback :: "cache \<Rightarrow> cache" where
  "removePopCallback c = c\<lparr>callback := False\<rparr>"

definition call_pop :: "objref \<Rightarrow> cache \<Rightarrow> cache" where
  "call_pop r c = (if callback c then c\<lparr>popped := popped c @ [r]\<rparr> else c)"

section \<open>The linked list\<close>

definition write_item :: "nat \<Rightarrow> (item \<Rightarrow> item) \<Rightarrow> cache \<Rightarrow> cache option" where
  "write_item a f c = map_option (\<lambda>it. c\<lparr>heap := (heap c)(a \<mapsto> f it)\<rparr>) (heap c a)"

text \<open>The pointer of the neighbour, or of the list if there is no neighbour.\<close>

definition set_next :: "nat option \<Rightarrow> nat option \<Rightarrow> cache \<Rightarrow> cache option" where
  "set_next p n c = (case p of None \<Rightarrow> Some (c\<lparr>c_front := n\<rparr>) | Some a \<Rightarrow> write_item a (it_next_update (\<lambda>_. n)) c)"

definition set_prev :: "nat option \<Rightarrow> nat option \<Rightarrow> cache \<Rightarrow> cache option" where
  "set_prev n p c = (case n of None \<Rightarrow> Some (c\<lparr>c_back := p\<rparr>) | Some a \<Rightarrow> write_item a (it_prev_update (\<lambda>_. p)) c)"

definition unlink :: "nat \<Rightarrow> cache \<Rightarrow> cache option" where
  "unlink a c =
     do {
       it \<leftarrow> heap c a;
       c \<leftarrow> set_next (it_prev it) (it_next it) c;
       it \<leftarrow> heap c a;
       set_prev (it_next it) (it_prev it) c
     }"

definition delete_item :: "nat \<Rightarrow> cache \<Rightarrow> cache option" where
  "delete_item a c = map_option (\<lambda>_. c\<lparr>heap := (heap c)(a := None)\<rparr>) (heap c a)"

definition append_item :: "nat \<Rightarrow> cache \<Rightarrow> cache option" where
  "append_item a c =
     do {
       c \<leftarrow> write_item a (\<lambda>it. it\<lparr>it_prev := c_back c, it_next := None\<rparr>) c;
       it \<leftarrow> heap c a;
       c \<leftarrow> set_next (it_prev it) (Some a) c;
       Some (c\<lparr>c_back := Some a\<rparr>)
     }"

section \<open>Operations\<close>

definition remove :: "dm \<Rightarrow> objref \<Rightarrow> cache \<Rightarrow> (bool \<times> cache) option" where
  "remove d po c =
     (case c_lookup c (publicID (obj d po)) of
        None \<Rightarrow> Some (False, c)
      | Some a \<Rightarrow>
          do {
            let c = call_pop po (c\<lparr>c_lookup := (c_lookup c)(publicID (obj d po) := None)\<rparr>);
            c \<leftarrow> unlink a c;
            c \<leftarrow> delete_item a c;
            Some (True, c\<lparr>c_size := c_size c - 1\<rparr>)
          })"

partial_function (option) clear_loop :: "cache \<Rightarrow> cache option" where
  "clear_loop c =
     (case c_front c of
        None \<Rightarrow> Some c
      | Some a \<Rightarrow>
          do {
            it \<leftarrow> heap c a;
            c \<leftarrow> delete_item a (call_pop (it_object it) (c\<lparr>c_front := it_next it\<rparr>));
            clear_loop c
          })"

definition clear :: "cache \<Rightarrow> cache option" where
  "clear c = map_option (\<lambda>c. c\<lparr>c_front := None, c_back := None, c_size := 0, c_lookup := Map.empty\<rparr>) (clear_loop c)"

text \<open>\<open>stamp\<close> is the local time in seconds.\<close>

definition push_time :: "objref \<Rightarrow> int \<Rightarrow> item \<Rightarrow> item" where
  "push_time r stamp it = it\<lparr>it_object := r, it_time := stamp\<rparr>"

definition push :: "dm \<Rightarrow> objref \<Rightarrow> int \<Rightarrow> cache \<Rightarrow> cache option" where
  "push d r stamp c =
     (let i = publicID (obj d r) in
      case c_lookup c i of
        Some a \<Rightarrow>
          do {
            it \<leftarrow> heap c a;
            c \<leftarrow> (if it_object it \<noteq> r \<and> \<not> registered (obj d (it_object it)) then write_item a (it_object_update (\<lambda>_. r)) c else Some c);
            c \<leftarrow> unlink a c;
            c \<leftarrow> write_item a (push_time r stamp) c;
            append_item a c
          }
      | None \<Rightarrow>
          (let a = brk c;
               it = \<lparr>it_object = r, it_time = stamp, it_prev = None, it_next = None, it_lookup = i\<rparr>
           in append_item a
                (c\<lparr>heap := (heap c)(a \<mapsto> it), brk := a + 1, c_lookup := (c_lookup c)(i \<mapsto> a), c_size := c_size c + 1\<rparr>)))"

definition pop :: "cache \<Rightarrow> cache option" where
  "pop c =
     (case c_front c of
        None \<Rightarrow> Some c
      | Some a \<Rightarrow>
          do {
            it \<leftarrow> heap c a;
            c \<leftarrow> unlink a (call_pop (it_object it) c);
            it \<leftarrow> heap c a;
            c \<leftarrow> delete_item a (c\<lparr>c_lookup := (c_lookup c)(it_lookup it := None)\<rparr>);
            Some (c\<lparr>c_size := c_size c - 1\<rparr>)
          })"

definition empty :: "cache \<Rightarrow> bool" where
  "empty c = (c_front c = None)"

definition oldest :: "cache \<Rightarrow> timeval option" where
  "oldest c = (case c_front c of None \<Rightarrow> Some TimeSpan | Some a \<Rightarrow> map_option (ts_of_long \<circ> it_time) (heap c a))"

definition timeWindow :: "cache \<Rightarrow> timewindow option" where
  "timeWindow c =
     (if empty c then Some TimeWindow
      else
        do {
          a \<leftarrow> c_front c;
          f \<leftarrow> heap c a;
          b \<leftarrow> c_back c;
          l \<leftarrow> heap c b;
          Some (tw_set (ts_of_long (it_time f)) (ts_of_long (it_time l)) TimeWindow)
        })"

text \<open>
  \<open>find\<close> asks the registry, not the cache, and then the archive, if there is one, which may register what it has loaded.  \<open>feed\<close> is
  virtual.
\<close>

definition find_object :: "(string \<Rightarrow> dm \<Rightarrow> objref option \<times> dm) option \<Rightarrow> string \<Rightarrow> dm \<Rightarrow> bool \<times> objref option \<times> dm" where
  "find_object archive i d =
     (case Find i d of
        Some r \<Rightarrow> (True, Some r, d)
      | None \<Rightarrow> (False, case archive of None \<Rightarrow> (None, d) | Some load \<Rightarrow> load i d))"

definition find ::
    "(dm \<Rightarrow> objref option \<Rightarrow> cache \<Rightarrow> (bool \<times> cache) option) \<Rightarrow> (string \<Rightarrow> dm \<Rightarrow> objref option \<times> dm) option \<Rightarrow> string \<Rightarrow> dm \<Rightarrow> cache \<Rightarrow>
      (objref option \<times> dm \<times> cache) option" where
  "find feed archive i d c =
     (case find_object archive i d of
        (cached, po, d) \<Rightarrow>
          let c = c\<lparr>c_cached := cached\<rparr> in
          if po = None then Some (None, d, c) else map_option (\<lambda>(_, c). (po, d, c)) (feed d po c))"

section \<open>Iterators\<close>

definition iter_deref :: "cache \<Rightarrow> nat option \<Rightarrow> objref option" where
  "iter_deref c p = do { a \<leftarrow> p; it \<leftarrow> heap c a; Some (it_object it) }"

definition iter_next :: "cache \<Rightarrow> nat option \<Rightarrow> nat option option" where
  "iter_next c p = do { a \<leftarrow> p; it \<leftarrow> heap c a; Some (it_next it) }"

text \<open>The postfix operator: its result, and the iterator.\<close>

definition iter_postfix :: "cache \<Rightarrow> nat option \<Rightarrow> (nat option \<times> nat option) option" where
  "iter_postfix c p = map_option (\<lambda>n. (n, p)) (iter_next c p)"

section \<open>The two buffers\<close>

partial_function (option) pop_beyond :: "nat \<Rightarrow> cache \<Rightarrow> cache option" where
  "pop_beyond bufferSize c = (if c_size c > bufferSize then do { c \<leftarrow> pop c; pop_beyond bufferSize c } else Some c)"

definition ring_feed :: "nat \<Rightarrow> int \<Rightarrow> dm \<Rightarrow> objref option \<Rightarrow> cache \<Rightarrow> (bool \<times> cache) option" where
  "ring_feed bufferSize stamp d po c =
     (case po of
        None \<Rightarrow> Some (False, c)
      | Some r \<Rightarrow>
          do {
            c \<leftarrow> push d r stamp c;
            c \<leftarrow> pop_beyond bufferSize c;
            Some (True, c)
          })"

partial_function (option) pop_older :: "timeval \<Rightarrow> timeval \<Rightarrow> cache \<Rightarrow> cache option" where
  "pop_older timeSpan now c =
     (if empty c then Some c
      else
        do {
          t \<leftarrow> oldest c;
          if ts_gt (ts_sub now t) timeSpan then do { c \<leftarrow> pop c; pop_older timeSpan now c } else Some c
        })"

definition span_feed :: "timeval \<Rightarrow> timeval \<Rightarrow> int \<Rightarrow> dm \<Rightarrow> objref option \<Rightarrow> cache \<Rightarrow> (bool \<times> cache) option" where
  "span_feed timeSpan now stamp d po c =
     (case po of
        None \<Rightarrow> Some (False, c)
      | Some r \<Rightarrow>
          do {
            c \<leftarrow> push d r stamp c;
            c \<leftarrow> pop_older timeSpan now c;
            Some (True, c)
          })"

end
