(* ===== verification/CacheLists.thy ===== *)
theory CacheLists
  imports ObjectCache
begin

text \<open>
  The cache as a list of entries, the oldest first: what its operations do to the linked list and to the table, without a
  dangling pointer or a lost item.
\<close>

section \<open>Doubly linked lists\<close>

definition first :: "nat list \<Rightarrow> nat option \<Rightarrow> nat option" where
  "first as n = (case as of [] \<Rightarrow> n | a # _ \<Rightarrow> Some a)"

definition final :: "nat option \<Rightarrow> nat list \<Rightarrow> nat option" where
  "final p as = (if as = [] then p else Some (last as))"

fun dll :: "(nat \<Rightarrow> item option) \<Rightarrow> nat option \<Rightarrow> nat list \<Rightarrow> nat option \<Rightarrow> bool" where
  "dll h p [] n \<longleftrightarrow> True"
| "dll h p (a # as) n \<longleftrightarrow> (\<exists>it. h a = Some it \<and> it_prev it = p \<and> it_next it = first as n) \<and> dll h (Some a) as n"

lemma first_simps [simp]: "first [] n = n" "first (a # as) n = Some a" "first (as @ bs) n = first as (first bs n)"
  by (simp_all add: first_def split: list.split)

lemma final_simps [simp]: "final p [] = p" "final p (a # as) = final (Some a) as" "final p (as @ bs) = final (final p as) bs"
  by (simp_all add: final_def)

lemma dll_append [simp]: "dll h p (as @ bs) n \<longleftrightarrow> dll h p as (first bs n) \<and> dll h (final p as) bs n"
  by (induction as arbitrary: p) auto

lemma dll_frame [simp]: "a \<notin> set as \<Longrightarrow> dll (h(a := v)) p as n = dll h p as n"
  by (induction as arbitrary: p) auto

text \<open>The pointers at the ends of a part of the list.\<close>

lemma dll_set_next:
  assumes "dll h p (as @ [a]) n" and "h a = Some it" and "a \<notin> set as"
  shows "dll (h(a \<mapsto> it\<lparr>it_next := n'\<rparr>)) p (as @ [a]) n'"
  using assms by auto

lemma dll_set_prev:
  assumes "dll h p (a # as) n" and "h a = Some it" and "a \<notin> set as"
  shows "dll (h(a \<mapsto> it\<lparr>it_prev := p'\<rparr>)) p' (a # as) n"
  using assms by auto

lemma dll_next: "dll h p (as @ a # bs) n \<Longrightarrow> h a = Some it \<Longrightarrow> it_prev it = final p as \<and> it_next it = first bs n"
  by auto

lemma dll_in_heap: "dll h p as n \<Longrightarrow> a \<in> set as \<Longrightarrow> \<exists>it. h a = Some it"
  by (induction as arbitrary: p) auto

section \<open>What a cache holds\<close>

type_synonym entry = "string \<times> objref \<times> int"

definition entry_of :: "(nat \<Rightarrow> item option) \<Rightarrow> nat \<Rightarrow> entry" where
  "entry_of h a = (case h a of Some it \<Rightarrow> (it_lookup it, it_object it, it_time it) | None \<Rightarrow> undefined)"

lemma entry_of_links [simp]:
  "h a = Some it \<Longrightarrow> entry_of (h(a \<mapsto> it\<lparr>it_next := n\<rparr>)) x = entry_of h x"
  "h a = Some it \<Longrightarrow> entry_of (h(a \<mapsto> it\<lparr>it_prev := n\<rparr>)) x = entry_of h x"
  by (simp_all add: entry_of_def)

text \<open>What the work on the list leaves alone.\<close>

definition same_rest :: "cache \<Rightarrow> cache \<Rightarrow> bool" where
  "same_rest c c' \<longleftrightarrow> brk c' = brk c \<and> c_size c' = c_size c \<and> c_lookup c' = c_lookup c \<and> c_cached c' = c_cached c \<and>
     callback c' = callback c \<and> popped c' = popped c"

lemma same_rest_refl [simp]: "same_rest c c"
  by (simp add: same_rest_def)

definition linked :: "cache \<Rightarrow> nat list \<Rightarrow> bool" where
  "linked c as \<longleftrightarrow> distinct as \<and> dll (heap c) None as None \<and> dom (heap c) = set as \<and> (\<forall>a \<in> set as. a < brk c) \<and>
     c_front c = first as None \<and> c_back c = final None as"

definition tabled :: "cache \<Rightarrow> nat list \<Rightarrow> bool" where
  "tabled c as \<longleftrightarrow> c_size c = length as \<and> (\<forall>i a. c_lookup c i = Some a \<longleftrightarrow> a \<in> set as \<and> fst (entry_of (heap c) a) = i)"

definition holds :: "cache \<Rightarrow> nat list \<Rightarrow> entry list \<Rightarrow> bool" where
  "holds c as es \<longleftrightarrow> linked c as \<and> tabled c as \<and> es = map (entry_of (heap c)) as"

definition contents :: "cache \<Rightarrow> entry list \<Rightarrow> bool" where
  "contents c es \<longleftrightarrow> (\<exists>as. holds c as es)"

section \<open>Taking an item out\<close>

lemma unlink_split:
  assumes l: "linked c (as @ a # bs)" 
  shows "\<exists>c'. unlink a c = Some c' \<and> distinct (as @ bs) \<and> dll (heap c') None (as @ bs) None \<and> dom (heap c') = dom (heap c) \<and>
     c_front c' = first (as @ bs) None \<and> c_back c' = final None (as @ bs) \<and>
     (\<forall>x. entry_of (heap c') x = entry_of (heap c) x) \<and> heap c' a = heap c a \<and>
     same_rest c c'"
proof -
  have d: "distinct (as @ a # bs)" and dl: "dll (heap c) None (as @ a # bs) None" using l by (simp_all add: linked_def)
  obtain it where it: "heap c a = Some it" "it_prev it = final None as" "it_next it = first bs None" using dl by auto
  have fb: "c_front c = first (as @ a # bs) None" "c_back c = final None (as @ a # bs)" using l by (simp_all add: linked_def)
  obtain c1 where c1: "set_next (it_prev it) (it_next it) c = Some c1" "dll (heap c1) None as (first bs None)" "dll (heap c1) (Some a) bs None"
      "heap c1 a = Some it" "dom (heap c1) = dom (heap c)" "c_front c1 = first (as @ bs) None" "c_back c1 = c_back c"
      "\<forall>x. entry_of (heap c1) x = entry_of (heap c) x" "same_rest c c1"
  proof (cases as rule: rev_cases)
    case Nil
    with it dl fb show ?thesis by (intro that [of "c\<lparr>c_front := first bs None\<rparr>"]) (simp_all add: set_next_def same_rest_def)
  next
    case (snoc as' p)
    obtain itp where p: "heap c p = Some itp" using dl snoc by auto
    have as: "dll (heap c) None (as' @ [p]) (Some a)" using dl by (simp add: snoc)
    show ?thesis
    proof (rule that [of "c\<lparr>heap := (heap c)(p \<mapsto> itp\<lparr>it_next := first bs None\<rparr>)\<rparr>"])
      show "dll (heap (c\<lparr>heap := (heap c)(p \<mapsto> itp\<lparr>it_next := first bs None\<rparr>)\<rparr>)) None as (first bs None)"
        using dll_set_next [OF as p] d by (simp add: snoc)
    qed (use it dl fb d p snoc in \<open>auto simp: set_next_def write_item_def final_def same_rest_def\<close>)
  qed
  obtain c2 where c2: "set_prev (it_next it) (it_prev it) c1 = Some c2" "dll (heap c2) None as (first bs None)" "dll (heap c2) (final None as) bs None"
      "heap c2 a = Some it" "dom (heap c2) = dom (heap c1)" "c_front c2 = c_front c1" "c_back c2 = final None (as @ bs)"
      "\<forall>x. entry_of (heap c2) x = entry_of (heap c1) x" "same_rest c1 c2"
  proof (cases bs)
    case Nil
    with it c1 show ?thesis by (intro that [of "c1\<lparr>c_back := final None as\<rparr>"]) (simp_all add: set_prev_def same_rest_def)
  next
    case (Cons n bs')
    obtain itn where n: "heap c1 n = Some itn" using c1(3) Cons by auto
    have bs: "dll (heap c1) (Some a) (n # bs') None" using c1(3) by (simp only: Cons)
    show ?thesis
    proof (rule that [of "c1\<lparr>heap := (heap c1)(n \<mapsto> itn\<lparr>it_prev := final None as\<rparr>)\<rparr>"])
      show "dll (heap (c1\<lparr>heap := (heap c1)(n \<mapsto> itn\<lparr>it_prev := final None as\<rparr>)\<rparr>)) (final None as) bs None"
        using dll_set_prev [OF bs n] d by (simp add: Cons)
    qed (use it c1 fb d n Cons in \<open>auto simp: set_prev_def write_item_def final_def same_rest_def\<close>)
  qed
  have "unlink a c = Some c2" using it(1) c1(1,4) c2(1) by (simp add: unlink_def)
  moreover have "same_rest c c2" using c1(9) c2(9) by (simp add: same_rest_def)
  ultimately show ?thesis using c1(5,6,8) c2 d it(1) by auto
qed

lemma entry_of_object: "h a = Some it \<Longrightarrow> entry_of h a = (it_lookup it, it_object it, it_time it)"
  by (simp add: entry_of_def)

lemma entry_of_other [simp]: "x \<noteq> a \<Longrightarrow> entry_of (h(a := v)) x = entry_of h x"
  by (simp add: entry_of_def)

lemma append_split:
  assumes d: "distinct (as @ [a])" and dl: "dll (heap c) None as None" and it: "heap c a = Some it"
    and fb: "c_front c = first as None" "c_back c = final None as"
  shows "\<exists>c'. append_item a c = Some c' \<and> dll (heap c') None (as @ [a]) None \<and> dom (heap c') = dom (heap c) \<and>
     c_front c' = first (as @ [a]) None \<and> c_back c' = Some a \<and> (\<forall>x. entry_of (heap c') x = entry_of (heap c) x) \<and> same_rest c c'"
proof -
  define c2 where "c2 = c\<lparr>heap := (heap c)(a \<mapsto> it\<lparr>it_prev := final None as, it_next := None\<rparr>)\<rparr>"
  have w: "write_item a (\<lambda>it. it\<lparr>it_prev := c_back c, it_next := None\<rparr>) c = Some c2" using it fb by (simp add: write_item_def c2_def)
  have c2: "entry_of (heap c2) x = entry_of (heap c) x" "heap c2 a = Some (it\<lparr>it_prev := final None as, it_next := None\<rparr>)"
      "dom (heap c2) = dom (heap c)" "dll (heap c2) None as None" "c_front c2 = first as None" "same_rest c c2" for x
    using it d dl fb by (auto simp: c2_def same_rest_def entry_of_def)
  obtain c3 where c3: "set_next (final None as) (Some a) c2 = Some c3" "dll (heap c3) None (as @ [a]) None" "dom (heap c3) = dom (heap c2)"
      "c_front c3 = first (as @ [a]) None" "\<forall>x. entry_of (heap c3) x = entry_of (heap c2) x" "same_rest c2 c3"
  proof (cases as rule: rev_cases)
    case Nil
    with c2(2) show ?thesis by (intro that [of "c2\<lparr>c_front := Some a\<rparr>"]) (simp_all add: set_next_def same_rest_def)
  next
    case (snoc as' p)
    obtain itp where p: "heap c2 p = Some itp" using c2(4) snoc by auto
    have n: "p \<notin> set as'" "p \<noteq> a" using d snoc by auto
    have as: "dll (heap c2) None (as' @ [p]) None" using c2(4) by (simp only: snoc)
    show ?thesis
    proof (rule that [of "c2\<lparr>heap := (heap c2)(p \<mapsto> itp\<lparr>it_next := Some a\<rparr>)\<rparr>"])
      have "dll ((heap c2)(p \<mapsto> itp\<lparr>it_next := Some a\<rparr>)) (Some p) [a] None" using n(2) snoc c2(2) by simp
      with dll_set_next [OF as p n(1), of "Some a"]
      show "dll (heap (c2\<lparr>heap := (heap c2)(p \<mapsto> itp\<lparr>it_next := Some a\<rparr>)\<rparr>)) None (as @ [a]) None"
        by (simp add: snoc)
    qed (use p c2(5) snoc in \<open>auto simp: set_next_def write_item_def same_rest_def\<close>)
  qed
  have "append_item a c = Some (c3\<lparr>c_back := Some a\<rparr>)" using c2(2) c3(1) by (simp add: append_item_def w)
  then show ?thesis using c2 c3 by (auto simp: same_rest_def)
qed

lemma linked_distinct: "holds c as es \<Longrightarrow> distinct as"
  by (simp add: holds_def linked_def)

lemma holds_keys: "holds c as es \<Longrightarrow> distinct (map fst es)"
proof -
  assume h: "holds c as es"
  have "inj_on (\<lambda>a. fst (entry_of (heap c) a)) (set as)"
  proof (rule inj_onI)
    fix a b assume ab: "a \<in> set as" "b \<in> set as" "fst (entry_of (heap c) a) = fst (entry_of (heap c) b)"
    let ?i = "fst (entry_of (heap c) b)"
    have t: "\<And>i a. c_lookup c i = Some a \<longleftrightarrow> a \<in> set as \<and> fst (entry_of (heap c) a) = i" using h by (simp add: holds_def tabled_def)
    have "c_lookup c ?i = Some a" "c_lookup c ?i = Some b" using t [of ?i a] t [of ?i b] ab by simp_all
    then show "a = b" by simp
  qed
  then show ?thesis using h linked_distinct [OF h] by (auto simp: holds_def distinct_map comp_def inj_on_def)
qed

text \<open>Taking an item out of the list and of the table.\<close>

lemma take_out:
  assumes h: "holds c (as @ a # bs) es"
  shows "\<exists>c1 c'. unlink a c = Some c1 \<and> heap c1 a = heap c a \<and> delete_item a c1 = Some c' \<and>
     holds (c'\<lparr>c_lookup := (c_lookup c)(fst (entry_of (heap c) a) := None), c_size := c_size c - 1\<rparr>) (as @ bs) (map (entry_of (heap c)) (as @ bs)) \<and> same_rest c c'"
proof -
  have l: "linked c (as @ a # bs)" and t: "tabled c (as @ a # bs)" using h by (simp_all add: holds_def)
  obtain c1 where c1: "unlink a c = Some c1" "distinct (as @ bs)" "dll (heap c1) None (as @ bs) None" "dom (heap c1) = dom (heap c)"
      "c_front c1 = first (as @ bs) None" "c_back c1 = final None (as @ bs)" "\<forall>x. entry_of (heap c1) x = entry_of (heap c) x"
      "heap c1 a = heap c a" "same_rest c c1"
    using unlink_split [OF l] by blast
  obtain it where it: "heap c a = Some it" using l by (auto simp: linked_def)
  have n: "a \<notin> set (as @ bs)" using l by (auto simp: linked_def)
  let ?c = "c1\<lparr>heap := (heap c1)(a := None)\<rparr>"
  let ?r = "?c\<lparr>c_lookup := (c_lookup c)(fst (entry_of (heap c) a) := None), c_size := c_size c - 1\<rparr>"
  have e: "entry_of (heap ?r) x = entry_of (heap c) x" if "x \<noteq> a" for x
    using that c1(7) by (simp del: fun_upd_apply)
  have ne: "fst (entry_of (heap c) x) \<noteq> fst (entry_of (heap c) a)" if "x \<in> set (as @ bs)" for x
    using holds_keys [OF h] h that by (auto simp: holds_def image_iff)
  have "linked ?r (as @ bs)"
    using c1(2,3,4,5,6,9) l n by (auto simp: linked_def same_rest_def)
  moreover have "tabled ?r (as @ bs)"
    unfolding tabled_def
  proof (intro conjI allI)
    show "c_size ?r = length (as @ bs)" using t by (simp add: tabled_def)
    fix i x
    have "c_lookup c i = Some x \<longleftrightarrow> x \<in> set (as @ a # bs) \<and> fst (entry_of (heap c) x) = i" using t by (simp add: tabled_def)
    with e ne n show "c_lookup ?r i = Some x \<longleftrightarrow> x \<in> set (as @ bs) \<and> fst (entry_of (heap ?r) x) = i"
      by (cases "x = a") auto
  qed
  moreover have "map (entry_of (heap c)) (as @ bs) = map (entry_of (heap ?r)) (as @ bs)"
  proof (rule map_cong [OF refl])
    fix x assume "x \<in> set (as @ bs)"
    with n have "x \<noteq> a" by blast
    then show "entry_of (heap c) x = entry_of (heap ?r) x" by (rule e [symmetric])
  qed
  moreover have "delete_item a c1 = Some ?c" using c1(8) it by (simp add: delete_item_def)
  moreover have "same_rest c ?c" using c1(9) by (simp add: same_rest_def)
  ultimately show ?thesis using c1(1,8) by (auto simp: holds_def)
qed

section \<open>Operations on the entries\<close>

abbreviation others :: "string \<Rightarrow> entry list \<Rightarrow> entry list" where
  "others i \<equiv> filter (\<lambda>e. fst e \<noteq> i)"

lemma others_none: "i \<notin> fst ` set es \<Longrightarrow> others i es = es"
  by (auto intro!: filter_True)

lemma others_split: "distinct (map fst (es @ e # es')) \<Longrightarrow> others (fst e) (es @ e # es') = es @ es'"
  using others_none [of "fst e" es] others_none [of "fst e" es'] by simp

lemma holds_call_pop [simp]: "holds (call_pop r c) as es = holds c as es"
  by (simp add: call_pop_def holds_def linked_def tabled_def)

lemma call_pop_rest [simp]:
  "callback (call_pop r c) = callback c" "heap (call_pop r c) = heap c" "c_lookup (call_pop r c) = c_lookup c"
  "c_size (call_pop r c) = c_size c" "c_cached (call_pop r c) = c_cached c" "brk (call_pop r c) = brk c" "c_front (call_pop r c) = c_front c"
  "popped (call_pop r c) = popped c @ (if callback c then [r] else [])"
  by (simp_all add: call_pop_def)

lemma links_lookup:
  "write_item a f (c\<lparr>c_lookup := t\<rparr>) = map_option (\<lambda>c. c\<lparr>c_lookup := t\<rparr>) (write_item a f c)"
  "set_next p n (c\<lparr>c_lookup := t\<rparr>) = map_option (\<lambda>c. c\<lparr>c_lookup := t\<rparr>) (set_next p n c)"
  "set_prev n p (c\<lparr>c_lookup := t\<rparr>) = map_option (\<lambda>c. c\<lparr>c_lookup := t\<rparr>) (set_prev n p c)"
proof -
  show w: "write_item a f (c\<lparr>c_lookup := t\<rparr>) = map_option (\<lambda>c. c\<lparr>c_lookup := t\<rparr>) (write_item a f c)" for a f
    by (cases "heap c a") (simp_all add: write_item_def)
  show "set_next p n (c\<lparr>c_lookup := t\<rparr>) = map_option (\<lambda>c. c\<lparr>c_lookup := t\<rparr>) (set_next p n c)"
    by (simp add: set_next_def w split: option.split)
  show "set_prev n p (c\<lparr>c_lookup := t\<rparr>) = map_option (\<lambda>c. c\<lparr>c_lookup := t\<rparr>) (set_prev n p c)"
    by (simp add: set_prev_def w split: option.split)
qed

lemma unlink_lookup [simp]: "unlink a (c\<lparr>c_lookup := t\<rparr>) = map_option (\<lambda>c. c\<lparr>c_lookup := t\<rparr>) (unlink a c)"
proof (cases "heap c a")
  case (Some it)
  then show ?thesis
  proof (cases "set_next (it_prev it) (it_next it) c")
    case (Some c1)
    with \<open>heap c a = Some it\<close> show ?thesis by (cases "heap c1 a") (simp_all add: unlink_def links_lookup)
  qed (simp add: unlink_def links_lookup)
qed (simp add: unlink_def)

lemma delete_lookup [simp]: "delete_item a (c\<lparr>c_lookup := t\<rparr>) = map_option (\<lambda>c. c\<lparr>c_lookup := t\<rparr>) (delete_item a c)"
  by (cases "heap c a") (simp_all add: delete_item_def)

lemma call_pop_lookup: "call_pop r (c\<lparr>c_lookup := t\<rparr>) = (call_pop r c)\<lparr>c_lookup := t\<rparr>"
  by (simp add: call_pop_def)

lemma lookup_entry:
  assumes h: "holds c as es" and a: "c_lookup c i = Some a"
  shows "a \<in> set as \<and> (\<exists>it. heap c a = Some it \<and> it_lookup it = i)"
proof -
  have "a \<in> set as" "fst (entry_of (heap c) a) = i" using h a by (simp_all add: holds_def tabled_def)
  moreover obtain it where "heap c a = Some it" using h \<open>a \<in> set as\<close> dll_in_heap unfolding holds_def linked_def by blast
  ultimately show ?thesis by (simp add: entry_of_object)
qed

lemma lookup_none: "holds c as es \<Longrightarrow> c_lookup c i = None \<longleftrightarrow> i \<notin> fst ` set es"
proof -
  assume h: "holds c as es"
  then have "\<And>a. c_lookup c i = Some a \<longleftrightarrow> a \<in> set as \<and> fst (entry_of (heap c) a) = i" by (simp add: holds_def tabled_def)
  then have "c_lookup c i = None \<longleftrightarrow> (\<forall>a \<in> set as. fst (entry_of (heap c) a) \<noteq> i)" by (metis option.exhaust option.distinct(1))
  with h show ?thesis by (auto simp: holds_def)
qed

lemma pop_contents:
  assumes "contents c (e # es)"
  shows "\<exists>c'. pop c = Some c' \<and> contents c' es \<and> callback c' = callback c \<and> c_cached c' = c_cached c \<and> c_size c' = c_size c - 1 \<and>
     popped c' = popped c @ (if callback c then [fst (snd e)] else [])"
proof -
  obtain a as where h: "holds c (a # as) (e # es)" using assms by (auto simp: contents_def holds_def)
  obtain it where it: "heap c a = Some it" and f: "c_front c = Some a" using h by (auto simp: holds_def linked_def)
  have e: "e = (it_lookup it, it_object it, it_time it)" using h it by (simp add: holds_def entry_of_object)
  let ?c = "call_pop (it_object it) c"
  have "holds ?c ([] @ a # as) (e # es)" using h by simp
  from take_out [OF this] obtain c1 c' where run: "unlink a ?c = Some c1" "heap c1 a = heap ?c a" "delete_item a c1 = Some c'" "same_rest ?c c'"
      and res: "holds (c'\<lparr>c_lookup := (c_lookup ?c)(fst (entry_of (heap ?c) a) := None), c_size := c_size ?c - 1\<rparr>) as (map (entry_of (heap ?c)) as)"
    by auto
  have c1: "c_lookup c1 = c_lookup c" using run(3,4) by (auto simp: delete_item_def same_rest_def)
  have "pop c = Some (c'\<lparr>c_lookup := (c_lookup c)(it_lookup it := None), c_size := c_size c - 1\<rparr>)"
    using run f it c1 by (simp add: pop_def same_rest_def)
  moreover have "holds (c'\<lparr>c_lookup := (c_lookup c)(it_lookup it := None), c_size := c_size c - 1\<rparr>) as es"
    using res h it by (simp add: entry_of_object holds_def)
  ultimately show ?thesis using run(4) e by (auto simp: contents_def same_rest_def)
qed

lemma remove_contents:
  assumes "contents c es"
  shows "\<exists>c'. remove d po c = Some (publicID (obj d po) \<in> fst ` set es, c') \<and> contents c' (others (publicID (obj d po)) es) \<and>
     callback c' = callback c \<and> popped c' = popped c @ (if callback c \<and> publicID (obj d po) \<in> fst ` set es then [po] else [])"
proof -
  let ?i = "publicID (obj d po)"
  obtain as where h: "holds c as es" using assms by (auto simp: contents_def)
  show ?thesis
  proof (cases "c_lookup c ?i")
    case None
    with lookup_none [OF h, of ?i] assms show ?thesis by (simp add: remove_def others_none)
  next
    case (Some a)
    obtain it where a: "a \<in> set as" "heap c a = Some it" "it_lookup it = ?i" using lookup_entry [OF h Some] by blast
    obtain xs ys where as: "as = xs @ a # ys" using a(1) by (meson split_list)
    let ?c = "call_pop po c"
    have "holds ?c (xs @ a # ys) es" using h as by simp
    from take_out [OF this] obtain c1 c' where run: "unlink a ?c = Some c1" "heap c1 a = heap ?c a" "delete_item a c1 = Some c'" "same_rest ?c c'"
        and res: "holds (c'\<lparr>c_lookup := (c_lookup ?c)(fst (entry_of (heap ?c) a) := None), c_size := c_size ?c - 1\<rparr>) (xs @ ys) (map (entry_of (heap ?c)) (xs @ ys))"
      by auto
    have "remove d po c = Some (True, c'\<lparr>c_lookup := (c_lookup c)(?i := None), c_size := c_size c - 1\<rparr>)"
      using run Some by (simp add: remove_def call_pop_lookup same_rest_def)
    moreover have "map (entry_of (heap c)) (xs @ ys) = others ?i es"
      using others_split [of "map (entry_of (heap c)) xs" "entry_of (heap c) a" "map (entry_of (heap c)) ys"] holds_keys [OF h] h a(2,3)
      by (simp add: holds_def as entry_of_object)
    ultimately show ?thesis
      using run(4) res a lookup_none [OF h, of ?i] Some by (auto simp: contents_def same_rest_def entry_of_object)
  qed
qed

lemma dll_same_links:
  "h a = Some it \<Longrightarrow> it_prev it' = it_prev it \<Longrightarrow> it_next it' = it_next it \<Longrightarrow> dll (h(a \<mapsto> it')) p as n = dll h p as n"
  by (induction as arbitrary: p) auto

lemma linked_object:
  assumes "linked c as" and "heap c a = Some it"
  shows "linked (c\<lparr>heap := (heap c)(a \<mapsto> it\<lparr>it_object := r\<rparr>)\<rparr>) as"
  using assms dll_same_links [where h = "heap c" and it' = "it\<lparr>it_object := r\<rparr>"] by (auto simp: linked_def)

text \<open>Appending a new or an unlinked item, which has its time and object already.\<close>

lemma append_contents:
  assumes l: "distinct (as @ [a])" "dll (heap c) None as None" "dom (heap c) = set (as @ [a])" "\<forall>x \<in> set (as @ [a]). x < brk c"
      "c_front c = first as None" "c_back c = final None as"
    and t: "tabled c (as @ [a])" "es = map (entry_of (heap c)) (as @ [a])"
  shows "\<exists>c'. append_item a c = Some c' \<and> contents c' es \<and> same_rest c c'"
proof -
  obtain it where it: "heap c a = Some it" using l(3) by auto
  obtain c' where c': "append_item a c = Some c'" "dll (heap c') None (as @ [a]) None" "dom (heap c') = dom (heap c)"
     "c_front c' = first (as @ [a]) None" "c_back c' = Some a" "\<forall>x. entry_of (heap c') x = entry_of (heap c) x" "same_rest c c'"
    using append_split [OF l(1,2) it l(5,6)] by blast
  have "linked c' (as @ [a])" using l c' by (auto simp: linked_def same_rest_def)
  moreover have "tabled c' (as @ [a])" using t(1) c' by (simp add: tabled_def same_rest_def)
  ultimately have "holds c' (as @ [a]) es" using t(2) c'(6) by (simp add: holds_def)
  with c' show ?thesis by (auto simp: contents_def)
qed

lemma push_new:
  assumes h: "holds c as es" and new: "c_lookup c (publicID (obj d r)) = None"
  shows "\<exists>c'. push d r stamp c = Some c' \<and> contents c' (es @ [(publicID (obj d r), r, stamp)]) \<and> callback c' = callback c \<and> popped c' = popped c \<and> c_cached c' = c_cached c"
proof -
  let ?i = "publicID (obj d r)" and ?a = "brk c"
  let ?it = "\<lparr>it_object = r, it_time = stamp, it_prev = None, it_next = None, it_lookup = ?i\<rparr>"
  define c1 where "c1 = c\<lparr>heap := (heap c)(?a \<mapsto> ?it), brk := ?a + 1, c_lookup := (c_lookup c)(?i \<mapsto> ?a), c_size := c_size c + 1\<rparr>"
  have l: "linked c as" "tabled c as" "es = map (entry_of (heap c)) as" using h by (simp_all add: holds_def)
  have n: "?a \<notin> set as" using l(1) by (auto simp: linked_def)
  then have same: "entry_of (heap c1) x = entry_of (heap c) x" if "x \<in> set as" for x
  proof -
    have "x \<noteq> ?a" using that n by blast
    then show ?thesis by (simp add: c1_def del: fun_upd_apply)
  qed
  have here: "entry_of (heap c1) ?a = (?i, r, stamp)" by (simp add: c1_def entry_of_def)
  have t: "c_lookup c1 i = Some a \<longleftrightarrow> a \<in> set (as @ [?a]) \<and> fst (entry_of (heap c1) a) = i" for i a
  proof -
    have "c_lookup c i = Some a \<longleftrightarrow> a \<in> set as \<and> fst (entry_of (heap c) a) = i" using l(2) by (simp add: tabled_def)
    moreover have "c_lookup c1 i = (if i = ?i then Some ?a else c_lookup c i)" by (simp add: c1_def)
    ultimately show ?thesis using new same here n by (cases "i = ?i"; cases "a = ?a") auto
  qed
  have "\<exists>c'. append_item ?a c1 = Some c' \<and> contents c' (es @ [(?i, r, stamp)]) \<and> same_rest c1 c'"
  proof (rule append_contents)
    show "tabled c1 (as @ [?a])" using t l(2) by (simp add: tabled_def) (simp add: c1_def)
    show "es @ [(?i, r, stamp)] = map (entry_of (heap c1)) (as @ [?a])" using same here l(3) by simp
  qed (use l(1) n in \<open>auto simp: linked_def c1_def\<close>)
  then show ?thesis by (auto simp: push_def new Let_def c1_def same_rest_def)
qed

lemma push_known:
  assumes h: "holds c (xs @ a # ys) es" and known: "c_lookup c (publicID (obj d r)) = Some a"
  shows "\<exists>c'. push d r stamp c = Some c' \<and> contents c' (others (publicID (obj d r)) es @ [(publicID (obj d r), r, stamp)]) \<and>
     callback c' = callback c \<and> popped c' = popped c \<and> c_cached c' = c_cached c"
proof -
  let ?i = "publicID (obj d r)"
  obtain it where it: "heap c a = Some it" "it_lookup it = ?i" using lookup_entry [OF h known] by blast
  have l: "linked c (xs @ a # ys)" and t: "tabled c (xs @ a # ys)" using h by (simp_all add: holds_def)
  define b where "b = (it_object it \<noteq> r \<and> \<not> registered (obj d (it_object it)))"
  define it0 where "it0 = (if b then it\<lparr>it_object := r\<rparr> else it)"
  define c0 where "c0 = c\<lparr>heap := (heap c)(a \<mapsto> it0)\<rparr>"
  have run0: "(if b then write_item a (it_object_update (\<lambda>_. r)) c else Some c) = Some c0"
    using it(1) by (auto simp: write_item_def c0_def it0_def fun_upd_idem)
  have l0: "linked c0 (xs @ a # ys)" using linked_object [OF l it(1)] l it(1) by (simp add: c0_def it0_def fun_upd_idem)
  obtain c1 where c1: "unlink a c0 = Some c1" "distinct (xs @ ys)" "dll (heap c1) None (xs @ ys) None" "dom (heap c1) = dom (heap c0)"
     "c_front c1 = first (xs @ ys) None" "c_back c1 = final None (xs @ ys)"
     "\<forall>x. entry_of (heap c1) x = entry_of (heap c0) x" "heap c1 a = heap c0 a" "same_rest c0 c1"
    using unlink_split [OF l0] by blast
  define c2 where "c2 = c1\<lparr>heap := (heap c1)(a \<mapsto> push_time r stamp it0)\<rparr>"
  have run2: "write_item a (push_time r stamp) c1 = Some c2" using c1(8) by (simp add: write_item_def c2_def c0_def)
  have n: "a \<notin> set (xs @ ys)" using l by (auto simp: linked_def)
  have same: "entry_of (heap c2) x = entry_of (heap c) x" if "x \<noteq> a" for x
    using that c1(7) by (simp add: c2_def c0_def del: fun_upd_apply)
  have here: "entry_of (heap c2) a = (?i, r, stamp)" using it(2) by (simp add: c2_def entry_of_def it0_def push_time_def)
  have here0: "fst (entry_of (heap c) a) = ?i" using it by (simp add: entry_of_object)
  have rest: "c_size c2 = c_size c" "c_lookup c2 = c_lookup c" "brk c2 = brk c" "callback c2 = callback c" "popped c2 = popped c" "c_cached c2 = c_cached c"
    using c1(9) by (simp_all add: c2_def c0_def same_rest_def)
  have "\<exists>c'. append_item a c2 = Some c' \<and> contents c' (others ?i es @ [(?i, r, stamp)]) \<and> same_rest c2 c'"
  proof (rule append_contents)
    show "tabled c2 ((xs @ ys) @ [a])"
      unfolding tabled_def
    proof (intro conjI allI)
      show "c_size c2 = length ((xs @ ys) @ [a])" using t rest by (simp add: tabled_def)
      fix i x
      have "c_lookup c i = Some x \<longleftrightarrow> x \<in> set (xs @ a # ys) \<and> fst (entry_of (heap c) x) = i" using t by (simp add: tabled_def)
      with same here here0 rest show "c_lookup c2 i = Some x \<longleftrightarrow> x \<in> set ((xs @ ys) @ [a]) \<and> fst (entry_of (heap c2) x) = i"
        by (cases "x = a") auto
    qed
    have "map (entry_of (heap c2)) (xs @ ys) = map (entry_of (heap c)) (xs @ ys)" 
    proof (rule map_cong [OF refl])
      fix x assume "x \<in> set (xs @ ys)"
      with n have "x \<noteq> a" by blast
      then show "entry_of (heap c2) x = entry_of (heap c) x" by (rule same)
    qed
    moreover have "others ?i es = map (entry_of (heap c)) (xs @ ys)"
      using others_split [of "map (entry_of (heap c)) xs" "entry_of (heap c) a" "map (entry_of (heap c)) ys"] holds_keys [OF h] h here0
      by (simp add: holds_def)
    ultimately show "others ?i es @ [(?i, r, stamp)] = map (entry_of (heap c2)) ((xs @ ys) @ [a])" using here by simp
    show "dll (heap c2) None (xs @ ys) None" using c1(3) n by (simp add: c2_def)
    show "dom (heap c2) = set ((xs @ ys) @ [a])" using c1(4) l0 by (auto simp: c2_def linked_def)
    show "\<forall>x \<in> set ((xs @ ys) @ [a]). x < brk c2" using l rest by (auto simp: linked_def)
  qed (use c1(2,5,6) n in \<open>auto simp: c2_def\<close>)
  moreover have "push d r stamp c = append_item a c2"
    using known it(1) run0 c1(1) run2 by (simp add: push_def b_def)
  ultimately show ?thesis using rest by (auto simp: same_rest_def)
qed

lemma push_contents:
  assumes "contents c es"
  shows "\<exists>c'. push d r stamp c = Some c' \<and> contents c' (others (publicID (obj d r)) es @ [(publicID (obj d r), r, stamp)]) \<and>
     callback c' = callback c \<and> popped c' = popped c \<and> c_cached c' = c_cached c"
proof -
  obtain as where h: "holds c as es" using assms by (auto simp: contents_def)
  show ?thesis
  proof (cases "c_lookup c (publicID (obj d r))")
    case None
    with push_new [OF h None] lookup_none [OF h, of "publicID (obj d r)"] show ?thesis by (simp add: others_none)
  next
    case (Some a)
    then obtain xs ys where "as = xs @ a # ys" using lookup_entry [OF h Some] by (meson split_list)
    with push_known [of c xs a ys es d r stamp] h Some show ?thesis by simp
  qed
qed

end
