(* ===== verification/CacheFacts.thy ===== *)
theory CacheFacts
  imports CacheLists
begin

text \<open>
  The two buffers against what they promise: a list of entries, the oldest first, to which a new or a known object is
  appended and whose first entries are dropped.
\<close>

lemma contents_size: "contents c es \<Longrightarrow> c_size c = length es"
  by (auto simp: contents_def holds_def tabled_def)

lemma contents_front: "contents c es \<Longrightarrow> empty c \<longleftrightarrow> es = []"
proof -
  assume "contents c es"
  then obtain as where "holds c as es" by (auto simp: contents_def)
  then show "empty c \<longleftrightarrow> es = []" by (cases as) (auto simp: holds_def linked_def empty_def)
qed

lemma contents_oldest:
  assumes "contents c (e # es)"
  shows "oldest c = Some (ts_of_long (snd (snd e)))"
proof -
  obtain a as where h: "holds c (a # as) (e # es)" using assms by (auto simp: contents_def holds_def)
  then obtain it where "heap c a = Some it" "c_front c = Some a" by (auto simp: holds_def linked_def)
  with h show ?thesis by (auto simp: oldest_def holds_def entry_of_object)
qed

lemma contents_new: "contents PublicObjectCache []"
  by (auto simp: contents_def holds_def linked_def tabled_def PublicObjectCache_def)

section \<open>Clearing\<close>

text \<open>The table and the size are stale until the loop has ended.\<close>

lemma clear_loop_done:
  "dll (heap c) p as None \<Longrightarrow> distinct as \<Longrightarrow> dom (heap c) = set as \<Longrightarrow> c_front c = first as None \<Longrightarrow>
     \<exists>c'. clear_loop c = Some c' \<and> heap c' = Map.empty \<and> callback c' = callback c \<and>
       popped c' = popped c @ (if callback c then map (\<lambda>a. fst (snd (entry_of (heap c) a))) as else [])"
proof (induction as arbitrary: c p)
  case Nil
  then show ?case by (simp add: clear_loop.simps [of c])
next
  case (Cons a as)
  obtain it where it: "heap c a = Some it" "it_next it = first as None" using Cons.prems(1) by auto
  let ?c = "(call_pop (it_object it) (c\<lparr>c_front := it_next it\<rparr>))\<lparr>heap := (heap c)(a := None)\<rparr>"
  have "\<exists>c'. clear_loop ?c = Some c' \<and> heap c' = Map.empty \<and> callback c' = callback ?c \<and>
      popped c' = popped ?c @ (if callback ?c then map (\<lambda>a. fst (snd (entry_of (heap ?c) a))) as else [])"
  proof (rule Cons.IH [of _ "Some a"])
    show "dll (heap ?c) (Some a) as None" using Cons.prems(1,2) by simp
    show "dom (heap ?c) = set as" using Cons.prems(2,3) by auto
  qed (use Cons.prems it in \<open>auto simp: call_pop_def\<close>)
  moreover have "clear_loop c = clear_loop ?c"
    using it Cons.prems(4) by (subst clear_loop.simps) (simp add: delete_item_def)
  moreover have "map (\<lambda>x. fst (snd (entry_of (heap ?c) x))) as = map (\<lambda>x. fst (snd (entry_of (heap c) x))) as"
  proof (rule map_cong [OF refl])
    fix x assume "x \<in> set as"
    then have "x \<noteq> a" using Cons.prems(2) by auto
    then show "fst (snd (entry_of (heap ?c) x)) = fst (snd (entry_of (heap c) x))" by simp
  qed
  ultimately show ?case using it(1) by (auto simp: entry_of_object call_pop_def)
qed

lemma clear_contents:
  assumes "contents c es"
  shows "\<exists>c'. clear c = Some c' \<and> contents c' [] \<and> callback c' = callback c \<and> popped c' = popped c @ (if callback c then map (fst \<circ> snd) es else [])"
proof -
  obtain as where h: "holds c as es" using assms by (auto simp: contents_def)
  obtain c' where c': "clear_loop c = Some c'" "heap c' = Map.empty" "callback c' = callback c"
      "popped c' = popped c @ (if callback c then map (\<lambda>a. fst (snd (entry_of (heap c) a))) as else [])"
    using clear_loop_done [of c None as] h by (auto simp: holds_def linked_def)
  have "contents (c'\<lparr>c_front := None, c_back := None, c_size := 0, c_lookup := Map.empty\<rparr>) []"
    using c'(2) by (auto simp: contents_def holds_def linked_def tabled_def)
  with c' h show ?thesis by (auto simp: clear_def holds_def)
qed

section \<open>Dropping the oldest entries\<close>

definition surplus_size :: "nat \<Rightarrow> entry list \<Rightarrow> nat" where
  "surplus_size n es = length es - n"

definition too_old :: "timeval \<Rightarrow> timeval \<Rightarrow> entry \<Rightarrow> bool" where
  "too_old timeSpan now e = ts_gt (ts_sub now (ts_of_long (snd (snd e)))) timeSpan"

definition surplus_span :: "timeval \<Rightarrow> timeval \<Rightarrow> entry list \<Rightarrow> nat" where
  "surplus_span timeSpan now es = length (takeWhile (too_old timeSpan now) es)"

locale cache_policy =
  fixes trim :: "cache \<Rightarrow> cache option" and surplus :: "entry list \<Rightarrow> nat"
  assumes trim_stop: "contents c es \<Longrightarrow> surplus es = 0 \<Longrightarrow> trim c = Some c"
    and trim_step: "contents c (e # es) \<Longrightarrow> surplus (e # es) \<noteq> 0 \<Longrightarrow> trim c = Option.bind (pop c) trim"
    and surplus_nil: "surplus [] = 0"
    and surplus_step: "surplus (e # es) \<noteq> 0 \<Longrightarrow> surplus (e # es) = Suc (surplus es)"
begin

lemma trim_contents:
  "contents c es \<Longrightarrow> \<exists>c'. trim c = Some c' \<and> contents c' (drop (surplus es) es) \<and> callback c' = callback c \<and>
     popped c' = popped c @ (if callback c then map (fst \<circ> snd) (take (surplus es) es) else [])"
proof (induction es arbitrary: c)
  case Nil
  then show ?case using trim_stop surplus_nil by simp
next
  case (Cons e es)
  show ?case
  proof (cases "surplus (e # es) = 0")
    case True
    with Cons.prems trim_stop show ?thesis by simp
  next
    case False
    obtain c1 where c1: "pop c = Some c1" "contents c1 es" "callback c1 = callback c" "popped c1 = popped c @ (if callback c then [fst (snd e)] else [])"
      using pop_contents [OF Cons.prems] by blast
    with Cons.IH [OF c1(2)] trim_step [OF Cons.prems False] surplus_step [OF False] show ?thesis by auto
  qed
qed

text \<open>Feeding an object.\<close>

lemma feed_contents:
  assumes "contents c es"
    and es': "es' = others (publicID (obj d r)) es @ [(publicID (obj d r), r, stamp)]"
  shows "\<exists>c'. Option.bind (push d r stamp c) (\<lambda>c. Option.bind (trim c) (\<lambda>c. Some (True, c))) = Some (True, c') \<and>
     contents c' (drop (surplus es') es') \<and> callback c' = callback c \<and>
     popped c' = popped c @ (if callback c then map (fst \<circ> snd) (take (surplus es') es') else [])"
proof -
  obtain c1 where c1: "push d r stamp c = Some c1" "contents c1 es'" "callback c1 = callback c" "popped c1 = popped c"
    using push_contents [OF assms(1)] unfolding es' by blast
  with trim_contents [OF c1(2)] show ?thesis by auto
qed

end

interpretation ring: cache_policy "pop_beyond n" "surplus_size n" for n
proof
  fix c :: cache and es :: "entry list" and e :: entry
  show "contents c es \<Longrightarrow> surplus_size n es = 0 \<Longrightarrow> pop_beyond n c = Some c"
    by (subst pop_beyond.simps) (auto simp: surplus_size_def dest: contents_size)
  show "contents c (e # es) \<Longrightarrow> surplus_size n (e # es) \<noteq> 0 \<Longrightarrow> pop_beyond n c = Option.bind (pop c) (pop_beyond n)"
    by (subst pop_beyond.simps) (auto simp: surplus_size_def dest: contents_size)
qed (simp_all add: surplus_size_def)

interpretation span: cache_policy "pop_older timeSpan now" "surplus_span timeSpan now" for timeSpan now
proof
  fix c :: cache and es :: "entry list" and e :: entry
  show "contents c es \<Longrightarrow> surplus_span timeSpan now es = 0 \<Longrightarrow> pop_older timeSpan now c = Some c"
    by (subst pop_older.simps, cases es) (auto simp: surplus_span_def too_old_def contents_front contents_oldest split: if_splits)
  show "contents c (e # es) \<Longrightarrow> surplus_span timeSpan now (e # es) \<noteq> 0 \<Longrightarrow> pop_older timeSpan now c = Option.bind (pop c) (pop_older timeSpan now)"
    by (subst pop_older.simps) (auto simp: surplus_span_def too_old_def contents_front contents_oldest split: if_splits)
qed (simp_all add: surplus_span_def split: if_splits)


section \<open>Histories\<close>

text \<open>Everything that is done with a buffer, with the state of the data model and the time at which it is done.\<close>

datatype cache_op = Feed dm "objref option" timeval int | Remove dm objref | Clear | SetCallback bool

definition set_callback :: "bool \<Rightarrow> cache \<Rightarrow> cache" where
  "set_callback b = (if b then setPopCallback else removePopCallback)"

fun cache_step :: "(timeval \<Rightarrow> int \<Rightarrow> dm \<Rightarrow> objref option \<Rightarrow> cache \<Rightarrow> (bool \<times> cache) option) \<Rightarrow> cache_op \<Rightarrow> cache \<Rightarrow> cache option" where
  "cache_step feed (Feed d po now stamp) c = map_option snd (feed now stamp d po c)"
| "cache_step feed (Remove d po) c = map_option snd (remove d po c)"
| "cache_step feed Clear c = clear c"
| "cache_step feed (SetCallback b) c = Some (set_callback b c)"

fun cache_run :: "(timeval \<Rightarrow> int \<Rightarrow> dm \<Rightarrow> objref option \<Rightarrow> cache \<Rightarrow> (bool \<times> cache) option) \<Rightarrow> cache_op list \<Rightarrow> cache \<Rightarrow> cache option" where
  "cache_run feed [] c = Some c"
| "cache_run feed (x # xs) c = Option.bind (cache_step feed x c) (cache_run feed xs)"

text \<open>The same on entries, with the objects that the callback gets.\<close>

type_synonym spec = "entry list \<times> bool \<times> objref list"

definition told :: "bool \<Rightarrow> objref list \<Rightarrow> objref list" where
  "told b rs = (if b then rs else [])"

fun spec_step :: "(timeval \<Rightarrow> entry list \<Rightarrow> nat) \<Rightarrow> cache_op \<Rightarrow> spec \<Rightarrow> spec" where
  "spec_step surplus (Feed d None now stamp) (es, b, rs) = (es, b, rs)"
| "spec_step surplus (Feed d (Some r) now stamp) (es, b, rs) =
     (let es = others (publicID (obj d r)) es @ [(publicID (obj d r), r, stamp)]
      in (drop (surplus now es) es, b, rs @ told b (map (fst \<circ> snd) (take (surplus now es) es))))"
| "spec_step surplus (Remove d po) (es, b, rs) =
     (others (publicID (obj d po)) es, b, rs @ told (b \<and> publicID (obj d po) \<in> fst ` set es) [po])"
| "spec_step surplus Clear (es, b, rs) = ([], b, rs @ told b (map (fst \<circ> snd) es))"
| "spec_step surplus (SetCallback b') (es, b, rs) = (es, b', rs)"

definition implements :: "cache \<Rightarrow> spec \<Rightarrow> bool" where
  "implements c s \<longleftrightarrow> contents c (fst s) \<and> callback c = fst (snd s) \<and> popped c = snd (snd s)"

definition feeds_like :: "(timeval \<Rightarrow> int \<Rightarrow> dm \<Rightarrow> objref option \<Rightarrow> cache \<Rightarrow> (bool \<times> cache) option) \<Rightarrow> (timeval \<Rightarrow> entry list \<Rightarrow> nat) \<Rightarrow> bool" where
  "feeds_like feed surplus \<longleftrightarrow>
     (\<forall>now stamp d po c s. implements c s \<longrightarrow>
        (\<exists>b c'. feed now stamp d po c = Some (b, c') \<and> implements c' (spec_step surplus (Feed d po now stamp) s)))"

lemma step_implements:
  assumes "feeds_like feed surplus" and "implements c s"
  shows "\<exists>c'. cache_step feed x c = Some c' \<and> implements c' (spec_step surplus x s)"
proof -
  obtain es b rs where s: "s = (es, b, rs)" by (cases s)
  have c: "contents c es" "callback c = b" "popped c = rs" using assms(2) by (simp_all add: implements_def s)
  show ?thesis
  proof (cases x)
    case (Feed d po now stamp)
    with assms show ?thesis unfolding feeds_like_def by fastforce
  next
    case (Remove d po)
    from remove_contents [OF c(1), of d po] obtain c' where
      "remove d po c = Some (publicID (obj d po) \<in> fst ` set es, c')" "contents c' (others (publicID (obj d po)) es)"
      "callback c' = callback c" "popped c' = popped c @ (if callback c \<and> publicID (obj d po) \<in> fst ` set es then [po] else [])"
      by blast
    with Remove c s show ?thesis by (intro exI [of _ c']) (simp add: implements_def told_def)
  next
    case Clear
    with clear_contents [OF c(1)] c s show ?thesis by (auto simp: implements_def told_def)
  next
    case (SetCallback b')
    with c s show ?thesis
      by (auto simp: implements_def set_callback_def setPopCallback_def removePopCallback_def contents_def holds_def linked_def tabled_def)
  qed
qed

lemma run_implements:
  "feeds_like feed surplus \<Longrightarrow> implements c s \<Longrightarrow> \<exists>c'. cache_run feed xs c = Some c' \<and> implements c' (fold (spec_step surplus) xs s)"
proof (induction xs arbitrary: c s)
  case (Cons x xs)
  obtain c1 where "cache_step feed x c = Some c1" "implements c1 (spec_step surplus x s)" using step_implements [OF Cons.prems] by blast
  with Cons.IH [OF Cons.prems(1)] show ?case by auto
qed simp

lemma ring_feeds: "feeds_like (\<lambda>now. ring_feed n) (\<lambda>now. surplus_size n)"
  unfolding feeds_like_def
proof (intro allI impI)
  fix now :: timeval and stamp d po c s
  assume i: "implements c s"
  obtain es b rs where s: "s = (es, b, rs)" by (cases s)
  show "\<exists>b c'. ring_feed n stamp d po c = Some (b, c') \<and> implements c' (spec_step (\<lambda>now. surplus_size n) (Feed d po now stamp) s)"
  proof (cases po)
    case None
    with i show ?thesis by (auto simp: ring_feed_def s)
  next
    case (Some r)
    with ring.feed_contents [of c es _ d r stamp n, OF _ refl] i show ?thesis
      by (auto simp: ring_feed_def s implements_def told_def Let_def)
  qed
qed

lemma span_feeds: "feeds_like (\<lambda>now. span_feed timeSpan now) (surplus_span timeSpan)"
  unfolding feeds_like_def
proof (intro allI impI)
  fix now stamp d po c s
  assume i: "implements c s"
  obtain es b rs where s: "s = (es, b, rs)" by (cases s)
  show "\<exists>b c'. span_feed timeSpan now stamp d po c = Some (b, c') \<and> implements c' (spec_step (surplus_span timeSpan) (Feed d po now stamp) s)"
  proof (cases po)
    case None
    with i show ?thesis by (auto simp: span_feed_def s)
  next
    case (Some r)
    with span.feed_contents [of c es _ d r stamp timeSpan now, OF _ refl] i show ?thesis
      by (auto simp: span_feed_def s implements_def told_def Let_def)
  qed
qed

lemma new_implements: "implements PublicObjectCache ([], False, [])"
  using contents_new by (simp add: implements_def) (simp add: PublicObjectCache_def)

section \<open>Iterators and times\<close>

text \<open>Going through the cache from \<open>begin\<close> to \<open>end\<close>.\<close>

fun walk :: "nat \<Rightarrow> cache \<Rightarrow> nat option \<Rightarrow> objref list option" where
  "walk n c None = Some []"
| "walk 0 c (Some a) = None"
| "walk (Suc n) c (Some a) =
     do {
       r \<leftarrow> iter_deref c (Some a);
       p \<leftarrow> iter_next c (Some a);
       rs \<leftarrow> walk n c p;
       Some (r # rs)
     }"

lemma walk_dll: "dll (heap c) p as None \<Longrightarrow> walk (length as) c (first as None) = Some (map (fst \<circ> snd \<circ> entry_of (heap c)) as)"
  by (induction as arbitrary: p) (auto simp: iter_deref_def iter_next_def entry_of_object)

lemma walk_contents: "contents c es \<Longrightarrow> walk (c_size c) c (c_front c) = Some (map (fst \<circ> snd) es)"
  using walk_dll by (fastforce simp: contents_def holds_def linked_def tabled_def)

lemma last_entry:
  assumes "holds c as es" and "as \<noteq> []"
  shows "\<exists>it. heap c (last as) = Some it \<and> it_time it = snd (snd (last es)) \<and> c_back c = Some (last as)"
proof -
  obtain it where "heap c (last as) = Some it" using assms dll_in_heap unfolding holds_def linked_def by (meson last_in_set)
  with assms show ?thesis by (auto simp: holds_def linked_def final_def last_map entry_of_object)
qed

lemma timeWindow_contents:
  assumes "contents c es"
  shows "timeWindow c = Some (if es = [] then TimeWindow
     else tw_set (ts_of_long (snd (snd (hd es)))) (ts_of_long (snd (snd (last es)))) TimeWindow)"
proof (cases es)
  case Nil
  with contents_front [OF assms] show ?thesis by (simp add: timeWindow_def)
next
  case (Cons e es')
  obtain a as where h: "holds c (a # as) es" using assms Cons by (auto simp: contents_def holds_def)
  obtain it where it: "heap c a = Some it" "c_front c = Some a" using h by (auto simp: holds_def linked_def)
  obtain l where l: "heap c (last (a # as)) = Some l" "it_time l = snd (snd (last es))" "c_back c = Some (last (a # as))"
    using last_entry [OF h] by auto
  have "it_time it = snd (snd (hd es))" using h it Cons by (auto simp: holds_def entry_of_object)
  then show ?thesis using Cons it l by (simp add: timeWindow_def empty_def)
qed

section \<open>Times in order\<close>

fun stamps :: "cache_op list \<Rightarrow> int list" where
  "stamps [] = []"
| "stamps (Feed d (Some r) now stamp # xs) = stamp # stamps xs"
| "stamps (x # xs) = stamps xs"

lemma stamps_append: "stamps (xs @ ys) = stamps xs @ stamps ys"
  by (induction xs rule: stamps.induct) auto

definition in_time :: "int list \<Rightarrow> entry list \<Rightarrow> bool" where
  "in_time ts es \<longleftrightarrow> sorted (map (snd \<circ> snd) es) \<and> (\<forall>e \<in> set es. \<forall>t \<in> set ts. snd (snd e) \<le> t)"

lemma in_time_drop: "in_time ts es \<Longrightarrow> in_time ts (drop n es)"
  by (auto simp: in_time_def drop_map [symmetric] intro: sorted_wrt_drop dest: in_set_dropD)

lemma in_time_others: "in_time ts es \<Longrightarrow> in_time ts (others i es)"
  by (auto simp: in_time_def intro: sorted_filter)

lemma spec_in_time:
  "sorted (stamps (x # xs)) \<Longrightarrow> in_time (stamps (x # xs)) (fst s) \<Longrightarrow> in_time (stamps xs) (fst (spec_step surplus x s))"
proof -
  obtain es b rs where s: "s = (es, b, rs)" by (cases s)
  assume ok: "sorted (stamps (x # xs))" "in_time (stamps (x # xs)) (fst s)"
  show ?thesis
  proof (cases x)
    case (Feed d po now stamp)
    show ?thesis
    proof (cases po)
      case (Some r)
      have "in_time (stamps xs) (others (publicID (obj d r)) es @ [(publicID (obj d r), r, stamp)])"
        using in_time_others [OF ok(2)] ok(1) Feed Some s by (auto simp: in_time_def sorted_append)
      from in_time_drop [OF this] show ?thesis by (simp add: Feed Some s Let_def)
    qed (use ok Feed s in simp)
  qed (use ok s in_time_others in \<open>auto simp: in_time_def\<close>)
qed

lemma run_in_time:
  "sorted (stamps (xs @ ys)) \<Longrightarrow> in_time (stamps (xs @ ys)) (fst s) \<Longrightarrow> in_time (stamps ys) (fst (fold (spec_step surplus) xs s))"
proof (induction xs arbitrary: s)
  case (Cons x xs)
  have "sorted (stamps ([x] @ xs @ ys))" using Cons.prems(1) by simp
  then have "sorted (stamps (xs @ ys))" unfolding stamps_append [of "[x]"] sorted_append by blast
  with Cons.IH spec_in_time [of x "xs @ ys" s surplus] Cons.prems show ?case by simp
qed simp


lemma too_old_usecs: "canonical timeSpan \<Longrightarrow> canonical now \<Longrightarrow> too_old timeSpan now e \<longleftrightarrow> usecs now - snd (snd e) * MICROS > usecs timeSpan"
proof -
  assume c: "canonical timeSpan" "canonical now"
  then have "canonical (ts_sub now (ts_of_long (snd (snd e))))" by (simp add: canonical_sub canonical_TimeSpan)
  from canonical_less [OF c(1) this] show ?thesis
    by (simp add: too_old_def usecs_sub) (simp add: usecs_def ts_of_long_def)
qed

lemma drop_old:
  assumes "canonical timeSpan" and "canonical now" and "sorted (map (snd \<circ> snd) es)"
  shows "drop (surplus_span timeSpan now es) es = filter (\<lambda>e. usecs now - snd (snd e) * MICROS \<le> usecs timeSpan) es"
  using assms(3)
proof (induction es)
  case (Cons e es)
  let ?new = "\<lambda>e :: entry. usecs now - snd (snd e) * MICROS \<le> usecs timeSpan"
  show ?case
  proof (cases "too_old timeSpan now e")
    case True
    with Cons too_old_usecs [OF assms(1,2)] show ?thesis by (simp add: surplus_span_def not_le)
  next
    case False
    then have e: "?new e" using too_old_usecs [OF assms(1,2)] by (simp add: not_less)
    have "?new e'" if "e' \<in> set es" for e'
    proof -
      have "snd (snd e) * MICROS \<le> snd (snd e') * MICROS" using Cons.prems that by (simp add: MICROS_def)
      with e show ?thesis by linarith
    qed
    then have "filter ?new (e # es) = e # es" using e by (simp add: filter_True)
    with False show ?thesis by (simp add: surplus_span_def)
  qed
qed (simp add: surplus_span_def)

text \<open>The bound of a ring buffer.\<close>

lemma spec_bounded: "length (fst s) \<le> n \<Longrightarrow> length (fst (spec_step (\<lambda>now. surplus_size n) x s)) \<le> n"
proof -
  obtain es b rs where s: "s = (es, b, rs)" by (cases s)
  assume n: "length (fst s) \<le> n"
  then have "length (others i es) \<le> n" for i using le_trans [OF length_filter_le [of _ es]] s by simp
  with n show ?thesis
    by (cases "(\<lambda>now :: timeval. surplus_size n, x, s)" rule: spec_step.cases) (auto simp: s surplus_size_def Let_def)
qed

lemma run_bounded: "length (fst s) \<le> n \<Longrightarrow> length (fst (fold (spec_step (\<lambda>now. surplus_size n)) xs s)) \<le> n"
proof (induction xs arbitrary: s)
  case (Cons x xs)
  from Cons.IH [OF spec_bounded [OF Cons.prems]] show ?case by simp
qed simp

text \<open>
  What \<open>find\<close> returns is the latest object of the buffer, if it keeps any: a buffer of size 0 has dropped it, with the
  reference that the caller relies on.
\<close>

lemma found_object_kept:
  assumes "contents c es" and found: "find_object archive i d = (cached, Some r, d')"
  shows "\<exists>c' es'. find (ring_feed n stamp) archive i d c = Some (Some r, d', c') \<and> contents c' es' \<and>
     (if n = 0 then es' = [] else es' \<noteq> [] \<and> last es' = (publicID (obj d' r), r, stamp))"
proof -
  let ?es = "others (publicID (obj d' r)) es @ [(publicID (obj d' r), r, stamp)]"
  have "contents (c\<lparr>c_cached := cached\<rparr>) es" using assms(1) by (simp add: contents_def holds_def linked_def tabled_def)
  from ring.feed_contents [OF this refl, of d' r stamp n] obtain c' where
    "ring_feed n stamp d' (Some r) (c\<lparr>c_cached := cached\<rparr>) = Some (True, c')" "contents c' (drop (surplus_size n ?es) ?es)"
    by (auto simp: ring_feed_def)
  with found show ?thesis
    by (intro exI [of _ c'] exI [of _ "drop (surplus_size n ?es) ?es"]) (auto simp: find_def surplus_size_def)
qed

section \<open>Properties\<close>

lemma cache_run_append: "cache_run feed (xs @ ys) c = Option.bind (cache_run feed xs c) (cache_run feed ys)"
  by (induction xs arbitrary: c) (auto split: bind_split)

text \<open>
  C12: whatever is done with a ring buffer, no operation follows a dangling or a null pointer and all return; the linked list, the
  table and the size hold what the specification says, which is the objects fed last, at most the given number, and
  the callback has been told about every object that was evicted, removed or cleared (not about one that another
  object of the same identifier replaces, as in the code).  Going through the
  cache from begin to end yields its objects, the oldest first.
\<close>

theorem ring_buffer_keeps_last:
  "\<exists>c. cache_run (\<lambda>now. ring_feed n) xs PublicObjectCache = Some c \<and>
     (case fold (spec_step (\<lambda>now. surplus_size n)) xs ([], False, []) of (es, b, rs) \<Rightarrow>
        contents c es \<and> distinct (map fst es) \<and> c_size c = length es \<and> length es \<le> n \<and> popped c = rs \<and>
        walk (c_size c) c (c_front c) = Some (map (fst \<circ> snd) es))"
proof -
  obtain c where c: "cache_run (\<lambda>now. ring_feed n) xs PublicObjectCache = Some c"
      "implements c (fold (spec_step (\<lambda>now. surplus_size n)) xs ([], False, []))"
    using run_implements [OF ring_feeds new_implements] by blast
  then have i: "contents c (fst (fold (spec_step (\<lambda>now. surplus_size n)) xs ([], False, [])))" by (simp add: implements_def)
  then obtain as where "holds c as (fst (fold (spec_step (\<lambda>now. surplus_size n)) xs ([], False, [])))" by (auto simp: contents_def)
  from c i holds_keys [OF this] run_bounded [of "([], False, [])" n xs] contents_size [OF i] walk_contents [OF i] show ?thesis
    by (auto simp: implements_def split: prod.split)
qed

text \<open>
  C13: if the clock does not go back, a feed of a buffer with a time span keeps exactly the objects that are not older
  than the span, the fed one as the latest, whatever has been done with the buffer before.
\<close>

theorem span_buffer_keeps_recent:
  assumes "sorted (stamps (xs @ [Feed d (Some r) now stamp]))" and "canonical now" and "canonical timeSpan"
  shows "\<exists>c0 es c. cache_run (\<lambda>now. span_feed timeSpan now) xs PublicObjectCache = Some c0 \<and> contents c0 es \<and>
     cache_run (\<lambda>now. span_feed timeSpan now) (xs @ [Feed d (Some r) now stamp]) PublicObjectCache = Some c \<and>
     contents c (filter (\<lambda>e. usecs now - snd (snd e) * MICROS \<le> usecs timeSpan)
       (others (publicID (obj d r)) es @ [(publicID (obj d r), r, stamp)]))"
proof -
  let ?f = "\<lambda>now. span_feed timeSpan now" and ?x = "Feed d (Some r) now stamp" and ?s = "surplus_span timeSpan"
  obtain c0 where c0: "cache_run ?f xs PublicObjectCache = Some c0" "implements c0 (fold (spec_step ?s) xs ([], False, []))"
    using run_implements [OF span_feeds new_implements] by blast
  obtain es b rs where s: "fold (spec_step ?s) xs ([], False, []) = (es, b, rs)" by (metis prod_cases3)
  obtain c where c: "cache_step ?f ?x c0 = Some c" "implements c (spec_step ?s ?x (es, b, rs))"
    using step_implements [OF span_feeds c0(2)] s by metis
  let ?es = "others (publicID (obj d r)) es @ [(publicID (obj d r), r, stamp)]"
  have "in_time [stamp] es" using run_in_time [OF assms(1), of "([], False, [])" ?s] s by (simp add: in_time_def)
  from in_time_others [OF this] have "sorted (map (snd \<circ> snd) ?es)" by (auto simp: in_time_def sorted_append)
  from drop_old [OF assms(3,2) this] have "contents c (filter (\<lambda>e. usecs now - snd (snd e) * MICROS \<le> usecs timeSpan) ?es)"
    using c(2) by (simp add: implements_def Let_def)
  moreover have "contents c0 es" using c0(2) s by (simp add: implements_def)
  ultimately show ?thesis using c0(1) c(1) by (auto simp: cache_run_append)
qed

definition ex_dm :: dm where
  "ex_dm = \<lparr>obj = \<lambda>r. \<lparr>cls = CParameterSet, publicID = (if r = 0 then ''a'' else ''b''), registered = True, parent = None,
      parameters = [], comments = [], comment_id = [], attrs = []\<rparr>,
     publicObjects = [''a'' \<mapsto> 0, ''b'' \<mapsto> 1], registerObjects = Some True, observers = [], events = [], notifiers = [], lock = None, checkOnCreate = True\<rparr>"

lemma span_buffer_keeps_recent_witness:
  "\<exists>c0 es c. cache_run (\<lambda>now. span_feed (Timeval 60 0) now) [Feed ex_dm (Some 0) (Timeval 100 5) 100] PublicObjectCache = Some c0 \<and> contents c0 es \<and>
     cache_run (\<lambda>now. span_feed (Timeval 60 0) now) ([Feed ex_dm (Some 0) (Timeval 100 5) 100] @ [Feed ex_dm (Some 1) (Timeval 170 5) 170]) PublicObjectCache = Some c \<and>
     contents c (filter (\<lambda>e. usecs (Timeval 170 5) - snd (snd e) * MICROS \<le> usecs (Timeval 60 0))
       (others (publicID (obj ex_dm 1)) es @ [(publicID (obj ex_dm 1), 1, 170)]))"
  by (rule span_buffer_keeps_recent) (simp_all add: canonical_def MICROS_def)

end
