(* ===== verification/EventModel.thy ===== *)
theory EventModel
  imports Timewindow Firewall
begin

text \<open>
  The data of the event associator (src/src/trunk/apps/processing/scevent): origins, magnitudes, picks and focal
  mechanisms with the attributes it reads, its configuration (config.h), the ranks it gives to them
  (util.cpp), the constraints of an event (constraints.h and .cpp) and the filter of regions
  (eventtool.cpp).

  An attribute that throws when it is not set is an option; \<open>double\<close> is \<open>rat\<close>, \<open>size_t\<close> an \<open>int\<close> of 64 bits.
  Of the objects only the attributes read here are kept.  The region of a filter, which a plugin may provide,
  is a function of latitude and longitude.
\<close>

section \<open>Objects\<close>

datatype evaluation_mode = MANUAL | AUTOMATIC

datatype evaluation_status = PRELIMINARY | CONFIRMED | REVIEWED | FINAL | REJECTED | REPORTED

record creation_info =
  agencyID :: string
  author :: string
  creationTime :: "timeval option"

record arrival =
  arr_pickID :: string
  arr_weight :: "rat option"

record magnitude =
  mag_publicID :: string
  mag_type :: string
  mag_value :: rat
  mag_stationCount :: "int option"
  mag_creationInfo :: "creation_info option"

record origin_quality =
  usedPhaseCount :: "int option"
  standardError :: "rat option"

record origin =
  org_publicID :: string
  org_address :: nat
  org_creationInfo :: "creation_info option"
  org_time :: timeval
  org_latitude :: rat
  org_longitude :: rat
  org_depth :: "rat option"
  org_evaluationMode :: "evaluation_mode option"
  org_evaluationStatus :: "evaluation_status option"
  org_methodID :: string
  org_quality :: "origin_quality option"
  org_arrivals :: "arrival list"
  org_magnitudes :: "magnitude list"

record pick =
  networkCode :: string
  stationCode :: string
  phaseHint :: "string option"
  pick_time :: timeval

record focal_mechanism =
  fm_publicID :: string
  fm_address :: nat
  fm_creationInfo :: "creation_info option"
  fm_evaluationMode :: "evaluation_mode option"
  fm_evaluationStatus :: "evaluation_status option"
  fm_methodID :: string
  fm_triggeringOriginID :: string
  fm_momentMagnitudeIDs :: "string list"

definition objectAgencyID :: "creation_info option \<Rightarrow> string" where
  "objectAgencyID ci = (case ci of None \<Rightarrow> [] | Some i \<Rightarrow> agencyID i)"

definition objectAuthor :: "creation_info option \<Rightarrow> string" where
  "objectAuthor ci = (case ci of None \<Rightarrow> [] | Some i \<Rightarrow> author i)"

definition created :: "creation_info option \<Rightarrow> timeval" where
  "created ci = (case ci of None \<Rightarrow> TimeSpan | Some i \<Rightarrow> (case creationTime i of None \<Rightarrow> TimeSpan | Some t \<Rightarrow> t))"

definition isRejected :: "evaluation_status option \<Rightarrow> bool" where
  "isRejected st \<longleftrightarrow> (case st of None \<Rightarrow> False | Some s \<Rightarrow> s = REJECTED)"

section \<open>Configuration\<close>

record region_filter =
  region :: "(rat \<Rightarrow> rat \<Rightarrow> bool) option"
  minDepth :: "rat option"
  maxDepth :: "rat option"

record event_filter =
  filter_agencyID :: "string option"
  filter_author :: "string option"
  filter_evaluationMode :: "evaluation_mode option"

record event_config =
  minAutomaticArrivals :: int
  minAutomaticScore :: "rat option"
  minMatchingPicks :: int
  maxMatchingPicksTimeDiff :: rat
  matchingPicksTimeDiffAND :: bool
  matchingLooseAssociatedPicks :: bool
  minStationMagnitudes :: int
  maxDist :: rat
  maxTimeDiff :: timeval
  eventTimeBefore :: timeval
  eventTimeAfter :: timeval
  regionFilter :: "region_filter list"
  mbOverMwCount :: int
  mbOverMwValue :: rat
  minMwCount :: int
  enableFallbackPreferredMagnitude :: bool
  updatePreferredSolutionAfterMerge :: bool
  eventIDPrefix :: string
  eventIDPattern :: string
  magTypes :: "string list"
  agencies :: "string list"
  authors :: "string list"
  methods :: "string list"
  blacklistIDs :: "string set"
  priorities :: "string list"
  delayFilter :: event_filter
  delayTimeSpan :: int
  delayPrefFocMech :: int
  ignoreMTDerivedOrigins :: bool
  setAutoEventTypeNotExisting :: bool

text \<open>
  The configuration set by \<open>init\<close> before the files are read.  The option \<open>matchingPicksTimeDiffAND\<close> is not set
  there: its value is a parameter.
\<close>

definition default_config :: "bool \<Rightarrow> event_config" where
  "default_config uninit = \<lparr>minAutomaticArrivals = 10, minAutomaticScore = None, minMatchingPicks = 3,
     maxMatchingPicksTimeDiff = -1, matchingPicksTimeDiffAND = uninit, matchingLooseAssociatedPicks = False,
     minStationMagnitudes = 4, maxDist = 5, maxTimeDiff = TimeSpan_of 60 0,
     eventTimeBefore = TimeSpan_of (30 * 60) 0, eventTimeAfter = TimeSpan_of (30 * 60) 0, regionFilter = [],
     mbOverMwCount = 30, mbOverMwValue = 6, minMwCount = 8, enableFallbackPreferredMagnitude = False,
     updatePreferredSolutionAfterMerge = False, eventIDPrefix = ''gfz'', eventIDPattern = ''%p%Y%04c'',
     magTypes = [''mBc'', ''Mw(mB)'', ''Mwp'', ''ML'', ''MLh'', ''MLv'', ''mb''], agencies = [], authors = [], methods = [],
     blacklistIDs = {}, priorities = [],
     delayFilter = \<lparr>filter_agencyID = None, filter_author = None, filter_evaluationMode = None\<rparr>,
     delayTimeSpan = 0, delayPrefFocMech = 0, ignoreMTDerivedOrigins = True, setAutoEventTypeNotExisting = False\<rparr>"

section \<open>Ranks\<close>

text \<open>\<open>ORIGIN_PRIORITY_MAX\<close> and \<open>FOCALMECHANISM_PRIORITY_MAX\<close>.\<close>

definition priority_max :: int where "priority_max = 100"

definition arrivalWeight :: "arrival \<Rightarrow> rat" where
  "arrivalWeight arr = (case arr_weight arr of None \<Rightarrow> 1 | Some w \<Rightarrow> w)"

definition stationCount :: "magnitude \<Rightarrow> int" where
  "stationCount mag = (case mag_stationCount mag of None \<Rightarrow> -1 | Some n \<Rightarrow> n)"

definition modePriority :: "evaluation_mode option \<Rightarrow> int" where
  "modePriority mode = (case mode of None \<Rightarrow> 0 | Some AUTOMATIC \<Rightarrow> 1 | Some MANUAL \<Rightarrow> 2)"

definition eval_priority :: "evaluation_mode option \<Rightarrow> evaluation_status option \<Rightarrow> int" where
  "eval_priority mode status =
     (let mode = (case mode of None \<Rightarrow> AUTOMATIC | Some m \<Rightarrow> m) in
      case status of
        Some PRELIMINARY \<Rightarrow> 0
      | Some CONFIRMED \<Rightarrow> 1
      | Some REVIEWED \<Rightarrow> 2
      | Some FINAL \<Rightarrow> 3
      | Some REPORTED \<Rightarrow> -1
      | Some REJECTED \<Rightarrow> -100
      | None \<Rightarrow> (case mode of MANUAL \<Rightarrow> 1 | AUTOMATIC \<Rightarrow> 0))"

definition definingPhaseCount :: "origin \<Rightarrow> int" where
  "definingPhaseCount origin =
     (case Option.bind (org_quality origin) usedPhaseCount of
        Some n \<Rightarrow> n
      | None \<Rightarrow> int (length (filter (\<lambda>arr. case arr_weight arr of None \<Rightarrow> True | Some w \<Rightarrow> w > 0) (org_arrivals origin))))"

definition rms :: "origin \<Rightarrow> rat" where
  "rms origin = (case Option.bind (org_quality origin) standardError of None \<Rightarrow> -1 | Some e \<Rightarrow> e)"

text \<open>The four priority lists are searched in the same way, from \<open>n = size()\<close> down.\<close>

fun list_priority :: "string \<Rightarrow> string list \<Rightarrow> int \<Rightarrow> int" where
  "list_priority s [] n = n"
| "list_priority s (x # xs) n = (if s = x then n else list_priority s xs (n - 1))"

definition magnitudePriority :: "string \<Rightarrow> event_config \<Rightarrow> int" where
  "magnitudePriority magType cfg = list_priority magType (magTypes cfg) (int (length (magTypes cfg)))"

definition agencyPriority :: "string \<Rightarrow> event_config \<Rightarrow> int" where
  "agencyPriority agency cfg = list_priority agency (agencies cfg) (int (length (agencies cfg)))"

definition authorPriority :: "string \<Rightarrow> event_config \<Rightarrow> int" where
  "authorPriority auth cfg = list_priority auth (authors cfg) (int (length (authors cfg)))"

definition methodPriority :: "string \<Rightarrow> event_config \<Rightarrow> int" where
  "methodPriority m cfg = list_priority m (methods cfg) (int (length (methods cfg)))"

definition isMw :: "magnitude \<Rightarrow> bool" where
  "isMw netmag \<longleftrightarrow> take 2 (mag_type netmag) = ''Mw''"

text \<open>\<open>mcount\<close> is a \<open>size_t\<close>: an unset station count is a huge one.\<close>

definition goodness :: "magnitude option \<Rightarrow> int \<Rightarrow> rat \<Rightarrow> event_config \<Rightarrow> int" where
  "goodness netmag mbcount mbval cfg =
     (case netmag of
        None \<Rightarrow> -1
      | Some mag \<Rightarrow>
          let mcount = cast_u 64 (stationCount mag); mval = mag_value mag in
          if mcount < minStationMagnitudes cfg then 0
          else if isMw mag \<and> mcount < minMwCount cfg then 0
          else if isMw mag \<and> mcount < mbOverMwCount cfg \<and> (mval + mbval) / 2 < mbOverMwValue cfg then 0
          else if isMw mag \<and> mcount < mbOverMwCount cfg \<and> cast_s 32 mcount < mbcount sdiv 2 then 0
          else magnitudePriority (mag_type mag) cfg)"

section \<open>Constraints\<close>

record constraints =
  preferredMagnitudeType :: string
  preferredOriginID :: string
  preferredFocalMechanismID :: string
  fixMw :: bool
  fixType :: bool
  preferredOriginEvaluationMode :: "evaluation_mode option"
  preferredFocalMechanismEvaluationMode :: "evaluation_mode option"

definition Constraints :: constraints where
  "Constraints = \<lparr>preferredMagnitudeType = [], preferredOriginID = [], preferredFocalMechanismID = [],
     fixMw = False, fixType = False, preferredOriginEvaluationMode = None, preferredFocalMechanismEvaluationMode = None\<rparr>"

definition fixOrigin :: "constraints \<Rightarrow> origin \<Rightarrow> bool" where
  "fixOrigin c org \<longleftrightarrow> preferredOriginID c \<noteq> [] \<and> org_publicID org = preferredOriginID c"

definition fixOriginMode :: "constraints \<Rightarrow> origin \<Rightarrow> bool" where
  "fixOriginMode c org =
     (case preferredOriginEvaluationMode c of
        None \<Rightarrow> False
      | Some m \<Rightarrow> (case org_evaluationMode org of None \<Rightarrow> False | Some m' \<Rightarrow> m = m'))"

definition fixedOrigin :: "constraints \<Rightarrow> bool" where
  "fixedOrigin c \<longleftrightarrow> preferredOriginID c \<noteq> []"

definition fixedFocalMechanism :: "constraints \<Rightarrow> bool" where
  "fixedFocalMechanism c \<longleftrightarrow> preferredFocalMechanismID c \<noteq> []"

definition fixFocalMechanism :: "constraints \<Rightarrow> focal_mechanism \<Rightarrow> bool" where
  "fixFocalMechanism c fm \<longleftrightarrow> preferredFocalMechanismID c \<noteq> [] \<and> fm_publicID fm = preferredFocalMechanismID c"

definition fixFocalMechanismMode :: "constraints \<Rightarrow> focal_mechanism \<Rightarrow> bool" where
  "fixFocalMechanismMode c fm =
     (case preferredFocalMechanismEvaluationMode c of
        None \<Rightarrow> False
      | Some m \<Rightarrow> (case fm_evaluationMode fm of None \<Rightarrow> False | Some m' \<Rightarrow> m = m'))"

section \<open>Regions\<close>

record global_region =
  latMin :: rat
  lonMin :: rat
  latMax :: rat
  lonMax :: rat

definition region_isInside :: "global_region \<Rightarrow> rat \<Rightarrow> rat \<Rightarrow> bool" where
  "region_isInside r lat lon =
     (if lat < latMin r \<or> lat > latMax r then False
      else
        let len = lonMax r - lonMin r;
            len = (if len < 0 then len + 360 else len);
            dist = lon - lonMin r;
            dist = (if dist < 0 then dist + 360 else dist)
        in dist \<le> len)"

fun checkRegionFilter :: "region_filter list \<Rightarrow> origin \<Rightarrow> bool" where
  "checkRegionFilter [] origin = True"
| "checkRegionFilter (f # fs) origin =
     (if (case region f of None \<Rightarrow> False | Some inside \<Rightarrow> \<not> inside (org_latitude origin) (org_longitude origin)) then False
      else if (case (minDepth f, org_depth origin) of (Some m, Some d) \<Rightarrow> d < m | _ \<Rightarrow> False) then False
      else if (case (maxDepth f, org_depth origin) of (Some m, Some d) \<Rightarrow> d > m | _ \<Rightarrow> False) then False
      else checkRegionFilter fs origin)"

section \<open>Facts\<close>

text \<open>The rank of a listed name is its distance from the end of the list; other names have rank 0.\<close>

lemma list_priority_find:
  "list_priority s xs n = (case find_index (\<lambda>x. s = x) xs of Some i \<Rightarrow> n - int i | None \<Rightarrow> n - int (length xs))"
  by (induction xs arbitrary: n) (auto split: option.splits)

lemma list_priority_range: "0 \<le> list_priority s xs (int (length xs))" "list_priority s xs (int (length xs)) \<le> int (length xs)"
  by (auto simp: list_priority_find dest: find_index_Some split: option.splits)

lemma list_priority_pos: "0 < list_priority s xs (int (length xs)) \<longleftrightarrow> s \<in> set xs"
  using find_index_None [of "\<lambda>x. s = x" xs]
  by (auto simp: list_priority_find dest!: find_index_Some split: option.splits)

lemma agencyPriority_range: "0 \<le> agencyPriority a cfg"
  by (simp add: agencyPriority_def list_priority_range)

text \<open>A region is left out towards the east of its western edge, also across the date line.\<close>

lemma region_isInside_iff:
  assumes "-180 \<le> lonMin r" and "lonMin r \<le> 180" and "-180 < lon" and "lon \<le> 180" and "-180 < lonMax r" and "lonMax r \<le> 180"
  shows "region_isInside r lat lon \<longleftrightarrow> latMin r \<le> lat \<and> lat \<le> latMax r \<and>
           (if lonMin r \<le> lonMax r then lonMin r \<le> lon \<and> lon \<le> lonMax r else lonMin r \<le> lon \<or> lon \<le> lonMax r)"
  using assms by (auto simp: region_isInside_def Let_def)

lemma checkRegionFilter_iff:
  "checkRegionFilter fs origin \<longleftrightarrow>
     (\<forall>f \<in> set fs. (\<forall>inside. region f = Some inside \<longrightarrow> inside (org_latitude origin) (org_longitude origin)) \<and>
        (\<forall>d m. org_depth origin = Some d \<and> minDepth f = Some m \<longrightarrow> m \<le> d) \<and>
        (\<forall>d m. org_depth origin = Some d \<and> maxDepth f = Some m \<longrightarrow> d \<le> m))"
  by (induction fs) (auto simp: not_less split: option.splits)

section \<open>Examples\<close>

text \<open>Objects for concrete runs of the model.\<close>

definition sample_arrival :: "string \<Rightarrow> rat option \<Rightarrow> arrival" where
  "sample_arrival pid w = \<lparr>arr_pickID = pid, arr_weight = w\<rparr>"

definition sample_info :: "string \<Rightarrow> int \<Rightarrow> creation_info" where
  "sample_info agency t = \<lparr>agencyID = agency, author = [], creationTime = Some (Timeval t 0)\<rparr>"

definition sample_origin :: "string \<Rightarrow> string \<Rightarrow> evaluation_mode option \<Rightarrow> int \<Rightarrow> arrival list \<Rightarrow> origin" where
  "sample_origin oid agency mode t arrs = \<lparr>org_publicID = oid, org_address = (case oid of [] \<Rightarrow> 0 | c # _ \<Rightarrow> of_char c), org_creationInfo = Some (sample_info agency t),
     org_time = Timeval 1000 0, org_latitude = 0, org_longitude = 0, org_depth = Some 10, org_evaluationMode = mode,
     org_evaluationStatus = None, org_methodID = [], org_quality = None, org_arrivals = arrs, org_magnitudes = []\<rparr>"

definition sample_pick :: "string \<Rightarrow> string \<Rightarrow> int \<Rightarrow> pick" where
  "sample_pick station phase t = \<lparr>networkCode = ''GE'', stationCode = station, phaseHint = Some phase, pick_time = Timeval t 0\<rparr>"

end
