(* ===== verification/EventInfo.thy ===== *)
theory EventInfo
  imports EventModel
begin

text \<open>
  What the associator keeps of an event (src/src/trunk/apps/processing/scevent/eventinfo.cpp and .h): its attributes and
  references, the preferred objects, the picks of its origins, the journal and the constraints that the
  journal puts on the choice of the preferred objects.

  An origin reference is the identifier of the origin; an event refuses a second reference to the same
  origin.  The lookups \<open>getOrigin\<close> and \<open>getPick\<close> in the cache of objects, which load missing arrivals from the
  database, are parameters.  Notifiers for added and changed objects are the subject of \<open>DmContainers\<close>.
\<close>

section \<open>State\<close>

text \<open>Types of events are kept by name.\<close>

definition NOT_EXISTING :: string where "NOT_EXISTING = ''not existing''"

datatype description_type = FELT_REPORT | FLINN_ENGDAHL_REGION | LOCAL_TIME | TECTONIC_SUMMARY | NEAREST_CITIES
  | EARTHQUAKE_NAME | REGION_NAME

record comment_info =
  info_author :: string
  info_creationTime :: "timeval option"
  info_modificationTime :: "timeval option"

record event_comment =
  comment_id :: string
  comment_text :: string
  comment_creationInfo :: "comment_info option"

record event =
  ev_publicID :: string
  ev_preferredOriginID :: string
  ev_preferredMagnitudeID :: string
  ev_preferredFocalMechanismID :: string
  ev_type :: "string option"
  ev_typeCertainty :: "string option"
  originReferences :: "string list"
  focalMechanismReferences :: "string list"
  eventDescriptions :: "(description_type \<times> string) list"
  ev_comments :: "event_comment list"

definition Event :: "string \<Rightarrow> event" where
  "Event eventID = \<lparr>ev_publicID = eventID, ev_preferredOriginID = [], ev_preferredMagnitudeID = [],
     ev_preferredFocalMechanismID = [], ev_type = None, ev_typeCertainty = None, originReferences = [],
     focalMechanismReferences = [], eventDescriptions = [], ev_comments = []\<rparr>"

definition add_originReference :: "string \<Rightarrow> event \<Rightarrow> bool \<times> event" where
  "add_originReference oid ev =
     (if oid \<in> set (originReferences ev) then (False, ev)
      else (True, ev\<lparr>originReferences := originReferences ev @ [oid]\<rparr>))"

definition add_focalMechanismReference :: "string \<Rightarrow> event \<Rightarrow> bool \<times> event" where
  "add_focalMechanismReference fmid ev =
     (if fmid \<in> set (focalMechanismReferences ev) then (False, ev)
      else (True, ev\<lparr>focalMechanismReferences := focalMechanismReferences ev @ [fmid]\<rparr>))"

record journal_entry =
  je_objectID :: string
  je_action :: string
  je_parameters :: string
  je_sender :: string
  je_created :: "timeval option"

record event_info =
  ei_created :: bool
  pickIDs :: "string set"
  picks :: "(string \<times> pick) list"
  ei_event :: "event option"
  preferredOrigin :: "origin option"
  preferredFocalMechanism :: "focal_mechanism option"
  preferredMagnitude :: "magnitude option"
  journal :: "journal_entry list"
  constr :: constraints
  aboutToBeRemoved :: bool
  dirtyPickSet :: bool

definition EventInformation :: event_info where
  "EventInformation = \<lparr>ei_created = False, pickIDs = {}, picks = [], ei_event = None, preferredOrigin = None,
     preferredFocalMechanism = None, preferredMagnitude = None, journal = [], constr = Constraints,
     aboutToBeRemoved = False, dirtyPickSet = False\<rparr>"

definition info_valid :: "event_info \<Rightarrow> bool" where
  "info_valid info \<longleftrightarrow> ei_event info \<noteq> None \<and> preferredOrigin info \<noteq> None"

section \<open>Journal\<close>

definition mode_fromString :: "string \<Rightarrow> evaluation_mode option" where
  "mode_fromString s = (if s = ''manual'' then Some MANUAL else if s = ''automatic'' then Some AUTOMATIC else None)"

text \<open>The update of the constraints; \<open>None\<close> where the code returns false.\<close>

definition journal_constraints :: "journal_entry \<Rightarrow> constraints \<Rightarrow> constraints option" where
  "journal_constraints e c =
     (if je_action e = ''EvPrefMagType'' then
        (let c = c\<lparr>preferredMagnitudeType := je_parameters e\<rparr> in
         Some (if preferredMagnitudeType c \<noteq> [] then c\<lparr>fixMw := False\<rparr> else c))
      else if je_action e = ''EvPrefOrgID'' then
        Some (c\<lparr>preferredOriginID := je_parameters e, preferredOriginEvaluationMode := None\<rparr>)
      else if je_action e = ''EvPrefFocMecID'' then
        Some (c\<lparr>preferredFocalMechanismID := je_parameters e, preferredFocalMechanismEvaluationMode := None\<rparr>)
      else if je_action e = ''EvPrefOrgEvalMode'' then
        (if je_parameters e = [] then Some (c\<lparr>preferredOriginEvaluationMode := None, preferredOriginID := []\<rparr>)
         else case mode_fromString (c_str (je_parameters e)) of
           Some em \<Rightarrow> Some (c\<lparr>preferredOriginID := [], preferredOriginEvaluationMode := Some em\<rparr>)
         | None \<Rightarrow> None)
      else if je_action e = ''EvPrefOrgAutomatic'' then
        Some (c\<lparr>preferredOriginEvaluationMode := None, preferredOriginID := []\<rparr>)
      else if je_action e = ''EvPrefFocEvalMode'' then
        (if je_parameters e = [] then
           Some (c\<lparr>preferredFocalMechanismEvaluationMode := None, preferredFocalMechanismID := []\<rparr>)
         else case mode_fromString (c_str (je_parameters e)) of
           Some em \<Rightarrow> Some (c\<lparr>preferredFocalMechanismID := [], preferredFocalMechanismEvaluationMode := Some em\<rparr>)
         | None \<Rightarrow> None)
      else if je_action e = ''EvPrefFocAutomatic'' then
        Some (c\<lparr>preferredFocalMechanismEvaluationMode := None, preferredFocalMechanismID := []\<rparr>)
      else if je_action e = ''EvPrefMw'' then
        (if je_parameters e = ''true'' then Some (c\<lparr>fixMw := True, preferredMagnitudeType := []\<rparr>)
         else if je_parameters e = ''false'' then Some (c\<lparr>fixMw := False\<rparr>)
         else Some c)
      else if je_action e = ''EvTypeOK'' then
        Some (c\<lparr>fixType := je_parameters e \<noteq> '':unset:''\<rparr>)
      else Some c)"

definition addJournalEntry :: "journal_entry \<Rightarrow> event_info \<Rightarrow> bool \<times> event_info" where
  "addJournalEntry e info =
     (let info = info\<lparr>journal := journal info @ [e]\<rparr> in
      case journal_constraints e (constr info) of
        None \<Rightarrow> (False, info)
      | Some c \<Rightarrow> (True, info\<lparr>constr := c\<rparr>))"

text \<open>Loading an event: its preferred objects and its journal.\<close>

definition load_info ::
    "(string \<Rightarrow> origin option) \<Rightarrow> (string \<Rightarrow> magnitude option) \<Rightarrow> (string \<Rightarrow> focal_mechanism option) \<Rightarrow>
     (string \<Rightarrow> journal_entry list) option \<Rightarrow> event option \<Rightarrow> event_info \<Rightarrow> event_info" where
  "load_info getOrigin getMagnitude getFocalMechanism q e info =
     (let info = info\<lparr>ei_event := e\<rparr> in
      case e of
        None \<Rightarrow> info
      | Some ev \<Rightarrow>
          let info = info\<lparr>dirtyPickSet := True,
                preferredOrigin := (if ev_preferredOriginID ev \<noteq> [] then getOrigin (ev_preferredOriginID ev) else None),
                preferredMagnitude := (if ev_preferredMagnitudeID ev \<noteq> [] then getMagnitude (ev_preferredMagnitudeID ev) else None),
                preferredFocalMechanism := (if ev_preferredFocalMechanismID ev \<noteq> []
                                              then getFocalMechanism (ev_preferredFocalMechanismID ev) else None)\<rparr>
          in case q of
               None \<Rightarrow> info
             | Some getJournal \<Rightarrow> fold (\<lambda>entry info. snd (addJournalEntry entry info)) (getJournal (ev_publicID ev)) info)"

section \<open>Picks\<close>

definition is_upper :: "char \<Rightarrow> bool" where
  "is_upper c \<longleftrightarrow> 65 \<le> code c \<and> code c \<le> 90"

definition getShortPhaseName :: "string \<Rightarrow> char" where
  "getShortPhaseName phase = (case List.find is_upper (rev phase) of None \<Rightarrow> nul | Some c \<Rightarrow> c)"

definition station_id :: "pick \<Rightarrow> string" where
  "station_id p = networkCode p @ ''.'' @ stationCode p"

definition insertPick :: "pick \<Rightarrow> event_info \<Rightarrow> event_info" where
  "insertPick p info = info\<lparr>picks := picks info @ [(station_id p, p)]\<rparr>"

definition add_pick :: "event_config \<Rightarrow> (string \<Rightarrow> pick option) \<Rightarrow> string \<Rightarrow> event_info \<Rightarrow> event_info" where
  "add_pick cfg getPick pid info =
     (let info = info\<lparr>pickIDs := insert pid (pickIDs info)\<rparr> in
      if maxMatchingPicksTimeDiff cfg \<ge> 0 then
        (case getPick pid of None \<Rightarrow> info | Some p \<Rightarrow> insertPick p info)
      else info)"

text \<open>The picks of the event, collected again from all its origins.\<close>

definition rebuild_origin :: "event_config \<Rightarrow> (string \<Rightarrow> pick option) \<Rightarrow> origin \<Rightarrow> event_info \<Rightarrow> event_info" where
  "rebuild_origin cfg getPick org info =
     fold (\<lambda>arr info.
             if (case arr_weight arr of None \<Rightarrow> False | Some w \<Rightarrow> w \<le> 0) then info
             else add_pick cfg getPick (arr_pickID arr) info) (org_arrivals org) info"

definition rebuild_picks ::
    "event_config \<Rightarrow> (string \<Rightarrow> origin option) \<Rightarrow> (string \<Rightarrow> pick option) \<Rightarrow> event_info \<Rightarrow> event_info" where
  "rebuild_picks cfg getOrigin getPick info =
     (let info = info\<lparr>pickIDs := {}, picks := []\<rparr> in
      case ei_event info of
        None \<Rightarrow> info
      | Some ev \<Rightarrow>
          (fold (\<lambda>oid info. case getOrigin oid of None \<Rightarrow> info | Some org \<Rightarrow> rebuild_origin cfg getPick org info)
             (originReferences ev) info)\<lparr>dirtyPickSet := False\<rparr>)"

text \<open>An arrival that counts.\<close>

definition arrival_used :: "event_config \<Rightarrow> arrival \<Rightarrow> bool" where
  "arrival_used cfg arr \<longleftrightarrow> \<not> (\<not> matchingLooseAssociatedPicks cfg \<and> arrivalWeight arr = 0)"

text \<open>A pick compared with those of its station: hits and comparisons, \<open>None\<close> for a pick without a phase.\<close>

fun pick_hits :: "rat \<Rightarrow> char \<Rightarrow> pick \<Rightarrow> pick list \<Rightarrow> nat \<Rightarrow> nat \<Rightarrow> (nat \<times> nat) option" where
  "pick_hits maxDiff cod p [] hit cnt = Some (hit, cnt)"
| "pick_hits maxDiff cod p (q # qs) hit cnt =
     (case phaseHint q of
        None \<Rightarrow> None
      | Some h \<Rightarrow>
          if cod \<noteq> getShortPhaseName h then pick_hits maxDiff cod p qs hit cnt
          else
            let cnt = Suc cnt;
                diff = \<bar>to_double (ts_sub (pick_time q) (pick_time p))\<bar>
            in pick_hits maxDiff cod p qs (if diff \<le> maxDiff then Suc hit else hit) cnt)"

definition picks_at :: "(string \<times> pick) list \<Rightarrow> string \<Rightarrow> pick list" where
  "picks_at ps sid = map snd (filter (\<lambda>(i, _). i = sid) ps)"

fun match_times :: "event_config \<Rightarrow> (string \<Rightarrow> pick option) \<Rightarrow> (string \<times> pick) list \<Rightarrow> arrival list \<Rightarrow> nat \<Rightarrow> nat option" where
  "match_times cfg getPick ps [] matches = Some matches"
| "match_times cfg getPick ps (arr # arrs) matches =
     (if \<not> arrival_used cfg arr then match_times cfg getPick ps arrs matches
      else
        case getPick (arr_pickID arr) of
          None \<Rightarrow> match_times cfg getPick ps arrs matches
        | Some p \<Rightarrow>
            (case phaseHint p of
               None \<Rightarrow> None
             | Some h \<Rightarrow>
                 (case pick_hits (maxMatchingPicksTimeDiff cfg) (getShortPhaseName h) p (picks_at ps (station_id p)) 0 0 of
                    None \<Rightarrow> None
                  | Some (hit, cnt) \<Rightarrow>
                      if hit = 0 then match_times cfg getPick ps arrs matches
                      else if matchingPicksTimeDiffAND cfg then
                        match_times cfg getPick ps arrs (if hit = cnt then Suc matches else matches)
                      else match_times cfg getPick ps arrs (Suc matches))))"

text \<open>The number of matching picks; \<open>None\<close> stands for the exception of a pick without a phase hint.\<close>

definition matchingPicks ::
    "event_config \<Rightarrow> (string \<Rightarrow> origin option) \<Rightarrow> (string \<Rightarrow> pick option) \<Rightarrow> origin \<Rightarrow> event_info \<Rightarrow> nat option \<times> event_info" where
  "matchingPicks cfg getOrigin getPick org info =
     (let dirty = dirtyPickSet info;
          info = (if dirty then rebuild_picks cfg getOrigin getPick info else info)
      in if dirty \<and> ei_event info = None then (Some 0, info)
         else if maxMatchingPicksTimeDiff cfg < 0 then
           (Some (length (filter (\<lambda>arr. arrival_used cfg arr \<and> arr_pickID arr \<in> pickIDs info) (org_arrivals org))), info)
         else (match_times cfg getPick (picks info) (org_arrivals org) 0, info))"

section \<open>Association\<close>

definition info_associate :: "event_config \<Rightarrow> (string \<Rightarrow> pick option) \<Rightarrow> origin \<Rightarrow> event_info \<Rightarrow> bool \<times> event_info" where
  "info_associate cfg getPick org info =
     (case ei_event info of
        None \<Rightarrow> (False, info)
      | Some ev \<Rightarrow>
          let info = info\<lparr>ei_event := Some (snd (add_originReference (org_publicID org) ev))\<rparr> in
          (True, fold (\<lambda>arr info. if \<not> arrival_used cfg arr then info else add_pick cfg getPick (arr_pickID arr) info)
                   (org_arrivals org) info))"

definition info_associate_fm :: "focal_mechanism \<Rightarrow> event_info \<Rightarrow> bool \<times> event_info" where
  "info_associate_fm fm info =
     (case ei_event info of
        None \<Rightarrow> (False, info)
      | Some ev \<Rightarrow> (True, info\<lparr>ei_event := Some (snd (add_focalMechanismReference (fm_publicID fm) ev))\<rparr>))"

section \<open>Name and comment\<close>

definition add_eventDescription :: "description_type \<Rightarrow> string \<Rightarrow> event \<Rightarrow> bool \<times> event" where
  "add_eventDescription ty txt ev =
     (if ty \<in> fst ` set (eventDescriptions ev) then (False, ev)
      else (True, ev\<lparr>eventDescriptions := eventDescriptions ev @ [(ty, txt)]\<rparr>))"

text \<open>The result is the error, or nothing.\<close>

definition setEventName :: "journal_entry \<Rightarrow> event_info \<Rightarrow> string option \<times> event_info" where
  "setEventName e info =
     (case ei_event info of
        None \<Rightarrow> (Some '':internal:'', info)
      | Some ev \<Rightarrow>
          (case find_index (\<lambda>(ty, _). ty = EARTHQUAKE_NAME) (eventDescriptions ev) of
             Some i \<Rightarrow>
               if snd (eventDescriptions ev ! i) = je_parameters e then (Some '':no changes:'', info)
               else (None, info\<lparr>ei_event := Some (ev\<lparr>eventDescriptions :=
                       (eventDescriptions ev)[i := (EARTHQUAKE_NAME, je_parameters e)]\<rparr>)\<rparr>)
           | None \<Rightarrow>
               let (ok, ev') = add_eventDescription EARTHQUAKE_NAME (je_parameters e) ev in
               if \<not> ok then (Some '':add:'', info) else (None, info\<lparr>ei_event := Some ev'\<rparr>)))"

text \<open>Adding a comment cannot fail here, as none has its identifier.\<close>

definition setEventOpComment :: "timeval \<Rightarrow> journal_entry \<Rightarrow> event_info \<Rightarrow> string option \<times> event_info" where
  "setEventOpComment now e info =
     (case ei_event info of
        None \<Rightarrow> (Some '':internal:'', info)
      | Some ev \<Rightarrow>
          (case find_index (\<lambda>c. comment_id c = ''Operator'') (ev_comments ev) of
             Some i \<Rightarrow>
               let c = ev_comments ev ! i in
               if comment_text c = je_parameters e then (Some '':no changes:'', info)
               else
                 let ci = (case comment_creationInfo c of
                             Some ci \<Rightarrow> ci\<lparr>info_modificationTime := Some now\<rparr>
                           | None \<Rightarrow> \<lparr>info_author = je_sender e, info_creationTime = None, info_modificationTime = Some now\<rparr>);
                     c' = c\<lparr>comment_text := je_parameters e, comment_creationInfo := Some ci\<rparr>
                 in (None, info\<lparr>ei_event := Some (ev\<lparr>ev_comments := (ev_comments ev)[i := c']\<rparr>)\<rparr>)
           | None \<Rightarrow>
               let ci = \<lparr>info_author = je_sender e,
                         info_creationTime = Some (case je_created e of Some t \<Rightarrow> t | None \<Rightarrow> now),
                         info_modificationTime = None\<rparr>;
                   c = \<lparr>comment_id = ''Operator'', comment_text = je_parameters e, comment_creationInfo = Some ci\<rparr>
               in (None, info\<lparr>ei_event := Some (ev\<lparr>ev_comments := ev_comments ev @ [c]\<rparr>)\<rparr>)))"

section \<open>The journal puts consistent constraints\<close>

text \<open>An origin is fixed by its identifier or by its mode, not by both; so is a focal mechanism; and Mw is not
  fixed together with a type of magnitude.\<close>

definition constraints_ok :: "constraints \<Rightarrow> bool" where
  "constraints_ok c \<longleftrightarrow>
     (preferredOriginID c = [] \<or> preferredOriginEvaluationMode c = None) \<and>
     (preferredFocalMechanismID c = [] \<or> preferredFocalMechanismEvaluationMode c = None) \<and>
     (fixMw c \<longrightarrow> preferredMagnitudeType c = [])"

lemma constraints_ok_init [inv_intro]: "constraints_ok Constraints"
  by (simp add: constraints_ok_def Constraints_def)

lemma journal_constraints_ok: "constraints_ok c \<Longrightarrow> journal_constraints e c = Some c' \<Longrightarrow> constraints_ok c'"
  by (auto simp: journal_constraints_def constraints_ok_def Let_def split: if_splits option.splits)

lemma addJournalEntry_ok [inv_intro]:
  "constraints_ok (constr info) \<Longrightarrow> constraints_ok (constr (snd (addJournalEntry e info)))"
  by (auto simp: addJournalEntry_def Let_def journal_constraints_ok split: option.splits)

lemma addJournalEntry_frame [frame]:
  "ei_event (snd (addJournalEntry e info)) = ei_event info"
  "preferredOrigin (snd (addJournalEntry e info)) = preferredOrigin info"
  "preferredMagnitude (snd (addJournalEntry e info)) = preferredMagnitude info"
  "preferredFocalMechanism (snd (addJournalEntry e info)) = preferredFocalMechanism info"
  "ei_created (snd (addJournalEntry e info)) = ei_created info"
  "pickIDs (snd (addJournalEntry e info)) = pickIDs info"
  "picks (snd (addJournalEntry e info)) = picks info"
  "dirtyPickSet (snd (addJournalEntry e info)) = dirtyPickSet info"
  "journal (snd (addJournalEntry e info)) = journal info @ [e]"
  by (simp_all add: addJournalEntry_def Let_def split: option.split)

text \<open>The constraint on the origin that a single command asks for.\<close>

datatype origin_constraint = Free | Fixed string | Mode evaluation_mode

definition origin_command :: "journal_entry \<Rightarrow> origin_constraint option" where
  "origin_command e =
     (if je_action e = ''EvPrefOrgAutomatic'' then Some Free
      else if je_action e = ''EvPrefOrgID'' then Some (if je_parameters e = [] then Free else Fixed (je_parameters e))
      else if je_action e = ''EvPrefOrgEvalMode'' then
        (if je_parameters e = [] then Some Free else map_option Mode (mode_fromString (c_str (je_parameters e))))
      else None)"

definition origin_constraint :: "constraints \<Rightarrow> origin_constraint" where
  "origin_constraint c =
     (if preferredOriginID c \<noteq> [] then Fixed (preferredOriginID c)
      else case preferredOriginEvaluationMode c of None \<Rightarrow> Free | Some m \<Rightarrow> Mode m)"

text \<open>The last command that is one.\<close>

definition last_command :: "journal_entry list \<Rightarrow> origin_constraint" where
  "last_command es = (case List.find (\<lambda>e. origin_command e \<noteq> None) (rev es) of
     None \<Rightarrow> Free | Some e \<Rightarrow> the (origin_command e))"

lemma origin_constraint_step:
  "constraints_ok (constr info) \<Longrightarrow>
     origin_constraint (constr (snd (addJournalEntry e info)))
       = (case origin_command e of None \<Rightarrow> origin_constraint (constr info) | Some k \<Rightarrow> k)"
proof -
  assume ok: "constraints_ok (constr info)"
  note defs = addJournalEntry_def Let_def journal_constraints_def origin_command_def origin_constraint_def
  consider (org) "je_action e \<in> {''EvPrefOrgID'', ''EvPrefOrgEvalMode'', ''EvPrefOrgAutomatic''}"
    | (other) "je_action e \<notin> {''EvPrefOrgID'', ''EvPrefOrgEvalMode'', ''EvPrefOrgAutomatic''}" by argo
  then show ?thesis
  proof cases
    case org
    with ok show ?thesis by (auto simp: defs constraints_ok_def split: option.splits)
  next
    case other
    then show ?thesis by (simp add: defs split: option.splits)
  qed
qed

lemma last_command_snoc: "last_command (es @ [e]) = (case origin_command e of None \<Rightarrow> last_command es | Some k \<Rightarrow> k)"
  by (simp add: last_command_def split: option.split)

text \<open>Adding the entries of a journal in their order.\<close>

definition replay :: "journal_entry list \<Rightarrow> event_info \<Rightarrow> event_info" where
  "replay es info = fold (\<lambda>e info. snd (addJournalEntry e info)) es info"

lemma replay_snoc: "replay (es @ [e]) info = snd (addJournalEntry e (replay es info))"
  by (simp add: replay_def)

lemma replay_ok: "constraints_ok (constr info) \<Longrightarrow> constraints_ok (constr (replay es info))"
  by (induction es rule: rev_induct) (auto simp: replay_snoc addJournalEntry_ok, simp add: replay_def)

text \<open>
  the journal of an event decides how its preferred origin is constrained: after any journal an
  origin is fixed by its identifier or by its evaluation mode but never by both, and the last
  entry that is a valid command on the origin says by which; entries that are not valid commands
  (an unknown mode, another action) do not count.
\<close>

lemma journal_decides_origin:
  "constraints_ok (constr (replay es EventInformation)) \<and>
   origin_constraint (constr (replay es EventInformation)) = last_command es"
proof (induction es rule: rev_induct)
  case Nil
  show ?case
    by (simp add: replay_def EventInformation_def constraints_ok_init last_command_def)
       (simp add: origin_constraint_def Constraints_def)
next
  case (snoc e es)
  then show ?case
    by (simp add: replay_snoc addJournalEntry_ok origin_constraint_step last_command_snoc split: option.split)
qed

section \<open>Matching picks\<close>

lemma add_pick_proj [simp]:
  "pickIDs (add_pick cfg getPick pid info) = insert pid (pickIDs info)"
  "picks (add_pick cfg getPick pid info) = picks info @
     (if maxMatchingPicksTimeDiff cfg \<ge> 0 then (case getPick pid of None \<Rightarrow> [] | Some p \<Rightarrow> [(station_id p, p)]) else [])"
  by (simp_all add: add_pick_def insertPick_def Let_def split: option.split)

lemma add_pick_frame [frame]:
  "ei_event (add_pick cfg getPick pid info) = ei_event info"
  "preferredOrigin (add_pick cfg getPick pid info) = preferredOrigin info"
  "preferredMagnitude (add_pick cfg getPick pid info) = preferredMagnitude info"
  "preferredFocalMechanism (add_pick cfg getPick pid info) = preferredFocalMechanism info"
  "constr (add_pick cfg getPick pid info) = constr info"
  "journal (add_pick cfg getPick pid info) = journal info"
  "ei_created (add_pick cfg getPick pid info) = ei_created info"
  "dirtyPickSet (add_pick cfg getPick pid info) = dirtyPickSet info"
  "aboutToBeRemoved (add_pick cfg getPick pid info) = aboutToBeRemoved info"
  by (simp_all add: add_pick_def insertPick_def Let_def split: option.split)

text \<open>An operation that leaves a field alone does so when it is folded over a list.\<close>

lemma fold_frame: "(\<And>x s. f (g x s) = f s) \<Longrightarrow> f (fold g xs s) = f s"
  by (induction xs arbitrary: s) auto

lemma rebuild_frame [frame]:
  "ei_event (rebuild_picks cfg getOrigin getPick info) = ei_event info"
  "preferredOrigin (rebuild_picks cfg getOrigin getPick info) = preferredOrigin info"
  "preferredMagnitude (rebuild_picks cfg getOrigin getPick info) = preferredMagnitude info"
  "preferredFocalMechanism (rebuild_picks cfg getOrigin getPick info) = preferredFocalMechanism info"
  "constr (rebuild_picks cfg getOrigin getPick info) = constr info"
  "journal (rebuild_picks cfg getOrigin getPick info) = journal info"
  "ei_created (rebuild_picks cfg getOrigin getPick info) = ei_created info"
  "aboutToBeRemoved (rebuild_picks cfg getOrigin getPick info) = aboutToBeRemoved info"
  by (simp_all add: rebuild_picks_def rebuild_origin_def Let_def fold_frame [of ei_event] fold_frame [of preferredOrigin]
      fold_frame [of preferredMagnitude] fold_frame [of preferredFocalMechanism] fold_frame [of constr]
      fold_frame [of journal] fold_frame [of ei_created] fold_frame [of aboutToBeRemoved] frame split: option.split)

lemma matchingPicks_frame [frame]:
  "ei_event (snd (matchingPicks cfg getOrigin getPick org info)) = ei_event info"
  "preferredOrigin (snd (matchingPicks cfg getOrigin getPick org info)) = preferredOrigin info"
  "preferredMagnitude (snd (matchingPicks cfg getOrigin getPick org info)) = preferredMagnitude info"
  "preferredFocalMechanism (snd (matchingPicks cfg getOrigin getPick org info)) = preferredFocalMechanism info"
  "constr (snd (matchingPicks cfg getOrigin getPick org info)) = constr info"
  "journal (snd (matchingPicks cfg getOrigin getPick org info)) = journal info"
  "ei_created (snd (matchingPicks cfg getOrigin getPick org info)) = ei_created info"
  "aboutToBeRemoved (snd (matchingPicks cfg getOrigin getPick org info)) = aboutToBeRemoved info"
  by (simp_all add: matchingPicks_def Let_def frame)

subsection \<open>By time\<close>

definition same_phase :: "char \<Rightarrow> pick \<Rightarrow> bool" where
  "same_phase cod q \<longleftrightarrow> (case phaseHint q of None \<Rightarrow> False | Some h \<Rightarrow> cod = getShortPhaseName h)"

definition near :: "rat \<Rightarrow> pick \<Rightarrow> pick \<Rightarrow> bool" where
  "near maxDiff p q \<longleftrightarrow> \<bar>to_double (ts_sub (pick_time q) (pick_time p))\<bar> \<le> maxDiff"

lemma pick_hits_counts:
  "(\<forall>q \<in> set qs. phaseHint q \<noteq> None) \<Longrightarrow>
     pick_hits maxDiff cod p qs hit cnt =
       Some (hit + length (filter (near maxDiff p) (filter (same_phase cod) qs)), cnt + length (filter (same_phase cod) qs))"
  by (induction qs arbitrary: hit cnt) (auto simp: near_def same_phase_def Let_def)

text \<open>
  The contract of matching by time: an arrival matches if the event has picks at its station with the
  same phase, and all of them are near, or one of them is.
\<close>

definition pick_matches :: "event_config \<Rightarrow> (string \<Rightarrow> pick option) \<Rightarrow> (string \<times> pick) list \<Rightarrow> arrival \<Rightarrow> bool" where
  "pick_matches cfg getPick ps arr \<longleftrightarrow> arrival_used cfg arr \<and>
     (case getPick (arr_pickID arr) of
        None \<Rightarrow> False
      | Some p \<Rightarrow>
          let S = {q. (station_id p, q) \<in> set ps \<and> same_phase (getShortPhaseName (the (phaseHint p))) q}
          in S \<noteq> {} \<and> (if matchingPicksTimeDiffAND cfg then \<forall>q \<in> S. near (maxMatchingPicksTimeDiff cfg) p q
                       else \<exists>q \<in> S. near (maxMatchingPicksTimeDiff cfg) p q))"

lemma set_picks_at: "set (picks_at ps sid) = {q. (sid, q) \<in> set ps}"
  by (force simp: picks_at_def)

lemma filter_all_length: "length (filter P xs) = length xs \<longleftrightarrow> (\<forall>x \<in> set xs. P x)"
  by (induction xs) (auto, use length_filter_le in \<open>metis Suc_n_not_le_n\<close>)

lemma match_times_counts:
  assumes "\<forall>(sid, q) \<in> set ps. phaseHint q \<noteq> None"
    and "\<forall>arr \<in> set arrs. \<forall>p. getPick (arr_pickID arr) = Some p \<longrightarrow> phaseHint p \<noteq> None"
  shows "match_times cfg getPick ps arrs matches = Some (matches + length (filter (pick_matches cfg getPick ps) arrs))"
  using assms(2)
proof (induction arrs arbitrary: matches)
  case (Cons arr arrs)
  then have IH: "match_times cfg getPick ps arrs m = Some (m + length (filter (pick_matches cfg getPick ps) arrs))" for m
    by simp
  show ?case
  proof (cases "arrival_used cfg arr \<and> getPick (arr_pickID arr) \<noteq> None")
    case False
    then have "\<not> pick_matches cfg getPick ps arr" by (auto simp: pick_matches_def)
    with False IH show ?thesis by auto
  next
    case True
    then obtain p where p: "getPick (arr_pickID arr) = Some p" by auto
    with Cons.prems obtain h where h: "phaseHint p = Some h" by auto
    define S where "S = filter (same_phase (getShortPhaseName h)) (picks_at ps (station_id p))"
    have "\<forall>q \<in> set (picks_at ps (station_id p)). phaseHint q \<noteq> None"
      using assms(1) by (auto simp: set_picks_at)
    note hits = pick_hits_counts [OF this, of "maxMatchingPicksTimeDiff cfg" "getShortPhaseName h" p 0 0, folded S_def]
    have m: "pick_matches cfg getPick ps arr \<longleftrightarrow> S \<noteq> [] \<and>
        (if matchingPicksTimeDiffAND cfg then \<forall>q \<in> set S. near (maxMatchingPicksTimeDiff cfg) p q
         else \<exists>q \<in> set S. near (maxMatchingPicksTimeDiff cfg) p q)"
      using True p h by (auto simp: pick_matches_def S_def set_picks_at filter_empty_conv)
    show ?thesis
      using True by (auto simp: p h hits m IH filter_all_length filter_empty_conv)
  qed
qed simp

text \<open>
  matching by time counts exactly the used arrivals whose pick is known and for which the
  event has picks of the same station and phase that are near enough: all of them with the option AND,
  at least one without it.
\<close>

theorem matching_by_time:
  assumes "0 \<le> maxMatchingPicksTimeDiff cfg" and "\<not> dirtyPickSet info"
    and "\<forall>(sid, q) \<in> set (picks info). phaseHint q \<noteq> None"
    and "\<forall>arr \<in> set (org_arrivals org). \<forall>p. getPick (arr_pickID arr) = Some p \<longrightarrow> phaseHint p \<noteq> None"
  shows "fst (matchingPicks cfg getOrigin getPick org info)
           = Some (length (filter (pick_matches cfg getPick (picks info)) (org_arrivals org)))"
  using assms(1,2) match_times_counts [OF assms(3,4), of cfg 0] by (simp add: matchingPicks_def Let_def)

theorem matching_by_time_witness:
  "fst (matchingPicks (default_config True\<lparr>maxMatchingPicksTimeDiff := 2\<rparr>) (\<lambda>_. None)
          [''p'' \<mapsto> sample_pick ''APE'' ''Pn'' 101]
          (sample_origin ''o'' ''GFZ'' None 0 [sample_arrival ''p'' None])
          (EventInformation\<lparr>picks := [(''GE.APE'', sample_pick ''APE'' ''P'' 100)]\<rparr>)) = Some 1"
proof -
  let ?cfg = "default_config True\<lparr>maxMatchingPicksTimeDiff := 2\<rparr>"
  let ?info = "EventInformation\<lparr>picks := [(''GE.APE'', sample_pick ''APE'' ''P'' 100)]\<rparr>"
  let ?org = "sample_origin ''o'' ''GFZ'' None 0 [sample_arrival ''p'' None]"
  have "arrival_used ?cfg (sample_arrival ''p'' None)" by code_simp
  moreover have "station_id (sample_pick ''APE'' ''Pn'' 101) = ''GE.APE''" by code_simp
  moreover have "same_phase (getShortPhaseName (the (phaseHint (sample_pick ''APE'' ''Pn'' 101)))) (sample_pick ''APE'' ''P'' 100)"
    by code_simp
  moreover have "near 2 (sample_pick ''APE'' ''Pn'' 101) (sample_pick ''APE'' ''P'' 100)" by code_simp
  ultimately have m: "pick_matches ?cfg [''p'' \<mapsto> sample_pick ''APE'' ''Pn'' 101] (picks ?info) (sample_arrival ''p'' None)"
    by (auto simp: pick_matches_def sample_arrival_def Let_def)
  have "fst (matchingPicks ?cfg (\<lambda>_. None) [''p'' \<mapsto> sample_pick ''APE'' ''Pn'' 101] ?org ?info)
      = Some (length (filter (pick_matches ?cfg [''p'' \<mapsto> sample_pick ''APE'' ''Pn'' 101] (picks ?info)) (org_arrivals ?org)))"
    by (rule matching_by_time) (simp_all add: EventInformation_def sample_pick_def)
  then show ?thesis using m by (simp add: sample_origin_def)
qed

subsection \<open>The set of picks\<close>

text \<open>The picks of the referenced origins, without those of a weight that is not positive.\<close>

definition origin_pickIDs :: "origin \<Rightarrow> string set" where
  "origin_pickIDs org = {arr_pickID arr | arr. arr \<in> set (org_arrivals org) \<and> (\<forall>w. arr_weight arr = Some w \<longrightarrow> 0 < w)}"

definition event_pickIDs :: "(string \<Rightarrow> origin option) \<Rightarrow> event \<Rightarrow> string set" where
  "event_pickIDs getOrigin ev = {pid. \<exists>oid org. oid \<in> set (originReferences ev) \<and> getOrigin oid = Some org \<and> pid \<in> origin_pickIDs org}"

lemma rebuild_origin_pickIDs: "pickIDs (rebuild_origin cfg getPick org info) = pickIDs info \<union> origin_pickIDs org"
proof -
  have "pickIDs (fold (\<lambda>arr info. if (case arr_weight arr of None \<Rightarrow> False | Some w \<Rightarrow> w \<le> 0) then info
             else add_pick cfg getPick (arr_pickID arr) info) arrs info)
        = pickIDs info \<union> {arr_pickID arr | arr. arr \<in> set arrs \<and> (\<forall>w. arr_weight arr = Some w \<longrightarrow> 0 < w)}" for arrs
    by (induction arrs arbitrary: info) (auto simp: not_le split: option.splits)
  then show ?thesis by (simp add: rebuild_origin_def origin_pickIDs_def)
qed

lemma rebuild_pickIDs:
  assumes "ei_event info = Some ev"
  shows "pickIDs (rebuild_picks cfg getOrigin getPick info) = event_pickIDs getOrigin ev"
proof -
  have "pickIDs (fold (\<lambda>oid info. case getOrigin oid of None \<Rightarrow> info | Some org \<Rightarrow> rebuild_origin cfg getPick org info) refs i)
        = pickIDs i \<union> {pid. \<exists>oid org. oid \<in> set refs \<and> getOrigin oid = Some org \<and> pid \<in> origin_pickIDs org}" for refs i
    by (induction refs arbitrary: i) (auto simp: rebuild_origin_pickIDs split: option.splits)
  then show ?thesis
    using assms by (simp add: rebuild_picks_def event_pickIDs_def)
qed

lemma associate_event:
  "ei_event info = Some ev \<Longrightarrow>
     ei_event (snd (info_associate cfg getPick org info)) = Some (snd (add_originReference (org_publicID org) ev))"
  by (simp add: info_associate_def Let_def fold_frame [of ei_event] frame)

lemma associate_pickIDs:
  assumes "ei_event info = Some ev"
  shows "pickIDs (snd (info_associate cfg getPick org info))
           = pickIDs info \<union> {arr_pickID arr | arr. arr \<in> set (org_arrivals org) \<and> arrival_used cfg arr}"
proof -
  have "pickIDs (fold (\<lambda>arr info. if \<not> arrival_used cfg arr then info else add_pick cfg getPick (arr_pickID arr) info) arrs i)
        = pickIDs i \<union> {arr_pickID arr | arr. arr \<in> set arrs \<and> arrival_used cfg arr}" for arrs i
    by (induction arrs arbitrary: i) auto
  then show ?thesis using assms by (simp add: info_associate_def Let_def)
qed

lemma add_originReference_set: "set (originReferences (snd (add_originReference oid ev))) = insert oid (set (originReferences ev))"
  by (auto simp: add_originReference_def)

lemma add_originReference_distinct [inv_intro]:
  "distinct (originReferences ev) \<Longrightarrow> distinct (originReferences (snd (add_originReference oid ev)))"
  by (auto simp: add_originReference_def)

text \<open>
  the set of picks that grows with every association is the one collected anew from all
  referenced origins, as long as zero weights do not count and no weight is negative.
\<close>

lemma picks_incremental:
  assumes "ei_event info = Some ev" and "pickIDs info = pickIDs (rebuild_picks cfg getOrigin getPick info)"
    and "getOrigin (org_publicID org) = Some org" and "\<not> matchingLooseAssociatedPicks cfg"
    and "\<forall>arr \<in> set (org_arrivals org). 0 \<le> arrivalWeight arr"
  shows "pickIDs (snd (info_associate cfg getPick org info))
           = pickIDs (rebuild_picks cfg getOrigin getPick (snd (info_associate cfg getPick org info)))"
proof -
  have used: "arrival_used cfg arr \<longleftrightarrow> (\<forall>w. arr_weight arr = Some w \<longrightarrow> 0 < w)" if "arr \<in> set (org_arrivals org)" for arr
    using assms(4) bspec [OF assms(5) that] by (cases "arr_weight arr") (auto simp: arrival_used_def arrivalWeight_def)
  have "{arr_pickID arr | arr. arr \<in> set (org_arrivals org) \<and> arrival_used cfg arr} = origin_pickIDs org"
    unfolding origin_pickIDs_def by (intro Collect_cong ex_cong1 conj_cong refl) (rule used)
  moreover have "event_pickIDs getOrigin (snd (add_originReference (org_publicID org) ev))
      = event_pickIDs getOrigin ev \<union> origin_pickIDs org"
    using assms(3) by (auto simp: event_pickIDs_def add_originReference_set)
  ultimately show ?thesis
    using assms(2) rebuild_pickIDs [OF assms(1), of cfg getOrigin getPick] rebuild_pickIDs [OF associate_event [OF assms(1)]]
    by (simp add: associate_pickIDs [OF assms(1)])
qed

theorem picks_incremental_witness:
  "let cfg = default_config True; org = sample_origin ''o'' ''GFZ'' None 0 [sample_arrival ''p'' (Some 1)];
       info = snd (info_associate cfg (\<lambda>_. None) org (EventInformation\<lparr>ei_event := Some (Event ''e'')\<rparr>))
   in pickIDs info = pickIDs (rebuild_picks cfg [''o'' \<mapsto> org] (\<lambda>_. None) info)"
  unfolding Let_def
  by (rule picks_incremental [where ev = "Event ''e''"])
     (simp_all add: EventInformation_def rebuild_pickIDs event_pickIDs_def Event_def sample_origin_def default_config_def
        sample_arrival_def arrivalWeight_def)

text \<open>With loosely associated picks the two sets differ: a pick of zero weight is lost when they are collected anew.\<close>

lemma loose_picks_lost:
  "let cfg = default_config True\<lparr>matchingLooseAssociatedPicks := True\<rparr>;
       org = sample_origin ''o'' ''GFZ'' None 0 [sample_arrival ''p'' (Some 0)];
       info = snd (info_associate cfg (\<lambda>_. None) org (EventInformation\<lparr>ei_event := Some (Event ''e'')\<rparr>))
   in pickIDs info = {''p''} \<and> pickIDs (rebuild_picks cfg [''o'' \<mapsto> org] (\<lambda>_. None) info) = {}"
  by code_simp

end
