(* ===== verification/Contest.thy ===== *)
theory Contest
  imports Prelude
begin

text \<open>
  Choosing the best of a list by comparing one element after the other with the best so far, in the
  two ways programs do it: a challenger that is strictly better replaces the champion, or every challenger
  does that is not worse.  \<open>beats\<close> must be a strict weak order.  Lexicographic comparison by a list
  of criteria is such an order if every criterion is one.
\<close>

section \<open>Strict weak orders\<close>

definition strict_weak :: "('a \<Rightarrow> 'a \<Rightarrow> bool) \<Rightarrow> bool" where
  "strict_weak r \<longleftrightarrow> (\<forall>x y. r x y \<longrightarrow> \<not> r y x) \<and> (\<forall>x y z. r x z \<longrightarrow> r x y \<or> r y z)"

lemma strict_weakI: "(\<And>x y. r x y \<Longrightarrow> \<not> r y x) \<Longrightarrow> (\<And>x y z. r x z \<Longrightarrow> r x y \<or> r y z) \<Longrightarrow> strict_weak r"
  by (simp add: strict_weak_def)

lemma strict_weak_asym: "strict_weak r \<Longrightarrow> r x y \<Longrightarrow> \<not> r y x"
  by (simp add: strict_weak_def)

lemma strict_weak_split: "strict_weak r \<Longrightarrow> r x z \<Longrightarrow> r x y \<or> r y z"
  unfolding strict_weak_def by blast

lemma strict_weak_trans: "strict_weak r \<Longrightarrow> r x y \<Longrightarrow> r y z \<Longrightarrow> r x z"
  using strict_weak_split [of r x y z] strict_weak_asym [of r y z] by blast

lemma strict_weak_key: "strict_weak (\<lambda>x y. (f x :: 'k :: linorder) > f y)"
  by (rule strict_weakI) auto

lemma strict_weak_none: "strict_weak (\<lambda>x y. False)"
  by (rule strict_weakI) auto

text \<open>The first criterion that tells two elements apart decides.\<close>

fun lex_beats :: "('a \<Rightarrow> 'a \<Rightarrow> bool) list \<Rightarrow> 'a \<Rightarrow> 'a \<Rightarrow> bool" where
  "lex_beats [] x y = False"
| "lex_beats (r # rs) x y = (r x y \<or> (\<not> r y x \<and> lex_beats rs x y))"

lemma strict_weak_lex: "(\<forall>r \<in> set rs. strict_weak r) \<Longrightarrow> strict_weak (lex_beats rs)"
proof (induction rs)
  case Nil
  then show ?case by (simp add: strict_weak_def)
next
  case (Cons r rs)
  then have r: "strict_weak r" and rs: "strict_weak (lex_beats rs)" by auto
  show ?case
  proof (rule strict_weakI)
    show "\<not> lex_beats (r # rs) y x" if "lex_beats (r # rs) x y" for x y
      using that strict_weak_asym [OF r] strict_weak_asym [OF rs] by auto
    show "lex_beats (r # rs) x y \<or> lex_beats (r # rs) y z" if "lex_beats (r # rs) x z" for x y z
      using that strict_weak_split [OF r, of x z y] strict_weak_split [OF r, of z y x] strict_weak_split [OF r, of y x z]
        strict_weak_split [OF rs, of x z y] strict_weak_asym [OF r]
      by auto
  qed
qed

section \<open>The contest\<close>

locale contest =
  fixes beats :: "'a \<Rightarrow> 'a \<Rightarrow> bool"
  assumes weak: "strict_weak beats"
begin

lemmas asym = strict_weak_asym [OF weak]
lemmas cotrans = strict_weak_split [OF weak]
lemmas trans = strict_weak_trans [OF weak]

text \<open>The first of the best: a challenger must beat the champion.\<close>

definition first_best :: "'a option \<Rightarrow> 'a list \<Rightarrow> 'a option" where
  "first_best b xs = fold (\<lambda>x b. case b of None \<Rightarrow> Some x | Some c \<Rightarrow> if beats x c then Some x else b) xs b"

lemma first_best_snoc:
  "first_best b (xs @ [x]) = (case first_best b xs of None \<Rightarrow> Some x | Some c \<Rightarrow> if beats x c then Some x else Some c)"
  by (simp add: first_best_def split: option.split)

lemma first_best_None: "first_best None xs = None \<longleftrightarrow> xs = []"
  by (induction xs rule: rev_induct) (auto simp: first_best_snoc first_best_def split: option.splits)

lemma first_best_Some:
  "first_best None xs = Some c \<Longrightarrow>
     \<exists>i < length xs. xs ! i = c \<and> (\<forall>j < length xs. \<not> beats (xs ! j) c) \<and> (\<forall>j < i. beats c (xs ! j))"
proof (induction xs arbitrary: c rule: rev_induct)
  case (snoc x xs)
  show ?case
  proof (cases "first_best None xs")
    case None
    with snoc.prems have "xs = []" and "c = x" by (simp_all add: first_best_None first_best_snoc)
    then show ?thesis using asym [of c c] by auto
  next
    case (Some d)
    from snoc.IH [OF this] obtain i where i: "i < length xs" "xs ! i = d" "\<forall>j < length xs. \<not> beats (xs ! j) d"
      "\<forall>j < i. beats d (xs ! j)" by auto
    show ?thesis
    proof (cases "beats x d")
      case True
      with snoc.prems Some have c: "c = x" by (simp add: first_best_snoc)
      have "beats x (xs ! j)" if "j < length xs" for j
        using cotrans [OF True, of "xs ! j"] i(3) that by auto
      then show ?thesis
        using asym by (intro exI [of _ "length xs"]) (auto simp: c nth_append less_Suc_eq)
    next
      case False
      with snoc.prems Some have c: "c = d" by (simp add: first_best_snoc)
      then show ?thesis using i False by (intro exI [of _ i]) (auto simp: nth_append less_Suc_eq)
    qed
  qed
qed (simp add: first_best_def)

text \<open>The last of the best: a challenger replaces the champion unless it is beaten by it.\<close>

definition last_best :: "'a \<Rightarrow> 'a list \<Rightarrow> 'a" where
  "last_best b xs = fold (\<lambda>x c. if beats c x then c else x) xs b"

lemma last_best_snoc: "last_best b (xs @ [x]) = (if beats (last_best b xs) x then last_best b xs else x)"
  by (simp add: last_best_def)

lemma last_best_max: "last_best b xs \<in> insert b (set xs) \<and> (\<forall>y \<in> insert b (set xs). \<not> beats y (last_best b xs))"
proof (induction xs rule: rev_induct)
  case Nil
  then show ?case using asym [of b b] by (auto simp: last_best_def)
next
  case (snoc x xs)
  show ?case
  proof (cases "beats (last_best b xs) x")
    case True
    then show ?thesis using snoc asym [OF True] by (auto simp: last_best_snoc)
  next
    case False
    then show ?thesis
      using snoc asym [of x x] cotrans [of _ x "last_best b xs"] by (auto simp: last_best_snoc)
  qed
qed

end

end
