(* ===== verification/EventPreferred.thy ===== *)
theory EventPreferred
  imports EventInfo Contest
begin

text \<open>
  The choice of the preferred origin and magnitude of an event
  (src/src/trunk/apps/processing/scevent/eventtool.cpp, \<open>preferredMagnitude\<close> and the first \<open>choosePreferred\<close>).

  The surroundings of the program are a record of parameters: configuration, firewall of agencies, the
  score of a plugin, names of regions, the cache of magnitudes, the event processors (plugins that may change the event
  and say whether they did), the origins that are blacklisted in this turn, the name of the
  sender and the present time.  An operation yields the new state of the event and the notices it
  sends: updates of the event, of its region name, and entries of the journal.  It is called for an event that exists.
  Logging is left out.
\<close>

section \<open>Surroundings\<close>

datatype notice = EventUpdated string | DescriptionUpdated description_type | JournalAdded journal_entry

record surroundings =
  cfg :: event_config
  procFirewall :: firewall
  score :: "origin \<Rightarrow> rat"
  regionName :: "rat \<Rightarrow> rat \<Rightarrow> string"
  getMagnitude :: "string \<Rightarrow> magnitude option"
  processors :: "(event \<Rightarrow> journal_entry list \<Rightarrow> bool \<times> event) list"
  originBlackList :: "string set"
  sender :: string
  now :: timeval

definition isAgencyIDAllowed :: "surroundings \<Rightarrow> string \<Rightarrow> bool" where
  "isAgencyIDAllowed env agency = isAllowed (procFirewall env) agency"

definition isAgencyIDBlocked :: "surroundings \<Rightarrow> string \<Rightarrow> bool" where
  "isAgencyIDBlocked env agency \<longleftrightarrow> \<not> isAgencyIDAllowed env agency"

definition org_blocked :: "surroundings \<Rightarrow> origin \<Rightarrow> bool" where
  "org_blocked env org = isAgencyIDBlocked env (objectAgencyID (org_creationInfo org))"

definition mag_blocked :: "surroundings \<Rightarrow> magnitude \<Rightarrow> bool" where
  "mag_blocked env mag = isAgencyIDBlocked env (objectAgencyID (mag_creationInfo mag))"

section \<open>The preferred magnitude of an origin\<close>

text \<open>The largest mb: its station count and value.\<close>

fun scan_mb :: "surroundings \<Rightarrow> magnitude list \<Rightarrow> int \<times> rat \<Rightarrow> int \<times> rat" where
  "scan_mb env [] best = best"
| "scan_mb env (mag # mags) (mbcount, mbval) =
     scan_mb env mags
       (if mag_blocked env mag then (mbcount, mbval)
        else if mag_type mag = ''mb'' \<and> mag_value mag > mbval then (stationCount mag, mag_value mag)
        else (mbcount, mbval))"

text \<open>A choice in progress: count and priority of the best so far, and the magnitude.\<close>

type_synonym choice = "int \<times> int \<times> magnitude option"

definition choose_step :: "int \<Rightarrow> magnitude \<Rightarrow> choice \<Rightarrow> choice" where
  "choose_step prio mag ch =
     (case ch of (count, best, _) \<Rightarrow>
        if stationCount mag > count \<or> (stationCount mag = count \<and> prio > best)
        then (stationCount mag, prio, Some mag) else ch)"

fun choose_good :: "surroundings \<Rightarrow> int \<Rightarrow> rat \<Rightarrow> magnitude list \<Rightarrow> choice \<Rightarrow> choice \<Rightarrow> choice \<times> choice" where
  "choose_good env mbcount mbval [] good fallback = (good, fallback)"
| "choose_good env mbcount mbval (mag # mags) good fallback =
     (let prio = goodness (Some mag) mbcount mbval (cfg env) in
      if mag_blocked env mag then choose_good env mbcount mbval mags good fallback
      else if prio \<le> 0 then choose_good env mbcount mbval mags good fallback
      else if isMw mag then choose_good env mbcount mbval mags (choose_step prio mag good) fallback
      else choose_good env mbcount mbval mags good (choose_step prio mag fallback))"

fun choose_any :: "surroundings \<Rightarrow> magnitude list \<Rightarrow> choice \<Rightarrow> choice" where
  "choose_any env [] ch = ch"
| "choose_any env (mag # mags) ch =
     choose_any env mags (if mag_blocked env mag then ch
                          else choose_step (magnitudePriority (mag_type mag) (cfg env)) mag ch)"

definition preferredMagnitude_of :: "surroundings \<Rightarrow> origin \<Rightarrow> magnitude option" where
  "preferredMagnitude_of env org =
     (let (mbcount, mbval) = scan_mb env (org_magnitudes org) (0, 0);
          (good, fallback) = choose_good env mbcount mbval (org_magnitudes org) (0, 0, None) (0, 0, None)
      in case snd (snd good) of
           Some mag \<Rightarrow> Some mag
         | None \<Rightarrow>
             if snd (snd fallback) = None \<and> enableFallbackPreferredMagnitude (cfg env)
             then snd (snd (choose_any env (org_magnitudes org) (0, 0, None)))
             else snd (snd fallback))"

section \<open>Changing the event\<close>

definition ev_get :: "(event \<Rightarrow> 'a) \<Rightarrow> 'a \<Rightarrow> event_info \<Rightarrow> 'a" where
  "ev_get f d info = (case ei_event info of None \<Rightarrow> d | Some ev \<Rightarrow> f ev)"

definition ev_set :: "(event \<Rightarrow> event) \<Rightarrow> event_info \<Rightarrow> event_info" where
  "ev_set f info = info\<lparr>ei_event := map_option f (ei_event info)\<rparr>"

definition updateRegionName :: "surroundings \<Rightarrow> origin option \<Rightarrow> event \<Rightarrow> event \<times> notice list" where
  "updateRegionName env org ev =
     (let reg = (case org of None \<Rightarrow> [] | Some org \<Rightarrow> regionName env (org_latitude org) (org_longitude org)) in
      case find_index (\<lambda>(ty, _). ty = REGION_NAME) (eventDescriptions ev) of
        Some i \<Rightarrow>
          if snd (eventDescriptions ev ! i) \<noteq> reg
          then (ev\<lparr>eventDescriptions := (eventDescriptions ev)[i := (REGION_NAME, reg)]\<rparr>, [DescriptionUpdated REGION_NAME])
          else (ev, [])
      | None \<Rightarrow> (snd (add_eventDescription REGION_NAME reg ev), []))"

text \<open>The three statements that make an origin preferred.\<close>

definition set_origin :: "surroundings \<Rightarrow> origin \<Rightarrow> event_info \<Rightarrow> event_info \<times> notice list" where
  "set_origin env org info =
     (case ei_event info of
        None \<Rightarrow> (info\<lparr>preferredOrigin := Some org\<rparr>, [])
      | Some ev \<Rightarrow>
          let (ev, out) = updateRegionName env (Some org) (ev\<lparr>ev_preferredOriginID := org_publicID org\<rparr>)
          in (info\<lparr>ei_event := Some ev, preferredOrigin := Some org\<rparr>, out))"

definition set_magnitude :: "magnitude option \<Rightarrow> event_info \<Rightarrow> event_info" where
  "set_magnitude mag info =
     (ev_set (\<lambda>ev. ev\<lparr>ev_preferredMagnitudeID := (case mag of None \<Rightarrow> [] | Some m \<Rightarrow> mag_publicID m)\<rparr>) info)
       \<lparr>preferredMagnitude := mag\<rparr>"

fun run_processors ::
    "(event \<Rightarrow> journal_entry list \<Rightarrow> bool \<times> event) list \<Rightarrow> journal_entry list \<Rightarrow> event \<Rightarrow> bool \<times> event" where
  "run_processors [] jnl ev = (False, ev)"
| "run_processors (p # ps) jnl ev =
     (let (changed, ev) = p ev jnl; (more, ev) = run_processors ps jnl ev in (changed \<or> more, ev))"

definition call_processors :: "surroundings \<Rightarrow> event_info \<Rightarrow> bool \<times> event_info" where
  "call_processors env info =
     (case ei_event info of
        None \<Rightarrow> (False, info)
      | Some ev \<Rightarrow>
          let (changed, ev) = run_processors (processors env) (journal info) ev
          in (changed, info\<lparr>ei_event := Some ev\<rparr>))"

text \<open>\<open>updateEvent\<close>; the modification time of the event is not kept.\<close>

definition updateEvent :: "surroundings \<Rightarrow> bool \<Rightarrow> event_info \<Rightarrow> event_info \<times> notice list" where
  "updateEvent env callProcessors info =
     (if callProcessors then snd (call_processors env info) else info,
      [EventUpdated (ev_get ev_publicID [] info)])"

section \<open>Comparing two origins\<close>

datatype check = Lower | Same | Higher

definition three_way :: "'a :: linorder \<Rightarrow> 'a \<Rightarrow> check" where
  "three_way a b = (if a < b then Lower else if a > b then Higher else Same)"

text \<open>The entry that releases a fixed evaluation mode.\<close>

definition release_entry :: "surroundings \<Rightarrow> event_info \<Rightarrow> journal_entry" where
  "release_entry env info = \<lparr>je_objectID = ev_get ev_publicID [] info, je_action = ''EvPrefOrgEvalMode'', je_parameters = [],
     je_sender = sender env, je_created = Some (now env)\<rparr>"

text \<open>Comparing modes or states, with a mode that may be fixed.\<close>

definition mode_check ::
    "surroundings \<Rightarrow> bool \<Rightarrow> (origin \<Rightarrow> int) \<Rightarrow> origin \<Rightarrow> origin \<Rightarrow> event_info \<Rightarrow> check \<times> event_info \<times> notice list" where
  "mode_check env realOriginUpdate prio org pref info =
     (let op = prio org; pp = prio pref;
          (pp, info, out) =
            (if fixOriginMode (constr info) pref then
               (if realOriginUpdate \<and> op > pp then
                  (let entry = release_entry env info in (pp, snd (addJournalEntry entry info), [JournalAdded entry]))
                else (priority_max, info, []))
             else (pp, info, []));
          op = (if fixOriginMode (constr info) org then priority_max else op)
      in (three_way op pp, info, out))"

definition org_mode :: "origin \<Rightarrow> int" where
  "org_mode org = modePriority (org_evaluationMode org)"

definition org_priority :: "origin \<Rightarrow> int" where
  "org_priority org = eval_priority (org_evaluationMode org) (org_evaluationStatus org)"

definition org_agency :: "surroundings \<Rightarrow> origin \<Rightarrow> int" where
  "org_agency env org = agencyPriority (objectAgencyID (org_creationInfo org)) (cfg env)"

definition rms_check :: "origin \<Rightarrow> origin \<Rightarrow> check" where
  "rms_check org pref =
     (let r = rms org; p = rms pref in
      if r \<ge> 0 \<and> p \<ge> 0 \<and> r > p then Lower
      else if r \<ge> 0 \<and> p \<ge> 0 \<and> r < p then Higher
      else if r < 0 \<and> p \<ge> 0 then Lower
      else if r \<ge> 0 \<and> p < 0 then Higher
      else Same)"

definition is_automatic :: "origin \<Rightarrow> bool" where
  "is_automatic org \<longleftrightarrow> (case org_evaluationMode org of None \<Rightarrow> True | Some m \<Rightarrow> m = AUTOMATIC)"

definition created_check :: "origin \<Rightarrow> origin \<Rightarrow> check" where
  "created_check org pref = three_way (created (org_creationInfo org)) (created (org_creationInfo pref))"

definition phase_check :: "origin \<Rightarrow> origin \<Rightarrow> check" where
  "phase_check org pref = three_way (definingPhaseCount org) (definingPhaseCount pref)"

text \<open>One item of the list of priorities.\<close>

definition priority_check ::
    "surroundings \<Rightarrow> bool \<Rightarrow> string \<Rightarrow> origin \<Rightarrow> origin \<Rightarrow> event_info \<Rightarrow> check \<times> event_info \<times> notice list" where
  "priority_check env realOriginUpdate token org pref info =
     (if token = ''AGENCY'' then (three_way (org_agency env org) (org_agency env pref), info, [])
      else if token = ''AUTHOR'' then
        (three_way (authorPriority (objectAuthor (org_creationInfo org)) (cfg env))
                   (authorPriority (objectAuthor (org_creationInfo pref)) (cfg env)), info, [])
      else if token = ''MODE'' then mode_check env realOriginUpdate org_mode org pref info
      else if token = ''STATUS'' then mode_check env realOriginUpdate org_priority org pref info
      else if token = ''METHOD'' then
        (three_way (methodPriority (org_methodID org) (cfg env)) (methodPriority (org_methodID pref) (cfg env)), info, [])
      else if token = ''PHASES'' then (phase_check org pref, info, [])
      else if token = ''PHASES_AUTOMATIC'' then (if is_automatic org then phase_check org pref else Same, info, [])
      else if token = ''RMS'' then (rms_check org pref, info, [])
      else if token = ''RMS_AUTOMATIC'' then (if is_automatic org then rms_check org pref else Same, info, [])
      else if token = ''TIME'' then (created_check org pref, info, [])
      else if token = ''TIME_AUTOMATIC'' then (if is_automatic org then created_check org pref else Same, info, [])
      else if token = ''SCORE'' then (three_way (score env org) (score env pref), info, [])
      else (Same, info, []))"

text \<open>
  The loop over the list: \<open>None\<close> where an item skips the origin, else whether a higher agency allows an
  origin without a magnitude.
\<close>

fun walk_priorities ::
    "surroundings \<Rightarrow> bool \<Rightarrow> origin \<Rightarrow> origin \<Rightarrow> string list \<Rightarrow> event_info \<Rightarrow> bool option \<times> event_info \<times> notice list" where
  "walk_priorities env realOriginUpdate org pref [] info = (Some False, info, [])"
| "walk_priorities env realOriginUpdate org pref (token # tokens) info =
     (case priority_check env realOriginUpdate token org pref info of
        (Lower, info, out) \<Rightarrow> (None, info, out)
      | (Higher, info, out) \<Rightarrow> (Some (token = ''AGENCY''), info, out)
      | (Same, info, out) \<Rightarrow>
          (case walk_priorities env realOriginUpdate org pref tokens info of (r, info, out') \<Rightarrow> (r, info, out @ out')))"

text \<open>Accepting with a list of priorities, and with the rules used for an empty list.\<close>

definition accept_by_list ::
    "surroundings \<Rightarrow> bool \<Rightarrow> string list \<Rightarrow> origin \<Rightarrow> origin \<Rightarrow> magnitude option \<Rightarrow> event_info \<Rightarrow> bool \<times> event_info \<times> notice list" where
  "accept_by_list env realOriginUpdate tokens org pref mag info =
     (case walk_priorities env realOriginUpdate org pref tokens info of
        (None, info, out) \<Rightarrow> (False, info, out)
      | (Some allowBadMagnitude, info, out) \<Rightarrow>
          (\<not> (\<not> allowBadMagnitude \<and> preferredMagnitude info \<noteq> None \<and> mag = None), info, out))"

definition accept_by_default ::
    "surroundings \<Rightarrow> bool \<Rightarrow> origin \<Rightarrow> origin \<Rightarrow> magnitude option \<Rightarrow> event_info \<Rightarrow> bool \<times> event_info \<times> notice list" where
  "accept_by_default env realOriginUpdate org pref mag info =
     (if org_agency env org < org_agency env pref then (False, info, [])
      else if org_agency env org = org_agency env pref then
        (case mode_check env realOriginUpdate org_priority org pref info of
           (Lower, info, out) \<Rightarrow> (False, info, out)
         | (c, info, out) \<Rightarrow>
             if preferredMagnitude info \<noteq> None \<and> mag = None then (False, info, out)
             else if c = Same then
               (if is_automatic org then
                  (case phase_check org pref of
                     Lower \<Rightarrow> (False, info, out)
                   | Same \<Rightarrow> (created_check org pref \<noteq> Lower, info, out)
                   | Higher \<Rightarrow> (True, info, out))
                else (created_check org pref \<noteq> Lower, info, out))
             else (True, info, out))
      else (True, info, []))"

section \<open>Choosing\<close>

fun first_known :: "(string \<Rightarrow> 'a option) \<Rightarrow> string list \<Rightarrow> 'a option" where
  "first_known get [] = None"
| "first_known get (i # is) = (case get i of None \<Rightarrow> first_known get is | Some x \<Rightarrow> Some x)"

definition candidate_magnitude :: "surroundings \<Rightarrow> origin \<Rightarrow> event_info \<Rightarrow> magnitude option" where
  "candidate_magnitude env org info =
     (let mag = (if fixMw (constr info) then
                   (case preferredFocalMechanism info of
                      None \<Rightarrow> None
                    | Some fm \<Rightarrow> first_known (getMagnitude env) (fm_momentMagnitudeIDs fm))
                 else None);
          mag = (if mag = None \<and> preferredMagnitudeType (constr info) \<noteq> []
                 then List.find (\<lambda>m. mag_type m = preferredMagnitudeType (constr info)) (org_magnitudes org)
                 else mag)
      in if mag = None then preferredMagnitude_of env org else mag)"

text \<open>Whether an origin other than the preferred one may take its place.\<close>

definition accept_origin ::
    "surroundings \<Rightarrow> bool \<Rightarrow> origin \<Rightarrow> origin \<Rightarrow> magnitude option \<Rightarrow> event_info \<Rightarrow> bool \<times> event_info \<times> notice list" where
  "accept_origin env realOriginUpdate org pref mag info =
     (if fixedOrigin (constr info) then (fixOrigin (constr info) org, info, [])
      else if org_blocked env org then (False, info, [])
      else if priorities (cfg env) \<noteq> [] then accept_by_list env realOriginUpdate (priorities (cfg env)) org pref mag info
      else accept_by_default env realOriginUpdate org pref mag info)"

text \<open>The first preferred origin, and one that takes the place of another.\<close>

definition first_preferred :: "surroundings \<Rightarrow> origin \<Rightarrow> magnitude option \<Rightarrow> event_info \<Rightarrow> event_info \<times> notice list" where
  "first_preferred env org mag info =
     (let (info, out) = set_origin env org info in (if mag \<noteq> None then set_magnitude mag info else info, out))"

definition next_preferred :: "surroundings \<Rightarrow> origin \<Rightarrow> magnitude option \<Rightarrow> event_info \<Rightarrow> event_info \<times> notice list" where
  "next_preferred env org mag info =
     (let (info, out) = set_origin env org info in
      (case mag of
         Some m \<Rightarrow> if ev_get ev_preferredMagnitudeID [] info \<noteq> mag_publicID m then set_magnitude mag info else info
       | None \<Rightarrow> if ev_get ev_preferredMagnitudeID [] info \<noteq> [] then set_magnitude None info else info, out))"

text \<open>
  The part that decides on the origin and the magnitude: \<open>None\<close> where the code returns early, else
  the flag \<open>update\<close>.
\<close>

definition select_origin ::
    "surroundings \<Rightarrow> bool \<Rightarrow> origin \<Rightarrow> magnitude option \<Rightarrow> event_info \<Rightarrow> bool option \<times> event_info \<times> notice list" where
  "select_origin env realOriginUpdate org mag info =
     (case preferredOrigin info of
        None \<Rightarrow>
          if isAgencyIDAllowed env (objectAgencyID (org_creationInfo org)) \<or> fixOrigin (constr info) org
          then (Some True, first_preferred env org mag info)
          else (None, info, [])
      | Some pref \<Rightarrow>
          if org_publicID pref \<noteq> org_publicID org then
            (let (accepted, info, out) = accept_origin env realOriginUpdate org pref mag info
             in if \<not> accepted then (None, info, out)
                else (let (info, out') = next_preferred env org mag info in (Some True, info, out @ out')))
          else
            (case mag of
               Some m \<Rightarrow>
                 if ev_get ev_preferredMagnitudeID [] info \<noteq> mag_publicID m
                 then (Some True, set_magnitude mag info, []) else (Some False, info, [])
             | None \<Rightarrow> (Some False, info, [])))"

text \<open>The event type follows a rejected preferred origin, if configured.\<close>

definition auto_event_type :: "surroundings \<Rightarrow> event_info \<Rightarrow> bool \<times> event_info" where
  "auto_event_type env info =
     (case preferredOrigin info of
        None \<Rightarrow> (False, info)
      | Some pref \<Rightarrow>
          if setAutoEventTypeNotExisting (cfg env) \<and> \<not> fixType (constr info) then
            (let isRej = isRejected (org_evaluationStatus pref);
                 notExistingEvent = (ev_get ev_type None info = Some NOT_EXISTING)
             in if isRej then
                  (if \<not> fixedOrigin (constr info) \<and> \<not> notExistingEvent
                   then (True, ev_set (\<lambda>ev. ev\<lparr>ev_type := Some NOT_EXISTING\<rparr>) info) else (False, info))
                else
                  (if \<not> fixedOrigin (constr info) \<and> notExistingEvent
                   then (True, ev_set (\<lambda>ev. ev\<lparr>ev_type := None\<rparr>) info) else (False, info)))
          else (False, info))"

definition finish_choice ::
    "surroundings \<Rightarrow> magnitude option \<Rightarrow> bool \<Rightarrow> bool \<Rightarrow> event_info \<Rightarrow> event_info \<times> notice list" where
  "finish_choice env triggeredMag realOriginUpdate update info =
     (let onlyMagnitude = (\<not> update \<and> \<not> realOriginUpdate \<and>
            (case triggeredMag of None \<Rightarrow> False | Some m \<Rightarrow> mag_publicID m = ev_get ev_preferredMagnitudeID [] info));
          (update, info) = (if onlyMagnitude then call_processors env info else (update, info));
          (typeChanged, info) = auto_event_type env info;
          update = (update \<or> typeChanged)
      in if \<not> update then (info, [])
         else if \<not> ei_created info then updateEvent env (\<not> onlyMagnitude) info
         else (snd (call_processors env (info\<lparr>ei_created := False\<rparr>)), []))"

definition choosePreferred ::
    "surroundings \<Rightarrow> origin \<Rightarrow> magnitude option \<Rightarrow> bool \<Rightarrow> event_info \<Rightarrow> event_info \<times> notice list" where
  "choosePreferred env org triggeredMag realOriginUpdate info =
     (if org_publicID org \<in> originBlackList env then (info, [])
      else
        (case select_origin env realOriginUpdate org (candidate_magnitude env org info) info of
           (None, info, out) \<Rightarrow> (info, out)
         | (Some update, info, out) \<Rightarrow>
             (case finish_choice env triggeredMag realOriginUpdate update info of (info, out') \<Rightarrow> (info, out @ out'))))"

text \<open>
  \<open>updatePreferredOrigin\<close>: all origins of the event are tried again, in the order of the references,
  which the event processors are taken to leave alone.
\<close>

definition updatePreferredOrigin ::
    "surroundings \<Rightarrow> (string \<Rightarrow> origin option) \<Rightarrow> event_info \<Rightarrow> event_info \<times> notice list" where
  "updatePreferredOrigin env getOrigin info =
     (case ei_event info of
        None \<Rightarrow> (info, [])
      | Some ev \<Rightarrow>
          fold (\<lambda>oid (info, out).
                  case getOrigin oid of
                    None \<Rightarrow> (info, out)
                  | Some org \<Rightarrow> (case choosePreferred env org None False info of (info, out') \<Rightarrow> (info, out @ out')))
            (originReferences ev) (info, []))"

section \<open>What choosing leaves alone\<close>

lemma three_way_simps [simp]:
  "three_way a a = Same" "a < b \<Longrightarrow> three_way a b = Lower" "a < b \<Longrightarrow> three_way b a = Higher"
  "three_way a b = Lower \<longleftrightarrow> a < b" "three_way a b = Higher \<longleftrightarrow> b < a" "three_way a b = Same \<longleftrightarrow> a = b"
  by (auto simp: three_way_def)

lemma ev_set_proj [simp]:
  "ei_event (ev_set f info) = map_option f (ei_event info)"
  "preferredOrigin (ev_set f info) = preferredOrigin info"
  "preferredMagnitude (ev_set f info) = preferredMagnitude info"
  "preferredFocalMechanism (ev_set f info) = preferredFocalMechanism info"
  "constr (ev_set f info) = constr info"
  "ei_created (ev_set f info) = ei_created info"
  "journal (ev_set f info) = journal info"
  by (simp_all add: ev_set_def)

lemma set_magnitude_proj [simp]:
  "preferredOrigin (set_magnitude mag info) = preferredOrigin info"
  "preferredMagnitude (set_magnitude mag info) = mag"
  "preferredFocalMechanism (set_magnitude mag info) = preferredFocalMechanism info"
  "constr (set_magnitude mag info) = constr info"
  "ei_created (set_magnitude mag info) = ei_created info"
  "journal (set_magnitude mag info) = journal info"
  "ei_event (set_magnitude mag info) = map_option (\<lambda>ev. ev\<lparr>ev_preferredMagnitudeID :=
     (case mag of None \<Rightarrow> [] | Some m \<Rightarrow> mag_publicID m)\<rparr>) (ei_event info)"
  by (simp_all add: set_magnitude_def)

lemma set_origin_proj [simp]:
  "preferredOrigin (fst (set_origin env org info)) = Some org"
  "preferredMagnitude (fst (set_origin env org info)) = preferredMagnitude info"
  "preferredFocalMechanism (fst (set_origin env org info)) = preferredFocalMechanism info"
  "constr (fst (set_origin env org info)) = constr info"
  "ei_created (fst (set_origin env org info)) = ei_created info"
  "journal (fst (set_origin env org info)) = journal info"
  by (simp_all add: set_origin_def Let_def split: option.split prod.split)

lemma call_processors_frame [frame]:
  "preferredOrigin (snd (call_processors env info)) = preferredOrigin info"
  "preferredMagnitude (snd (call_processors env info)) = preferredMagnitude info"
  "preferredFocalMechanism (snd (call_processors env info)) = preferredFocalMechanism info"
  "constr (snd (call_processors env info)) = constr info"
  "ei_created (snd (call_processors env info)) = ei_created info"
  "journal (snd (call_processors env info)) = journal info"
  by (simp_all add: call_processors_def Let_def split: option.split prod.split)

lemma auto_event_type_frame [frame]:
  "preferredOrigin (snd (auto_event_type env info)) = preferredOrigin info"
  "preferredMagnitude (snd (auto_event_type env info)) = preferredMagnitude info"
  "preferredFocalMechanism (snd (auto_event_type env info)) = preferredFocalMechanism info"
  "constr (snd (auto_event_type env info)) = constr info"
  "ei_created (snd (auto_event_type env info)) = ei_created info"
  "journal (snd (auto_event_type env info)) = journal info"
  by (simp_all add: auto_event_type_def Let_def split: option.split)

lemma finish_choice_frame [frame]:
  "preferredOrigin (fst (finish_choice env trig ro upd info)) = preferredOrigin info"
  "preferredMagnitude (fst (finish_choice env trig ro upd info)) = preferredMagnitude info"
  "preferredFocalMechanism (fst (finish_choice env trig ro upd info)) = preferredFocalMechanism info"
  "constr (fst (finish_choice env trig ro upd info)) = constr info"
  by (simp_all add: finish_choice_def Let_def updateEvent_def frame split_def)

text \<open>What a decision on an origin leaves alone.\<close>

definition same_choice :: "event_info \<Rightarrow> event_info \<Rightarrow> bool" where
  "same_choice info' info \<longleftrightarrow> preferredOrigin info' = preferredOrigin info \<and> preferredMagnitude info' = preferredMagnitude info \<and>
     preferredFocalMechanism info' = preferredFocalMechanism info \<and> ei_event info' = ei_event info \<and>
     ei_created info' = ei_created info"

lemma same_choice_refl [simp]: "same_choice info info"
  by (simp add: same_choice_def)

lemma same_choice_trans: "same_choice a b \<Longrightarrow> same_choice b c \<Longrightarrow> same_choice a c"
  by (simp add: same_choice_def)

lemma mode_check_frame: "same_choice (fst (snd (mode_check env ro prio org pref info))) info"
  by (simp add: mode_check_def Let_def frame same_choice_def)

lemma priority_check_frame: "same_choice (fst (snd (priority_check env ro token org pref info))) info"
  by (simp add: priority_check_def mode_check_frame)

lemma walk_priorities_frame: "same_choice (fst (snd (walk_priorities env ro org pref tokens info))) info"
proof (induction tokens arbitrary: info)
  case (Cons token tokens)
  obtain c i o' where pc: "priority_check env ro token org pref info = (c, i, o')" by (metis prod_cases3)
  have "same_choice i info" using priority_check_frame [of env ro token org pref info] by (simp add: pc)
  with Cons [of i] show ?case by (cases c) (auto simp: pc split_def intro: same_choice_trans)
qed simp

lemma accept_by_list_frame: "same_choice (fst (snd (accept_by_list env ro tokens org pref mag info))) info"
  using walk_priorities_frame [of env ro org pref tokens info]
  by (auto simp: accept_by_list_def split: prod.splits option.splits)

section \<open>The rules for an empty list\<close>

lemma default_rules_list:
  "accept_by_default env ro org pref mag info =
   accept_by_list env ro [''AGENCY'', ''STATUS'', ''PHASES_AUTOMATIC'', ''TIME''] org pref mag info"
proof -
  obtain c i out where m: "mode_check env ro org_priority org pref info = (c, i, out)" by (metis prod_cases3)
  have keep: "preferredMagnitude i = preferredMagnitude info"
    using mode_check_frame [of env ro org_priority org pref info] by (simp add: m same_choice_def)
  note defs = accept_by_default_def accept_by_list_def priority_check_def m
  show ?thesis
  proof (cases "org_agency env org = org_agency env pref")
    case False
    then show ?thesis by (cases "org_agency env org < org_agency env pref") (auto simp: defs)
  next
    case agency: True
    show ?thesis
    proof (cases c)
      case Same
      with agency show ?thesis
        by (cases "phase_check org pref"; cases "created_check org pref"; cases "is_automatic org") (simp_all add: defs keep)
    qed (use agency in \<open>simp_all add: defs keep\<close>)
  qed
qed

text \<open>
  without a list of priorities the rules are those of the list AGENCY, STATUS,
  PHASES_AUTOMATIC, TIME: the same origins are accepted, with the same changes and notices.  (The
  description of the configuration names TIME_AUTOMATIC as the last one.)
\<close>

lemma default_rules_as_list:
  "accept_by_default env ro org pref mag info =
   accept_by_list env ro [''AGENCY'', ''STATUS'', ''PHASES_AUTOMATIC'', ''TIME''] org pref mag info"
  by (rule default_rules_list)

lemma accept_origin_frame: "same_choice (fst (snd (accept_origin env ro org pref mag info))) info"
  by (simp add: accept_origin_def default_rules_list accept_by_list_frame)

lemma first_preferred_proj [simp]:
  "preferredOrigin (fst (first_preferred env org mag info)) = Some org"
  "preferredFocalMechanism (fst (first_preferred env org mag info)) = preferredFocalMechanism info"
  "constr (fst (first_preferred env org mag info)) = constr info"
  "ei_created (fst (first_preferred env org mag info)) = ei_created info"
  by (simp_all add: first_preferred_def Let_def split_def)

lemma next_preferred_proj [simp]:
  "preferredOrigin (fst (next_preferred env org mag info)) = Some org"
  "preferredFocalMechanism (fst (next_preferred env org mag info)) = preferredFocalMechanism info"
  "constr (fst (next_preferred env org mag info)) = constr info"
  "ei_created (fst (next_preferred env org mag info)) = ei_created info"
  by (simp_all add: next_preferred_def Let_def split_def split: option.split)

lemma select_origin_frame:
  "preferredFocalMechanism (fst (snd (select_origin env ro org mag info))) = preferredFocalMechanism info"
  "ei_created (fst (snd (select_origin env ro org mag info))) = ei_created info"
  using accept_origin_frame [of env ro org _ mag info]
  by (auto simp: select_origin_def Let_def split_def same_choice_def split: option.splits)

lemma choosePreferred_state:
  "fst (choosePreferred env org trig ro info) =
     (let sel = select_origin env ro org (candidate_magnitude env org info) info in
      if org_publicID org \<in> originBlackList env then info
      else case fst sel of
             None \<Rightarrow> fst (snd sel)
           | Some update \<Rightarrow> fst (finish_choice env trig ro update (fst (snd sel))))"
  by (simp add: choosePreferred_def Let_def split_def split: option.split)

lemma choosePreferred_fm: "preferredFocalMechanism (fst (choosePreferred env org trig ro info)) = preferredFocalMechanism info"
  by (simp add: choosePreferred_state Let_def frame select_origin_frame split: option.split)

section \<open>The order of a list of priorities\<close>

definition rms_beats :: "origin \<Rightarrow> origin \<Rightarrow> bool" where
  "rms_beats x y \<longleftrightarrow> (rms x \<ge> 0 \<and> (rms y < 0 \<or> rms x < rms y))"

text \<open>Which of two origins an item prefers.  The items for automatic origins only are no order: they look at
  the mode of the incoming origin alone.\<close>

definition token_beats :: "surroundings \<Rightarrow> string \<Rightarrow> origin \<Rightarrow> origin \<Rightarrow> bool" where
  "token_beats env token =
     (if token = ''AGENCY'' then (\<lambda>x y. org_agency env x > org_agency env y)
      else if token = ''AUTHOR'' then
        (\<lambda>x y. authorPriority (objectAuthor (org_creationInfo x)) (cfg env) > authorPriority (objectAuthor (org_creationInfo y)) (cfg env))
      else if token = ''MODE'' then (\<lambda>x y. org_mode x > org_mode y)
      else if token = ''STATUS'' then (\<lambda>x y. org_priority x > org_priority y)
      else if token = ''METHOD'' then
        (\<lambda>x y. methodPriority (org_methodID x) (cfg env) > methodPriority (org_methodID y) (cfg env))
      else if token = ''PHASES'' then (\<lambda>x y. definingPhaseCount x > definingPhaseCount y)
      else if token = ''RMS'' then rms_beats
      else if token = ''TIME'' then (\<lambda>x y. created (org_creationInfo x) > created (org_creationInfo y))
      else if token = ''SCORE'' then (\<lambda>x y. score env x > score env y)
      else (\<lambda>x y. False))"

definition automatic_tokens :: "string set" where
  "automatic_tokens = {''PHASES_AUTOMATIC'', ''RMS_AUTOMATIC'', ''TIME_AUTOMATIC''}"

lemma strict_weak_token: "strict_weak (token_beats env token)"
proof -
  have "strict_weak rms_beats" by (rule strict_weakI) (auto simp: rms_beats_def)
  then show ?thesis
    unfolding token_beats_def by (auto intro!: strict_weak_key strict_weak_none)
qed

interpretation priority_order: contest "lex_beats (map (token_beats env) tokens)" for env tokens
  by unfold_locales (rule strict_weak_lex, auto simp: strict_weak_token)

lemma rms_check_beats: "rms_check org pref = (if rms_beats org pref then Higher else if rms_beats pref org then Lower else Same)"
  by (auto simp: rms_check_def rms_beats_def Let_def)

lemma mode_check_free:
  "preferredOriginEvaluationMode (constr info) = None \<Longrightarrow> mode_check env ro prio org pref info = (three_way (prio org) (prio pref), info, [])"
  by (simp add: mode_check_def fixOriginMode_def)

lemma priority_check_free:
  assumes "preferredOriginEvaluationMode (constr info) = None" and "token \<notin> automatic_tokens"
  shows "priority_check env ro token org pref info =
    (if token_beats env token org pref then Higher else if token_beats env token pref org then Lower else Same, info, [])"
proof -
  have three_way_if: "three_way a b = (if a > b then Higher else if b > a then Lower else Same)" for a b :: "'k :: linorder"
    by (auto simp: three_way_def)
  note defs = priority_check_def token_beats_def mode_check_free [OF assms(1)] rms_check_beats phase_check_def
    created_check_def three_way_if
  consider "token = ''AGENCY''" | "token = ''AUTHOR''" | "token = ''MODE''" | "token = ''STATUS''" | "token = ''METHOD''"
    | "token = ''PHASES''" | "token = ''RMS''" | "token = ''TIME''" | "token = ''SCORE''"
    | "token \<notin> {''AGENCY'', ''AUTHOR'', ''MODE'', ''STATUS'', ''METHOD'', ''PHASES'', ''RMS'', ''TIME'', ''SCORE''}"
    unfolding insert_iff empty_iff by argo
  then show ?thesis
  proof cases
    case 1 then show ?thesis by (simp add: defs)
  next
    case 10 then show ?thesis using assms(2) by (simp add: defs automatic_tokens_def)
  qed (simp add: defs)+
qed

text \<open>Without a constraint on the mode the list compares lexicographically.\<close>

lemma walk_free:
  assumes "preferredOriginEvaluationMode (constr info) = None" and "set tokens \<inter> automatic_tokens = {}"
  shows "\<exists>b. walk_priorities env ro org pref tokens info =
           (if lex_beats (map (token_beats env) tokens) pref org then None else Some b, info, [])"
  using assms(2)
proof (induction tokens)
  case (Cons token tokens)
  then obtain b where b: "walk_priorities env ro org pref tokens info =
      (if lex_beats (map (token_beats env) tokens) pref org then None else Some b, info, [])" by auto
  have pc: "priority_check env ro token org pref info =
      (if token_beats env token org pref then Higher else if token_beats env token pref org then Lower else Same, info, [])"
    using priority_check_free [OF assms(1)] Cons.prems by auto
  have "\<not> (token_beats env token org pref \<and> token_beats env token pref org)"
    using strict_weak_asym [OF strict_weak_token] by blast
  then show ?case by (auto simp: pc b)
qed auto

lemma accept_free:
  assumes "preferredOriginEvaluationMode (constr info) = None" and "set tokens \<inter> automatic_tokens = {}" and "mag \<noteq> None"
  shows "accept_by_list env ro tokens org pref mag info = (\<not> lex_beats (map (token_beats env) tokens) pref org, info, [])"
  using walk_free [OF assms(1,2), of env ro org pref] assms(3)
  by (auto simp: accept_by_list_def)

text \<open>One turn with an origin that has a magnitude.\<close>

lemma choosePreferred_free:
  assumes tokens: "priorities (cfg env) \<noteq> []" "set (priorities (cfg env)) \<inter> automatic_tokens = {}"
    and free: "origin_constraint (constr info) = Free"
    and org: "org_publicID org \<notin> originBlackList env" "\<not> org_blocked env org" "candidate_magnitude env org info \<noteq> None"
  shows "preferredOrigin (fst (choosePreferred env org trig ro info)) =
    Some (case preferredOrigin info of
            None \<Rightarrow> org
          | Some pref \<Rightarrow> if org_publicID pref = org_publicID org \<or> lex_beats (map (token_beats env) (priorities (cfg env))) pref org
                         then pref else org)"
proof -
  have c: "preferredOriginID (constr info) = []" "preferredOriginEvaluationMode (constr info) = None"
    using free by (auto simp: origin_constraint_def split: if_splits option.splits)
  have acc: "accept_by_list env ro (priorities (cfg env)) org pref (candidate_magnitude env org info) info =
      (\<not> lex_beats (map (token_beats env) (priorities (cfg env))) pref org, info, [])" for pref
    by (rule accept_free [OF c(2) tokens(2) org(3)])
  obtain m where m: "candidate_magnitude env org info = Some m" using org(3) by auto
  show ?thesis
  proof (cases "preferredOrigin info")
    case None
    with org m show ?thesis
      by (simp add: choosePreferred_state select_origin_def org_blocked_def isAgencyIDBlocked_def Let_def frame)
  next
    case (Some pref)
    have "accept_origin env ro org pref (Some m) info = (\<not> lex_beats (map (token_beats env) (priorities (cfg env))) pref org, info, [])"
      using acc [of pref] org(2) c(1) tokens(1) by (simp add: accept_origin_def fixedOrigin_def m)
    with org(1) m Some show ?thesis
      by (simp add: choosePreferred_state select_origin_def Let_def split_def frame)
  qed
qed

section \<open>Choosing among all origins of an event\<close>

lemma priority_check_info:
  "preferredOriginEvaluationMode (constr info) = None \<Longrightarrow> snd (priority_check env ro token org pref info) = (info, [])"
  by (simp add: priority_check_def mode_check_free)

lemma walk_info:
  assumes "preferredOriginEvaluationMode (constr info) = None"
  shows "snd (walk_priorities env ro org pref tokens info) = (info, [])"
proof (induction tokens)
  case (Cons token tokens)
  obtain c where "priority_check env ro token org pref info = (c, info, [])"
    using priority_check_info [OF assms, of env ro token org pref] by (cases "priority_check env ro token org pref info") auto
  with Cons show ?case by (cases c) (auto split: prod.splits)
qed simp

lemma accept_info:
  assumes "preferredOriginEvaluationMode (constr info) = None"
  shows "snd (accept_origin env ro org pref mag info) = (info, [])"
proof -
  have "snd (accept_by_list env ro tokens org pref mag info) = (info, [])" for tokens
    using walk_info [OF assms, of env ro org pref tokens] by (auto simp: accept_by_list_def split: option.splits prod.splits)
  then show ?thesis by (simp add: accept_origin_def default_rules_list)
qed

lemma choosePreferred_constr:
  assumes "preferredOriginEvaluationMode (constr info) = None"
  shows "constr (fst (choosePreferred env org trig ro info)) = constr info"
  using accept_info [OF assms, of env ro org _ "candidate_magnitude env org info"]
  by (simp add: choosePreferred_state Let_def frame select_origin_def split_def split: option.split)

lemma candidate_cong:
  "constr info = constr info' \<Longrightarrow> preferredFocalMechanism info = preferredFocalMechanism info' \<Longrightarrow>
     candidate_magnitude env org info = candidate_magnitude env org info'"
  unfolding candidate_magnitude_def by presburger

text \<open>The origins of an event in the order of their references.\<close>

definition event_origins :: "(string \<Rightarrow> origin option) \<Rightarrow> event \<Rightarrow> origin list" where
  "event_origins getOrigin ev = List.map_filter getOrigin (originReferences ev)"

lemma update_fold:
  "fst (fold (\<lambda>oid (info, out).
          case getOrigin oid of None \<Rightarrow> (info, out)
          | Some org \<Rightarrow> (case choosePreferred env org None False info of (info, out') \<Rightarrow> (info, out @ out'))) refs (info, out))
     = fold (\<lambda>org info. fst (choosePreferred env org None False info)) (List.map_filter getOrigin refs) info"
  by (induction refs arbitrary: info out) (auto simp: map_filter_simps split: option.split prod.split)

lemma updatePreferredOrigin_fold:
  "ei_event info = Some ev \<Longrightarrow>
     fst (updatePreferredOrigin env getOrigin info)
       = fold (\<lambda>org info. fst (choosePreferred env org None False info)) (event_origins getOrigin ev) info"
  by (simp add: updatePreferredOrigin_def update_fold event_origins_def)

lemma fold_choose:
  assumes tokens: "priorities (cfg env) \<noteq> []" "set (priorities (cfg env)) \<inter> automatic_tokens = {}"
    and free: "origin_constraint (constr info) = Free"
    and orgs: "\<forall>org \<in> set orgs. org_publicID org \<notin> originBlackList env \<and> \<not> org_blocked env org \<and> candidate_magnitude env org info \<noteq> None"
    and "distinct (map org_publicID (first # orgs))"
    and "preferredOrigin info = Some first"
  shows "preferredOrigin (fold (\<lambda>org info. fst (choosePreferred env org None False info)) orgs info)
           = Some (contest.last_best (lex_beats (map (token_beats env) (priorities (cfg env)))) first orgs)"
  using orgs assms(5)
proof (induction orgs rule: rev_induct)
  case Nil
  then show ?case using assms(6) by (simp add: priority_order.last_best_def)
next
  case (snoc org orgs)
  let ?beats = "lex_beats (map (token_beats env) (priorities (cfg env)))"
  let ?i = "fold (\<lambda>org info. fst (choosePreferred env org None False info)) orgs info"
  have mode: "preferredOriginEvaluationMode (constr info) = None"
    using free by (auto simp: origin_constraint_def split: if_splits option.splits)
  have keep: "constr ?i = constr info \<and> preferredFocalMechanism ?i = preferredFocalMechanism info"
    by (induction orgs rule: rev_induct) (auto simp: choosePreferred_constr mode choosePreferred_fm)
  have pref: "preferredOrigin ?i = Some (priority_order.last_best env (priorities (cfg env)) first orgs)"
    using snoc by simp
  have "priority_order.last_best env (priorities (cfg env)) first orgs \<in> insert first (set orgs)"
    using priority_order.last_best_max by blast
  then have "org_publicID (priority_order.last_best env (priorities (cfg env)) first orgs) \<noteq> org_publicID org"
    using snoc.prems(2) by (auto simp: image_iff)
  moreover have "preferredOrigin (fst (choosePreferred env org None False ?i)) =
      Some (case preferredOrigin ?i of None \<Rightarrow> org
            | Some pref \<Rightarrow> if org_publicID pref = org_publicID org \<or> ?beats pref org then pref else org)"
    by (rule choosePreferred_free) (use tokens free keep snoc.prems candidate_cong [of ?i info env org] in auto)
  ultimately show ?case
    by (simp add: pref priority_order.last_best_snoc)
qed

text \<open>
  C28: when the preferred origin of an event that has none yet is chosen among all its origins by a list of
  priorities, the result is the best of them: no other origin precedes it in the lexicographic order of the
  list, whatever the order of the references.  The list is not empty and has none of the items for automatic
  origins only (which are no order); nothing is fixed by the operator; the origins have different
  identifiers, none is blocked by its agency or blacklisted, and each has a magnitude that can become the
  preferred one (an origin without one is passed over in favour of one that has it).
\<close>

theorem preferred_is_best:
  assumes "priorities (cfg env) \<noteq> []" and "set (priorities (cfg env)) \<inter> automatic_tokens = {}"
    and "origin_constraint (constr info) = Free" and "ei_event info = Some ev" and "preferredOrigin info = None"
    and "event_origins getOrigin ev \<noteq> []" and "distinct (map org_publicID (event_origins getOrigin ev))"
    and "\<forall>org \<in> set (event_origins getOrigin ev).
           org_publicID org \<notin> originBlackList env \<and> \<not> org_blocked env org \<and> candidate_magnitude env org info \<noteq> None"
  shows "\<exists>best \<in> set (event_origins getOrigin ev).
           preferredOrigin (fst (updatePreferredOrigin env getOrigin info)) = Some best \<and>
           (\<forall>org \<in> set (event_origins getOrigin ev). \<not> lex_beats (map (token_beats env) (priorities (cfg env))) org best)"
proof -
  obtain first orgs where list: "event_origins getOrigin ev = first # orgs"
    using assms(6) by (cases "event_origins getOrigin ev") auto
  let ?i = "fst (choosePreferred env first None False info)"
  have mode: "preferredOriginEvaluationMode (constr info) = None"
    using assms(3) by (auto simp: origin_constraint_def split: if_splits option.splits)
  have keep: "constr ?i = constr info" "preferredFocalMechanism ?i = preferredFocalMechanism info"
    by (simp_all add: choosePreferred_constr mode choosePreferred_fm)
  have first: "preferredOrigin ?i = Some first"
    using choosePreferred_free [OF assms(1-3), of first None False] assms(5,8) by (simp add: list)
  have "preferredOrigin (fold (\<lambda>org info. fst (choosePreferred env org None False info)) orgs ?i)
      = Some (priority_order.last_best env (priorities (cfg env)) first orgs)"
    by (rule fold_choose) (use assms keep first candidate_cong [OF keep] in \<open>auto simp: list\<close>)
  then show ?thesis
    using priority_order.last_best_max [of env "priorities (cfg env)" first orgs]
    by (auto simp: updatePreferredOrigin_fold [OF assms(4)] list)
qed

definition sample_env :: "string list \<Rightarrow> surroundings" where
  "sample_env tokens = \<lparr>cfg = default_config True\<lparr>priorities := tokens\<rparr>, procFirewall = \<lparr>allow = {}, deny = {''BAD''}\<rparr>,
     score = (\<lambda>_. 0), regionName = (\<lambda>_ _. ''Aegean Sea''), getMagnitude = (\<lambda>_. None), processors = [],
     originBlackList = {}, sender = ''scevent@localhost'', now = Timeval 2000 0\<rparr>"

definition sample_magnitude :: "string \<Rightarrow> string \<Rightarrow> rat \<Rightarrow> int \<Rightarrow> magnitude" where
  "sample_magnitude mid ty val n = \<lparr>mag_publicID = mid, mag_type = ty, mag_value = val, mag_stationCount = Some n,
     mag_creationInfo = Some (sample_info ''GFZ'' 0)\<rparr>"

definition sample_located :: "string \<Rightarrow> nat \<Rightarrow> origin" where
  "sample_located oid n = (sample_origin oid ''GFZ'' (Some AUTOMATIC) 0 (replicate n (sample_arrival ''p'' None)))
     \<lparr>org_magnitudes := [sample_magnitude (oid @ ''/ML'') ''ML'' 4 10]\<rparr>"

definition sample_lookup :: "origin list \<Rightarrow> string \<Rightarrow> origin option" where
  "sample_lookup orgs oid = List.find (\<lambda>org. org_publicID org = oid) orgs"

definition sample_event :: event_info where
  "sample_event = EventInformation\<lparr>ei_event := Some (Event ''gfz2019abcd''\<lparr>originReferences := [''a'', ''b'', ''c'']\<rparr>)\<rparr>"

theorem preferred_is_best_witness:
  "\<exists>best \<in> {sample_located ''a'' 3, sample_located ''b'' 5, sample_located ''c'' 4}.
     preferredOrigin (fst (updatePreferredOrigin (sample_env [''MODE'', ''PHASES''])
        (sample_lookup [sample_located ''a'' 3, sample_located ''b'' 5, sample_located ''c'' 4]) sample_event)) = Some best"
proof -
  let ?env = "sample_env [''MODE'', ''PHASES'']"
  let ?orgs = "[sample_located ''a'' 3, sample_located ''b'' 5, sample_located ''c'' 4]"
  let ?ev = "Event ''gfz2019abcd''\<lparr>originReferences := [''a'', ''b'', ''c'']\<rparr>"
  have orgs: "event_origins (sample_lookup ?orgs) ?ev = ?orgs" by code_simp
  have ev: "ei_event sample_event = Some ?ev" "preferredOrigin sample_event = None" by (simp_all add: sample_event_def EventInformation_def)
  have 1: "priorities (cfg ?env) \<noteq> []" and 2: "set (priorities (cfg ?env)) \<inter> automatic_tokens = {}"
    and 3: "origin_constraint (constr sample_event) = Free"
    and 4: "distinct (map org_publicID ?orgs)"
    and 5: "\<forall>org \<in> set ?orgs. org_publicID org \<notin> originBlackList ?env \<and> \<not> org_blocked ?env org \<and>
              candidate_magnitude ?env org sample_event \<noteq> None"
    by code_simp+
  have "\<exists>best \<in> set ?orgs. preferredOrigin (fst (updatePreferredOrigin ?env (sample_lookup ?orgs) sample_event)) = Some best \<and>
           (\<forall>org \<in> set ?orgs. \<not> lex_beats (map (token_beats ?env) (priorities (cfg ?env))) org best)"
    by (rule preferred_is_best [of ?env sample_event ?ev "sample_lookup ?orgs", unfolded orgs]) (use 1 2 3 4 5 ev in simp_all)
  then show ?thesis by auto
qed

section \<open>Safety of the choice\<close>

lemma accept_origin_allowed:
  "fst (accept_origin env ro org pref mag info) \<Longrightarrow>
     (if fixedOrigin (constr info) then fixOrigin (constr info) org else \<not> org_blocked env org)"
  by (auto simp: accept_origin_def split: if_splits)

lemma select_origin_pref:
  "preferredOrigin (fst (snd (select_origin env ro org mag info))) = preferredOrigin info \<or>
   preferredOrigin (fst (snd (select_origin env ro org mag info))) = Some org \<and>
     (fixOrigin (constr info) org \<or> \<not> org_blocked env org \<and> (preferredOrigin info = None \<or> \<not> fixedOrigin (constr info)))"
proof (cases "preferredOrigin info")
  case None
  then show ?thesis by (auto simp: select_origin_def org_blocked_def isAgencyIDBlocked_def)
next
  case (Some pref)
  have "preferredOrigin (fst (snd (accept_origin env ro org pref mag info))) = preferredOrigin info"
    using accept_origin_frame [of env ro org pref mag info] by (simp add: same_choice_def)
  with Some accept_origin_allowed [of env ro org pref mag info] show ?thesis
    by (auto simp: select_origin_def Let_def split_def split: option.splits if_splits)
qed

text \<open>
  whatever the configuration, the preferred origin only ever changes to the incoming origin, and
  only if that one is not blacklisted and either is the one fixed by the operator, or comes from an allowed agency
  while no origin is fixed (or none is preferred yet).
\<close>

lemma preferred_change_allowed:
  assumes "preferredOrigin (fst (choosePreferred env org trig ro info)) \<noteq> preferredOrigin info"
  shows "preferredOrigin (fst (choosePreferred env org trig ro info)) = Some org \<and> org_publicID org \<notin> originBlackList env \<and>
     (fixOrigin (constr info) org \<or> \<not> org_blocked env org \<and> (preferredOrigin info = None \<or> \<not> fixedOrigin (constr info)))"
  using assms select_origin_pref [of env ro org "candidate_magnitude env org info" info]
  by (auto simp: choosePreferred_state Let_def frame split: option.splits if_splits)

lemma preferred_change_allowed_witness:
  "preferredOrigin (fst (choosePreferred (sample_env []) (sample_located ''a'' 3) None True sample_event)) = Some (sample_located ''a'' 3) \<and>
   \<not> org_blocked (sample_env []) (sample_located ''a'' 3)"
proof -
  have 1: "preferredOrigin (fst (choosePreferred (sample_env []) (sample_located ''a'' 3) None True sample_event)) \<noteq> preferredOrigin sample_event"
    by code_simp
  have 2: "\<not> fixOrigin (constr sample_event) (sample_located ''a'' 3)" by code_simp
  from preferred_change_allowed [OF 1] 2 show ?thesis by blast
qed

subsection \<open>Attributes and objects agree\<close>

text \<open>The identifiers in the event are those of the preferred objects that are kept.\<close>

definition ids_agree :: "event_info \<Rightarrow> bool" where
  "ids_agree info \<longleftrightarrow>
     (\<exists>ev. ei_event info = Some ev \<and>
        ev_preferredOriginID ev = (case preferredOrigin info of None \<Rightarrow> [] | Some org \<Rightarrow> org_publicID org) \<and>
        ev_preferredMagnitudeID ev = (case preferredMagnitude info of None \<Rightarrow> [] | Some m \<Rightarrow> mag_publicID m))"

text \<open>Event processors that change other attributes only.\<close>

definition processors_keep_ids :: "surroundings \<Rightarrow> bool" where
  "processors_keep_ids env \<longleftrightarrow>
     (\<forall>p \<in> set (processors env). \<forall>ev jnl. ev_preferredOriginID (snd (p ev jnl)) = ev_preferredOriginID ev \<and>
        ev_preferredMagnitudeID (snd (p ev jnl)) = ev_preferredMagnitudeID ev)"

lemma run_processors_ids:
  "\<forall>p \<in> set ps. \<forall>ev jnl. ev_preferredOriginID (snd (p ev jnl)) = ev_preferredOriginID ev \<and>
        ev_preferredMagnitudeID (snd (p ev jnl)) = ev_preferredMagnitudeID ev \<Longrightarrow>
     ev_preferredOriginID (snd (run_processors ps jnl ev)) = ev_preferredOriginID ev \<and>
     ev_preferredMagnitudeID (snd (run_processors ps jnl ev)) = ev_preferredMagnitudeID ev"
  by (induction ps arbitrary: ev) (auto simp: Let_def split_def)

lemma call_processors_agree:
  "processors_keep_ids env \<Longrightarrow> ids_agree info \<Longrightarrow> ids_agree (snd (call_processors env info))"
  using run_processors_ids [of "processors env" "journal info"]
  by (auto simp: ids_agree_def processors_keep_ids_def call_processors_def frame Let_def split_def)

lemma auto_event_type_agree: "ids_agree info \<Longrightarrow> ids_agree (snd (auto_event_type env info))"
  by (auto simp: ids_agree_def auto_event_type_def Let_def split: option.splits)

lemma ids_agree_created [simp]: "ids_agree (info\<lparr>ei_created := b\<rparr>) = ids_agree info"
  by (simp add: ids_agree_def)

lemma finish_choice_agree:
  "processors_keep_ids env \<Longrightarrow> ids_agree info \<Longrightarrow> ids_agree (fst (finish_choice env trig ro upd info))"
  by (simp add: finish_choice_def Let_def split_def updateEvent_def call_processors_agree auto_event_type_agree)

lemma updateRegionName_proj [simp]:
  "ev_preferredOriginID (fst (updateRegionName env org ev)) = ev_preferredOriginID ev"
  "ev_preferredMagnitudeID (fst (updateRegionName env org ev)) = ev_preferredMagnitudeID ev"
  "ev_publicID (fst (updateRegionName env org ev)) = ev_publicID ev"
  "originReferences (fst (updateRegionName env org ev)) = originReferences ev"
  by (simp_all add: updateRegionName_def add_eventDescription_def Let_def split: option.split)

lemma set_origin_event:
  "ei_event info = Some ev \<Longrightarrow>
     ei_event (fst (set_origin env org info)) = Some (fst (updateRegionName env (Some org) (ev\<lparr>ev_preferredOriginID := org_publicID org\<rparr>)))"
  by (simp add: set_origin_def Let_def split_def)

lemma set_magnitude_agree: "ids_agree info \<Longrightarrow> ids_agree (set_magnitude mag info)"
  by (auto simp: ids_agree_def split: option.splits)

lemma set_origin_agree:
  "ids_agree info \<Longrightarrow> ids_agree (fst (set_origin env org info))"
  by (auto simp: ids_agree_def set_origin_event)

lemma first_preferred_agree: "ids_agree info \<Longrightarrow> ids_agree (fst (first_preferred env org mag info))"
  by (simp add: first_preferred_def Let_def split_def set_magnitude_agree set_origin_agree)

lemma next_preferred_agree: "ids_agree info \<Longrightarrow> ids_agree (fst (next_preferred env org mag info))"
  by (simp add: next_preferred_def Let_def split_def set_magnitude_agree set_origin_agree split: option.split)

lemma accept_origin_agree: "ids_agree info \<Longrightarrow> ids_agree (fst (snd (accept_origin env ro org pref mag info)))"
  using accept_origin_frame [of env ro org pref mag info] by (auto simp: ids_agree_def same_choice_def)

lemma select_origin_agree: "ids_agree info \<Longrightarrow> ids_agree (fst (snd (select_origin env ro org mag info)))"
  by (simp add: select_origin_def Let_def split_def first_preferred_agree next_preferred_agree accept_origin_agree
      set_magnitude_agree split: option.split)

text \<open>
  C29: the attributes of an event always name the origin and the magnitude that are kept as its
  preferred ones: the choice keeps this up, provided the event processors leave these attributes alone.
\<close>

theorem choosePreferred_ids_agree:
  assumes "processors_keep_ids env" and "ids_agree info"
  shows "ids_agree (fst (choosePreferred env org trig ro info))"
  using assms by (simp add: choosePreferred_state Let_def select_origin_agree finish_choice_agree split: option.split)

theorem choosePreferred_ids_agree_witness:
  "ids_agree (fst (choosePreferred (sample_env []) (sample_located ''a'' 3) None True sample_event))"
  by (rule choosePreferred_ids_agree)
     (simp_all add: processors_keep_ids_def sample_env_def ids_agree_def sample_event_def EventInformation_def Event_def)

subsection \<open>Changes are sent\<close>

text \<open>Processors that report what they change.\<close>

definition processors_honest :: "surroundings \<Rightarrow> bool" where
  "processors_honest env \<longleftrightarrow> (\<forall>p \<in> set (processors env). \<forall>ev jnl. \<not> fst (p ev jnl) \<longrightarrow> snd (p ev jnl) = ev)"

lemma run_processors_honest:
  "\<forall>p \<in> set ps. \<forall>ev jnl. \<not> fst (p ev jnl) \<longrightarrow> snd (p ev jnl) = ev \<Longrightarrow>
     \<not> fst (run_processors ps jnl ev) \<Longrightarrow> snd (run_processors ps jnl ev) = ev"
  by (induction ps arbitrary: ev) (auto simp: Let_def split_def)

lemma call_processors_honest:
  "processors_honest env \<Longrightarrow> \<not> fst (call_processors env info) \<Longrightarrow> ei_event (snd (call_processors env info)) = ei_event info"
  using run_processors_honest [of "processors env"]
  by (auto simp: processors_honest_def call_processors_def Let_def split_def split: option.splits)

lemma auto_event_type_honest: "\<not> fst (auto_event_type env info) \<Longrightarrow> ei_event (snd (auto_event_type env info)) = ei_event info"
  by (auto simp: auto_event_type_def Let_def split: option.splits if_splits)

lemma finish_choice_sent:
  assumes "processors_honest env" and "\<not> ei_created info"
    and "upd \<or> ei_event (fst (finish_choice env trig ro upd info)) \<noteq> ei_event info"
  shows "\<exists>i. EventUpdated i \<in> set (snd (finish_choice env trig ro upd info))"
  using assms call_processors_honest [OF assms(1), of info] auto_event_type_honest [of env info]
    auto_event_type_honest [of env "snd (call_processors env info)"]
  by (auto simp: finish_choice_def Let_def split_def updateEvent_def frame split: if_splits option.splits)

lemma select_origin_unchanged:
  "fst (select_origin env ro org mag info) \<noteq> Some True \<Longrightarrow> ei_event (fst (snd (select_origin env ro org mag info))) = ei_event info"
  using accept_origin_frame [of env ro org _ mag info]
  by (auto simp: select_origin_def Let_def split_def same_choice_def split: option.splits if_splits)

text \<open>
  no change of a known event stays inside the program: if choosing changes the event in any
  attribute, an update of it is sent, provided the event processors report what they change.  (A
  new event is sent as a whole.)
\<close>

theorem changes_are_sent:
  assumes "processors_honest env" and "\<not> ei_created info"
    and "ei_event (fst (choosePreferred env org trig ro info)) \<noteq> ei_event info"
  shows "\<exists>i. EventUpdated i \<in> set (snd (choosePreferred env org trig ro info))"
proof -
  obtain r i out where sel: "select_origin env ro org (candidate_magnitude env org info) info = (r, i, out)" by (metis prod_cases3)
  have i: "\<not> ei_created i" and same: "r \<noteq> Some True \<Longrightarrow> ei_event i = ei_event info"
    using select_origin_frame(2) [of env ro org "candidate_magnitude env org info" info] assms(2)
      select_origin_unchanged [of env ro org "candidate_magnitude env org info" info] by (simp_all add: sel)
  from assms(3) same obtain u where r: "r = Some u" and ne: "ei_event (fst (finish_choice env trig ro u i)) \<noteq> ei_event info"
    by (cases r) (auto simp: choosePreferred_state sel Let_def split: if_splits)
  have u: "u \<or> ei_event (fst (finish_choice env trig ro u i)) \<noteq> ei_event i"
    using ne same by (cases u) (simp_all add: r)
  show ?thesis
    using finish_choice_sent [OF assms(1) i u] assms(3)
    by (auto simp: choosePreferred_def sel r split_def split: if_splits)
qed

theorem changes_are_sent_witness:
  "\<exists>i. EventUpdated i \<in> set (snd (choosePreferred (sample_env []) (sample_located ''a'' 3) None True sample_event))"
proof (rule changes_are_sent)
  show "processors_honest (sample_env [])" by (simp add: processors_honest_def sample_env_def)
  show "\<not> ei_created sample_event" by code_simp
  show "ei_event (fst (choosePreferred (sample_env []) (sample_located ''a'' 3) None True sample_event)) \<noteq> ei_event sample_event"
    by code_simp
qed

section \<open>The best magnitude\<close>

text \<open>Magnitudes compared by station count and then by the priority of their type.\<close>

definition mag_beats :: "(magnitude \<Rightarrow> int) \<Rightarrow> magnitude \<Rightarrow> magnitude \<Rightarrow> bool" where
  "mag_beats prio x y \<longleftrightarrow> stationCount x > stationCount y \<or> (stationCount x = stationCount y \<and> prio x > prio y)"

interpretation magnitudes: contest "mag_beats prio" for prio
  by unfold_locales (rule strict_weakI, auto simp: mag_beats_def)

definition choice_of :: "(magnitude \<Rightarrow> int) \<Rightarrow> magnitude option \<Rightarrow> choice" where
  "choice_of prio b = (case b of None \<Rightarrow> (0, 0, None) | Some m \<Rightarrow> (stationCount m, prio m, Some m))"

text \<open>A magnitude that can be chosen at all.\<close>

definition eligible :: "(magnitude \<Rightarrow> int) \<Rightarrow> magnitude \<Rightarrow> bool" where
  "eligible prio m \<longleftrightarrow> 0 < stationCount m \<or> (stationCount m = 0 \<and> 0 < prio m)"

lemma choose_step_contest:
  "choose_step (prio m) m (choice_of prio (magnitudes.first_best prio None (filter (eligible prio) ms)))
     = choice_of prio (magnitudes.first_best prio None (filter (eligible prio) (ms @ [m])))"
proof (cases "magnitudes.first_best prio None (filter (eligible prio) ms)")
  case None
  then show ?thesis
    by (auto simp: magnitudes.first_best_snoc choose_step_def choice_of_def eligible_def)
next
  case (Some c)
  then have "c \<in> set (filter (eligible prio) ms)"
    using magnitudes.first_best_Some [of prio "filter (eligible prio) ms" c] nth_mem by blast
  then have c: "eligible prio c" by simp
  show ?thesis
  proof (cases "eligible prio m")
    case True
    then show ?thesis
      by (auto simp: Some magnitudes.first_best_snoc choose_step_def choice_of_def mag_beats_def)
  next
    case False
    then have "\<not> mag_beats prio m c" using c by (auto simp: eligible_def mag_beats_def)
    with False show ?thesis by (auto simp: Some choose_step_def choice_of_def mag_beats_def)
  qed
qed

abbreviation good_prio :: "surroundings \<Rightarrow> int \<Rightarrow> rat \<Rightarrow> magnitude \<Rightarrow> int" where
  "good_prio env mbcount mbval m \<equiv> goodness (Some m) mbcount mbval (cfg env)"

definition good_magnitude :: "surroundings \<Rightarrow> int \<Rightarrow> rat \<Rightarrow> magnitude \<Rightarrow> bool" where
  "good_magnitude env mbcount mbval m \<longleftrightarrow> \<not> mag_blocked env m \<and> 0 < good_prio env mbcount mbval m"

lemma choose_good_contest:
  "choose_good env mbcount mbval mags
      (choice_of (good_prio env mbcount mbval) (magnitudes.first_best (good_prio env mbcount mbval) None (filter (eligible (good_prio env mbcount mbval)) ms)))
      (choice_of (good_prio env mbcount mbval) (magnitudes.first_best (good_prio env mbcount mbval) None (filter (eligible (good_prio env mbcount mbval)) fs)))
    = (let prio = good_prio env mbcount mbval; good = filter (good_magnitude env mbcount mbval) mags in
       (choice_of prio (magnitudes.first_best prio None (filter (eligible prio) (ms @ filter isMw good))),
        choice_of prio (magnitudes.first_best prio None (filter (eligible prio) (fs @ filter (\<lambda>m. \<not> isMw m) good)))))"
proof (induction mags arbitrary: ms fs)
  case (Cons m mags)
  consider "\<not> good_magnitude env mbcount mbval m" | "good_magnitude env mbcount mbval m" "isMw m"
    | "good_magnitude env mbcount mbval m" "\<not> isMw m" by blast
  then show ?case
  proof cases
    case 1
    then show ?thesis
      using Cons [of ms fs] by (auto simp: good_magnitude_def Let_def)
  next
    case 2
    then show ?thesis
      using Cons [of "ms @ [m]" fs] choose_step_contest [of "good_prio env mbcount mbval" m ms]
      by (simp add: good_magnitude_def Let_def)
  next
    case 3
    then show ?thesis
      using Cons [of ms "fs @ [m]"] choose_step_contest [of "good_prio env mbcount mbval" m fs]
      by (simp add: good_magnitude_def Let_def)
  qed
qed (simp add: Let_def)

lemma choose_good_result:
  "choose_good env mbcount mbval mags (0, 0, None) (0, 0, None) =
    (let prio = good_prio env mbcount mbval; good = filter (good_magnitude env mbcount mbval) mags in
       (choice_of prio (magnitudes.first_best prio None (filter (eligible prio) (filter isMw good))),
        choice_of prio (magnitudes.first_best prio None (filter (eligible prio) (filter (\<lambda>m. \<not> isMw m) good)))))"
  using choose_good_contest [of env mbcount mbval mags "[]" "[]"]
  by (simp add: choice_of_def magnitudes.first_best_def)

lemma choice_of_mag [simp]: "snd (snd (choice_of prio b)) = b"
  by (simp add: choice_of_def split: option.split)

lemma first_best_exists:
  assumes "x \<in> set xs"
  obtains c where "magnitudes.first_best prio None xs = Some c" "c \<in> set xs" "\<forall>y \<in> set xs. \<not> mag_beats prio y c"
proof -
  have "magnitudes.first_best prio None xs \<noteq> None"
    using assms by (auto simp: magnitudes.first_best_None)
  then obtain c where c: "magnitudes.first_best prio None xs = Some c" by auto
  from magnitudes.first_best_Some [OF c] have "c \<in> set xs" and "\<forall>y \<in> set xs. \<not> mag_beats prio y c"
    by (auto simp: in_set_conv_nth)
  with c show thesis by (rule that)
qed

text \<open>
  C30: if an origin has a usable moment magnitude (not blocked, accepted by the rules on station
  counts and values, of a listed type, with at least one station), then its preferred magnitude is a usable moment
  magnitude, and none of the others has more stations, or as many and a type of a higher priority.
\<close>

theorem preferred_magnitude_best:
  assumes "scan_mb env (org_magnitudes org) (0, 0) = (mbcount, mbval)"
    and "x \<in> set (org_magnitudes org)" and "isMw x" and "good_magnitude env mbcount mbval x" and "0 < stationCount x"
  shows "\<exists>m \<in> set (org_magnitudes org). preferredMagnitude_of env org = Some m \<and> isMw m \<and> good_magnitude env mbcount mbval m \<and>
           stationCount x \<le> stationCount m \<and>
           (stationCount x = stationCount m \<longrightarrow> good_prio env mbcount mbval x \<le> good_prio env mbcount mbval m)"
proof -
  let ?prio = "good_prio env mbcount mbval"
  let ?xs = "filter (eligible ?prio) (filter isMw (filter (good_magnitude env mbcount mbval) (org_magnitudes org)))"
  have "x \<in> set ?xs" using assms by (simp add: eligible_def)
  then obtain m where m: "magnitudes.first_best ?prio None ?xs = Some m" "m \<in> set ?xs" "\<forall>y \<in> set ?xs. \<not> mag_beats ?prio y m"
    by (rule first_best_exists)
  from m(3) \<open>x \<in> set ?xs\<close> have "\<not> mag_beats ?prio x m" by blast
  moreover have "preferredMagnitude_of env org = Some m"
    by (simp add: preferredMagnitude_of_def assms(1) choose_good_result Let_def m(1) del: filter_filter)
  ultimately show ?thesis using m(2) by (intro bexI [of _ m]) (auto simp: mag_beats_def)
qed

theorem preferred_magnitude_best_witness:
  "\<exists>m \<in> {sample_magnitude ''a'' ''Mw(mB)'' 7 40, sample_magnitude ''b'' ''ML'' 4 90}.
     preferredMagnitude_of (sample_env []) (sample_located ''o'' 3\<lparr>org_magnitudes :=
        [sample_magnitude ''a'' ''Mw(mB)'' 7 40, sample_magnitude ''b'' ''ML'' 4 90]\<rparr>) = Some m \<and> isMw m"
proof -
  let ?a = "sample_magnitude ''a'' ''Mw(mB)'' 7 40" and ?b = "sample_magnitude ''b'' ''ML'' 4 90"
  let ?org = "sample_located ''o'' 3\<lparr>org_magnitudes := [?a, ?b]\<rparr>"
  have 1: "scan_mb (sample_env []) (org_magnitudes ?org) (0, 0) = (0, 0)" by code_simp
  have 2: "?a \<in> set (org_magnitudes ?org)" by simp
  have 3: "isMw ?a" and 4: "good_magnitude (sample_env []) 0 0 ?a" and 5: "0 < stationCount ?a" by code_simp+
  show ?thesis using preferred_magnitude_best [OF 1 2 3 4 5] by auto
qed

section \<open>The identity and the references of an event\<close>

definition ev_core :: "event \<Rightarrow> string \<times> string list \<times> string list" where
  "ev_core ev = (ev_publicID ev, originReferences ev, focalMechanismReferences ev)"

definition processors_keep_core :: "surroundings \<Rightarrow> bool" where
  "processors_keep_core env \<longleftrightarrow> (\<forall>p \<in> set (processors env). \<forall>ev jnl. ev_core (snd (p ev jnl)) = ev_core ev)"

definition info_core :: "event_info \<Rightarrow> (string \<times> string list \<times> string list) option" where
  "info_core info = map_option ev_core (ei_event info)"

lemma run_processors_core:
  "\<forall>p \<in> set ps. \<forall>ev jnl. ev_core (snd (p ev jnl)) = ev_core ev \<Longrightarrow> ev_core (snd (run_processors ps jnl ev)) = ev_core ev"
  by (induction ps arbitrary: ev) (auto simp: Let_def split_def)

lemma call_processors_core: "processors_keep_core env \<Longrightarrow> info_core (snd (call_processors env info)) = info_core info"
  using run_processors_core [of "processors env" "journal info"]
  by (auto simp: info_core_def processors_keep_core_def call_processors_def Let_def split_def split: option.split)

lemma ev_set_core: "(\<And>ev. ev_core (f ev) = ev_core ev) \<Longrightarrow> info_core (ev_set f info) = info_core info"
  by (cases "ei_event info") (simp_all add: info_core_def)

lemma auto_event_type_core: "info_core (snd (auto_event_type env info)) = info_core info"
  by (auto simp: auto_event_type_def Let_def ev_core_def intro!: ev_set_core split: option.split)

lemma info_core_created [simp]: "info_core (info\<lparr>ei_created := b\<rparr>) = info_core info"
  by (simp add: info_core_def)

lemma finish_choice_core:
  "processors_keep_core env \<Longrightarrow> info_core (fst (finish_choice env trig ro upd info)) = info_core info"
  by (simp add: finish_choice_def Let_def split_def updateEvent_def call_processors_core auto_event_type_core)

lemma set_magnitude_core: "info_core (set_magnitude mag info) = info_core info"
  by (cases "ei_event info") (simp_all add: info_core_def ev_core_def)

lemma set_origin_core: "info_core (fst (set_origin env org info)) = info_core info"
  by (auto simp: info_core_def set_origin_def updateRegionName_def add_eventDescription_def ev_core_def Let_def split_def
      split: option.split)

lemma accept_origin_core: "info_core (fst (snd (accept_origin env ro org pref mag info))) = info_core info"
  using accept_origin_frame [of env ro org pref mag info] by (simp add: info_core_def same_choice_def)

lemma select_origin_core: "info_core (fst (snd (select_origin env ro org mag info))) = info_core info"
  by (simp add: select_origin_def first_preferred_def next_preferred_def Let_def split_def set_magnitude_core set_origin_core
      accept_origin_core split: option.split)

lemma choosePreferred_core:
  "processors_keep_core env \<Longrightarrow> info_core (fst (choosePreferred env org trig ro info)) = info_core info"
  by (simp add: choosePreferred_state Let_def select_origin_core finish_choice_core split: option.split)

end
