(* ===== verification/EventFocal.thy ===== *)
theory EventFocal
  imports EventPreferred
begin

text \<open>
  The choice of the preferred focal mechanism of an event
  (src/src/trunk/apps/processing/scevent/eventtool.cpp, the second \<open>choosePreferred\<close> and
  \<open>updatePreferredFocalMechanism\<close>).

  With \<open>delayPrefFocMech\<close> the choice waits until some time after the origin: the event is put into the
  buffer of delayed updates then.  A new preferred focal mechanism makes the program choose the
  preferred magnitude again if Mw is fixed, which goes through the preferred origin; \<open>None\<close> stands for
  going through the null pointer when there is none.
\<close>

section \<open>Comparing two focal mechanisms\<close>

text \<open>The score of a plugin, and the surroundings of the choice of origins.\<close>

record fm_surroundings =
  base :: surroundings
  fmScore :: "focal_mechanism \<Rightarrow> rat"

definition fm_mode :: "focal_mechanism \<Rightarrow> int" where
  "fm_mode fm = modePriority (fm_evaluationMode fm)"

definition fm_priority :: "focal_mechanism \<Rightarrow> int" where
  "fm_priority fm = eval_priority (fm_evaluationMode fm) (fm_evaluationStatus fm)"

definition fm_agency :: "fm_surroundings \<Rightarrow> focal_mechanism \<Rightarrow> int" where
  "fm_agency env fm = agencyPriority (objectAgencyID (fm_creationInfo fm)) (cfg (base env))"

definition fm_automatic :: "focal_mechanism \<Rightarrow> bool" where
  "fm_automatic fm \<longleftrightarrow> (case fm_evaluationMode fm of None \<Rightarrow> True | Some m \<Rightarrow> m = AUTOMATIC)"

definition fm_created_check :: "focal_mechanism \<Rightarrow> focal_mechanism \<Rightarrow> check" where
  "fm_created_check fm pref = three_way (created (fm_creationInfo fm)) (created (fm_creationInfo pref))"

text \<open>A fixed mode gives the highest rank; other than for origins it is never released.\<close>

definition fm_mode_check :: "(focal_mechanism \<Rightarrow> int) \<Rightarrow> focal_mechanism \<Rightarrow> focal_mechanism \<Rightarrow> constraints \<Rightarrow> check" where
  "fm_mode_check prio fm pref c =
     (let fp = prio fm; pp = prio pref;
          pp = (if fixFocalMechanismMode c pref then (if fp > pp then pp else priority_max) else pp);
          fp = (if fixFocalMechanismMode c fm then priority_max else fp)
      in three_way fp pp)"

definition fm_priority_check :: "fm_surroundings \<Rightarrow> string \<Rightarrow> focal_mechanism \<Rightarrow> focal_mechanism \<Rightarrow> constraints \<Rightarrow> check" where
  "fm_priority_check env token fm pref c =
     (if token = ''AGENCY'' then three_way (fm_agency env fm) (fm_agency env pref)
      else if token = ''AUTHOR'' then
        three_way (authorPriority (objectAuthor (fm_creationInfo fm)) (cfg (base env)))
                  (authorPriority (objectAuthor (fm_creationInfo pref)) (cfg (base env)))
      else if token = ''MODE'' then fm_mode_check fm_mode fm pref c
      else if token = ''STATUS'' then fm_mode_check fm_priority fm pref c
      else if token = ''METHOD'' then
        three_way (methodPriority (fm_methodID fm) (cfg (base env))) (methodPriority (fm_methodID pref) (cfg (base env)))
      else if token = ''TIME'' then fm_created_check fm pref
      else if token = ''TIME_AUTOMATIC'' then (if fm_automatic fm then fm_created_check fm pref else Same)
      else if token = ''SCORE'' then three_way (fmScore env fm) (fmScore env pref)
      else Same)"

fun fm_accept_by_list :: "fm_surroundings \<Rightarrow> string list \<Rightarrow> focal_mechanism \<Rightarrow> focal_mechanism \<Rightarrow> constraints \<Rightarrow> bool" where
  "fm_accept_by_list env [] fm pref c = True"
| "fm_accept_by_list env (token # tokens) fm pref c =
     (case fm_priority_check env token fm pref c of
        Lower \<Rightarrow> False
      | Higher \<Rightarrow> True
      | Same \<Rightarrow> fm_accept_by_list env tokens fm pref c)"

definition fm_accept_by_default :: "fm_surroundings \<Rightarrow> focal_mechanism \<Rightarrow> focal_mechanism \<Rightarrow> constraints \<Rightarrow> bool" where
  "fm_accept_by_default env fm pref c =
     (if fm_agency env fm < fm_agency env pref then False
      else if fm_agency env fm = fm_agency env pref then
        (case fm_mode_check fm_priority fm pref c of
           Lower \<Rightarrow> False
         | Same \<Rightarrow> (if fm_automatic fm then fm_created_check fm pref \<noteq> Lower else True)
         | Higher \<Rightarrow> True)
      else True)"

definition fm_accept :: "fm_surroundings \<Rightarrow> focal_mechanism \<Rightarrow> focal_mechanism \<Rightarrow> constraints \<Rightarrow> bool" where
  "fm_accept env fm pref c =
     (if isRejected (fm_evaluationStatus fm) then False
      else if fixedFocalMechanism c then fixFocalMechanism c fm
      else if isAgencyIDBlocked (base env) (objectAgencyID (fm_creationInfo fm)) then False
      else if priorities (cfg (base env)) \<noteq> [] then fm_accept_by_list env (priorities (cfg (base env))) fm pref c
      else fm_accept_by_default env fm pref c)"

section \<open>Choosing\<close>

definition set_focalMechanism :: "focal_mechanism \<Rightarrow> event_info \<Rightarrow> event_info" where
  "set_focalMechanism fm info =
     (ev_set (\<lambda>ev. ev\<lparr>ev_preferredFocalMechanismID := fm_publicID fm\<rparr>) info)\<lparr>preferredFocalMechanism := Some fm\<rparr>"

text \<open>Whether the preferred focal mechanism changes: nothing to do is \<open>False\<close>.\<close>

definition select_fm :: "fm_surroundings \<Rightarrow> focal_mechanism \<Rightarrow> event_info \<Rightarrow> bool" where
  "select_fm env fm info =
     (case preferredFocalMechanism info of
        None \<Rightarrow>
          if isAgencyIDAllowed (base env) (objectAgencyID (fm_creationInfo fm)) \<or> fixFocalMechanism (constr info) fm
          then \<not> isRejected (fm_evaluationStatus fm) else False
      | Some pref \<Rightarrow>
          if fm_publicID pref \<noteq> fm_publicID fm then fm_accept env fm pref (constr info) else False)"

datatype fm_delay = NoDelay | NoOrigin | Seconds int

text \<open>Whether the choice has to wait: the seconds still to go.\<close>

definition fm_delay_of :: "fm_surroundings \<Rightarrow> event_info \<Rightarrow> fm_delay" where
  "fm_delay_of env info =
     (if delayPrefFocMech (cfg (base env)) > 0 then
        (case preferredOrigin info of
           None \<Rightarrow> NoOrigin
         | Some org \<Rightarrow>
             let minTime = ts_add (org_time org) (TimeSpan_of (delayPrefFocMech (cfg (base env))) 0) in
             if ts_gt minTime (now (base env)) then Seconds (cast_s 32 (seconds (ts_sub minTime (now (base env))) + 1))
             else NoDelay)
      else NoDelay)"

text \<open>The update after a change.\<close>

definition finish_fm :: "fm_surroundings \<Rightarrow> event_info \<Rightarrow> (event_info \<times> notice list) option" where
  "finish_fm env info =
     (let chosen = (if fixMw (constr info) then
                      (case preferredOrigin info of
                         None \<Rightarrow> None
                       | Some org \<Rightarrow> Some (choosePreferred (base env) org None False info))
                    else Some (info, []))
      in case chosen of
           None \<Rightarrow> None
         | Some (info, out) \<Rightarrow>
             if \<not> ei_created info then (case updateEvent (base env) True info of (info, out') \<Rightarrow> Some (info, out @ out'))
             else Some (snd (call_processors (base env) (info\<lparr>ei_created := False\<rparr>)), out))"

text \<open>The pending updates: identifiers of events with the seconds left; \<open>SetPreferredFM\<close> is the only reason.\<close>

type_synonym delay_events = "(string \<times> int) list"

definition hasDelayedEvent :: "string \<Rightarrow> delay_events \<Rightarrow> bool" where
  "hasDelayedEvent publicID buffer \<longleftrightarrow> (\<exists>(i, _) \<in> set buffer. publicID = i)"

definition choosePreferred_fm ::
    "fm_surroundings \<Rightarrow> focal_mechanism \<Rightarrow> event_info \<Rightarrow> delay_events \<Rightarrow> (event_info \<times> notice list \<times> delay_events) option" where
  "choosePreferred_fm env fm info buffer =
     (case fm_delay_of env info of
        NoOrigin \<Rightarrow> Some (info, [], buffer)
      | Seconds secs \<Rightarrow>
          let ident = ev_get ev_publicID [] info in
          Some (info, [], if \<not> hasDelayedEvent ident buffer then buffer @ [(ident, secs)] else buffer)
      | NoDelay \<Rightarrow>
          if \<not> select_fm env fm info then Some (info, [], buffer)
          else (case finish_fm env (set_focalMechanism fm info) of
                  None \<Rightarrow> None
                | Some (info, out) \<Rightarrow> Some (info, out, buffer)))"

fun update_fms ::
    "fm_surroundings \<Rightarrow> (string \<Rightarrow> focal_mechanism option) \<Rightarrow> string list \<Rightarrow> event_info \<Rightarrow> delay_events \<Rightarrow>
     (event_info \<times> notice list \<times> delay_events) option" where
  "update_fms env getFocalMechanism [] info buffer = Some (info, [], buffer)"
| "update_fms env getFocalMechanism (i # is) info buffer =
     (case getFocalMechanism i of
        None \<Rightarrow> update_fms env getFocalMechanism is info buffer
      | Some fm \<Rightarrow>
          (case choosePreferred_fm env fm info buffer of
             None \<Rightarrow> None
           | Some (info, out, buffer) \<Rightarrow>
               (case update_fms env getFocalMechanism is info buffer of
                  None \<Rightarrow> None
                | Some (info, out', buffer) \<Rightarrow> Some (info, out @ out', buffer))))"

definition updatePreferredFocalMechanism ::
    "fm_surroundings \<Rightarrow> (string \<Rightarrow> focal_mechanism option) \<Rightarrow> event_info \<Rightarrow> delay_events \<Rightarrow>
     (event_info \<times> notice list \<times> delay_events) option" where
  "updatePreferredFocalMechanism env getFocalMechanism info buffer =
     update_fms env getFocalMechanism (ev_get focalMechanismReferences [] info) info buffer"

section \<open>Facts\<close>

lemma choosePreferred_keeps_fm:
  "choosePreferred env org trig ro info = (info', out) \<Longrightarrow> preferredFocalMechanism info' = preferredFocalMechanism info"
  using choosePreferred_fm [of env org trig ro info] by simp

lemma finish_fm_frame:
  "finish_fm env info = Some (info', out) \<Longrightarrow> preferredFocalMechanism info' = preferredFocalMechanism info"
  by (auto simp: finish_fm_def Let_def updateEvent_def frame dest!: choosePreferred_keeps_fm split: if_splits option.splits)

text \<open>The preferred focal mechanism only ever changes to one that is not rejected, and that is allowed.\<close>

lemma fm_change_allowed:
  assumes "choosePreferred_fm env fm info buffer = Some (info', out, buffer')"
  shows "preferredFocalMechanism info' = preferredFocalMechanism info \<or>
    preferredFocalMechanism info' = Some fm \<and> \<not> isRejected (fm_evaluationStatus fm) \<and>
      (fixFocalMechanism (constr info) fm \<or> isAgencyIDAllowed (base env) (objectAgencyID (fm_creationInfo fm)) \<and>
         (preferredFocalMechanism info = None \<or> \<not> fixedFocalMechanism (constr info)))"
proof (cases "fm_delay_of env info = NoDelay \<and> select_fm env fm info")
  case False
  with assms show ?thesis by (auto simp: choosePreferred_fm_def Let_def split: fm_delay.splits if_splits)
next
  case True
  with assms obtain o' where "finish_fm env (set_focalMechanism fm info) = Some (info', o')"
    by (auto simp: choosePreferred_fm_def split: option.splits)
  then have "preferredFocalMechanism info' = Some fm"
    using finish_fm_frame by (force simp: set_focalMechanism_def)
  then show ?thesis
    using True by (auto simp: select_fm_def fm_accept_def isAgencyIDBlocked_def split: option.splits if_splits)
qed

text \<open>With Mw fixed and no preferred origin the new focal mechanism leads through the null pointer.\<close>

lemma fixed_mw_without_origin:
  "fm_delay_of env info = NoDelay \<Longrightarrow> select_fm env fm info \<Longrightarrow> fixMw (constr info) \<Longrightarrow> preferredOrigin info = None \<Longrightarrow>
     choosePreferred_fm env fm info buffer = None"
  by (simp add: choosePreferred_fm_def finish_fm_def set_focalMechanism_def)

text \<open>The default rules for focal mechanisms are those of the list AGENCY, STATUS, TIME_AUTOMATIC.\<close>

lemma fm_default_rules: "fm_accept_by_default env fm pref c = fm_accept_by_list env [''AGENCY'', ''STATUS'', ''TIME_AUTOMATIC''] fm pref c"
proof (cases "fm_agency env fm = fm_agency env pref")
  case True
  then show ?thesis
    by (cases "fm_mode_check fm_priority fm pref c"; cases "fm_created_check fm pref"; cases "fm_automatic fm")
       (simp_all add: fm_accept_by_default_def fm_priority_check_def)
next
  case False
  then show ?thesis
    by (cases "fm_agency env fm < fm_agency env pref") (auto simp: fm_accept_by_default_def fm_priority_check_def)
qed

end
