(* ===== verification/EventId.thy ===== *)
theory EventId
  imports Prelude
begin

text \<open>
  Identifiers of events (src/src/trunk/apps/processing/scevent/util.cpp): the encoding of a time of the
  year as a text block, the expansion of a pattern, and the search for an identifier that is free.

  A \<open>uint64_t\<close> is an \<open>int\<close> cut to 64 bits by \<open>cast_u\<close>.  The result of an operation is \<open>None\<close> where the code
  overflows an \<open>int\<close>.  Whether an event of a given identifier exists (in the database, or among
  the registered objects without one), the calendar fields of the origin time, and the value of the
  variable \<open>width\<close> before it is set are parameters.
\<close>

section \<open>Encoding a number\<close>

definition makeUpper :: "string \<Rightarrow> string" where
  "makeUpper src = map to_upper src"

text \<open>The number of milliseconds of 370 days, and the number of different texts of \<open>len\<close> symbols
  with the length that is really used.\<close>

definition id_span :: int where "id_span = cast_u 64 (cast_u 64 (370 * 24 * 60 * 60) * 1000)"

function id_range :: "int \<Rightarrow> nat \<Rightarrow> nat \<Rightarrow> int \<Rightarrow> int \<times> nat" where
  "id_range numsym len i rng =
     (if i < len then
        let tmp = cast_u 64 (rng * numsym) in
        if tmp > rng then id_range numsym len (Suc i) tmp else (rng, i)
      else (rng, len))"
  by pat_completeness auto
termination by (relation "measure (\<lambda>(numsym, len, i, rng). len - i)") auto

declare id_range.simps [simp del]

fun encode_loop :: "string \<Rightarrow> int \<Rightarrow> nat \<Rightarrow> int \<Rightarrow> string \<Rightarrow> string" where
  "encode_loop syms numsym 0 x enc = enc"
| "encode_loop syms numsym (Suc n) x enc =
     (let d = x div numsym; r = x mod numsym in encode_loop syms numsym n d (enc @ [syms ! nat r]))"

definition encode :: "int \<Rightarrow> string \<Rightarrow> int \<Rightarrow> nat \<Rightarrow> string \<times> int" where
  "encode x syms numsym len =
     (let len = (if len = 0 then 4 else len);
          dx = id_span;
          (rng, len) = id_range numsym len 0 1;
          w = dx div rng;
          w = (if w = 0 then 1 else w);
          x = (if dx \<ge> rng then x div w else cast_u 64 (x * (rng div dx)));
          enc = encode_loop syms numsym len x []
      in (rev enc, w))"

definition encodeChar :: "int \<Rightarrow> nat \<Rightarrow> string \<times> int" where
  "encodeChar x len = encode x ''abcdefghijklmnopqrstuvwxyz'' 26 len"

definition encodeInt :: "int \<Rightarrow> nat \<Rightarrow> string \<times> int" where
  "encodeInt x len = encode x ''0123456789'' 10 len"

definition encodeHex :: "int \<Rightarrow> nat \<Rightarrow> string \<times> int" where
  "encodeHex x len = encode x ''0123456789abcdef'' 16 len"

section \<open>Expanding a pattern\<close>

text \<open>The digits after a percent sign, read into an \<open>int\<close>.\<close>

fun pattern_len :: "string \<Rightarrow> int \<Rightarrow> (int \<times> string) option" where
  "pattern_len [] len = Some (len, [])"
| "pattern_len (c # cs) len =
     (if is_digit c then
        if fits_s 32 (len * 10) \<and> fits_s 32 (len * 10 + digit_val c) then pattern_len cs (len * 10 + digit_val c)
        else None
      else Some (len, c # cs))"

lemma pattern_len_length: "pattern_len cs len = Some (l, rest) \<Longrightarrow> length rest \<le> length cs"
  by (induction cs len rule: pattern_len.induct) (auto split: if_splits)

text \<open>The results are the identifier, the text block that was encoded and the width of a slot; a character
  that is none of the known ones makes the identifier empty.\<close>

function pattern_loop :: "int \<Rightarrow> int \<Rightarrow> string \<Rightarrow> string \<Rightarrow> string \<Rightarrow> string \<Rightarrow> int \<Rightarrow> (string \<times> string \<times> int) option" where
  "pattern_loop year x prefix [] evtID textBlock width = Some (evtID, textBlock, width)"
| "pattern_loop year x prefix (c # cs) evtID textBlock width =
     (if c \<noteq> CHR ''%'' then pattern_loop year x prefix cs (evtID @ [c]) textBlock width
      else
        case pattern_len cs 0 of
          None \<Rightarrow> None
        | Some (len, []) \<Rightarrow> Some (evtID, textBlock, width)
        | Some (len, d # rest) \<Rightarrow>
            let block = (\<lambda>(text, w) f. pattern_loop year x prefix rest (evtID @ f text) (f text) w)
            in if d = CHR ''%'' then pattern_loop year x prefix rest (evtID @ [d]) textBlock width
               else if d = CHR ''c'' then block (encodeChar x (nat len)) id
               else if d = CHR ''C'' then block (encodeChar x (nat len)) makeUpper
               else if d = CHR ''d'' then block (encodeInt x (nat len)) id
               else if d = CHR ''x'' then block (encodeHex x (nat len)) id
               else if d = CHR ''X'' then block (encodeHex x (nat len)) makeUpper
               else if d = CHR ''Y'' then pattern_loop year x prefix rest (evtID @ show_int year) textBlock width
               else if d = CHR ''p'' then pattern_loop year x prefix rest (evtID @ prefix) textBlock width
               else Some ([], textBlock, width))"
  by pat_completeness auto
termination
  by (relation "measure (\<lambda>(year, x, prefix, pattern, evtID, textBlock, width). length pattern)")
     (auto dest!: pattern_len_length)

definition generateEventID :: "int \<Rightarrow> int \<Rightarrow> string \<Rightarrow> string \<Rightarrow> int \<Rightarrow> (string \<times> string \<times> int) option" where
  "generateEventID year x prefix pattern width = pattern_loop year x prefix pattern [] [] width"

section \<open>Searching a free identifier\<close>

record time_fields =
  year :: int
  yday :: int
  hour :: int
  minute :: int
  sec :: int
  usec :: int

definition year_millis :: "time_fields \<Rightarrow> int" where
  "year_millis t = cast_u 64 (cast_u 64 (((yday t * 24 + hour t) * 60 + minute t) * 60 + sec t) * 1000 + usec t sdiv 1000)"

definition id_blocked :: "string set option \<Rightarrow> string \<Rightarrow> bool" where
  "id_blocked blackList text = (case blackList of None \<Rightarrow> False | Some b \<Rightarrow> text \<in> b)"

fun try_ids :: "(string \<Rightarrow> bool) \<Rightarrow> string set option \<Rightarrow> (int \<Rightarrow> (string \<times> string \<times> int) option) \<Rightarrow> int list \<Rightarrow> string option" where
  "try_ids exists blackList gen [] = Some []"
| "try_ids exists blackList gen (x # xs) =
     (case gen x of
        None \<Rightarrow> None
      | Some (eventID, text, _) \<Rightarrow>
          if \<not> exists eventID \<and> \<not> id_blocked blackList text then Some eventID
          else try_ids exists blackList gen xs)"

text \<open>The times tried after \<open>x\<close>: four slots later, then four slots earlier.\<close>

definition retry_times :: "int \<Rightarrow> int \<Rightarrow> int list" where
  "retry_times x width =
     map (\<lambda>i. cast_u 64 (x + cast_u 64 (i * width))) [1..4] @ map (\<lambda>i. cast_u 64 (x - cast_u 64 (i * width))) [1..4]"

definition allocateEventID ::
    "(string \<Rightarrow> bool) \<Rightarrow> int \<Rightarrow> time_fields option option \<Rightarrow> string \<Rightarrow> string \<Rightarrow> string set option \<Rightarrow> string option" where
  "allocateEventID exists uninit origin prefix pattern blackList =
     (case origin of
        None \<Rightarrow> Some []
      | Some None \<Rightarrow> Some []
      | Some (Some t) \<Rightarrow>
          let x = year_millis t in
          case generateEventID (year t) x prefix pattern uninit of
            None \<Rightarrow> None
          | Some (eventID, text, width) \<Rightarrow>
              if \<not> exists eventID \<and> \<not> id_blocked blackList text then Some eventID
              else try_ids exists blackList (\<lambda>x. generateEventID (year t) x prefix pattern width) (retry_times x width))"

section \<open>Number systems\<close>

text \<open>What a text stands for, read with the symbols of its alphabet.\<close>

definition symbol_value :: "string \<Rightarrow> char \<Rightarrow> int" where
  "symbol_value syms c = (case find_index (\<lambda>s. s = c) syms of None \<Rightarrow> 0 | Some i \<Rightarrow> int i)"

definition text_value :: "string \<Rightarrow> string \<Rightarrow> int" where
  "text_value syms text = foldl (\<lambda>v c. v * int (length syms) + symbol_value syms c) 0 text"

lemma text_value_snoc: "text_value syms (s @ [c]) = text_value syms s * int (length syms) + symbol_value syms c"
  by (simp add: text_value_def)

lemma symbol_value_nth:
  assumes "distinct syms" and "i < length syms"
  shows "symbol_value syms (syms ! i) = int i"
proof -
  obtain j where j: "find_index (\<lambda>s. s = syms ! i) syms = Some j"
    using assms(2) find_index_None [of "\<lambda>s. s = syms ! i" syms] by (cases "find_index (\<lambda>s. s = syms ! i) syms") auto
  with find_index_Some [OF j] assms have "j = i" by (auto simp: nth_eq_iff_index_eq)
  with j show ?thesis by (simp add: symbol_value_def)
qed

lemma encode_loop_acc: "encode_loop syms b n x enc = enc @ encode_loop syms b n x []"
proof (induction n arbitrary: x enc)
  case (Suc n)
  show ?case
    by (simp add: Let_def) (subst Suc, subst (2) Suc, simp)
qed simp

lemma encode_loop_Suc: "rev (encode_loop syms b (Suc n) x []) = rev (encode_loop syms b n (x div b) []) @ [syms ! nat (x mod b)]"
  by (simp add: Let_def) (subst encode_loop_acc, simp)

lemma length_encode_loop [simp]: "length (encode_loop syms b n x enc) = n + length enc"
  by (induction n arbitrary: x enc) (auto simp: Let_def)

lemma id_range_exact:
  assumes "2 \<le> b" and "b ^ len < 2 ^ 64" and "i \<le> len"
  shows "id_range b len i (b ^ i) = (b ^ len, len)"
  using assms(3)
proof (induction "len - i" arbitrary: i)
  case 0
  then show ?case by (simp add: id_range.simps)
next
  case (Suc n)
  then have i: "i < len" by simp
  have "b ^ Suc i \<le> b ^ len" using i assms(1) by (intro power_increasing) auto
  with assms(1,2) have "fits_u 64 (b ^ i * b)" by (simp add: fits_u_def mult.commute)
  then have tmp: "cast_u 64 (b ^ i * b) = b ^ Suc i" by (simp add: cast_u_id mult.commute)
  have "0 < b" using assms(1) by linarith
  then have "0 < b ^ i" by (rule zero_less_power)
  with assms(1) have "b ^ i < b ^ i * b" using mult_strict_left_mono [of 1 b "b ^ i"] by linarith
  moreover have "id_range b len (Suc i) (b ^ Suc i) = (b ^ len, len)"
    using Suc(2) i by (intro Suc(1)) auto
  ultimately show ?case using i tmp by (simp add: id_range.simps [of b len i] Let_def mult.commute)
qed

text \<open>The slot of a time: the number that is written as the text.\<close>

definition id_width :: "int \<Rightarrow> int" where
  "id_width rng = (if id_span div rng = 0 then 1 else id_span div rng)"

definition id_slot :: "int \<Rightarrow> int \<Rightarrow> int" where
  "id_slot rng x = (if id_span \<ge> rng then x div id_width rng else cast_u 64 (x * (rng div id_span)))"

lemma id_span_value: "id_span = 31968000000"
  by (simp add: id_span_def cast_u_def)

lemma div_below:
  fixes x :: int
  assumes "0 < w" and "x < r * w"
  shows "x div w < r"
proof (rule ccontr)
  assume "\<not> x div w < r"
  then have "r * w \<le> (x div w) * w" using assms(1) by (intro mult_right_mono) auto
  moreover have "(x div w) * w \<le> x" using assms(1) pos_mod_sign [of w x] div_mult_mod_eq [of x w] by linarith
  ultimately show False using assms(2) by linarith
qed

locale alphabet =
  fixes syms :: string
  assumes distinct_syms: "distinct syms" and two_syms: "2 \<le> length syms"
begin

abbreviation base :: int where "base \<equiv> int (length syms)"

lemma base_pos: "0 < base"
  using two_syms by linarith

lemma base_power_pos: "0 < base ^ n"
  by (rule zero_less_power [OF base_pos])

lemma text_value_loop: "0 \<le> x \<Longrightarrow> text_value syms (rev (encode_loop syms base n x [])) = x mod base ^ n"
proof (induction n arbitrary: x)
  case (Suc n)
  have b: "0 < base" by (rule base_pos)
  have "nat (x mod base) < length syms" using b by (simp add: nat_less_iff)
  then have "symbol_value syms (syms ! nat (x mod base)) = x mod base"
    using symbol_value_nth [OF distinct_syms] b by simp
  moreover have "0 \<le> x div base" using Suc.prems b by (simp add: pos_imp_zdiv_nonneg_iff)
  moreover have "x mod (base * base ^ n) = base * ((x div base) mod base ^ n) + x mod base"
    by (rule zmod_zmult2_eq) simp
  ultimately show ?case
    using Suc.IH [of "x div base"] by (simp add: encode_loop_Suc text_value_snoc del: encode_loop.simps)
qed (simp add: text_value_def)

lemma encode_exact:
  assumes "0 < len" and "base ^ len < 2 ^ 64"
  shows "encode x syms base len = (rev (encode_loop syms base len (id_slot (base ^ len) x) []), id_width (base ^ len))"
proof -
  have "id_range base len 0 1 = (base ^ len, len)"
    using id_range_exact [of base len 0] two_syms assms by simp
  then show ?thesis
    using assms(1) by (simp add: encode_def Let_def id_width_def id_slot_def)
qed

lemma text_value_encode:
  assumes "0 < len" and "base ^ len < 2 ^ 64" and "0 \<le> x"
  shows "text_value syms (fst (encode x syms base len)) = id_slot (base ^ len) x mod base ^ len"
proof -
  have "0 \<le> id_width (base ^ len)"
    using base_power_pos [of len] by (auto simp: id_width_def id_span_value pos_imp_zdiv_nonneg_iff simp del: of_nat_power)
  then have "0 \<le> id_slot (base ^ len) x"
    using assms(3) by (cases "id_width (base ^ len) = 0") (simp_all add: id_slot_def cast_u_def pos_imp_zdiv_nonneg_iff)
  then show ?thesis using encode_exact [OF assms(1,2)] by (simp add: text_value_loop)
qed

lemma encode_length: "0 < len \<Longrightarrow> base ^ len < 2 ^ 64 \<Longrightarrow> length (fst (encode x syms base len)) = len"
  by (simp add: encode_exact)

text \<open>With few enough texts the slots of a year do not run over.\<close>

lemma slot_in_range:
  assumes "base ^ len \<le> 345600000" and "0 \<le> x" and "x < 31622400000"
  shows "id_slot (base ^ len) x = x div id_width (base ^ len)" and "x div id_width (base ^ len) < base ^ len"
    and "0 \<le> x div id_width (base ^ len)"
proof -
  define r where "r = base ^ len"
  have r: "0 < r" unfolding r_def by (rule base_power_pos)
  have le: "r \<le> 345600000" using assms(1) by (simp add: r_def)
  have pos: "0 < 31968000000 div r"
    using r le by (simp add: pos_imp_zdiv_pos_iff)
  then have w: "id_width r = 31968000000 div r"
    by (simp add: id_width_def id_span_value)
  have "31968000000 div r * r + 31968000000 mod r = 31968000000" by simp
  moreover have "31968000000 mod r < r" using r by simp
  ultimately have "31968000000 - r < 31968000000 div r * r" by linarith
  with le assms(3) have "x < r * id_width r" by (simp add: w mult.commute)
  then have "x div id_width r < r" using pos by (intro div_below) (simp_all add: w)
  then show "x div id_width (base ^ len) < base ^ len" by (simp add: r_def)
  show "id_slot (base ^ len) x = x div id_width (base ^ len)"
    using le by (simp add: id_slot_def id_span_value flip: r_def)
  show "0 \<le> x div id_width (base ^ len)"
    using pos assms(2) by (simp add: w pos_imp_zdiv_nonneg_iff flip: r_def)
qed

lemma same_text_iff:
  assumes "0 < len" and "base ^ len \<le> 345600000"
    and "0 \<le> x" and "x < 31622400000" and "0 \<le> y" and "y < 31622400000"
  shows "fst (encode x syms base len) = fst (encode y syms base len)
           \<longleftrightarrow> x div id_width (base ^ len) = y div id_width (base ^ len)" (is "?l \<longleftrightarrow> ?r")
proof
  have lt: "base ^ len < 2 ^ 64" using assms(2) by simp
  note x = slot_in_range [OF assms(2,3,4)] and y = slot_in_range [OF assms(2,5,6)]
  show ?r if ?l
    using arg_cong [OF that, of "text_value syms"] text_value_encode [OF assms(1) lt] assms(3,5) x y by simp
  show ?l if ?r
    using that x(1) y(1) by (simp add: encode_exact [OF assms(1) lt])
qed

end

interpretation letters: alphabet "''abcdefghijklmnopqrstuvwxyz''"
  by unfold_locales simp_all

interpretation decimals: alphabet "''0123456789''"
  by unfold_locales simp_all

interpretation hexadecimals: alphabet "''0123456789abcdef''"
  by unfold_locales simp_all

section \<open>Identifiers of events\<close>

lemma pattern_len_digit:
  assumes "n < 10" and "\<not> is_digit d"
  shows "pattern_len (CHR ''0'' # digit_char n # d # rest) 0 = Some (int n, d # rest)"
proof -
  have "fits_s 32 (0::int)" and "fits_s 32 (int n)" using assms(1) by (simp_all add: fits_s_def)
  moreover have "is_digit CHR ''0''" and "digit_val CHR ''0'' = 0" by (simp_all add: is_digit_def digit_val_def code_def)
  ultimately show ?thesis using assms by simp
qed

text \<open>The pattern \<open>%p%Y%0nc\<close>, of which the configuration of the program has \<open>n = 4\<close>.\<close>

lemma generate_letters:
  assumes "n < 10"
  shows "generateEventID yr x prefix (''%p%Y%0'' @ [digit_char n] @ ''c'') w =
           (let (text, width) = encodeChar x n in Some (prefix @ show_int yr @ text, text, width))"
  using pattern_len_digit [OF assms, of "CHR ''c''" "[]"]
  by (simp add: generateEventID_def is_digit_def code_def Let_def split: prod.split)

text \<open>
  with up to six letters, two origins of a year with the same prefix are given the same first
  identifier exactly if their times lie in the same slot of 31968000000 div 26^n milliseconds.
\<close>

lemma event_ids_per_slot:
  assumes "1 \<le> n" and "n \<le> 6" and "0 \<le> x" and "x < 31622400000" and "0 \<le> y" and "y < 31622400000"
  shows "map_option fst (generateEventID yr x prefix (''%p%Y%0'' @ [digit_char n] @ ''c'') w) =
         map_option fst (generateEventID yr y prefix (''%p%Y%0'' @ [digit_char n] @ ''c'') w')
           \<longleftrightarrow> x div (31968000000 div 26 ^ n) = y div (31968000000 div 26 ^ n)"
proof -
  have "(26::int) ^ n \<le> 26 ^ 6" using assms(2) by (intro power_increasing) auto
  then have le: "(26::int) ^ n \<le> 345600000" by simp
  then have w: "id_width (26 ^ n) = 31968000000 div 26 ^ n"
    using pos_imp_zdiv_pos_iff [of "26 ^ n" 31968000000] by (auto simp: id_width_def id_span_value)
  have "fst (encodeChar x n) = fst (encodeChar y n) \<longleftrightarrow> x div id_width (26 ^ n) = y div id_width (26 ^ n)"
    using letters.same_text_iff [of n x y] assms le by (simp add: encodeChar_def)
  moreover have n: "n < 10" using assms(2) by simp
  ultimately show ?thesis
    unfolding generate_letters [OF n] w
    by (cases "encodeChar x n"; cases "encodeChar y n") simp
qed

lemma event_ids_per_slot_witness:
  "map_option fst (generateEventID 2019 69954 ''gfz'' (''%p%Y%0'' @ [digit_char 4] @ ''c'') 0) =
   map_option fst (generateEventID 2019 0 ''gfz'' (''%p%Y%0'' @ [digit_char 4] @ ''c'') 0)"
  using event_ids_per_slot [of 4 69954 0 2019 "''gfz''" 0 0] by simp

text \<open>With ten digits the slots of a year run over: the first slot is used again on day 347.\<close>

lemma ten_digits_run_over: "fst (encodeInt 0 10) = fst (encodeInt 30000000000 10)"
  by code_simp

text \<open>In the first slots of a year the earlier times wrap around.\<close>

lemma retry_wraps: "retry_times 0 69955 ! 4 = 2 ^ 64 - 69955"
  by code_simp

text \<open>A time whose identifier is free.\<close>

definition id_available :: "(string \<Rightarrow> bool) \<Rightarrow> string set option \<Rightarrow> (string \<times> string \<times> int) option \<Rightarrow> bool" where
  "id_available exists blackList g =
     (case g of None \<Rightarrow> False | Some (eventID, text, _) \<Rightarrow> \<not> exists eventID \<and> \<not> id_blocked blackList text)"

lemma try_ids_find:
  "try_ids exists blackList gen xs = Some ident \<Longrightarrow>
     (case List.find (\<lambda>x. id_available exists blackList (gen x)) xs of
        None \<Rightarrow> ident = []
      | Some x \<Rightarrow> map_option fst (gen x) = Some ident)"
proof (induction xs)
  case (Cons x xs)
  then obtain e tx w where g: "gen x = Some (e, tx, w)" by (auto split: option.splits)
  show ?case
  proof (cases "\<not> exists e \<and> \<not> id_blocked blackList tx")
    case True
    with Cons.prems g show ?thesis by (simp add: id_available_def)
  next
    case False
    then have "\<not> id_available exists blackList (gen x)" by (simp add: g id_available_def)
    with Cons g False show ?thesis by (simp add: if_splits)
  qed
qed simp

text \<open>The identifier does not depend on the width the variable holds before.\<close>

definition same_id :: "(string \<times> string \<times> int) option \<Rightarrow> (string \<times> string \<times> int) option \<Rightarrow> bool" where
  "same_id g g' \<longleftrightarrow> map_option (\<lambda>(e, t, _). (e, t)) g = map_option (\<lambda>(e, t, _). (e, t)) g'"

lemma same_id_Some [simp]: "same_id (Some (e, t, w)) (Some (e, t, w'))"
  by (simp add: same_id_def)

lemma same_id_refl [simp]: "same_id g g"
  by (simp add: same_id_def)

lemma pattern_loop_width:
  "same_id (pattern_loop yr x prefix pattern evtID textBlock w) (pattern_loop yr x prefix pattern evtID textBlock w')"
proof (induction pattern arbitrary: evtID textBlock w w' rule: length_induct)
  case (1 pattern)
  show ?case
  proof (cases pattern)
    case (Cons c cs)
    have IH: "length p < length pattern \<Longrightarrow> same_id (pattern_loop yr x prefix p i b w) (pattern_loop yr x prefix p i b w')"
      for p i b w w' using 1 by blast
    show ?thesis
    proof (cases "pattern_len cs 0")
      case None
      then show ?thesis by (simp add: Cons IH)
    next
      case (Some lr)
      then obtain len rest where lr: "pattern_len cs 0 = Some (len, rest)" by (cases lr) simp
      then have le: "length rest \<le> length cs" by (rule pattern_len_length)
      show ?thesis
        by (cases rest) (use le in \<open>simp_all add: Cons lr IH Let_def split: prod.split\<close>)
    qed
  qed simp
qed

lemma generate_width: "same_id (generateEventID yr x prefix pattern w) (generateEventID yr x prefix pattern w')"
  by (simp add: generateEventID_def pattern_loop_width)

lemma same_id_available: "same_id g g' \<Longrightarrow> id_available exists blackList g = id_available exists blackList g'"
  by (auto simp: same_id_def id_available_def split: option.splits)

lemma find_first:
  "List.find P xs = r \<Longrightarrow>
     (\<exists>i < length xs. P (xs ! i) \<and> (\<forall>j < i. \<not> P (xs ! j)) \<and> r = Some (xs ! i)) \<or> ((\<forall>x \<in> set xs. \<not> P x) \<and> r = None)"
  by (cases r) (auto simp: find_Some_iff find_None_iff)

lemma retry_times_mod:
  "retry_times x w = [(x + w) mod 2 ^ 64, (x + 2 * w) mod 2 ^ 64, (x + 3 * w) mod 2 ^ 64, (x + 4 * w) mod 2 ^ 64,
     (x - w) mod 2 ^ 64, (x - 2 * w) mod 2 ^ 64, (x - 3 * w) mod 2 ^ 64, (x - 4 * w) mod 2 ^ 64]"
proof -
  have "cast_u 64 (x + cast_u 64 (i * w)) = (x + i * w) mod 2 ^ 64" "cast_u 64 (x - cast_u 64 (i * w)) = (x - i * w) mod 2 ^ 64" for i
    by (simp_all add: cast_u_def mod_add_right_eq mod_diff_right_eq)
  moreover have "[1..4] = [1, 2, 3, 4 :: int]" by code_simp
  ultimately show ?thesis by (simp add: retry_times_def)
qed

text \<open>
  C40: an identifier is allocated from nine times: that of the origin in milliseconds of the year, those one
  to four slots later, and those one to four slots earlier, in unsigned 64 bit arithmetic.  It is
  that of the first of them whose identifier does not exist yet and whose text is not blacklisted, and
  empty if there is none.  (Before the fifth slot of a year the earlier times wrap around to the end
  of the 64 bit range, as in the code, so that they are not the slots before: see \<open>retry_wraps\<close>.)  The width of a slot is
  what encoding the time of the origin reports.
\<close>

theorem allocate_first_free:
  assumes "allocateEventID exists uninit (Some (Some t)) prefix pattern blackList = Some ident"
    and "generateEventID (year t) (year_millis t) prefix pattern uninit = Some (e, text, width)"
    and "x = year_millis t"
    and "tried = [x, (x + width) mod 2 ^ 64, (x + 2 * width) mod 2 ^ 64, (x + 3 * width) mod 2 ^ 64, (x + 4 * width) mod 2 ^ 64,
      (x - width) mod 2 ^ 64, (x - 2 * width) mod 2 ^ 64, (x - 3 * width) mod 2 ^ 64, (x - 4 * width) mod 2 ^ 64]"
    and "free = (\<lambda>x. case generateEventID (year t) x prefix pattern width of
      None \<Rightarrow> False | Some (e, text, _) \<Rightarrow> \<not> exists e \<and> (blackList = None \<or> text \<notin> the blackList))"
  shows "(\<exists>i < 9. free (tried ! i) \<and> (\<forall>j < i. \<not> free (tried ! j)) \<and>
      map_option fst (generateEventID (year t) (tried ! i) prefix pattern width) = Some ident) \<or>
    ((\<forall>x \<in> set tried. \<not> free x) \<and> ident = [])"
proof -
  let ?gen = "\<lambda>x. generateEventID (year t) x prefix pattern width"
  obtain w where g: "?gen (year_millis t) = Some (e, text, w)"
    using generate_width [of "year t" "year_millis t" prefix pattern uninit width] assms(2)
    by (cases "?gen (year_millis t)") (auto simp: same_id_def)
  have "try_ids exists blackList ?gen (year_millis t # retry_times (year_millis t) width) = Some ident"
    using assms(1,2) g by (simp add: allocateEventID_def Let_def split: if_splits)
  then have ids: "try_ids exists blackList ?gen tried = Some ident" using assms(3,4) by (simp only: retry_times_mod)
  have free: "free = (\<lambda>x. id_available exists blackList (?gen x))"
    by (rule ext) (auto simp: assms(5) id_available_def id_blocked_def split: option.split)
  have "length tried = 9" by (simp add: assms(4))
  with try_ids_find [OF ids] find_first [of free tried, OF refl] show ?thesis
    by (auto simp: free)
qed

definition example_time :: time_fields where
  "example_time = \<lparr>year = 2019, yday = 0, hour = 0, minute = 0, sec = 0, usec = 0\<rparr>"

text \<open>The first slot of a year is taken: the next one is used.\<close>

theorem allocate_first_free_witness:
  "\<exists>i < 9. map_option fst (generateEventID 2019 ([0, 69955, 139910, 209865, 279820, 2 ^ 64 - 69955, 2 ^ 64 - 139910, 2 ^ 64 - 209865, 2 ^ 64 - 279820] ! i)
     ''gfz'' ''%p%Y%04c'' 69955) = Some ''gfz2019aaab''"
proof -
  have a: "allocateEventID (\<lambda>e. e = ''gfz2019aaaa'') 0 (Some (Some example_time)) ''gfz'' ''%p%Y%04c'' None = Some ''gfz2019aaab''"
    by code_simp
  have g: "generateEventID (year example_time) (year_millis example_time) ''gfz'' ''%p%Y%04c'' 0
      = Some (''gfz2019aaaa'', ''aaaa'', 69955)" by code_simp
  have t: "year_millis example_time = 0" "year example_time = 2019" by code_simp+
  have times: "[0 :: int, 69955, 139910, 209865, 279820, 2 ^ 64 - 69955, 2 ^ 64 - 139910, 2 ^ 64 - 209865, 2 ^ 64 - 279820] =
      [0, (0 + 69955) mod 2 ^ 64, (0 + 2 * 69955) mod 2 ^ 64, (0 + 3 * 69955) mod 2 ^ 64, (0 + 4 * 69955) mod 2 ^ 64,
        (0 - 69955) mod 2 ^ 64, (0 - 2 * 69955) mod 2 ^ 64, (0 - 3 * 69955) mod 2 ^ 64, (0 - 4 * 69955) mod 2 ^ 64]" by simp
  show ?thesis
    using allocate_first_free [OF a g _ times refl] unfolding t by blast
qed

text \<open>An allocated identifier is new.\<close>

lemma allocated_is_new:
  assumes "allocateEventID exists uninit (Some (Some t)) prefix pattern blackList = Some ident" and "ident \<noteq> []"
  shows "\<not> exists ident"
proof -
  have try_new: "try_ids exists blackList gen xs = Some ident \<Longrightarrow> \<not> exists ident" for gen xs
    using assms(2) by (induction xs) (auto split: option.splits if_splits)
  show ?thesis
    using assms(1) by (auto simp: allocateEventID_def Let_def dest: try_new split: option.splits if_splits)
qed

end
