(* ===== verification/EventAssociation.thy ===== *)
theory EventAssociation
  imports EventFocal EventId StringMap
begin

text \<open>
  The association of origins and focal mechanisms with events
  (src/src/trunk/apps/processing/scevent/eventtool.cpp): the cached events, the search for a matching event in the
  cache and in the database, the creation of events, and the buffer of delayed objects.

  The cached events are a list in the order of their identifiers, as in the map of the code.
  The cache of objects, the database (which may be missing), the distance on the sphere, the calendar and the
  registry of objects other than the cached events are parameters.  \<open>None\<close> stands for a run that does not
  return: an exception about a pick without a phase, or undefined behaviour.
\<close>

section \<open>State and surroundings\<close>

datatype match_result = Nothing | Location | Picks | PicksAndLocation

fun match_rank :: "match_result \<Rightarrow> nat" where
  "match_rank Nothing = 0"
| "match_rank Location = 1"
| "match_rank Picks = 2"
| "match_rank PicksAndLocation = 3"

instantiation match_result :: linorder
begin

definition less_eq_match_result :: "match_result \<Rightarrow> match_result \<Rightarrow> bool" where
  "less_eq_match_result a b \<longleftrightarrow> match_rank a \<le> match_rank b"

definition less_match_result :: "match_result \<Rightarrow> match_result \<Rightarrow> bool" where
  "less_match_result a b \<longleftrightarrow> match_rank a < match_rank b"

instance
proof
  fix a b c :: match_result
  show "a < b \<longleftrightarrow> a \<le> b \<and> \<not> b \<le> a" by (auto simp: less_eq_match_result_def less_match_result_def)
  show "a \<le> a" by (simp add: less_eq_match_result_def)
  show "a \<le> b \<Longrightarrow> b \<le> c \<Longrightarrow> a \<le> c" by (simp add: less_eq_match_result_def)
  show "a \<le> b \<Longrightarrow> b \<le> a \<Longrightarrow> a = b" by (cases a; cases b) (simp_all add: less_eq_match_result_def)
  show "a \<le> b \<or> b \<le> a" by (auto simp: less_eq_match_result_def)
qed

end

record database =
  getEvents :: "timeval \<Rightarrow> timeval \<Rightarrow> event list"
  getEvent :: "string \<Rightarrow> event option"
  getEventForFM :: "string \<Rightarrow> event option"
  getJournal :: "string \<Rightarrow> journal_entry list"
  loadReferences :: "event \<Rightarrow> event"
  loadOriginReferences :: "event \<Rightarrow> event"
  loadFocalMechanismReferences :: "event \<Rightarrow> event"
  eventExists :: "string \<Rightarrow> bool"

record services =
  chooser :: fm_surroundings
  getOrigin :: "string \<Rightarrow> origin option"
  getPick :: "string \<Rightarrow> pick option"
  getFocalMechanism :: "string \<Rightarrow> focal_mechanism option"
  findOrigin :: "string \<Rightarrow> origin option"
  findFocalMechanism :: "string \<Rightarrow> focal_mechanism option"
  getEventByID :: "string \<Rightarrow> event option"
  query :: "database option"
  isRegistered :: "string \<Rightarrow> bool"
  calendar :: "timeval \<Rightarrow> time_fields"
  distance :: "rat \<Rightarrow> rat \<Rightarrow> rat \<Rightarrow> rat \<Rightarrow> rat"
  unsetWidth :: int

abbreviation sv_cfg :: "services \<Rightarrow> event_config" where
  "sv_cfg sv \<equiv> cfg (base (chooser sv))"

datatype delayed_object = DelayedOrigin origin | DelayedFM focal_mechanism

record tool =
  events :: "(string \<times> event_info) list"
  delayBuffer :: "(delayed_object \<times> int) list"
  delayEventBuffer :: delay_events

section \<open>Objects that are shared\<close>

text \<open>
  An event and the buffer of delayed objects hold pointers, and the object changes in place: when the changes of a
  message are applied and when an instance that is not registered is copied to the registered one.  Here they
  hold values; \<open>refresh\<close> brings these up to date with the lookups, which give the objects as they are.  The address
  of an origin or a focal mechanism tells instances with one identifier apart.  A preferred magnitude
  is looked for among those of the preferred origin.
\<close>

definition current_origin :: "(string \<Rightarrow> origin option) \<Rightarrow> origin \<Rightarrow> origin" where
  "current_origin get org =
     (case get (org_publicID org) of None \<Rightarrow> org | Some new \<Rightarrow> if org_address new = org_address org then new else org)"

definition current_fm :: "(string \<Rightarrow> focal_mechanism option) \<Rightarrow> focal_mechanism \<Rightarrow> focal_mechanism" where
  "current_fm get fm =
     (case get (fm_publicID fm) of None \<Rightarrow> fm | Some new \<Rightarrow> if fm_address new = fm_address fm then new else fm)"

definition current_magnitude :: "origin option \<Rightarrow> magnitude \<Rightarrow> magnitude" where
  "current_magnitude pref mag =
     (case pref of None \<Rightarrow> mag
      | Some org \<Rightarrow> (case List.find (\<lambda>m. mag_publicID m = mag_publicID mag) (org_magnitudes org) of None \<Rightarrow> mag | Some m \<Rightarrow> m))"

definition refresh_info :: "services \<Rightarrow> event_info \<Rightarrow> event_info" where
  "refresh_info sv info =
     (let pref = map_option (current_origin (getOrigin sv)) (preferredOrigin info)
      in info\<lparr>preferredOrigin := pref, preferredFocalMechanism := map_option (current_fm (getFocalMechanism sv)) (preferredFocalMechanism info),
           preferredMagnitude := map_option (current_magnitude pref) (preferredMagnitude info)\<rparr>)"

fun refresh_delayed :: "services \<Rightarrow> delayed_object \<Rightarrow> delayed_object" where
  "refresh_delayed sv (DelayedOrigin org) = DelayedOrigin (current_origin (getOrigin sv) org)"
| "refresh_delayed sv (DelayedFM fm) = DelayedFM (current_fm (getFocalMechanism sv) fm)"

definition refresh :: "services \<Rightarrow> tool \<Rightarrow> tool" where
  "refresh sv t =
     t\<lparr>events := map (\<lambda>(k, info). (k, refresh_info sv info)) (events t),
       delayBuffer := map (\<lambda>(obj, timeout). (refresh_delayed sv obj, timeout)) (delayBuffer t)\<rparr>"

text \<open>
  \<open>*origin = *org\<close>: the attributes of the one at the address of the other, which keeps its children, and the cache of
  objects gives it from then on.
\<close>

definition assign_origin :: "origin \<Rightarrow> origin \<Rightarrow> origin" where
  "assign_origin old org = org\<lparr>org_address := org_address old, org_arrivals := org_arrivals old, org_magnitudes := org_magnitudes old\<rparr>"

definition assign_fm :: "focal_mechanism \<Rightarrow> focal_mechanism \<Rightarrow> focal_mechanism" where
  "assign_fm old fm = fm\<lparr>fm_address := fm_address old, fm_momentMagnitudeIDs := fm_momentMagnitudeIDs old\<rparr>"

definition registered_origin :: "services \<Rightarrow> origin \<Rightarrow> origin" where
  "registered_origin sv org =
     (case findOrigin sv (org_publicID org) of None \<Rightarrow> org
      | Some old \<Rightarrow> if org_address old \<noteq> org_address org then assign_origin old org else org)"

definition registered_fm :: "services \<Rightarrow> focal_mechanism \<Rightarrow> focal_mechanism" where
  "registered_fm sv fm =
     (case findFocalMechanism sv (fm_publicID fm) of None \<Rightarrow> fm
      | Some old \<Rightarrow> if fm_address old \<noteq> fm_address fm then assign_fm old fm else fm)"

definition with_origin :: "origin \<Rightarrow> services \<Rightarrow> services" where
  "with_origin org sv = sv\<lparr>getOrigin := (getOrigin sv)(org_publicID org \<mapsto> org)\<rparr>"

definition with_fm :: "focal_mechanism \<Rightarrow> services \<Rightarrow> services" where
  "with_fm fm sv = sv\<lparr>getFocalMechanism := (getFocalMechanism sv)(fm_publicID fm \<mapsto> fm)\<rparr>"

section \<open>The cached events\<close>

definition isEventCached :: "string \<Rightarrow> tool \<Rightarrow> bool" where
  "isEventCached eventID t \<longleftrightarrow> map_of (events t) eventID \<noteq> None"

definition info_id :: "event_info \<Rightarrow> string" where
  "info_id info = ev_get ev_publicID [] info"

definition cacheEvent :: "event_info \<Rightarrow> tool \<Rightarrow> tool" where
  "cacheEvent info t = t\<lparr>events := map_insert (info_id info) (info\<lparr>aboutToBeRemoved := False\<rparr>) (events t)\<rparr>"

definition cachedEvent :: "string \<Rightarrow> tool \<Rightarrow> event_info option \<times> tool" where
  "cachedEvent eventID t =
     (case map_of (events t) eventID of
        None \<Rightarrow> (None, t)
      | Some info \<Rightarrow>
          let info = (if aboutToBeRemoved info then info\<lparr>aboutToBeRemoved := False\<rparr> else info)
          in (Some info, t\<lparr>events := map_insert eventID info (events t)\<rparr>))"

definition removeCachedEvent :: "string \<Rightarrow> tool \<Rightarrow> bool \<times> tool" where
  "removeCachedEvent eventID t =
     (if isEventCached eventID t then (True, t\<lparr>events := filter (\<lambda>(k, _). k \<noteq> eventID) (events t)\<rparr>) else (False, t))"

text \<open>The object cache dropped an object: an event is marked only.\<close>

definition removedFromCache :: "string \<Rightarrow> tool \<Rightarrow> tool" where
  "removedFromCache publicID t =
     (case map_of (events t) publicID of
        None \<Rightarrow> t
      | Some info \<Rightarrow> t\<lparr>events := map_insert publicID (info\<lparr>aboutToBeRemoved := True\<rparr>) (events t)\<rparr>)"

definition cleanUpEventCache :: "tool \<Rightarrow> tool" where
  "cleanUpEventCache t = t\<lparr>events := filter (\<lambda>(_, info). \<not> aboutToBeRemoved info) (events t)\<rparr>"

definition put_event :: "string \<Rightarrow> event_info \<Rightarrow> tool \<Rightarrow> tool" where
  "put_event k info t = t\<lparr>events := map_insert k info (events t)\<rparr>"

section \<open>Comparing an origin with an event\<close>

definition compare :: "services \<Rightarrow> origin \<Rightarrow> event_info \<Rightarrow> match_result option \<times> event_info" where
  "compare sv org info =
     (case matchingPicks (sv_cfg sv) (getOrigin sv) (getPick sv) org info of
        (None, info) \<Rightarrow> (None, info)
      | (Some matches, info) \<Rightarrow>
          let result = (if int matches \<ge> minMatchingPicks (sv_cfg sv) then Picks else Nothing) in
          case preferredOrigin info of
            None \<Rightarrow> (Some Nothing, info)
          | Some pref \<Rightarrow>
              let dist = distance sv (org_latitude org) (org_longitude org) (org_latitude pref) (org_longitude pref);
                  diffTime = ts_sub (org_time pref) (org_time org)
              in if dist \<le> maxDist (sv_cfg sv) \<and> ts_le (ts_abs diffTime) (maxTimeDiff (sv_cfg sv))
                 then (Some (if result = Picks then PicksAndLocation else Location), info)
                 else (Some result, info))"

text \<open>
  The best of the cached events: the result and the identifier so far are passed on.  Comparing may
  collect the picks of an event anew.
\<close>

fun find_loop ::
    "services \<Rightarrow> origin \<Rightarrow> (string \<times> event_info) list \<Rightarrow> match_result \<times> string option \<Rightarrow>
     ((match_result \<times> string option) \<times> (string \<times> event_info) list) option" where
  "find_loop sv org [] best = Some (best, [])"
| "find_loop sv org ((k, info) # es) best =
     (case compare sv org info of
        (None, _) \<Rightarrow> None
      | (Some res, info) \<Rightarrow>
          (case find_loop sv org es (if res > fst best then (res, Some k) else best) of
             None \<Rightarrow> None
           | Some (best, es) \<Rightarrow> Some (best, (k, info) # es)))"

definition findMatchingEvent :: "services \<Rightarrow> origin \<Rightarrow> tool \<Rightarrow> (string option \<times> tool) option" where
  "findMatchingEvent sv org t =
     (case find_loop sv org (events t) (Nothing, None) of
        None \<Rightarrow> None
      | Some (best, es) \<Rightarrow> Some (snd best, t\<lparr>events := es\<rparr>))"

definition findAssociatedEvent :: "origin \<Rightarrow> tool \<Rightarrow> string option" where
  "findAssociatedEvent org t =
     map_option fst (List.find (\<lambda>(_, info). org_publicID org \<in> set (ev_get originReferences [] info)) (events t))"

definition findAssociatedEvent_fm :: "focal_mechanism \<Rightarrow> tool \<Rightarrow> string option" where
  "findAssociatedEvent_fm fm t =
     map_option fst (List.find (\<lambda>(_, info). fm_publicID fm \<in> set (ev_get focalMechanismReferences [] info)) (events t))"

section \<open>Events of the database\<close>

definition load_event :: "services \<Rightarrow> database option \<Rightarrow> event option \<Rightarrow> event_info" where
  "load_event sv db e =
     load_info (getOrigin sv) (getMagnitude (base (chooser sv))) (getFocalMechanism sv) (map_option getJournal db) e EventInformation"

text \<open>\<open>loadAssocations\<close>.\<close>

definition loadAssociations :: "database option \<Rightarrow> event_info \<Rightarrow> event_info" where
  "loadAssociations db info = (case db of None \<Rightarrow> info | Some d \<Rightarrow> ev_set (loadReferences d) info)"

text \<open>
  The information about an event by its identifier: cached already, or loaded and cached; the flag
  says which.
\<close>

definition cached_or_loaded :: "services \<Rightarrow> string \<Rightarrow> tool \<Rightarrow> (bool \<times> event_info) option \<times> tool" where
  "cached_or_loaded sv eventID t =
     (case cachedEvent eventID t of
        (Some info, t) \<Rightarrow> (Some (True, info), t)
      | (None, t) \<Rightarrow>
          let info = load_event sv (query sv) (getEventByID sv eventID) in
          if ei_event info = None then (None, t)
          else (let info = loadAssociations (query sv) info in (Some (False, info), cacheEvent info t)))"

fun fetch_loop :: "services \<Rightarrow> database \<Rightarrow> origin \<Rightarrow> event list \<Rightarrow> match_result \<times> event_info option \<Rightarrow> (match_result \<times> event_info option) option" where
  "fetch_loop sv db org [] best = Some best"
| "fetch_loop sv db org (e # es) best =
     (let tmp = load_event sv (Some db) (Some e) in
      if info_valid tmp then
        (case compare sv org (loadAssociations (Some db) tmp) of
           (None, _) \<Rightarrow> None
         | (Some res, tmp) \<Rightarrow> fetch_loop sv db org es (if res > fst best then (res, Some tmp) else best))
      else fetch_loop sv db org es best)"

definition fetchMatchingEvent :: "services \<Rightarrow> origin \<Rightarrow> tool \<Rightarrow> (match_result \<times> event_info option) option" where
  "fetchMatchingEvent sv org t =
     (case query sv of
        None \<Rightarrow> Some (Nothing, None)
      | Some db \<Rightarrow>
          let startTime = ts_sub (org_time org) (eventTimeBefore (sv_cfg sv));
              endTime = ts_add (org_time org) (eventTimeAfter (sv_cfg sv));
              fetchedEvents = filter (\<lambda>e. \<not> isEventCached (ev_publicID e) t) (getEvents db startTime endTime)
          in fetch_loop sv db org fetchedEvents (Nothing, None))"

section \<open>Creating an event\<close>

text \<open>The cached events are registered objects, which \<open>Event::Find\<close> finds as well.\<close>

definition event_registered :: "services \<Rightarrow> tool \<Rightarrow> string \<Rightarrow> bool" where
  "event_registered sv t eventID \<longleftrightarrow> isEventCached eventID t \<or> isRegistered sv eventID"

definition createEvent :: "services \<Rightarrow> origin \<Rightarrow> tool \<Rightarrow> (event_info option \<times> tool) option" where
  "createEvent sv org t =
     (let exists = (case query sv of None \<Rightarrow> event_registered sv t | Some db \<Rightarrow> eventExists db) in
      case allocateEventID exists (unsetWidth sv) (Some (Some (calendar sv (org_time org)))) (eventIDPrefix (sv_cfg sv))
             (eventIDPattern (sv_cfg sv)) (Some (blacklistIDs (sv_cfg sv))) of
        None \<Rightarrow> None
      | Some eventID \<Rightarrow>
          if eventID = [] then Some (None, t)
          else if event_registered sv t eventID then Some (None, t)
          else
            let info = EventInformation\<lparr>ei_event := Some (Event eventID), ei_created := True, dirtyPickSet := True\<rparr>
            in Some (Some info, cacheEvent info t))"

text \<open>Whether an origin that matches no event may create one.\<close>

definition may_create :: "services \<Rightarrow> bool \<Rightarrow> origin \<Rightarrow> bool" where
  "may_create sv allowEventCreation org =
     (let status = (case org_evaluationMode org of None \<Rightarrow> AUTOMATIC | Some m \<Rightarrow> m) in
      if \<not> allowEventCreation then False
      else if org_blocked (base (chooser sv)) org then False
      else if status = AUTOMATIC \<and>
              (case minAutomaticScore (sv_cfg sv) of
                 Some s \<Rightarrow> score (base (chooser sv)) org < s
               | None \<Rightarrow> definingPhaseCount org < cast_s 32 (minAutomaticArrivals (sv_cfg sv))) then False
      else checkRegionFilter (regionFilter (sv_cfg sv)) org)"

section \<open>Associating an origin\<close>

text \<open>
  The event for an origin: found in the cache, or in the database, or created.  The results are the
  identifier, whether the event was created, and the new state; no identifier means that there is
  no event, or that the one found in the database has the origin already.
\<close>

definition event_for_origin :: "services \<Rightarrow> origin \<Rightarrow> bool \<Rightarrow> tool \<Rightarrow> (string option \<times> bool \<times> tool) option" where
  "event_for_origin sv org allowEventCreation t =
     (case findMatchingEvent sv org t of
        None \<Rightarrow> None
      | Some (Some k, t) \<Rightarrow> Some (Some k, False, t)
      | Some (None, t) \<Rightarrow>
          (case fetchMatchingEvent sv org t of
             None \<Rightarrow> None
           | Some (_, Some info) \<Rightarrow>
               Some (if org_publicID org \<in> set (ev_get originReferences [] info) then None else Some (info_id info),
                     False, cacheEvent info t)
           | Some (_, None) \<Rightarrow>
               if may_create sv allowEventCreation org then
                 (case createEvent sv org t of
                    None \<Rightarrow> None
                  | Some (None, t) \<Rightarrow> Some (None, False, t)
                  | Some (Some info, t) \<Rightarrow> Some (Some (info_id info), True, t))
               else Some (None, False, t)))"

text \<open>Adding the origin to the event, and choosing the preferred one.\<close>

definition associate_and_choose :: "services \<Rightarrow> origin \<Rightarrow> event_info \<Rightarrow> event_info \<times> notice list" where
  "associate_and_choose sv org info =
     (case info_associate (sv_cfg sv) (getPick sv) org info of
        (False, info) \<Rightarrow> (info, [])
      | (True, info) \<Rightarrow> choosePreferred (base (chooser sv)) org None True info)"

definition associateOrigin ::
    "services \<Rightarrow> origin \<Rightarrow> bool \<Rightarrow> tool \<Rightarrow> (string option \<times> bool \<times> tool \<times> notice list) option" where
  "associateOrigin sv org allowEventCreation t =
     (case event_for_origin sv org allowEventCreation t of
        None \<Rightarrow> None
      | Some (None, isCreated, t) \<Rightarrow> Some (None, isCreated, t, [])
      | Some (Some k, isCreated, t) \<Rightarrow>
          (case map_of (events t) k of
             None \<Rightarrow> Some (Some k, isCreated, t, [])
           | Some info \<Rightarrow>
               let (info, out) = associate_and_choose sv org info
               in Some (Some k, isCreated, put_event k info t, out)))"

definition delay_passes :: "event_filter \<Rightarrow> creation_info option \<Rightarrow> evaluation_mode option \<Rightarrow> bool" where
  "delay_passes f ci mode =
     (let mode = (case mode of None \<Rightarrow> AUTOMATIC | Some m \<Rightarrow> m) in
      \<not> (case filter_agencyID f of None \<Rightarrow> False | Some a \<Rightarrow> objectAgencyID ci \<noteq> a) \<and>
      \<not> (case filter_author f of None \<Rightarrow> False | Some a \<Rightarrow> objectAuthor ci \<noteq> a) \<and>
      \<not> (case filter_evaluationMode f of None \<Rightarrow> False | Some m \<Rightarrow> mode \<noteq> m))"

definition associateOriginCheckDelay ::
    "services \<Rightarrow> origin \<Rightarrow> tool \<Rightarrow> (string option \<times> bool \<times> tool \<times> notice list) option" where
  "associateOriginCheckDelay sv org t =
     (if delayTimeSpan (sv_cfg sv) > 0 \<and> delay_passes (delayFilter (sv_cfg sv)) (org_creationInfo org) (org_evaluationMode org)
      then Some (None, False, t\<lparr>delayBuffer := delayBuffer t @ [(DelayedOrigin org, delayTimeSpan (sv_cfg sv))]\<rparr>, [])
      else associateOrigin sv org True t)"

section \<open>Associating a focal mechanism\<close>

text \<open>The event that has an origin: in the cache, or loaded from the database and cached.\<close>

definition loaded_event :: "services \<Rightarrow> string option \<Rightarrow> (database \<Rightarrow> event option) \<Rightarrow> tool \<Rightarrow> string option \<times> tool" where
  "loaded_event sv found lookup t =
     (case found of
        Some k \<Rightarrow> (Some k, t)
      | None \<Rightarrow>
          (case query sv of
             None \<Rightarrow> (None, t)
           | Some db \<Rightarrow>
               (case lookup db of
                  None \<Rightarrow> (None, t)
                | Some e \<Rightarrow>
                    let info = loadAssociations (Some db) (load_event sv (Some db) (Some e))
                    in (Some (info_id info), cacheEvent info t))))"

definition associateFocalMechanism ::
    "services \<Rightarrow> focal_mechanism \<Rightarrow> tool \<Rightarrow> (string option \<times> tool \<times> notice list) option" where
  "associateFocalMechanism sv fm t =
     (case getOrigin sv (fm_triggeringOriginID fm) of
        None \<Rightarrow> Some (None, t, [])
      | Some triggeringOrigin \<Rightarrow>
          (case loaded_event sv (findAssociatedEvent triggeringOrigin t) (\<lambda>db. getEvent db (org_publicID triggeringOrigin)) t of
             (None, t) \<Rightarrow> Some (None, t, [])
           | (Some k, t) \<Rightarrow>
               (case map_of (events t) k of
                  None \<Rightarrow> Some (None, t, [])
                | Some info \<Rightarrow>
                    (case info_associate_fm fm info of
                       (False, info) \<Rightarrow> Some (Some k, put_event k info t, [])
                     | (True, info) \<Rightarrow>
                         (case choosePreferred_fm (chooser sv) fm info (delayEventBuffer t) of
                            None \<Rightarrow> None
                          | Some (info, out, buffer) \<Rightarrow>
                              Some (Some k, put_event k info t\<lparr>delayEventBuffer := buffer\<rparr>, out))))))"

text \<open>The origin that was changed, or got a magnitude: the registered instance takes over the attributes of another one.\<close>

definition rework_origin ::
    "services \<Rightarrow> origin \<Rightarrow> magnitude option \<Rightarrow> bool \<Rightarrow> tool \<Rightarrow> (tool \<times> notice list) option" where
  "rework_origin sv org mag realOriginUpdate t =
     (case loaded_event sv (findAssociatedEvent org t) (\<lambda>db. getEvent db (org_publicID org)) t of
        (None, t) \<Rightarrow>
          (case associateOrigin sv org True t of
             None \<Rightarrow> None
           | Some (_, _, t, out) \<Rightarrow> Some (t, out))
      | (Some k, t) \<Rightarrow>
          (case map_of (events t) k of
             None \<Rightarrow> Some (t, [])
           | Some info \<Rightarrow>
               let (info, out) =
                     (if realOriginUpdate \<and> ev_get ev_preferredOriginID [] info = org_publicID org
                      then updatePreferredOrigin (base (chooser sv)) (getOrigin sv) info
                      else choosePreferred (base (chooser sv)) org mag realOriginUpdate info)
               in Some (put_event k info t, out)))"

definition updatedOrigin ::
    "services \<Rightarrow> origin \<Rightarrow> magnitude option \<Rightarrow> bool \<Rightarrow> tool \<Rightarrow> (tool \<times> notice list) option" where
  "updatedOrigin sv org mag realOriginUpdate t =
     (let origin = registered_origin sv org; sv = with_origin origin sv
      in rework_origin sv origin mag realOriginUpdate (refresh sv t))"

section \<open>Delayed objects\<close>

text \<open>
  The first two passes of \<open>handleTimeout\<close>: the objects that have waited long enough are associated and leave
  the buffer, then those that match an event do; the latter may not create one.  \<open>timed\<close> is the
  buffer after counting down, \<open>DELAY_CHECK_INTERVAL\<close> is 1.
\<close>

definition associate_delayed ::
    "services \<Rightarrow> bool \<Rightarrow> delayed_object \<Rightarrow> tool \<Rightarrow> (bool \<times> tool \<times> notice list) option" where
  "associate_delayed sv allowEventCreation obj t =
     (case obj of
        DelayedOrigin org \<Rightarrow>
          (case associateOrigin sv org allowEventCreation t of
             None \<Rightarrow> None
           | Some (k, _, t, out) \<Rightarrow> Some (k \<noteq> None, t, out))
      | DelayedFM fm \<Rightarrow>
          (case associateFocalMechanism sv fm t of
             None \<Rightarrow> None
           | Some (k, t, out) \<Rightarrow> Some (k \<noteq> None, t, out)))"

fun first_pass ::
    "services \<Rightarrow> (delayed_object \<times> int) list \<Rightarrow> tool \<Rightarrow> ((delayed_object \<times> int) list \<times> tool \<times> notice list) option" where
  "first_pass sv [] t = Some ([], t, [])"
| "first_pass sv ((obj, timeout) # buffer) t =
     (let timeout = timeout - 1 in
      if timeout \<le> -1 then
        (case associate_delayed sv True obj t of
           None \<Rightarrow> None
         | Some (_, t, out) \<Rightarrow>
             (case first_pass sv buffer t of
                None \<Rightarrow> None
              | Some (buffer, t, out') \<Rightarrow> Some (buffer, t, out @ out')))
      else
        (case first_pass sv buffer t of
           None \<Rightarrow> None
         | Some (buffer, t, out) \<Rightarrow> Some ((obj, timeout) # buffer, t, out)))"

fun second_pass ::
    "services \<Rightarrow> (delayed_object \<times> int) list \<Rightarrow> tool \<Rightarrow> ((delayed_object \<times> int) list \<times> tool \<times> notice list) option" where
  "second_pass sv [] t = Some ([], t, [])"
| "second_pass sv ((obj, timeout) # buffer) t =
     (case associate_delayed sv False obj t of
        None \<Rightarrow> None
      | Some (done, t, out) \<Rightarrow>
          (case second_pass sv buffer t of
             None \<Rightarrow> None
           | Some (buffer, t, out') \<Rightarrow> Some (if done then buffer else (obj, timeout) # buffer, t, out @ out')))"

text \<open>The third pass: the pending choices of a focal mechanism.\<close>

fun third_pass :: "services \<Rightarrow> delay_events \<Rightarrow> tool \<Rightarrow> delay_events \<Rightarrow> (tool \<times> notice list \<times> delay_events) option" where
  "third_pass sv [] t kept = Some (t, [], kept)"
| "third_pass sv ((ident, timeout) # buffer) t kept =
     (let timeout = timeout - 1 in
      if timeout \<le> -1 then
        (let (found, t) = cached_or_loaded sv ident t
         in case found of
              None \<Rightarrow> third_pass sv buffer t kept
            | Some (_, info) \<Rightarrow>
                (case updatePreferredFocalMechanism (chooser sv) (getFocalMechanism sv) info (kept @ (ident, timeout) # buffer) of
                   None \<Rightarrow> None
                 | Some (info, out, _) \<Rightarrow>
                     (case third_pass sv buffer (put_event (info_id info) info t) kept of
                        None \<Rightarrow> None
                      | Some (t, out', kept) \<Rightarrow> Some (t, out @ out', kept))))
      else third_pass sv buffer t (kept @ [(ident, timeout)]))"

definition handleTimeout :: "services \<Rightarrow> tool \<Rightarrow> (tool \<times> notice list) option" where
  "handleTimeout sv t =
     (case first_pass sv (delayBuffer t) t of
        None \<Rightarrow> None
      | Some (buffer, t, out1) \<Rightarrow>
          (case second_pass sv buffer t of
             None \<Rightarrow> None
           | Some (buffer, t, out2) \<Rightarrow>
               (case third_pass sv (delayEventBuffer t) t [] of
                  None \<Rightarrow> None
                | Some (t, out3, kept) \<Rightarrow>
                    Some (cleanUpEventCache (t\<lparr>delayBuffer := buffer, delayEventBuffer := kept\<rparr>), out1 @ out2 @ out3))))"

section \<open>The best match\<close>

lemma compare_frame:
  "ei_event (snd (compare sv org info)) = ei_event info"
  using matchingPicks_frame(1) [of "sv_cfg sv" "getOrigin sv" "getPick sv" org info]
  by (simp add: compare_def Let_def split_def split: option.split)

lemma find_loop_best:
  "find_loop sv org es (r0, k0) = Some ((r, k), es') \<Longrightarrow>
     ((r, k) = (r0, k0) \<and> (\<forall>(_, i) \<in> set es. \<exists>r'. fst (compare sv org i) = Some r' \<and> r' \<le> r0)) \<or>
     (r0 < r \<and> (\<exists>as k' i bs. es = as @ (k', i) # bs \<and> k = Some k' \<and> fst (compare sv org i) = Some r \<and>
        (\<forall>(_, j) \<in> set as. \<exists>r'. fst (compare sv org j) = Some r' \<and> r' < r) \<and>
        (\<forall>(_, j) \<in> set bs. \<exists>r'. fst (compare sv org j) = Some r' \<and> r' \<le> r)))"
proof (induction es arbitrary: r0 k0 es')
  case (Cons e es)
  obtain k1 i1 where e: "e = (k1, i1)" by (cases e)
  obtain r1 j1 where c: "compare sv org i1 = (Some r1, j1)"
    using Cons.prems by (cases "compare sv org i1") (auto simp: e split: option.splits)
  show ?case
  proof (cases "r1 > r0")
    case True
    with Cons.prems obtain es'' where rec: "find_loop sv org es (r1, Some k1) = Some ((r, k), es'')"
      by (auto simp: e c split: option.splits)
    from Cons.IH [OF rec] show ?thesis
    proof (elim disjE conjE exE)
      assume "(r, k) = (r1, Some k1)" and "\<forall>(_, i) \<in> set es. \<exists>r'. fst (compare sv org i) = Some r' \<and> r' \<le> r1"
      then show ?thesis
        using True c by (intro disjI2 conjI exI [of _ "[]"] exI [of _ k1] exI [of _ i1] exI [of _ es]) (auto simp: e)
    next
      fix as k' i bs
      assume *: "r1 < r" "es = as @ (k', i) # bs" "k = Some k'" "fst (compare sv org i) = Some r"
        "\<forall>(_, j) \<in> set as. \<exists>r'. fst (compare sv org j) = Some r' \<and> r' < r"
        "\<forall>(_, j) \<in> set bs. \<exists>r'. fst (compare sv org j) = Some r' \<and> r' \<le> r"
      then show ?thesis
        using True c
        by (intro disjI2 conjI exI [of _ "e # as"] exI [of _ k'] exI [of _ i] exI [of _ bs]) (auto simp: e)
    qed
  next
    case False
    with Cons.prems obtain es'' where rec: "find_loop sv org es (r0, k0) = Some ((r, k), es'')"
      by (auto simp: e c split: option.splits)
    from Cons.IH [OF rec] show ?thesis
    proof (elim disjE conjE exE)
      assume "(r, k) = (r0, k0)" and "\<forall>(_, i) \<in> set es. \<exists>r'. fst (compare sv org i) = Some r' \<and> r' \<le> r0"
      then show ?thesis using False c by (intro disjI1) (auto simp: e)
    next
      fix as k' i bs
      assume *: "r0 < r" "es = as @ (k', i) # bs" "k = Some k'" "fst (compare sv org i) = Some r"
        "\<forall>(_, j) \<in> set as. \<exists>r'. fst (compare sv org j) = Some r' \<and> r' < r"
        "\<forall>(_, j) \<in> set bs. \<exists>r'. fst (compare sv org j) = Some r' \<and> r' \<le> r"
      then show ?thesis
        using False c
        by (intro disjI2 conjI exI [of _ "e # as"] exI [of _ k'] exI [of _ i] exI [of _ bs]) (auto simp: e)
    qed
  qed
qed simp

text \<open>
  C33: the cached event found for an origin is the best match and, of several best ones, the
  first in the order of their identifiers: every event before it matches less, every one after it does not
  match better, and it matches at least by location or by picks.
\<close>

theorem best_match_found:
  assumes "findMatchingEvent sv org t = Some (Some k, t')"
  shows "\<exists>as info bs r. events t = as @ (k, info) # bs \<and> fst (compare sv org info) = Some r \<and> r \<noteq> Nothing \<and>
           (\<forall>(_, j) \<in> set as. \<exists>r'. fst (compare sv org j) = Some r' \<and> r' < r) \<and>
           (\<forall>(_, j) \<in> set bs. \<exists>r'. fst (compare sv org j) = Some r' \<and> r' \<le> r)"
proof -
  obtain r es' where "find_loop sv org (events t) (Nothing, None) = Some ((r, Some k), es')"
    using assms by (auto simp: findMatchingEvent_def split: option.splits)
  from find_loop_best [OF this] obtain as i bs where
      "Nothing < r" "events t = as @ (k, i) # bs" "fst (compare sv org i) = Some r"
      "\<forall>(_, j) \<in> set as. \<exists>r'. fst (compare sv org j) = Some r' \<and> r' < r"
      "\<forall>(_, j) \<in> set bs. \<exists>r'. fst (compare sv org j) = Some r' \<and> r' \<le> r"
    by (elim disjE conjE exE) simp_all
  moreover from \<open>Nothing < r\<close> have "r \<noteq> Nothing" by (auto simp: less_match_result_def)
  ultimately show ?thesis by blast
qed

section \<open>The tool stays well formed\<close>

text \<open>The cached events are in order, and each stands under its identifier.\<close>

definition wf_tool :: "tool \<Rightarrow> bool" where
  "wf_tool t \<longleftrightarrow> keys_sorted (events t) \<and> (\<forall>(k, info) \<in> set (events t). map_option fst (info_core info) = Some k)"

lemma wf_toolI: "keys_sorted (events t) \<Longrightarrow> (\<And>k info. (k, info) \<in> set (events t) \<Longrightarrow> map_option fst (info_core info) = Some k) \<Longrightarrow> wf_tool t"
  by (auto simp: wf_tool_def)

lemma wf_tool_id: "wf_tool t \<Longrightarrow> (k, info) \<in> set (events t) \<Longrightarrow> map_option fst (info_core info) = Some k"
  by (auto simp: wf_tool_def)

lemma map_insert_set: "(k', v') \<in> set (map_insert k v es) \<Longrightarrow> (k', v') = (k, v) \<or> (k', v') \<in> set es"
  by (induction k v es rule: map_insert.induct) (auto split: if_splits)

lemma put_event_wf [inv_intro]: "wf_tool t \<Longrightarrow> map_option fst (info_core info) = Some k \<Longrightarrow> wf_tool (put_event k info t)"
  by (rule wf_toolI) (auto simp: put_event_def wf_tool_def map_insert_sorted dest!: map_insert_set)

lemma refresh_info_core [simp]: "info_core (refresh_info sv info) = info_core info"
  by (simp add: refresh_info_def Let_def info_core_def)

lemma refresh_wf [simp]: "wf_tool (refresh sv t) = wf_tool t"
  by (auto simp: wf_tool_def refresh_def keys_sorted_def comp_def case_prod_beta)

lemma with_origin_simps [simp]:
  "chooser (with_origin org sv) = chooser sv" "chooser (with_fm fm sv) = chooser sv"
  by (simp_all add: with_origin_def with_fm_def)

lemma info_core_removed [simp]: "info_core (info\<lparr>aboutToBeRemoved := b\<rparr>) = info_core info"
  by (simp add: info_core_def)

lemma info_core_id: "map_option fst (info_core info) = Some k \<Longrightarrow> info_id info = k"
  by (auto simp: info_core_def info_id_def ev_get_def ev_core_def)

lemma cacheEvent_put: "cacheEvent info t = put_event (info_id info) (info\<lparr>aboutToBeRemoved := False\<rparr>) t"
  by (simp add: cacheEvent_def put_event_def)

lemma cacheEvent_wf [inv_intro]: "wf_tool t \<Longrightarrow> ei_event info \<noteq> None \<Longrightarrow> wf_tool (cacheEvent info t)"
  unfolding cacheEvent_put
  by (rule put_event_wf) (auto simp: info_core_def ev_core_def info_id_def ev_get_def)

lemma find_loop_events:
  "find_loop sv org es best = Some (best', es') \<Longrightarrow>
     map fst es' = map fst es \<and> map (\<lambda>e. ei_event (snd e)) es' = map (\<lambda>e. ei_event (snd e)) es"
proof (induction es arbitrary: best es')
  case (Cons e es)
  obtain k info where e: "e = (k, info)" by (cases e)
  obtain r1 info1 where c: "compare sv org info = (Some r1, info1)"
    using Cons.prems by (cases "compare sv org info") (auto simp: e split: option.splits)
  have same: "ei_event info1 = ei_event info" using compare_frame [of sv org info] by (simp add: c)
  from Cons.prems obtain es'' where
      rec: "find_loop sv org es (if r1 > fst best then (r1, Some k) else best) = Some (best', es'')" and es': "es' = (k, info1) # es''"
    by (auto simp: e c split: option.splits prod.splits simp del: split_paired_All)
  from Cons.IH [OF rec] same show ?case by (simp add: e es')
qed simp

lemma map_snd_in: "map f xs = map f ys \<Longrightarrow> x \<in> set xs \<Longrightarrow> \<exists>y \<in> set ys. f x = f y"
  by (metis imageE imageI image_set)

lemma findMatchingEvent_wf:
  assumes "wf_tool t" and "findMatchingEvent sv org t = Some (r, t')"
  shows "wf_tool t'" and "map fst (events t') = map fst (events t)"
proof -
  obtain best es where loop: "find_loop sv org (events t) (Nothing, None) = Some (best, es)" and t': "t' = t\<lparr>events := es\<rparr>"
    using assms(2) by (auto simp: findMatchingEvent_def split: option.splits)
  note eq = find_loop_events [OF loop]
  then show "map fst (events t') = map fst (events t)" by (simp add: t')
  have len: "length es = length (events t)" using eq by (metis length_map)
  show "wf_tool t'"
  proof (rule wf_toolI)
    show "keys_sorted (events t')" using assms(1) eq by (simp add: t' wf_tool_def keys_sorted_def)
  next
    fix k info assume "(k, info) \<in> set (events t')"
    then obtain i where i: "i < length es" "es ! i = (k, info)" by (auto simp: t' in_set_conv_nth)
    obtain k' info' where n: "events t ! i = (k', info')" by (cases "events t ! i")
    have "k = k'" and "ei_event info = ei_event info'"
      using eq i len n by (metis fst_conv nth_map, metis snd_conv nth_map)
    moreover have "(k', info') \<in> set (events t)" using i len n by (metis nth_mem)
    ultimately show "map_option fst (info_core info) = Some k"
      using wf_tool_id [OF assms(1)] by (simp add: info_core_def)
  qed
qed

section \<open>Associated origins are referenced\<close>

lemma load_event_event: "ei_event (load_event sv db e) = e"
proof -
  have "ei_event (fold (\<lambda>entry info. snd (addJournalEntry entry info)) es info) = ei_event info" for es info
    by (rule fold_frame) (rule frame)
  then show ?thesis by (simp add: load_event_def load_info_def Let_def EventInformation_def split: option.split)
qed

lemma fetch_loop_event:
  "fetch_loop sv db org es best = Some (r, Some info) \<Longrightarrow> (\<And>i. snd best = Some i \<Longrightarrow> ei_event i \<noteq> None) \<Longrightarrow> ei_event info \<noteq> None"
proof (induction es arbitrary: best)
  case (Cons e es)
  let ?tmp = "loadAssociations (Some db) (load_event sv (Some db) (Some e))"
  show ?case
  proof (cases "info_valid (load_event sv (Some db) (Some e))")
    case False
    with Cons show ?thesis by (simp add: Let_def)
  next
    case True
    then obtain r1 i1 where c: "compare sv org ?tmp = (Some r1, i1)"
      using Cons.prems(1) by (cases "compare sv org ?tmp") (auto simp: Let_def split: option.splits)
    have i1: "ei_event i1 \<noteq> None"
      using compare_frame [of sv org ?tmp, unfolded c] by (simp add: loadAssociations_def load_event_event)
    from Cons.prems(1) True c have
        "fetch_loop sv db org es (if r1 > fst best then (r1, Some i1) else best) = Some (r, Some info)"
      by (simp add: Let_def)
    then show ?thesis by (rule Cons.IH) (use i1 Cons.prems(2) in \<open>auto split: if_splits\<close>)
  qed
qed auto

lemma fetchMatchingEvent_event:
  "fetchMatchingEvent sv org t = Some (r, Some info) \<Longrightarrow> ei_event info \<noteq> None"
  by (auto simp: fetchMatchingEvent_def Let_def split: option.splits dest: fetch_loop_event)

lemma createEvent_new:
  assumes "createEvent sv org t = Some (Some info, t')"
  shows "\<exists>eventID. eventID \<noteq> [] \<and> \<not> event_registered sv t eventID \<and> t' = cacheEvent info t \<and> ei_created info \<and>
           info = EventInformation\<lparr>ei_event := Some (Event eventID), ei_created := True, dirtyPickSet := True\<rparr>"
  using assms by (auto simp: createEvent_def Let_def split: option.splits if_splits)

lemma createEvent_none: "createEvent sv org t = Some (None, t') \<Longrightarrow> t' = t"
  by (auto simp: createEvent_def Let_def split: option.splits if_splits)

lemma cacheEvent_cached: "isEventCached (info_id info) (cacheEvent info t)"
  by (simp add: isEventCached_def cacheEvent_def)

lemma find_loop_key:
  "find_loop sv org es (r0, k0) = Some ((r, Some k), es') \<Longrightarrow> k0 = None \<Longrightarrow> k \<in> fst ` set es"
  by (drule find_loop_best) force

lemma findMatchingEvent_key:
  assumes "findMatchingEvent sv org t = Some (Some k, t')"
  shows "isEventCached k t'"
proof -
  obtain r es where loop: "find_loop sv org (events t) (Nothing, None) = Some ((r, Some k), es)" and t': "t' = t\<lparr>events := es\<rparr>"
    using assms by (auto simp: findMatchingEvent_def split: option.splits)
  have "k \<in> set (map fst es)"
    using find_loop_key [OF loop] find_loop_events [OF loop] by simp
  then show ?thesis by (auto simp: isEventCached_def t' map_of_eq_None_iff image_iff)
qed

lemma event_for_origin_wf:
  assumes "wf_tool t" and "event_for_origin sv org allowEventCreation t = Some (r, c, t')"
  shows "wf_tool t'" and "r = Some k \<Longrightarrow> isEventCached k t'"
proof -
  obtain m t1 where find: "findMatchingEvent sv org t = Some (m, t1)"
    using assms(2) by (auto simp: event_for_origin_def split: option.splits)
  have t1: "wf_tool t1" by (rule findMatchingEvent_wf [OF assms(1) find])
  have "wf_tool t' \<and> (r = Some k \<longrightarrow> isEventCached k t')"
  proof (cases m)
    case (Some k')
    with find assms(2) t1 show ?thesis
      by (auto simp: event_for_origin_def dest: findMatchingEvent_key)
  next
    case None
    obtain r1 i1 where fetch: "fetchMatchingEvent sv org t1 = Some (r1, i1)"
      using assms(2) by (auto simp: event_for_origin_def find None split: option.splits)
    show ?thesis
    proof (cases i1)
      case (Some info)
      with fetch have "ei_event info \<noteq> None" using fetchMatchingEvent_event by blast
      with t1 have "wf_tool (cacheEvent info t1)" by (rule cacheEvent_wf)
      with assms(2) Some show ?thesis
        by (auto simp: event_for_origin_def find None fetch cacheEvent_cached split: if_splits)
    next
      case i1: None
      show ?thesis
      proof (cases "may_create sv allowEventCreation org")
        case False
        with assms(2) t1 show ?thesis by (auto simp: event_for_origin_def find None fetch i1)
      next
        case True
        obtain ni t2 where create: "createEvent sv org t1 = Some (ni, t2)"
          using assms(2) True by (auto simp: event_for_origin_def find None fetch i1 split: option.splits)
        show ?thesis
        proof (cases ni)
          case None
          with assms(2) True create createEvent_none [of sv org t1 t2] t1 show ?thesis
            by (auto simp: event_for_origin_def find \<open>m = None\<close> fetch i1)
        next
          case (Some info)
          with create obtain eventID where *: "t2 = cacheEvent info t1"
              "info = EventInformation\<lparr>ei_event := Some (Event eventID), ei_created := True, dirtyPickSet := True\<rparr>"
            using createEvent_new by blast
          then have "wf_tool t2" using cacheEvent_wf [OF t1, of info] by simp
          with assms(2) True create Some * show ?thesis
            by (auto simp: event_for_origin_def find None fetch i1 cacheEvent_cached)
        qed
      qed
    qed
  qed
  then show "wf_tool t'" and "r = Some k \<Longrightarrow> isEventCached k t'" by simp_all
qed

lemma info_associate_core:
  "ei_event info = Some ev \<Longrightarrow>
     info_core (snd (info_associate c gp org info))
       = Some (ev_core (snd (add_originReference (org_publicID org) ev)))"
  by (simp add: info_core_def associate_event)

lemma associate_and_choose_core:
  assumes "processors_keep_core (base (chooser sv))" and "ei_event info = Some ev"
  shows "info_core (fst (associate_and_choose sv org info)) = Some (ev_core (snd (add_originReference (org_publicID org) ev)))"
proof -
  have "fst (info_associate (sv_cfg sv) (getPick sv) org info)" using assms(2) by (simp add: info_associate_def Let_def)
  then show ?thesis
    using choosePreferred_core [OF assms(1)] info_associate_core [OF assms(2), of "sv_cfg sv" "getPick sv" org]
    by (cases "info_associate (sv_cfg sv) (getPick sv) org info") (simp add: associate_and_choose_def)
qed

lemma map_of_set: "map_of es k = Some v \<Longrightarrow> (k, v) \<in> set es"
  by (rule map_of_SomeD)

lemma associateOrigin_core:
  assumes "wf_tool t" and "processors_keep_core (base (chooser sv))"
    and "associateOrigin sv org allowEventCreation t = Some (r, c, t', out)"
  shows "wf_tool t' \<and>
    (\<forall>k. r = Some k \<longrightarrow> (\<exists>info. map_of (events t') k = Some info \<and> org_publicID org \<in> set (ev_get originReferences [] info)))"
proof -
  obtain r1 c1 t1 where found: "event_for_origin sv org allowEventCreation t = Some (r1, c1, t1)"
    using assms(3) by (auto simp: associateOrigin_def split: option.splits)
  have wf: "wf_tool t1" and cached: "\<And>k. r1 = Some k \<Longrightarrow> isEventCached k t1"
    using event_for_origin_wf [OF assms(1) found] by blast+
  show ?thesis
  proof (cases r1)
    case None
    with assms(3) found wf show ?thesis by (simp add: associateOrigin_def)
  next
    case (Some k)
    then obtain info where info: "map_of (events t1) k = Some info"
      using cached by (auto simp: isEventCached_def)
    then have id: "map_option fst (info_core info) = Some k"
      using wf_tool_id [OF wf] map_of_set by fast
    then obtain ev where ev: "ei_event info = Some ev" "ev_publicID ev = k" by (auto simp: info_core_def ev_core_def)
    let ?i = "fst (associate_and_choose sv org info)"
    note core = associate_and_choose_core [OF assms(2) ev(1), of org]
    have t': "t' = put_event k ?i t1" and r: "r = Some k"
      using assms(3) by (auto simp: associateOrigin_def found Some info split: prod.splits)
    have "map_option fst (info_core ?i) = Some k"
      using ev(2) by (simp add: core ev_core_def add_originReference_def)
    with wf have "wf_tool t'" unfolding t' by (rule put_event_wf)
    moreover have "org_publicID org \<in> set (ev_get originReferences [] ?i)"
      using core by (auto simp: info_core_def ev_core_def ev_get_def add_originReference_set)
    ultimately show ?thesis by (simp add: r t' put_event_def)
  qed
qed

text \<open>
  C31: associating an origin keeps the cached events in order and under their identifiers, and if it
  yields an event, that event is cached and has a reference to the origin, whatever the event processors do
  to the other attributes.
\<close>

theorem origin_associated:
  assumes "wf_tool t" and "processors_keep_core (base (chooser sv))"
    and "associateOrigin sv org allowEventCreation t = Some (r, c, t', out)"
  shows "wf_tool t' \<and>
    (\<forall>k. r = Some k \<longrightarrow> (\<exists>info. map_of (events t') k = Some info \<and> org_publicID org \<in> set (ev_get originReferences [] info)))"
  by (rule associateOrigin_core [OF assms])

text \<open>
  C32: an event is created for an origin only if that is allowed: creation was asked for, no cached event matches
  the origin, its agency is not blocked, it lies in the configured regions, and an automatic origin has
  a sufficient score or, without a configured score, enough phases.  The new identifier is not that of
  a cached or another registered event.
\<close>

theorem event_creation_allowed:
  assumes "wf_tool t" and "associateOrigin sv org allowEventCreation t = Some (r, True, t', out)"
  shows "allowEventCreation \<and> \<not> org_blocked (base (chooser sv)) org \<and> checkRegionFilter (regionFilter (sv_cfg sv)) org \<and>
    (\<forall>(_, info) \<in> set (events t). fst (compare sv org info) = Some Nothing) \<and>
    (is_automatic org \<longrightarrow>
       (case minAutomaticScore (sv_cfg sv) of
          Some s \<Rightarrow> s \<le> score (base (chooser sv)) org
        | None \<Rightarrow> cast_s 32 (minAutomaticArrivals (sv_cfg sv)) \<le> definingPhaseCount org)) \<and>
    (\<exists>k. r = Some k \<and> \<not> isEventCached k t \<and> \<not> isRegistered sv k)"
proof -
  obtain r1 t1 where found: "event_for_origin sv org allowEventCreation t = Some (r1, True, t1)" and r: "r = r1"
    using assms(2) by (auto simp: associateOrigin_def Let_def split: option.splits prod.splits)
  obtain t2 where find: "findMatchingEvent sv org t = Some (None, t2)"
    using found by (auto simp: event_for_origin_def split: option.splits)
  obtain r3 where fetch: "fetchMatchingEvent sv org t2 = Some (r3, None)"
    using found by (auto simp: event_for_origin_def find split: option.splits)
  have may: "may_create sv allowEventCreation org"
    using found by (auto simp: event_for_origin_def find fetch split: if_splits)
  obtain info where create: "createEvent sv org t2 = Some (Some info, t1)" and r1: "r1 = Some (info_id info)"
    using found may by (auto simp: event_for_origin_def find fetch split: option.splits)
  obtain eventID where new: "\<not> event_registered sv t2 eventID" and info: "ei_event info = Some (Event eventID)"
    using createEvent_new [OF create] by auto
  have "map fst (events t2) = map fst (events t)" by (rule findMatchingEvent_wf [OF assms(1) find])
  then have "isEventCached eventID t2 = isEventCached eventID t"
    by (simp add: isEventCached_def map_of_eq_None_iff flip: set_map)
  with new have fresh: "\<not> isEventCached eventID t" "\<not> isRegistered sv eventID" by (auto simp: event_registered_def)
  have id: "info_id info = eventID" by (simp add: info_id_def ev_get_def info Event_def)
  obtain r4 es where loop: "find_loop sv org (events t) (Nothing, None) = Some ((r4, None), es)"
    using find by (auto simp: findMatchingEvent_def split: option.splits)
  have "\<forall>(_, i) \<in> set (events t). \<exists>r'. fst (compare sv org i) = Some r' \<and> r' \<le> Nothing"
    using find_loop_best [OF loop] by auto
  moreover have "r' \<le> Nothing \<longleftrightarrow> r' = Nothing" for r' by (cases r') (simp_all add: less_eq_match_result_def)
  ultimately have "\<forall>(_, i) \<in> set (events t). fst (compare sv org i) = Some Nothing" by fastforce
  with may fresh show ?thesis
    by (auto simp: r r1 id may_create_def Let_def is_automatic_def not_less split: option.splits if_splits)
qed

section \<open>Delayed objects are not kept for ever\<close>

lemma associate_delayed_buffer:
  "associate_delayed sv ac obj t = Some (done, t', out) \<Longrightarrow> delayBuffer t' = delayBuffer t"
proof -
  have find: "findMatchingEvent sv org t = Some (r, t') \<Longrightarrow> delayBuffer t' = delayBuffer t" for org t r t'
    by (auto simp: findMatchingEvent_def split: option.splits)
  have create: "createEvent sv org t = Some (r, t') \<Longrightarrow> delayBuffer t' = delayBuffer t" for org t r t'
    by (auto simp: createEvent_def cacheEvent_def Let_def split: option.splits if_splits)
  have origin: "event_for_origin sv org ac t = Some (r, c, t') \<Longrightarrow> delayBuffer t' = delayBuffer t" for org t r c t'
    by (auto simp: event_for_origin_def cacheEvent_def dest!: find create split: option.splits if_splits)
  have assoc: "associateOrigin sv org ac t = Some (r, c, t', out) \<Longrightarrow> delayBuffer t' = delayBuffer t" for org t r c t' out
    by (auto simp: associateOrigin_def put_event_def Let_def dest!: origin split: option.splits prod.splits)
  have loaded: "loaded_event sv found lookup t = (r, t') \<Longrightarrow> delayBuffer t' = delayBuffer t" for found lookup t r t'
    by (auto simp: loaded_event_def cacheEvent_def Let_def split: option.splits)
  have fm: "associateFocalMechanism sv fm t = Some (r, t', out) \<Longrightarrow> delayBuffer t' = delayBuffer t" for fm t r t' out
    by (auto simp: associateFocalMechanism_def put_event_def dest!: loaded split: option.splits prod.splits bool.splits)
  show "associate_delayed sv ac obj t = Some (done, t', out) \<Longrightarrow> ?thesis"
    by (auto simp: associate_delayed_def dest: assoc fm split: delayed_object.splits option.splits)
qed

lemma first_pass_counts:
  "first_pass sv buffer t = Some (buffer', t', out) \<Longrightarrow> (obj, n) \<in> set buffer' \<Longrightarrow> 0 \<le> n \<and> (obj, n + 1) \<in> set buffer"
proof (induction buffer arbitrary: t buffer' t' out)
  case (Cons e buffer)
  obtain o1 n1 where e: "e = (o1, n1)" by (cases e)
  show ?case
  proof (cases "n1 - 1 \<le> -1")
    case True
    with Cons.prems(1) obtain t1 o2 where "first_pass sv buffer t1 = Some (buffer', t', o2)"
      by (auto simp: e split: option.splits)
    with Cons.IH Cons.prems(2) show ?thesis by fastforce
  next
    case False
    with Cons.prems(1) obtain b where rec: "first_pass sv buffer t = Some (b, t', out)" and b: "buffer' = (o1, n1 - 1) # b"
      by (auto simp: e split: option.splits)
    from Cons.prems(2) consider "obj = o1" "n = n1 - 1" | "(obj, n) \<in> set b" by (auto simp: b)
    then show ?thesis
      by cases (use False Cons.IH [OF rec] in \<open>auto simp: e\<close>)
  qed
qed simp

lemma second_pass_subset: "second_pass sv buffer t = Some (buffer', t', out) \<Longrightarrow> set buffer' \<subseteq> set buffer"
proof (induction buffer arbitrary: t buffer' t' out)
  case (Cons e buffer)
  obtain obj n where e: "e = (obj, n)" by (cases e)
  from Cons.prems obtain d t1 o1 where "associate_delayed sv False obj t = Some (d, t1, o1)"
    by (auto simp: e split: option.splits)
  with Cons.prems obtain b t2 o2 where rec: "second_pass sv buffer t1 = Some (b, t2, o2)" and "buffer' = (if d then b else e # b)"
    by (auto simp: e split: option.splits)
  with Cons.IH [OF rec] show ?case by auto
qed simp

text \<open>One timeout: what is left in the buffer has waited a second more.\<close>

lemma handleTimeout_counts:
  assumes "handleTimeout sv t = Some (t', out)" and "(obj, n) \<in> set (delayBuffer t')"
  shows "0 \<le> n \<and> (obj, n + 1) \<in> set (delayBuffer t)"
proof -
  obtain b1 t1 o1 where first: "first_pass sv (delayBuffer t) t = Some (b1, t1, o1)"
    using assms(1) by (auto simp: handleTimeout_def split: option.splits)
  obtain b2 t2 o2 where second: "second_pass sv b1 t1 = Some (b2, t2, o2)"
    using assms(1) by (auto simp: handleTimeout_def first split: option.splits)
  have "delayBuffer t' = b2"
    using assms(1) by (auto simp: handleTimeout_def first second cleanUpEventCache_def split: option.splits)
  with assms(2) second_pass_subset [OF second] have "(obj, n) \<in> set b1" by auto
  with first_pass_counts [OF first] show ?thesis by blast
qed

text \<open>A sequence of timeouts, each with the surroundings of its time.\<close>

fun run_timeouts :: "services list \<Rightarrow> tool \<Rightarrow> (tool \<times> notice list) option" where
  "run_timeouts [] t = Some (t, [])"
| "run_timeouts (sv # svs) t =
     (case handleTimeout sv t of
        None \<Rightarrow> None
      | Some (t, out) \<Rightarrow>
          (case run_timeouts svs t of None \<Rightarrow> None | Some (t, out') \<Rightarrow> Some (t, out @ out')))"

lemma run_timeouts_counts:
  "run_timeouts svs t = Some (t', out) \<Longrightarrow> (obj, n) \<in> set (delayBuffer t') \<Longrightarrow>
     (svs = [] \<or> 0 \<le> n) \<and> (obj, n + int (length svs)) \<in> set (delayBuffer t)"
proof (induction svs arbitrary: t out)
  case (Cons sv svs)
  then obtain t1 o1 o2 where tick: "handleTimeout sv t = Some (t1, o1)" and rest: "run_timeouts svs t1 = Some (t', o2)"
    by (auto split: option.splits)
  note counted = Cons.IH [OF rest Cons.prems(2)]
  with handleTimeout_counts [OF tick] have "(obj, n + int (length svs) + 1) \<in> set (delayBuffer t)" and "0 \<le> n + int (length svs)"
    by blast+
  moreover have "0 \<le> n"
    using counted \<open>0 \<le> n + int (length svs)\<close> by (cases svs) auto
  ultimately show ?case by (simp add: algebra_simps)
qed simp

text \<open>
  no delayed object is kept for ever: whatever happens at the timeouts, an object whose delay
  is below the number of timeouts has left the buffer after them (it was associated, or its one
  attempt that may create an event has been made).
\<close>

lemma delayed_objects_leave:
  assumes "run_timeouts svs t = Some (t', out)" and "svs \<noteq> []"
    and "\<forall>(_, n) \<in> set (delayBuffer t). n < int (length svs)"
  shows "delayBuffer t' = []"
proof (rule ccontr)
  assume "delayBuffer t' \<noteq> []"
  then obtain obj n where "(obj, n) \<in> set (delayBuffer t')" by (cases "delayBuffer t'") auto
  from run_timeouts_counts [OF assms(1) this] assms(2) have "0 \<le> n" "(obj, n + int (length svs)) \<in> set (delayBuffer t)" by auto
  with assms(3) show False by auto
qed

section \<open>A concrete run\<close>

definition sample_services :: "origin list \<Rightarrow> int \<Rightarrow> services" where
  "sample_services orgs delay = \<lparr>chooser = \<lparr>base = (sample_env [])\<lparr>cfg := default_config True\<lparr>delayTimeSpan := delay\<rparr>\<rparr>, fmScore = (\<lambda>_. 0)\<rparr>,
     getOrigin = sample_lookup orgs, getPick = (\<lambda>_. None), getFocalMechanism = (\<lambda>_. None), findOrigin = sample_lookup orgs, findFocalMechanism = (\<lambda>_. None), getEventByID = (\<lambda>_. None), query = None,
     isRegistered = (\<lambda>_. False), calendar = (\<lambda>_. example_time), distance = (\<lambda>_ _ _ _. 0), unsetWidth = 0\<rparr>"

definition empty_tool :: tool where
  "empty_tool = \<lparr>events = [], delayBuffer = [], delayEventBuffer = []\<rparr>"

definition sample_tool :: tool where
  "sample_tool = empty_tool\<lparr>events := [(''gfz2019abcd'', sample_event\<lparr>preferredOrigin := Some (sample_located ''a'' 3)\<rparr>)]\<rparr>"

lemma best_match_found_witness:
  "\<exists>as info bs r. events sample_tool = as @ (''gfz2019abcd'', info) # bs \<and>
     fst (compare (sample_services [] 0) (sample_located ''o'' 12) info) = Some r \<and> r \<noteq> Nothing \<and>
     (\<forall>(_, j) \<in> set as. \<exists>r'. fst (compare (sample_services [] 0) (sample_located ''o'' 12) j) = Some r' \<and> r' < r) \<and>
     (\<forall>(_, j) \<in> set bs. \<exists>r'. fst (compare (sample_services [] 0) (sample_located ''o'' 12) j) = Some r' \<and> r' \<le> r)"
proof -
  have "map_option fst (findMatchingEvent (sample_services [] 0) (sample_located ''o'' 12) sample_tool) = Some (Some ''gfz2019abcd'')"
    by code_simp
  then obtain t where "findMatchingEvent (sample_services [] 0) (sample_located ''o'' 12) sample_tool = Some (Some ''gfz2019abcd'', t)"
    by auto
  then show ?thesis by (rule best_match_found)
qed

lemma sample_association:
  "map_option (\<lambda>(r, c, _). (r, c)) (associateOrigin (sample_services [] 0) (sample_located ''o'' 12) True empty_tool)
     = Some (Some ''gfz2019aaaa'', True)"
  by code_simp

lemma sample_associated:
  obtains t out where
    "associateOrigin (sample_services [] 0) (sample_located ''o'' 12) True empty_tool = Some (Some ''gfz2019aaaa'', True, t, out)"
  using sample_association
  by (cases "associateOrigin (sample_services [] 0) (sample_located ''o'' 12) True empty_tool") auto

lemma wf_empty_tool [simp]: "wf_tool empty_tool"
  by (simp add: wf_tool_def empty_tool_def keys_sorted_def)

lemma origin_associated_witness:
  "\<exists>t out info. associateOrigin (sample_services [] 0) (sample_located ''o'' 12) True empty_tool = Some (Some ''gfz2019aaaa'', True, t, out) \<and>
     wf_tool t \<and> map_of (events t) ''gfz2019aaaa'' = Some info \<and> ''o'' \<in> set (ev_get originReferences [] info)"
proof -
  obtain t out where run: "associateOrigin (sample_services [] 0) (sample_located ''o'' 12) True empty_tool = Some (Some ''gfz2019aaaa'', True, t, out)"
    by (rule sample_associated)
  have "processors_keep_core (base (chooser (sample_services [] 0)))"
    by (simp add: processors_keep_core_def sample_services_def sample_env_def)
  from origin_associated [OF wf_empty_tool this run] run show ?thesis
    by (auto simp: sample_located_def sample_origin_def)
qed

lemma event_creation_allowed_witness:
  "\<not> org_blocked (sample_env []) (sample_located ''o'' 12) \<and> 10 \<le> definingPhaseCount (sample_located ''o'' 12)"
proof -
  obtain t out where run: "associateOrigin (sample_services [] 0) (sample_located ''o'' 12) True empty_tool = Some (Some ''gfz2019aaaa'', True, t, out)"
    by (rule sample_associated)
  have 1: "is_automatic (sample_located ''o'' 12)" by code_simp
  have 2: "org_blocked (base (chooser (sample_services [] 0))) = org_blocked (sample_env [])"
    by (rule ext) (simp add: org_blocked_def isAgencyIDBlocked_def isAgencyIDAllowed_def sample_services_def sample_env_def)
  have 3: "minAutomaticScore (sv_cfg (sample_services [] 0)) = None" "cast_s 32 (minAutomaticArrivals (sv_cfg (sample_services [] 0))) = 10"
    by code_simp+
  from event_creation_allowed [OF wf_empty_tool run] 1 show ?thesis by (simp add: 2 3)
qed

text \<open>A delay of one second: the origin is associated at the second timeout.\<close>

lemma delayed_objects_leave_witness:
  "\<exists>t t' out. associateOriginCheckDelay (sample_services [] 1) (sample_located ''o'' 12) empty_tool = Some (None, False, t, []) \<and>
     delayBuffer t \<noteq> [] \<and> run_timeouts [sample_services [] 1, sample_services [] 1] t = Some (t', out) \<and>
     delayBuffer t' = [] \<and> isEventCached ''gfz2019aaaa'' t'"
proof -
  let ?sv = "sample_services [] 1"
  let ?t = "empty_tool\<lparr>delayBuffer := [(DelayedOrigin (sample_located ''o'' 12), 1)]\<rparr>"
  have 1: "associateOriginCheckDelay ?sv (sample_located ''o'' 12) empty_tool = Some (None, False, ?t, [])"
    by (simp add: associateOriginCheckDelay_def sample_services_def sample_env_def default_config_def delay_passes_def empty_tool_def)
  have "map_option (\<lambda>(t, _). map fst (events t)) (run_timeouts [?sv, ?sv] ?t) = Some [''gfz2019aaaa'']" by code_simp
  then obtain t' out where run: "run_timeouts [?sv, ?sv] ?t = Some (t', out)" and ev: "map fst (events t') = [''gfz2019aaaa'']"
    by auto
  have "delayBuffer t' = []" by (rule delayed_objects_leave [OF run]) simp_all
  moreover have "isEventCached ''gfz2019aaaa'' t'"
    using ev by (auto simp: isEventCached_def map_of_eq_None_iff)
  ultimately show ?thesis using 1 run by (intro exI [of _ ?t] exI [of _ t'] exI [of _ out]) simp
qed

end
