(* ===== verification/EventCommands.thy ===== *)
theory EventCommands
  imports EventAssociation
begin

text \<open>
  The commands that operators send to the event associator as journal entries
  (src/src/trunk/apps/processing/scevent/eventtool.cpp, \<open>handleJournalEntry\<close>, \<open>mergeEvents\<close> and what they call).

  A command works on the information about its event, which it gets from the cached events and which is put back
  there.  Its reply, whether it went well and a text, becomes a journal entry of the event.  \<open>None\<close>
  stands for undefined behaviour: going through a null pointer where an event has no preferred origin, or
  where there is no database.
\<close>

section \<open>Replies\<close>

text \<open>The entry made by \<open>createEntry\<close>, with the sender that is set afterwards.\<close>

definition createEntry :: "surroundings \<Rightarrow> string \<Rightarrow> string \<Rightarrow> string \<Rightarrow> journal_entry" where
  "createEntry env ident proc param =
     \<lparr>je_objectID = ident, je_action = proc, je_parameters = param, je_sender = sender env, je_created = Some (now env)\<rparr>"

datatype reply = OK string | Failed string

fun reply_entry :: "surroundings \<Rightarrow> journal_entry \<Rightarrow> reply \<Rightarrow> journal_entry" where
  "reply_entry env e (OK param) = createEntry env (je_objectID e) (je_action e @ ''OK'') param"
| "reply_entry env e (Failed param) = createEntry env (je_objectID e) (je_action e @ ''Failed'') param"

text \<open>A command on one event: its reply, the event afterwards, what is sent, and the pending updates.\<close>

type_synonym outcome = "(reply \<times> event_info \<times> notice list \<times> delay_events) option"

section \<open>The preferred origin\<close>

definition cmd_prefMagType :: "services \<Rightarrow> journal_entry \<Rightarrow> event_info \<Rightarrow> delay_events \<Rightarrow> outcome" where
  "cmd_prefMagType sv e info buffer =
     (let ty = preferredMagnitudeType (constr info); response = OK (if ty \<noteq> [] then ty else '':automatic:'') in
      case preferredOrigin info of
        None \<Rightarrow> None
      | Some org \<Rightarrow>
          (case choosePreferred (base (chooser sv)) org None False info of (info, out) \<Rightarrow> Some (response, info, out, buffer)))"

definition cmd_prefOrgID :: "services \<Rightarrow> journal_entry \<Rightarrow> event_info \<Rightarrow> delay_events \<Rightarrow> outcome" where
  "cmd_prefOrgID sv e info buffer =
     (let oid = preferredOriginID (constr info) in
      if oid = [] then
        (case updatePreferredOrigin (base (chooser sv)) (getOrigin sv) info of
           (info, out) \<Rightarrow> Some (OK '':automatic:'', info, out, buffer))
      else if oid \<notin> set (ev_get originReferences [] info) then Some (Failed '':unreferenced:'', info, [], buffer)
      else
        (case getOrigin sv oid of
           None \<Rightarrow> Some (Failed '':not available:'', info, [], buffer)
         | Some org \<Rightarrow>
             (case choosePreferred (base (chooser sv)) org None False info of
                (info, out) \<Rightarrow> Some (OK oid, info, out, buffer))))"

definition cmd_prefOrgEvalMode :: "services \<Rightarrow> journal_entry \<Rightarrow> event_info \<Rightarrow> delay_events \<Rightarrow> outcome" where
  "cmd_prefOrgEvalMode sv e info buffer =
     (if mode_fromString (c_str (je_parameters e)) = None \<and> je_parameters e \<noteq> [] then
        Some (Failed ('':mode '' @ CHR 0x27 # je_parameters e @ CHR 0x27 # '' unknown:''), info, [], buffer)
      else
        let response = OK (if preferredOriginEvaluationMode (constr info) = None then '':automatic:'' else je_parameters e) in
        case updatePreferredOrigin (base (chooser sv)) (getOrigin sv) info of
          (info, out) \<Rightarrow> Some (response, info, out, buffer))"

definition cmd_prefOrgAutomatic :: "services \<Rightarrow> journal_entry \<Rightarrow> event_info \<Rightarrow> delay_events \<Rightarrow> outcome" where
  "cmd_prefOrgAutomatic sv e info buffer =
     (case updatePreferredOrigin (base (chooser sv)) (getOrigin sv) info of
        (info, out) \<Rightarrow> Some (OK '':automatic mode:'', info, out, buffer))"

section \<open>Type, name and comment\<close>

text \<open>The names of the event types and their certainties.\<close>

definition EVENT_TYPES :: "string list" where
  "EVENT_TYPES = [''not existing'', ''not locatable'', ''outside of network interest'', ''earthquake'', ''induced earthquake'',
     ''quarry blast'', ''explosion'', ''chemical explosion'', ''nuclear explosion'', ''landslide'', ''rockslide'', ''snow avalanche'',
     ''debris avalanche'', ''mine collapse'', ''building collapse'', ''volcanic eruption'', ''meteor impact'', ''plane crash'',
     ''sonic boom'', ''duplicate'', ''other'', ''not reported'', ''anthropogenic event'', ''collapse'', ''cavity collapse'',
     ''accidental explosion'', ''controlled explosion'', ''experimental explosion'', ''industrial explosion'', ''mining explosion'',
     ''road cut'', ''blasting levee'', ''induced or triggered event'', ''rock burst'', ''reservoir loading'', ''fluid injection'',
     ''fluid extraction'', ''crash'', ''train crash'', ''boat crash'', ''atmospheric event'', ''sonic blast'', ''acoustic noise'',
     ''thunder'', ''avalanche'', ''hydroacoustic event'', ''ice quake'', ''slide'', ''meteorite'']"

definition TYPE_CERTAINTIES :: "string list" where
  "TYPE_CERTAINTIES = [''known'', ''suspected'']"

text \<open>
  Setting the type or the certainty: \<open>names\<close> are the values known, \<open>invalid\<close> the text for others, and
  the attribute is read and written by the two functions.
\<close>

definition set_enum ::
    "services \<Rightarrow> string list \<Rightarrow> string \<Rightarrow> (event \<Rightarrow> string option) \<Rightarrow> (string option \<Rightarrow> event \<Rightarrow> event) \<Rightarrow>
     journal_entry \<Rightarrow> event_info \<Rightarrow> delay_events \<Rightarrow> outcome" where
  "set_enum sv names invalid attr setAttr e info buffer =
     (let param = je_parameters e; et = ev_get attr None info in
      if param \<noteq> [] \<and> param \<notin> set names then Some (Failed invalid, info, [], buffer)
      else if et = None \<and> param = [] then Some (Failed '':not modified:'', info, [], buffer)
      else if et \<noteq> None \<and> param \<noteq> [] \<and> et = Some param then Some (Failed '':not modified:'', info, [], buffer)
      else
        let response = OK (if param \<noteq> [] then param else '':unset:'');
            info = ev_set (setAttr (if param \<noteq> [] then Some param else None)) info
        in case updateEvent (base (chooser sv)) True info of
             (info, out) \<Rightarrow> Some (response, info, out, buffer))"

definition cmd_type :: "services \<Rightarrow> journal_entry \<Rightarrow> event_info \<Rightarrow> delay_events \<Rightarrow> outcome" where
  "cmd_type sv = set_enum sv EVENT_TYPES '':invalid type:'' ev_type (\<lambda>v ev. ev\<lparr>ev_type := v\<rparr>)"

definition cmd_typeCertainty :: "services \<Rightarrow> journal_entry \<Rightarrow> event_info \<Rightarrow> delay_events \<Rightarrow> outcome" where
  "cmd_typeCertainty sv =
     set_enum sv TYPE_CERTAINTIES '':invalid type certainty:'' ev_typeCertainty (\<lambda>v ev. ev\<lparr>ev_typeCertainty := v\<rparr>)"

definition cmd_name :: "services \<Rightarrow> journal_entry \<Rightarrow> event_info \<Rightarrow> delay_events \<Rightarrow> outcome" where
  "cmd_name sv e info buffer =
     (case setEventName e info of
        (None, info) \<Rightarrow> Some (OK (je_parameters e), info, [], buffer)
      | (Some error, info) \<Rightarrow> Some (Failed error, info, [], buffer))"

definition cmd_opComment :: "services \<Rightarrow> journal_entry \<Rightarrow> event_info \<Rightarrow> delay_events \<Rightarrow> outcome" where
  "cmd_opComment sv e info buffer =
     (case setEventOpComment (now (base (chooser sv))) e info of
        (None, info) \<Rightarrow> Some (OK (je_parameters e), info, [], buffer)
      | (Some error, info) \<Rightarrow> Some (Failed error, info, [], buffer))"

section \<open>Focal mechanism and Mw\<close>

definition cmd_prefFocMecID :: "services \<Rightarrow> journal_entry \<Rightarrow> event_info \<Rightarrow> delay_events \<Rightarrow> outcome" where
  "cmd_prefFocMecID sv e info buffer =
     (let fmid = preferredFocalMechanismID (constr info);
          result =
            (if je_parameters e = [] then
               Some (OK '':unset:'', ev_set (\<lambda>ev. ev\<lparr>ev_preferredFocalMechanismID := []\<rparr>) info, [], buffer)
             else if fmid \<notin> set (ev_get focalMechanismReferences [] info) then Some (Failed '':unreferenced:'', info, [], buffer)
             else
               (case getFocalMechanism sv fmid of
                  None \<Rightarrow> Some (Failed '':not available:'', info, [], buffer)
                | Some fm \<Rightarrow>
                    (case choosePreferred_fm (chooser sv) fm info buffer of
                       None \<Rightarrow> None
                     | Some (info, out, buffer) \<Rightarrow> Some (OK fmid, info, out, buffer))))
      in case result of
           None \<Rightarrow> None
         | Some (response, info, out, buffer) \<Rightarrow>
             (case updateEvent (base (chooser sv)) True info of (info, out') \<Rightarrow> Some (response, info, out @ out', buffer)))"

definition cmd_prefMw :: "services \<Rightarrow> journal_entry \<Rightarrow> event_info \<Rightarrow> delay_events \<Rightarrow> outcome" where
  "cmd_prefMw sv e info buffer =
     (if je_parameters e = [] then Some (Failed '':empty parameter (true or false expected):'', info, [], buffer)
      else if je_parameters e = ''true'' \<or> je_parameters e = ''false'' then
        (case preferredOrigin info of
           None \<Rightarrow> None
         | Some org \<Rightarrow>
             (case choosePreferred (base (chooser sv)) org None False info of
                (info, out) \<Rightarrow> Some (OK (je_parameters e), info, out, buffer)))
      else Some (Failed '':true or false expected:'', info, [], buffer))"

section \<open>Moving an origin\<close>

text \<open>The event of an origin: the first cached one that refers to it, else that of the database.\<close>

definition getEventForOrigin :: "services \<Rightarrow> string \<Rightarrow> tool \<Rightarrow> event option option" where
  "getEventForOrigin sv originID t =
     (case List.find (\<lambda>(_, info). originID \<in> set (ev_get originReferences [] info)) (events t) of
        Some (_, info) \<Rightarrow> Some (ei_event info)
      | None \<Rightarrow> (case query sv of None \<Rightarrow> None | Some db \<Rightarrow> Some (getEvent db originID)))"

definition getEventForFocalMechanism :: "services \<Rightarrow> string \<Rightarrow> tool \<Rightarrow> event option option" where
  "getEventForFocalMechanism sv fmID t =
     (case List.find (\<lambda>(_, info). fmID \<in> set (ev_get focalMechanismReferences [] info)) (events t) of
        Some (_, info) \<Rightarrow> Some (ei_event info)
      | None \<Rightarrow> (case query sv of None \<Rightarrow> None | Some db \<Rightarrow> Some (getEventForFM db fmID)))"

text \<open>The focal mechanisms that the origin triggered leave its event as well.\<close>

definition triggered_by :: "services \<Rightarrow> string \<Rightarrow> string \<Rightarrow> bool" where
  "triggered_by sv originID fmid =
     (case getFocalMechanism sv fmid of None \<Rightarrow> False | Some fm \<Rightarrow> fm_triggeringOriginID fm = originID)"

text \<open>An event without its preferred origin, and without its preferred focal mechanism.\<close>

definition reset_origin :: "event_info \<Rightarrow> event_info" where
  "reset_origin info =
     (ev_set (\<lambda>ev. ev\<lparr>ev_preferredOriginID := [], ev_preferredMagnitudeID := []\<rparr>) info)
       \<lparr>preferredOrigin := None, preferredMagnitude := None\<rparr>"

definition reset_fm :: "event_info \<Rightarrow> event_info" where
  "reset_fm info =
     (ev_set (\<lambda>ev. ev\<lparr>ev_preferredFocalMechanismID := []\<rparr>) info)\<lparr>preferredFocalMechanism := None\<rparr>"

text \<open>
  Taking an origin out of an event: its reference and those of the focal mechanisms it triggered are removed, and
  what was preferred is chosen again.  The first result are the focal mechanisms that were removed.
\<close>

definition detach_origin ::
    "services \<Rightarrow> string \<Rightarrow> event_info \<Rightarrow> delay_events \<Rightarrow> (string list \<times> event_info \<times> notice list \<times> delay_events) option" where
  "detach_origin sv originID info buffer =
     (let info = ev_set (\<lambda>ev. ev\<lparr>originReferences := removeAll originID (originReferences ev)\<rparr>) info;
          fmIDsToMove = filter (triggered_by sv originID) (ev_get focalMechanismReferences [] info);
          info = ev_set (\<lambda>ev. ev\<lparr>focalMechanismReferences :=
                   filter (\<lambda>fmid. \<not> triggered_by sv originID fmid) (focalMechanismReferences ev)\<rparr>) info;
          updatedPrefFM = (ev_get ev_preferredFocalMechanismID [] info \<in> set fmIDsToMove);
          (info, out) =
            (if ev_get ev_preferredOriginID [] info = originID
             then updatePreferredOrigin (base (chooser sv)) (getOrigin sv) (reset_origin info) else (info, []))
      in if updatedPrefFM then
           (case updatePreferredFocalMechanism (chooser sv) (getFocalMechanism sv) (reset_fm info) buffer of
              None \<Rightarrow> None
            | Some (info, out', buffer) \<Rightarrow> Some (fmIDsToMove, info, out @ out', buffer))
         else Some (fmIDsToMove, info, out, buffer))"

definition add_fms :: "string list \<Rightarrow> event_info \<Rightarrow> event_info" where
  "add_fms fmIDs info = fold (\<lambda>fmid. ev_set (\<lambda>ev. snd (add_focalMechanismReference fmid ev))) fmIDs info"

text \<open>
  The commands on several events: the state with the event of the command under \<open>k\<close>.  The event from which
  the origin is taken may be the same one.
\<close>

type_synonym tool_outcome = "(reply \<times> tool \<times> notice list) option"

definition grab_into :: "services \<Rightarrow> string \<Rightarrow> origin \<Rightarrow> string list \<Rightarrow> tool \<Rightarrow> (tool \<times> notice list) option" where
  "grab_into sv k org fmIDs t =
     (case map_of (events t) k of
        None \<Rightarrow> Some (t, [])
      | Some info \<Rightarrow>
          let info = add_fms fmIDs (snd (info_associate (sv_cfg sv) (getPick sv) org info));
              (info, out) = updatePreferredOrigin (base (chooser sv)) (getOrigin sv) info
          in case updatePreferredFocalMechanism (chooser sv) (getFocalMechanism sv) info (delayEventBuffer t) of
               None \<Rightarrow> None
             | Some (info, out', buffer) \<Rightarrow> Some (put_event k info t\<lparr>delayEventBuffer := buffer\<rparr>, out @ out'))"

definition event_source :: "services \<Rightarrow> event \<Rightarrow> tool \<Rightarrow> event_info \<times> tool" where
  "event_source sv ev t =
     (case cachedEvent (ev_publicID ev) t of
        (Some info, t) \<Rightarrow> (info, t)
      | (None, t) \<Rightarrow>
          let info = loadAssociations (query sv) (load_event sv (query sv) (Some ev)) in (info, cacheEvent info t))"

definition cmd_grabOrg :: "services \<Rightarrow> journal_entry \<Rightarrow> string \<Rightarrow> tool \<Rightarrow> tool_outcome" where
  "cmd_grabOrg sv e k t =
     (case getOrigin sv (je_parameters e) of
        None \<Rightarrow> Some (Failed '':origin not found:'', t, [])
      | Some org \<Rightarrow>
          let grab = (\<lambda>fmIDs t out.
                case grab_into sv k org fmIDs t of
                  None \<Rightarrow> None
                | Some (t, out') \<Rightarrow> Some (OK (org_publicID org), t, out @ out'))
          in case getEventForOrigin sv (org_publicID org) t of
               None \<Rightarrow> None
             | Some None \<Rightarrow> grab [] t []
             | Some (Some ev) \<Rightarrow>
                 let (sourceInfo, t) = event_source sv ev t
                 in if length (ev_get originReferences [] sourceInfo) < 2
                    then Some (Failed '':last origin cannot be removed:'', t, [])
                    else
                      (case detach_origin sv (org_publicID org) sourceInfo (delayEventBuffer t) of
                         None \<Rightarrow> None
                       | Some (fmIDs, sourceInfo, out, buffer) \<Rightarrow>
                           grab fmIDs (put_event (info_id sourceInfo) sourceInfo t\<lparr>delayEventBuffer := buffer\<rparr>) out))"

definition cmd_splitOrg :: "services \<Rightarrow> journal_entry \<Rightarrow> string \<Rightarrow> event_info \<Rightarrow> tool \<Rightarrow> tool_outcome" where
  "cmd_splitOrg sv e k info t =
     (case getOrigin sv (je_parameters e) of
        None \<Rightarrow> Some (Failed '':origin not found:'', t, [])
      | Some org \<Rightarrow>
          if org_publicID org \<notin> set (ev_get originReferences [] info) then Some (Failed '':origin not associated:'', t, [])
          else if length (ev_get originReferences [] info) < 2 then Some (Failed '':last origin cannot be removed:'', t, [])
          else
            (case createEvent sv org t of
               None \<Rightarrow> None
             | Some (None, t) \<Rightarrow> Some (Failed '':running out of eventIDs:'', t, [])
             | Some (Some newInfo, t) \<Rightarrow>
                 (case detach_origin sv (org_publicID org) (info\<lparr>dirtyPickSet := True\<rparr>) (delayEventBuffer t) of
                    None \<Rightarrow> None
                  | Some (fmIDs, info, out, buffer) \<Rightarrow>
                      let newInfo = add_fms fmIDs (snd (info_associate (sv_cfg sv) (getPick sv) org newInfo));
                          (newInfo, out1) = choosePreferred (base (chooser sv)) org None True newInfo
                      in case updatePreferredFocalMechanism (chooser sv) (getFocalMechanism sv) newInfo buffer of
                           None \<Rightarrow> None
                         | Some (newInfo, out2, buffer) \<Rightarrow>
                             let newResponse = createEntry (base (chooser sv)) (info_id newInfo) ''EvNewEventOK'' ''created by command'';
                                 newInfo = snd (addJournalEntry newResponse newInfo)
                             in Some (OK (org_publicID org @ '' removed by command''),
                                      put_event (info_id newInfo) newInfo (put_event k info t)\<lparr>delayEventBuffer := buffer\<rparr>,
                                      out @ out1 @ out2 @ [JournalAdded newResponse]))))"

section \<open>Merging\<close>

text \<open>The references of the source, one after the other, become those of the target.\<close>

fun merge_origins :: "services \<Rightarrow> string list \<Rightarrow> event_info \<Rightarrow> event_info \<times> notice list" where
  "merge_origins sv [] target = (target, [])"
| "merge_origins sv (oid # oids) target =
     (let (target, out) =
            (case getOrigin sv oid of
               None \<Rightarrow> (ev_set (\<lambda>ev. snd (add_originReference oid ev)) target, [])
             | Some org \<Rightarrow>
                 let target = snd (info_associate (sv_cfg sv) (getPick sv) org target) in
                 if updatePreferredSolutionAfterMerge (sv_cfg sv)
                 then choosePreferred (base (chooser sv)) org None False target else (target, []));
          (target, out') = merge_origins sv oids target
      in (target, out @ out'))"

fun merge_fms :: "services \<Rightarrow> string list \<Rightarrow> event_info \<Rightarrow> delay_events \<Rightarrow> (event_info \<times> notice list \<times> delay_events) option" where
  "merge_fms sv [] target buffer = Some (target, [], buffer)"
| "merge_fms sv (fmid # fmids) target buffer =
     (case (case getFocalMechanism sv fmid of
              None \<Rightarrow> Some (ev_set (\<lambda>ev. snd (add_focalMechanismReference fmid ev)) target, [], buffer)
            | Some fm \<Rightarrow>
                let target = snd (info_associate_fm fm target) in
                if updatePreferredSolutionAfterMerge (sv_cfg sv)
                then choosePreferred_fm (chooser sv) fm target buffer else Some (target, [], buffer)) of
        None \<Rightarrow> None
      | Some (target, out, buffer) \<Rightarrow>
          (case merge_fms sv fmids target buffer of
             None \<Rightarrow> None
           | Some (target, out', buffer) \<Rightarrow> Some (target, out @ out', buffer)))"

text \<open>
  The source without references is loaded again, which needs a database.  Removing it from the cache of
  objects marks it (\<open>removedFromCache\<close>).
\<close>

definition load_if_empty :: "(event \<Rightarrow> 'a list) \<Rightarrow> (database \<Rightarrow> event \<Rightarrow> event) \<Rightarrow> services \<Rightarrow> event_info \<Rightarrow> event_info option" where
  "load_if_empty refs load sv info =
     (if ev_get refs [] info = [] then (case query sv of None \<Rightarrow> None | Some db \<Rightarrow> Some (ev_set (load db) info)) else Some info)"

definition mergeEvents ::
    "services \<Rightarrow> event_info \<Rightarrow> event_info \<Rightarrow> delay_events \<Rightarrow>
     (bool \<times> event_info \<times> event_info \<times> notice list \<times> delay_events) option" where
  "mergeEvents sv target source buffer =
     (if ei_event source = None \<or> ei_event target = None then Some (False, target, source, [], buffer)
      else
        case load_if_empty originReferences loadOriginReferences sv source of
          None \<Rightarrow> None
        | Some source \<Rightarrow>
            (case load_if_empty focalMechanismReferences loadFocalMechanismReferences sv source of
               None \<Rightarrow> None
             | Some source \<Rightarrow>
                 let (target, out) = merge_origins sv (ev_get originReferences [] source) target
                 in case merge_fms sv (ev_get focalMechanismReferences [] source) target buffer of
                      None \<Rightarrow> None
                    | Some (target, out', buffer) \<Rightarrow>
                        let source = (ev_set (\<lambda>ev. ev\<lparr>originReferences := [], focalMechanismReferences := []\<rparr>) source)
                                       \<lparr>aboutToBeRemoved := True\<rparr>
                        in Some (True, target, source, out @ out', buffer)))"

definition cmd_merge :: "services \<Rightarrow> journal_entry \<Rightarrow> string \<Rightarrow> event_info \<Rightarrow> tool \<Rightarrow> tool_outcome" where
  "cmd_merge sv e k info t =
     (if je_parameters e = [] then Some (Failed '':empty source event id:'', t, [])
      else if info_id info = je_parameters e then Some (Failed '':source and target are equal:'', t, [])
      else
        case cached_or_loaded sv (je_parameters e) t of
          (None, t) \<Rightarrow> Some (Failed '':source event not found:'', t, [])
        | (Some (_, sourceInfo), t) \<Rightarrow>
            (case mergeEvents sv info sourceInfo (delayEventBuffer t) of
               None \<Rightarrow> None
             | Some (False, info, sourceInfo, out, buffer) \<Rightarrow> Some (Failed '':internal error:'', t, [])
             | Some (True, info, sourceInfo, out, buffer) \<Rightarrow>
                 let srcResponse = createEntry (base (chooser sv)) (info_id sourceInfo) ''EvDeleteOK'' (''merged into '' @ info_id info);
                     sourceInfo = snd (addJournalEntry srcResponse sourceInfo)
                 in Some (OK (info_id sourceInfo),
                          put_event (info_id sourceInfo) sourceInfo (put_event k info t)\<lparr>delayEventBuffer := buffer\<rparr>,
                          out @ [JournalAdded srcResponse])))"

section \<open>New events\<close>

text \<open>The command for an origin that has no event; the result is whether the entry was handled.\<close>

definition journal_reply :: "services \<Rightarrow> journal_entry \<Rightarrow> reply \<Rightarrow> notice list" where
  "journal_reply sv e response = [JournalAdded (reply_entry (base (chooser sv)) e response)]"

definition cmd_newEvent :: "services \<Rightarrow> journal_entry \<Rightarrow> tool \<Rightarrow> (bool \<times> tool \<times> notice list) option" where
  "cmd_newEvent sv e t =
     (case getEventForOrigin sv (je_objectID e) t of
        None \<Rightarrow> None
      | Some (Some _) \<Rightarrow> Some (True, t, journal_reply sv e (Failed '':origin already associated:''))
      | Some None \<Rightarrow>
          (case getOrigin sv (je_objectID e) of
             None \<Rightarrow> Some (False, t, [])
           | Some org \<Rightarrow>
               (case createEvent sv org t of
                  None \<Rightarrow> None
                | Some (None, t) \<Rightarrow> Some (True, t, journal_reply sv e (Failed '':running out of eventIDs:''))
                | Some (Some info, t) \<Rightarrow>
                    let (info, out) = associate_and_choose sv org info;
                        response = createEntry (base (chooser sv)) (info_id info) (je_action e @ ''OK'') ''created by command'';
                        info = snd (addJournalEntry response info)
                    in Some (True, put_event (info_id info) info t,
                             out @ [JournalAdded response] @ journal_reply sv e (OK (''associated to event '' @ info_id info))))))"

section \<open>All commands\<close>

definition one_event_command ::
    "string \<Rightarrow> (services \<Rightarrow> journal_entry \<Rightarrow> event_info \<Rightarrow> delay_events \<Rightarrow> outcome) option" where
  "one_event_command action =
     map_of [(''EvPrefMagType'', cmd_prefMagType), (''EvPrefOrgID'', cmd_prefOrgID), (''EvPrefOrgEvalMode'', cmd_prefOrgEvalMode),
       (''EvPrefOrgAutomatic'', cmd_prefOrgAutomatic), (''EvType'', cmd_type), (''EvTypeCertainty'', cmd_typeCertainty),
       (''EvName'', cmd_name), (''EvOpComment'', cmd_opComment), (''EvPrefFocMecID'', cmd_prefFocMecID), (''EvPrefMw'', cmd_prefMw)] action"

text \<open>Entries that are replies themselves.\<close>

definition ends_with :: "string \<Rightarrow> string \<Rightarrow> bool" where
  "ends_with suf s \<longleftrightarrow> length s \<ge> length suf + 2 \<and> drop (length s - length suf) s = suf"

definition is_reply :: "string \<Rightarrow> bool" where
  "is_reply action \<longleftrightarrow> ends_with ''Failed'' action \<or> ends_with ''OK'' action"

text \<open>The command \<open>e\<close> on the event cached under \<open>k\<close>; no reply where nothing is to be done.\<close>

definition run_command ::
    "services \<Rightarrow> journal_entry \<Rightarrow> string \<Rightarrow> event_info \<Rightarrow> tool \<Rightarrow> (reply option \<times> tool \<times> notice list) option" where
  "run_command sv e k info t =
     (let several = map_option (\<lambda>(r, t, out). (Some r, t, out)) in
      case one_event_command (je_action e) of
        Some cmd \<Rightarrow>
          (case cmd sv e info (delayEventBuffer t) of
             None \<Rightarrow> None
           | Some (response, info, out, buffer) \<Rightarrow> Some (Some response, put_event k info t\<lparr>delayEventBuffer := buffer\<rparr>, out))
      | None \<Rightarrow>
          if je_action e = ''EvMerge'' then several (cmd_merge sv e k info t)
          else if je_action e = ''EvGrabOrg'' then several (cmd_grabOrg sv e k t)
          else if je_action e = ''EvSplitOrg'' then several (cmd_splitOrg sv e k info t)
          else if take 2 (je_action e) = ''Ev'' \<and> \<not> is_reply (je_action e)
          then Some (Some (Failed '':unknown command:''), t, [])
          else Some (None, t, []))"

text \<open>The reply is added to the journal of the event and sent.\<close>

definition add_reply :: "services \<Rightarrow> journal_entry \<Rightarrow> string \<Rightarrow> reply \<Rightarrow> tool \<Rightarrow> tool" where
  "add_reply sv e k response t =
     (case map_of (events t) k of
        None \<Rightarrow> t
      | Some info \<Rightarrow> put_event k (snd (addJournalEntry (reply_entry (base (chooser sv)) e response) info)) t)"

definition handleJournalEntry :: "services \<Rightarrow> journal_entry \<Rightarrow> tool \<Rightarrow> (bool \<times> tool \<times> notice list) option" where
  "handleJournalEntry sv e t =
     (if je_action e = ''EvNewEvent'' then cmd_newEvent sv e t
      else
        case cached_or_loaded sv (je_objectID e) t of
          (None, t) \<Rightarrow> Some (False, t, [])
        | (Some (cached, info), t) \<Rightarrow>
            let info = (if cached then snd (addJournalEntry e info) else info);
                k = info_id info
            in case run_command sv e k info (put_event k info t) of
                 None \<Rightarrow> None
               | Some (None, t, out) \<Rightarrow> Some (True, t, out)
               | Some (Some response, t, out) \<Rightarrow>
                   Some (True, add_reply sv e k response t, out @ journal_reply sv e response))"

end
