(* ===== verification/EventCommandFacts.thy ===== *)
theory EventCommandFacts
  imports EventCommands "HOL-Library.Sublist"
begin

text \<open>
  What the commands of \<open>EventCommands\<close> do: those on one event are answered, origins and references move as a
  whole, and the cached events stay in order.  Commands on one event keep its identity and its
  references (\<open>one_event_core\<close>), which the other facts rest on.
\<close>

section \<open>What commands on one event keep\<close>

lemma addJournalEntry_core [simp]: "info_core (snd (addJournalEntry e info)) = info_core info"
  by (simp add: info_core_def frame)

lemma updateEvent_core: "processors_keep_core env \<Longrightarrow> info_core (fst (updateEvent env cp info)) = info_core info"
  by (simp add: updateEvent_def call_processors_core)

lemma updatePreferredOrigin_core:
  assumes "processors_keep_core env"
  shows "info_core (fst (updatePreferredOrigin env get info)) = info_core info"
proof (cases "ei_event info")
  case (Some ev)
  have "info_core (fold (\<lambda>org info. fst (choosePreferred env org None False info)) orgs i) = info_core i" for orgs i
    by (induction orgs arbitrary: i) (simp_all add: choosePreferred_core [OF assms])
  with Some show ?thesis by (simp add: updatePreferredOrigin_fold)
qed (simp add: updatePreferredOrigin_def)

lemma finish_fm_core:
  "processors_keep_core (base env) \<Longrightarrow> finish_fm env info = Some (info', out) \<Longrightarrow> info_core info' = info_core info"
  using call_processors_core [of "base env"] choosePreferred_core [of "base env"] updateEvent_core [of "base env"]
  by (auto simp: finish_fm_def Let_def split: if_splits option.splits prod.splits) (metis fst_conv info_core_created)+

lemma set_focalMechanism_core: "info_core (set_focalMechanism fm info) = info_core info"
  by (cases "ei_event info") (simp_all add: set_focalMechanism_def info_core_def ev_core_def ev_set_def)

lemma choosePreferred_fm_core:
  "processors_keep_core (base env) \<Longrightarrow> choosePreferred_fm env fm info buffer = Some (info', out, buffer') \<Longrightarrow>
     info_core info' = info_core info"
  by (auto simp: choosePreferred_fm_def Let_def set_focalMechanism_core
      split: fm_delay.splits if_splits option.splits dest!: finish_fm_core)

lemma update_fms_core:
  "processors_keep_core (base env) \<Longrightarrow> update_fms env get is info buffer = Some (info', out, buffer') \<Longrightarrow>
     info_core info' = info_core info"
proof (induction "is" arbitrary: info out buffer)
  case (Cons i "is")
  then show ?case by (fastforce split: option.splits dest: choosePreferred_fm_core)
qed simp

lemma updatePreferredFocalMechanism_core:
  "processors_keep_core (base env) \<Longrightarrow> updatePreferredFocalMechanism env get info buffer = Some (info', out, buffer') \<Longrightarrow>
     info_core info' = info_core info"
  unfolding updatePreferredFocalMechanism_def by (rule update_fms_core)

lemma info_core_ev_set: "(\<And>ev. ev_core (f ev) = ev_core ev) \<Longrightarrow> info_core (ev_set f info) = info_core info"
  by (rule ev_set_core)

lemma setEventName_core: "info_core (snd (setEventName e info)) = info_core info"
  by (auto simp: setEventName_def add_eventDescription_def Let_def info_core_def ev_core_def split: option.splits prod.splits if_splits)

lemma setEventOpComment_core: "info_core (snd (setEventOpComment n e info)) = info_core info"
  by (auto simp: setEventOpComment_def Let_def info_core_def ev_core_def split: option.splits)

text \<open>A command that keeps the identity and the references of its event.\<close>

definition keeps_core :: "(journal_entry \<Rightarrow> event_info \<Rightarrow> delay_events \<Rightarrow> outcome) \<Rightarrow> bool" where
  "keeps_core cmd \<longleftrightarrow> (\<forall>e info buffer r info' out buffer'. cmd e info buffer = Some (r, info', out, buffer') \<longrightarrow> info_core info' = info_core info)"

lemma keeps_coreI:
  "(\<And>e info buffer r info' out buffer'. cmd e info buffer = Some (r, info', out, buffer') \<Longrightarrow> info_core info' = info_core info) \<Longrightarrow>
     keeps_core cmd"
  by (auto simp: keeps_core_def)

lemma keeps_coreD: "keeps_core cmd \<Longrightarrow> cmd e info buffer = Some (r, info', out, buffer') \<Longrightarrow> info_core info' = info_core info"
  unfolding keeps_core_def by blast

lemma set_enum_core:
  assumes env: "processors_keep_core (base (chooser sv))" and attr: "\<And>v ev. ev_core (setAttr v ev) = ev_core ev"
  shows "keeps_core (set_enum sv names invalid attr setAttr)"
proof (rule keeps_coreI)
  fix e info buffer r info' out buffer'
  assume run: "set_enum sv names invalid attr setAttr e info buffer = Some (r, info', out, buffer')"
  have "info_core (fst (updateEvent (base (chooser sv)) True (ev_set (setAttr v) info))) = info_core info" for v
    by (simp add: updateEvent_core [OF env] ev_set_core attr)
  with run show "info_core info' = info_core info"
    by (auto simp: set_enum_def Let_def split: if_splits prod.splits) (metis fst_conv)+
qed

lemma one_event_core:
  assumes env: "processors_keep_core (base (chooser sv))" and cmd: "one_event_command action = Some cmd"
  shows "keeps_core (cmd sv)"
proof -
  note choice = choosePreferred_core [OF env] updatePreferredOrigin_core [OF env]
  have mag: "keeps_core (cmd_prefMagType sv)" and mw: "keeps_core (cmd_prefMw sv)"
    by (rule keeps_coreI, auto simp: cmd_prefMagType_def cmd_prefMw_def Let_def split: option.splits prod.splits if_splits;
        metis choice(1) fst_conv)+
  have org: "keeps_core (cmd_prefOrgID sv)"
    by (rule keeps_coreI, auto simp: cmd_prefOrgID_def Let_def split: option.splits prod.splits if_splits; metis choice fst_conv)
  have mode: "keeps_core (cmd_prefOrgEvalMode sv)" and auto: "keeps_core (cmd_prefOrgAutomatic sv)"
    by (rule keeps_coreI, auto simp: cmd_prefOrgEvalMode_def cmd_prefOrgAutomatic_def Let_def split: prod.splits if_splits;
        metis choice(2) fst_conv)+
  have ty: "keeps_core (cmd_type sv)" and cert: "keeps_core (cmd_typeCertainty sv)"
    unfolding cmd_type_def cmd_typeCertainty_def by (rule set_enum_core [OF env]; simp add: ev_core_def)+
  have name: "keeps_core (cmd_name sv)" and comment: "keeps_core (cmd_opComment sv)"
    by (rule keeps_coreI, auto simp: cmd_name_def cmd_opComment_def split: prod.splits option.splits;
        metis setEventName_core setEventOpComment_core snd_conv)+
  have fm: "keeps_core (cmd_prefFocMecID sv)"
  proof (rule keeps_coreI)
    fix e info buffer r info' out buffer'
    assume "cmd_prefFocMecID sv e info buffer = Some (r, info', out, buffer')"
    then obtain i1 o1 where i1: "info_core i1 = info_core info" and upd: "updateEvent (base (chooser sv)) True i1 = (info', o1)"
      using ev_set_core [of "\<lambda>ev. ev\<lparr>ev_preferredFocalMechanismID := []\<rparr>" info]
      by (auto simp: cmd_prefFocMecID_def Let_def ev_core_def split: option.splits prod.splits if_splits)
         (blast dest: choosePreferred_fm_core [OF env])
    show "info_core info' = info_core info"
      using updateEvent_core [OF env, of True i1] by (simp add: upd i1)
  qed
  show ?thesis
    using cmd mag mw org mode auto ty cert name comment fm
    by (auto simp: one_event_command_def split: if_splits)
qed

subsection \<open>References moved\<close>

lemma info_core_fields [simp]:
  "info_core (info\<lparr>preferredOrigin := a\<rparr>) = info_core info" "info_core (info\<lparr>preferredMagnitude := b\<rparr>) = info_core info"
  "info_core (info\<lparr>preferredFocalMechanism := c\<rparr>) = info_core info" "info_core (info\<lparr>dirtyPickSet := d\<rparr>) = info_core info"
  by (simp_all add: info_core_def)

lemma ev_set_core_map:
  "(\<And>ev. ev_core (f ev) = g (ev_core ev)) \<Longrightarrow> info_core (ev_set f info) = map_option g (info_core info)"
  by (cases "ei_event info") (simp_all add: info_core_def)

lemma reset_core [simp]: "info_core (reset_origin info) = info_core info" "info_core (reset_fm info) = info_core info"
  by (simp_all add: reset_origin_def reset_fm_def ev_set_core ev_core_def)

text \<open>The references without an origin and what it triggered.\<close>

definition core_without :: "services \<Rightarrow> string \<Rightarrow> string \<times> string list \<times> string list \<Rightarrow> string \<times> string list \<times> string list" where
  "core_without sv oid c = (case c of (i, os, fs) \<Rightarrow> (i, removeAll oid os, filter (\<lambda>f. \<not> triggered_by sv oid f) fs))"

lemma detach_origin_core:
  assumes env: "processors_keep_core (base (chooser sv))" and run: "detach_origin sv oid info buffer = Some (fms, info', out, buffer')"
  shows "info_core info' = map_option (core_without sv oid) (info_core info)"
proof -
  let ?i1 = "ev_set (\<lambda>ev. ev\<lparr>originReferences := removeAll oid (originReferences ev)\<rparr>) info"
  let ?i2 = "ev_set (\<lambda>ev. ev\<lparr>focalMechanismReferences := filter (\<lambda>fmid. \<not> triggered_by sv oid fmid) (focalMechanismReferences ev)\<rparr>) ?i1"
  define i3 where "i3 = (if ev_get ev_preferredOriginID [] ?i2 = oid
     then updatePreferredOrigin (base (chooser sv)) (getOrigin sv) (reset_origin ?i2) else (?i2, []))"
  have "info_core ?i2 = map_option (core_without sv oid) (info_core info)"
    by (cases "ei_event info") (simp_all add: info_core_def ev_set_def ev_core_def core_without_def)
  then have "info_core (fst i3) = map_option (core_without sv oid) (info_core info)"
    by (simp add: i3_def updatePreferredOrigin_core [OF env])
  moreover from run have "info' = fst i3 \<or>
      (\<exists>o2. updatePreferredFocalMechanism (chooser sv) (getFocalMechanism sv) (reset_fm (fst i3)) buffer = Some (info', o2, buffer'))"
    unfolding detach_origin_def Let_def i3_def [symmetric]
    by (auto split: if_splits option.splits prod.splits)
  ultimately show ?thesis by (auto dest: updatePreferredFocalMechanism_core [OF env])
qed

lemma add_fms_core:
  "map_option (\<lambda>(i, os, _). (i, os)) (info_core (add_fms fmids info)) = map_option (\<lambda>(i, os, _). (i, os)) (info_core info)"
proof -
  have "map_option (\<lambda>(i, os, _). (i, os)) (info_core (ev_set (\<lambda>ev. snd (add_focalMechanismReference fmid ev)) i))
      = map_option (\<lambda>(i, os, _). (i, os)) (info_core i)" for fmid i
    by (cases "ei_event i") (simp_all add: info_core_def ev_set_def ev_core_def add_focalMechanismReference_def)
  then show ?thesis by (induction fmids arbitrary: info) (simp_all add: add_fms_def)
qed


section \<open>Commands are answered once\<close>


lemma cmd_newEvent_answered:
  "cmd_newEvent sv e t = Some (True, t', out) \<Longrightarrow> \<exists>r out'. out = out' @ journal_reply sv e r"
proof -
  have "\<exists>r out'. a @ x # journal_reply sv e q = out' @ journal_reply sv e r" for a x q
    by (rule exI [of _ q], rule exI [of _ "a @ [x]"]) simp
  then show "cmd_newEvent sv e t = Some (True, t', out) \<Longrightarrow> ?thesis"
    by (auto simp: cmd_newEvent_def Let_def split: option.splits prod.splits)
qed

lemma one_event_no_reply: "one_event_command action = Some cmd \<Longrightarrow> \<not> is_reply action \<and> take 2 action = ''Ev''"
  by (auto simp: one_event_command_def is_reply_def ends_with_def split: if_splits)

lemma run_command_reply:
  assumes "run_command sv e k info t = Some (r, t', out)"
  shows "r = None \<longleftrightarrow> take 2 (je_action e) \<noteq> ''Ev'' \<or> is_reply (je_action e)" and "r = None \<Longrightarrow> out = []"
proof -
  have ev: "take 2 ''EvMerge'' = ''Ev'' \<and> \<not> is_reply ''EvMerge''" "take 2 ''EvGrabOrg'' = ''Ev'' \<and> \<not> is_reply ''EvGrabOrg''"
      "take 2 ''EvSplitOrg'' = ''Ev'' \<and> \<not> is_reply ''EvSplitOrg''" by code_simp+
  show "r = None \<longleftrightarrow> take 2 (je_action e) \<noteq> ''Ev'' \<or> is_reply (je_action e)"
  proof (cases "one_event_command (je_action e)")
    case (Some cmd)
    with assms one_event_no_reply [OF Some] show ?thesis by (auto simp: run_command_def Let_def split: option.splits)
  next
    case None
    consider "je_action e = ''EvMerge''" | "je_action e = ''EvGrabOrg''" | "je_action e = ''EvSplitOrg''"
      | "je_action e \<noteq> ''EvMerge''" "je_action e \<noteq> ''EvGrabOrg''" "je_action e \<noteq> ''EvSplitOrg''" by argo
    then show ?thesis
      by cases (use assms None ev in \<open>auto simp: run_command_def Let_def simp del: take_Suc_Cons split: if_splits\<close>)
  qed
  show "r = None \<Longrightarrow> out = []"
    using assms by (auto simp: run_command_def Let_def split: option.splits if_splits)
qed
















lemma map_of_put [simp]: "map_of (events (put_event k info t)) k = Some info"
  by (simp add: put_event_def)


section \<open>Origins move as a whole\<close>

text \<open>The cached events that refer to an origin.\<close>

definition holders :: "string \<Rightarrow> tool \<Rightarrow> string set" where
  "holders oid t = {k. \<exists>info. map_of (events t) k = Some info \<and> oid \<in> set (ev_get originReferences [] info)}"

lemma holders_put:
  "holders oid (put_event k info t) = (if oid \<in> set (ev_get originReferences [] info) then insert k (holders oid t) else holders oid t - {k})"
  by (auto simp: holders_def put_event_def)

lemma holders_buffer [simp]: "holders oid (t\<lparr>delayEventBuffer := b\<rparr>) = holders oid t"
  by (simp add: holders_def)

lemma refs_core: "ev_get originReferences [] info = (case info_core info of None \<Rightarrow> [] | Some (_, os, _) \<Rightarrow> os)"
  by (auto simp: ev_get_def info_core_def ev_core_def split: option.split)

lemma id_core: "info_id info = (case info_core info of None \<Rightarrow> [] | Some (i, _) \<Rightarrow> i)"
  by (auto simp: info_id_def ev_get_def info_core_def ev_core_def split: option.split)

lemma cachedEvent_core:
  "cachedEvent k t = (Some info', t') \<Longrightarrow>
     \<exists>info. map_of (events t) k = Some info \<and> info_core info' = info_core info \<and> t' = put_event k info' t"
  by (auto simp: cachedEvent_def put_event_def Let_def split: option.splits if_splits)

lemma cachedEvent_none: "cachedEvent k t = (None, t') \<Longrightarrow> t' = t \<and> map_of (events t) k = None"
  by (auto simp: cachedEvent_def Let_def split: option.splits)

lemma cached_put: "isEventCached k t \<Longrightarrow> isEventCached k (put_event k' info t)"
  by (auto simp: isEventCached_def put_event_def)

lemma find_holder:
  "List.find (\<lambda>(_, info). oid \<in> set (ev_get originReferences [] info)) (events t) = None \<Longrightarrow> holders oid t = {}"
  by (fastforce simp: find_None_iff holders_def dest: map_of_SomeD)

lemma detached_refs:
  assumes "processors_keep_core (base (chooser sv))" and "detach_origin sv oid info buffer = Some (fms, info', out, buffer')"
  shows "oid \<notin> set (ev_get originReferences [] info')" and "info_id info' = info_id info"
  using detach_origin_core [OF assms]
  by (auto simp: refs_core id_core core_without_def split: option.splits prod.splits)

lemma detached_id:
  assumes "processors_keep_core (base (chooser sv))" and "detach_origin sv oid info buffer = Some (fms, info', out, buffer')"
  shows "map_option fst (info_core info') = map_option fst (info_core info)"
  using detach_origin_core [OF assms] by (cases "info_core info") (auto simp: core_without_def)

lemma grab_into_holders:
  assumes env: "processors_keep_core (base (chooser sv))" and run: "grab_into sv k org fmIDs t = Some (t', out)"
    and k: "isEventCached k t" and wf: "wf_tool t"
  shows "holders (org_publicID org) t' = insert k (holders (org_publicID org) t)"
proof -
  obtain info where info: "map_of (events t) k = Some info" using k by (auto simp: isEventCached_def)
  then have "ei_event info \<noteq> None" using wf_tool_id [OF wf] map_of_SomeD by (fastforce simp: info_core_def)
  then obtain ev where ev: "ei_event info = Some ev" by auto
  let ?i = "add_fms fmIDs (snd (info_associate (sv_cfg sv) (getPick sv) org info))"
  have assoc: "org_publicID org \<in> set (ev_get originReferences [] ?i)"
    using add_fms_core [of fmIDs "snd (info_associate (sv_cfg sv) (getPick sv) org info)"] info_associate_core [OF ev, of "sv_cfg sv" "getPick sv" org]
    by (auto simp: refs_core ev_core_def add_originReference_set split: option.splits)
  obtain i2 out2 where i2: "updatePreferredOrigin (base (chooser sv)) (getOrigin sv) ?i = (i2, out2)" by fastforce
  then have c2: "info_core i2 = info_core ?i" using updatePreferredOrigin_core [OF env, of "getOrigin sv" ?i] by simp
  from run obtain i3 out3 b where i3: "updatePreferredFocalMechanism (chooser sv) (getFocalMechanism sv) i2 (delayEventBuffer t) = Some (i3, out3, b)"
      and t': "t' = put_event k i3 t\<lparr>delayEventBuffer := b\<rparr>"
    by (auto simp: grab_into_def info i2 Let_def split: option.splits)
  have "info_core i3 = info_core ?i" using updatePreferredFocalMechanism_core [OF env i3] c2 by simp
  then have "org_publicID org \<in> set (ev_get originReferences [] i3)" using assoc by (simp add: refs_core)
  then show ?thesis by (simp add: t' holders_put)
qed


lemma put_known: "map_option fst (info_core info) = Some k \<Longrightarrow> info_id info = k"
  by (auto simp: id_core split: option.splits)

lemma wf_tool_buffer [simp]: "wf_tool (t\<lparr>delayEventBuffer := b\<rparr>) = wf_tool t" "isEventCached k (t\<lparr>delayEventBuffer := b\<rparr>) = isEventCached k t"
  by (simp_all add: wf_tool_def isEventCached_def)

text \<open>
  The event from which an origin is taken, and the state once it is out of it: no event refers to the
  origin any more if at most one did.
\<close>

lemma source_detached:
  assumes wf: "wf_tool t" and env: "processors_keep_core (base (chooser sv))"
    and source: "map_option fst (info_core source) = Some s" "wf_tool t1" "holders oid t1 \<subseteq> {s}"
    and det: "detach_origin sv oid source buffer = Some (fms, source', out, buffer')"
  shows "holders oid (put_event (info_id source') source' t1) = {}" and "wf_tool (put_event (info_id source') source' t1)"
proof -
  note id = detached_refs [OF env det]
  have s: "info_id source' = s" using id(2) put_known [OF source(1)] by simp
  show "holders oid (put_event (info_id source') source' t1) = {}"
    using source(3) id(1) by (auto simp: holders_put s)
  have "map_option fst (info_core source') = Some s" using detached_id [OF env det] source(1) by simp
  then show "wf_tool (put_event (info_id source') source' t1)" using source(2) s by (simp add: put_event_wf)
qed

lemma found_holder:
  assumes "List.find (\<lambda>(_, info). oid \<in> set (ev_get originReferences [] info)) (events t) = Some (c, i)" and "wf_tool t"
  shows "map_of (events t) c = Some i" and "c \<in> holders oid t" and "ei_event i = Some ev \<Longrightarrow> c = ev_publicID ev"
proof -
  from assms(1) obtain n where "n < length (events t)" "events t ! n = (c, i)" and oid: "oid \<in> set (ev_get originReferences [] i)"
    by (auto simp: find_Some_iff)
  then have mem: "(c, i) \<in> set (events t)" by (metis nth_mem)
  then show m: "map_of (events t) c = Some i" using assms(2) by (auto simp: wf_tool_def keys_sorted_distinct intro!: map_of_is_SomeI)
  then show "c \<in> holders oid t" using oid by (simp add: holders_def)
  show "ei_event i = Some ev \<Longrightarrow> c = ev_publicID ev"
    using wf_tool_id [OF assms(2) mem] by (simp add: info_core_def ev_core_def)
qed

text \<open>The source of a grabbed origin is cached, and the only event with that origin.\<close>

lemma event_source_holds:
  assumes wf: "wf_tool t" and one: "holders oid t \<subseteq> {s}"
    and found: "getEventForOrigin sv oid t = Some (Some ev)" and source: "event_source sv ev t = (si, t1)"
  shows "\<exists>s1. map_option fst (info_core si) = Some s1 \<and> wf_tool t1 \<and> holders oid t1 \<subseteq> {s1} \<and> (isEventCached k t \<longrightarrow> isEventCached k t1)"
proof (cases "cachedEvent (ev_publicID ev) t")
  case (Pair found' t0)
  let ?find = "List.find (\<lambda>(_, info). oid \<in> set (ev_get originReferences [] info)) (events t)"
  have held: "holders oid t \<subseteq> {ev_publicID ev}" "?find \<noteq> None \<Longrightarrow> isEventCached (ev_publicID ev) t"
  proof -
    have "holders oid t \<subseteq> {ev_publicID ev} \<and> (?find \<noteq> None \<longrightarrow> isEventCached (ev_publicID ev) t)"
    proof (cases ?find)
      case None
      then show ?thesis by (simp add: find_holder)
    next
      case (Some p)
      obtain c i where p: "p = (c, i)" by (cases p)
      have "ei_event i = Some ev" using found Some p by (simp add: getEventForOrigin_def)
      with found_holder [OF Some [unfolded p] wf] one show ?thesis by (auto simp: isEventCached_def)
    qed
    then show "holders oid t \<subseteq> {ev_publicID ev}" "?find \<noteq> None \<Longrightarrow> isEventCached (ev_publicID ev) t" by blast+
  qed
  show ?thesis
  proof (cases found')
    case None
    with Pair have t0: "t0 = t" "map_of (events t) (ev_publicID ev) = None" using cachedEvent_none by blast+
    with Pair None source have t1: "t1 = cacheEvent si t" and "si = loadAssociations (query sv) (load_event sv (query sv) (Some ev))"
      by (auto simp: event_source_def Let_def)
    then have ev: "ei_event si \<noteq> None" by (auto simp: loadAssociations_def load_event_event split: option.split)
    then have id: "map_option fst (info_core si) = Some (info_id si)"
      by (auto simp: info_core_def ev_core_def info_id_def ev_get_def)
    have "?find = None" using held(2) t0(2) by (cases ?find) (auto simp: isEventCached_def)
    then have "holders oid t = {}" by (rule find_holder)
    then show ?thesis
      using id cacheEvent_wf [OF wf ev] by (auto simp: t1 cacheEvent_put holders_put cached_put)
  next
    case (Some info)
    with Pair obtain i where i: "map_of (events t) (ev_publicID ev) = Some i" "info_core info = info_core i" "t0 = put_event (ev_publicID ev) info t"
      using cachedEvent_core by blast
    have t1: "si = info" "t1 = t0" using source Pair Some by (auto simp: event_source_def)
    have id: "map_option fst (info_core si) = Some (ev_publicID ev)"
      using wf_tool_id [OF wf] map_of_SomeD [OF i(1)] i(2) t1 by auto
    have "holders oid t1 = holders oid t"
      using i by (auto simp: t1 holders_put) (auto simp: holders_def refs_core)
    moreover have "wf_tool t1" unfolding t1 i(3) using wf id t1 by (simp add: put_event_wf)
    moreover have "isEventCached k t1" if "isEventCached k t" unfolding t1 i(3) by (rule cached_put [OF that])
    ultimately show ?thesis using id held(1) by blast
  qed
qed

text \<open>
  C38: an origin that is grabbed by a command moves as a whole: if at most one cached event referred to it
  before, the event that grabs it is the only one afterwards, whatever had to be loaded from the database for it.
\<close>

theorem grabbed_origin_moves:
  assumes wf: "wf_tool t" and env: "processors_keep_core (base (chooser sv))" and k: "isEventCached k t"
    and org: "getOrigin sv (je_parameters e) = Some org" and one: "holders (org_publicID org) t \<subseteq> {s}"
    and run: "cmd_grabOrg sv e k t = Some (OK param, t', out)"
  shows "holders (org_publicID org) t' = {k}"
proof -
  let ?oid = "org_publicID org"
  have grab: "holders ?oid t' = {k}"
    if "grab_into sv k org fmIDs t2 = Some (t', out2)" "isEventCached k t2" "wf_tool t2" "holders ?oid t2 = {}" for fmIDs t2 out2
    using grab_into_holders [OF env that(1-3)] that(4) by simp
  obtain found where found: "getEventForOrigin sv ?oid t = Some found"
    using run by (auto simp: cmd_grabOrg_def org split: option.splits)
  show ?thesis
  proof (cases found)
    case None
    have "holders ?oid t = {}"
    proof (cases "List.find (\<lambda>(_, info). ?oid \<in> set (ev_get originReferences [] info)) (events t)")
      case None
      then show ?thesis by (rule find_holder)
    next
      case (Some p)
      with found \<open>found = None\<close> obtain c i where "p = (c, i)" "ei_event i = None"
        by (auto simp: getEventForOrigin_def split: prod.splits)
      with found_holder(1) [of ?oid t c i] Some wf have "map_of (events t) c = Some i" "ei_event i = None" by auto
      then show ?thesis using wf_tool_id [OF wf] map_of_SomeD by (fastforce simp: info_core_def)
    qed
    moreover obtain out2 where "grab_into sv k org [] t = Some (t', out2)"
      using run found None by (auto simp: cmd_grabOrg_def org split: option.splits)
    ultimately show ?thesis using grab k wf by blast
  next
    case (Some ev)
    obtain si t1 where si: "event_source sv ev t = (si, t1)" by fastforce
    from run found Some si obtain fms si' out1 b out2 where
        det: "detach_origin sv ?oid si (delayEventBuffer t1) = Some (fms, si', out1, b)"
        and into: "grab_into sv k org fms (put_event (info_id si') si' t1\<lparr>delayEventBuffer := b\<rparr>) = Some (t', out2)"
      by (auto simp: cmd_grabOrg_def org Let_def split: option.splits prod.splits if_splits)
    obtain s1 where s1: "map_option fst (info_core si) = Some s1" "wf_tool t1" "holders ?oid t1 \<subseteq> {s1}" "isEventCached k t1"
      using event_source_holds [OF wf one found [unfolded Some] si] k by blast
    note gone = source_detached [OF wf env s1(1-3) det]
    show ?thesis
      by (rule grab [OF into]) (simp_all add: gone cached_put s1(4))
  qed
qed


section \<open>Merged events\<close>

definition refs_of :: "event_info \<Rightarrow> string set \<times> string set" where
  "refs_of info = (set (ev_get originReferences [] info), set (ev_get focalMechanismReferences [] info))"

lemma fms_core: "ev_get focalMechanismReferences [] info = (case info_core info of None \<Rightarrow> [] | Some (_, _, fs) \<Rightarrow> fs)"
  by (auto simp: ev_get_def info_core_def ev_core_def split: option.split)

lemma refs_of_core: "info_core i = info_core j \<Longrightarrow> refs_of i = refs_of j"
  by (simp add: refs_of_def refs_core fms_core)

text \<open>The cache gives the object of an identifier.\<close>

definition cache_ok :: "services \<Rightarrow> bool" where
  "cache_ok sv \<longleftrightarrow> (\<forall>oid org. getOrigin sv oid = Some org \<longrightarrow> org_publicID org = oid) \<and>
     (\<forall>fmid fm. getFocalMechanism sv fmid = Some fm \<longrightarrow> fm_publicID fm = fmid)"

lemma associated:
  assumes "info_core info = Some (i, os, fs)"
  shows "\<exists>os'. info_core (snd (info_associate c gp org info)) = Some (i, os', fs) \<and> set os' = insert (org_publicID org) (set os)"
    and "\<exists>fs'. info_core (snd (info_associate_fm fm info)) = Some (i, os, fs') \<and> set fs' = insert (fm_publicID fm) (set fs)"
    and "\<exists>os'. info_core (ev_set (\<lambda>ev. snd (add_originReference oid ev)) info) = Some (i, os', fs) \<and> set os' = insert oid (set os)"
    and "\<exists>fs'. info_core (ev_set (\<lambda>ev. snd (add_focalMechanismReference fmid ev)) info) = Some (i, os, fs') \<and> set fs' = insert fmid (set fs)"
proof -
  obtain ev where ev: "ei_event info = Some ev" "ev_core ev = (i, os, fs)" using assms by (auto simp: info_core_def)
  show "\<exists>os'. info_core (snd (info_associate c gp org info)) = Some (i, os', fs) \<and> set os' = insert (org_publicID org) (set os)"
    using info_associate_core [OF ev(1), of c gp org] ev(2) by (auto simp: ev_core_def add_originReference_def)
  show "\<exists>fs'. info_core (snd (info_associate_fm fm info)) = Some (i, os, fs') \<and> set fs' = insert (fm_publicID fm) (set fs)"
    using ev by (auto simp: info_associate_fm_def info_core_def ev_core_def add_focalMechanismReference_def)
  show "\<exists>os'. info_core (ev_set (\<lambda>ev. snd (add_originReference oid ev)) info) = Some (i, os', fs) \<and> set os' = insert oid (set os)"
    using ev by (auto simp: ev_set_def info_core_def ev_core_def add_originReference_def)
  show "\<exists>fs'. info_core (ev_set (\<lambda>ev. snd (add_focalMechanismReference fmid ev)) info) = Some (i, os, fs') \<and> set fs' = insert fmid (set fs)"
    using ev by (auto simp: ev_set_def info_core_def ev_core_def add_focalMechanismReference_def)
qed

lemma merge_origins_core:
  assumes env: "processors_keep_core (base (chooser sv))"
  shows "info_core target = Some (i, os, fs) \<Longrightarrow>
    \<exists>os'. info_core (fst (merge_origins sv oids target)) = Some (i, os', fs) \<and> (cache_ok sv \<longrightarrow> set os' = set os \<union> set oids)"
proof (induction oids arbitrary: target os)
  case (Cons oid oids)
  define t1 where "t1 = (case getOrigin sv oid of
      None \<Rightarrow> (ev_set (\<lambda>ev. snd (add_originReference oid ev)) target, [])
    | Some org \<Rightarrow>
        let target = snd (info_associate (sv_cfg sv) (getPick sv) org target) in
        if updatePreferredSolutionAfterMerge (sv_cfg sv)
        then choosePreferred (base (chooser sv)) org None False target else (target, []))"
  have "\<exists>os1. info_core (fst t1) = Some (i, os1, fs) \<and> (cache_ok sv \<longrightarrow> set os1 = insert oid (set os))"
  proof (cases "getOrigin sv oid")
    case None
    then show ?thesis using associated(3) [OF Cons.prems, of oid] by (auto simp: t1_def)
  next
    case (Some org)
    then have "info_core (fst t1) = info_core (snd (info_associate (sv_cfg sv) (getPick sv) org target))"
      by (simp add: t1_def Let_def choosePreferred_core [OF env])
    with Some show ?thesis
      using associated(1) [OF Cons.prems, of "sv_cfg sv" "getPick sv" org] by (auto simp: cache_ok_def)
  qed
  then obtain os1 where os1: "info_core (fst t1) = Some (i, os1, fs)" "cache_ok sv \<longrightarrow> set os1 = insert oid (set os)" by blast
  from Cons.IH [OF os1(1)] obtain os2 where
      "info_core (fst (merge_origins sv oids (fst t1))) = Some (i, os2, fs)" "cache_ok sv \<longrightarrow> set os2 = set os1 \<union> set oids" by blast
  with os1(2) show ?case
    unfolding merge_origins.simps t1_def [symmetric] by (auto simp: Let_def split_def)
qed simp

lemma merge_fms_core:
  assumes env: "processors_keep_core (base (chooser sv))"
  shows "info_core target = Some (i, os, fs) \<Longrightarrow> merge_fms sv fmids target buffer = Some (target', out, buffer') \<Longrightarrow>
    \<exists>fs'. info_core target' = Some (i, os, fs') \<and> (cache_ok sv \<longrightarrow> set fs' = set fs \<union> set fmids)"
proof (induction fmids arbitrary: target fs buffer out)
  case (Cons fmid fmids)
  from Cons.prems(2) obtain t1 o1 b1 o2 where
      first: "(case getFocalMechanism sv fmid of
         None \<Rightarrow> Some (ev_set (\<lambda>ev. snd (add_focalMechanismReference fmid ev)) target, [], buffer)
       | Some fm \<Rightarrow>
           let target = snd (info_associate_fm fm target) in
           if updatePreferredSolutionAfterMerge (sv_cfg sv)
           then choosePreferred_fm (chooser sv) fm target buffer else Some (target, [], buffer)) = Some (t1, o1, b1)"
      and rest: "merge_fms sv fmids t1 b1 = Some (target', o2, buffer')"
    by (auto split: option.splits)
  have "\<exists>fs1. info_core t1 = Some (i, os, fs1) \<and> (cache_ok sv \<longrightarrow> set fs1 = insert fmid (set fs))"
  proof (cases "getFocalMechanism sv fmid")
    case None
    then show ?thesis using first associated(4) [OF Cons.prems(1), of fmid] by auto
  next
    case (Some fm)
    with first have "info_core t1 = info_core (snd (info_associate_fm fm target))"
      by (auto simp: Let_def split: if_splits dest: choosePreferred_fm_core [OF env])
    with Some show ?thesis using associated(2) [OF Cons.prems(1), of fm] by (auto simp: cache_ok_def)
  qed
  then obtain fs1 where fs1: "info_core t1 = Some (i, os, fs1)" "cache_ok sv \<longrightarrow> set fs1 = insert fmid (set fs)" by blast
  from Cons.IH [OF fs1(1) rest] fs1(2) show ?case by auto
qed simp

lemma mergeEvents_core:
  assumes env: "processors_keep_core (base (chooser sv))" and target: "info_core target = Some (i, os, fs)"
    and run: "mergeEvents sv target source buffer = Some (True, target', source', out, buffer')"
  obtains s1 s2 os' fs' where "load_if_empty originReferences loadOriginReferences sv source = Some s1"
    and "load_if_empty focalMechanismReferences loadFocalMechanismReferences sv s1 = Some s2"
    and "info_core target' = Some (i, os', fs')"
    and "cache_ok sv \<Longrightarrow> set os' = set os \<union> fst (refs_of s2) \<and> set fs' = set fs \<union> snd (refs_of s2)"
    and "source' = (ev_set (\<lambda>ev. ev\<lparr>originReferences := [], focalMechanismReferences := []\<rparr>) s2)\<lparr>aboutToBeRemoved := True\<rparr>"
proof -
  from run obtain s1 s2 where s: "load_if_empty originReferences loadOriginReferences sv source = Some s1"
      "load_if_empty focalMechanismReferences loadFocalMechanismReferences sv s1 = Some s2"
    by (auto simp: mergeEvents_def split: if_splits option.splits)
  obtain t1 o1 where t1: "merge_origins sv (ev_get originReferences [] s2) target = (t1, o1)" by fastforce
  obtain os' where os': "info_core t1 = Some (i, os', fs)" "cache_ok sv \<longrightarrow> set os' = set os \<union> fst (refs_of s2)"
    using merge_origins_core [OF env target, of "ev_get originReferences [] s2"] by (auto simp: t1 refs_of_def)
  from run s t1 obtain o2 where fms: "merge_fms sv (ev_get focalMechanismReferences [] s2) t1 buffer = Some (target', o2, buffer')"
      and "source' = (ev_set (\<lambda>ev. ev\<lparr>originReferences := [], focalMechanismReferences := []\<rparr>) s2)\<lparr>aboutToBeRemoved := True\<rparr>"
    by (auto simp: mergeEvents_def split: if_splits option.splits)
  with that s os' merge_fms_core [OF env os'(1) fms] show ?thesis by (auto simp: refs_of_def)
qed

text \<open>
  C39: merging loses no reference: the target refers to everything that it referred to before and
  to everything that the source referred to (as loaded from the database where it had no references), and to
  nothing else; the source refers to nothing and is marked for removal.
\<close>

theorem merge_collects_references:
  assumes env: "processors_keep_core (base (chooser sv))" and cache: "cache_ok sv"
    and load: "load_if_empty originReferences loadOriginReferences sv source = Some s1"
      "load_if_empty focalMechanismReferences loadFocalMechanismReferences sv s1 = Some loaded"
    and run: "mergeEvents sv target source buffer = Some (True, target', source', out, buffer')"
  shows "refs_of target' = (fst (refs_of target) \<union> fst (refs_of loaded), snd (refs_of target) \<union> snd (refs_of loaded)) \<and>
    refs_of source' = ({}, {}) \<and> aboutToBeRemoved source'"
proof -
  have "ei_event target \<noteq> None" using run by (auto simp: mergeEvents_def split: if_splits)
  then obtain i os fs where target: "info_core target = Some (i, os, fs)" by (auto simp: info_core_def ev_core_def)
  obtain os' fs' where "info_core target' = Some (i, os', fs')"
      and "set os' = set os \<union> fst (refs_of loaded)" "set fs' = set fs \<union> snd (refs_of loaded)"
      and source': "source' = (ev_set (\<lambda>ev. ev\<lparr>originReferences := [], focalMechanismReferences := []\<rparr>) loaded)\<lparr>aboutToBeRemoved := True\<rparr>"
    by (rule mergeEvents_core [OF env target run]) (use load cache in auto)
  then have "refs_of target' = (fst (refs_of target) \<union> fst (refs_of loaded), snd (refs_of target) \<union> snd (refs_of loaded))"
    using target by (simp add: refs_of_def refs_core fms_core)
  moreover have "refs_of source' = ({}, {})"
    unfolding source' by (cases "ei_event loaded") (simp_all add: refs_of_def ev_get_def ev_set_def)
  ultimately show ?thesis by (simp add: source')
qed

section \<open>Commands keep the cached events in order\<close>

lemma cached_known:
  assumes "wf_tool t" and "cachedEvent k t = (Some info, t')"
  shows "map_option fst (info_core info) = Some k" and "wf_tool t'" and "t' = put_event k info t" and "info_id info = k"
proof -
  obtain i0 where i0: "map_of (events t) k = Some i0" "info_core info = info_core i0" "t' = put_event k info t"
    using cachedEvent_core [OF assms(2)] by blast
  show id: "map_option fst (info_core info) = Some k" using wf_tool_id [OF assms(1) map_of_SomeD [OF i0(1)]] i0(2) by simp
  then show "wf_tool t'" and "t' = put_event k info t" and "info_id info = k"
    using put_event_wf [OF assms(1)] i0(3) by (simp_all add: put_known)
qed

lemma loaded_known:
  assumes "wf_tool t" and "info = loadAssociations db (load_event sv db' (Some ev))"
  shows "map_option fst (info_core info) = Some (info_id info)" and "wf_tool (cacheEvent info t)"
proof -
  have ev: "ei_event info \<noteq> None" using assms(2) by (auto simp: loadAssociations_def load_event_event split: option.split)
  then show "map_option fst (info_core info) = Some (info_id info)"
    by (auto simp: info_core_def ev_core_def info_id_def ev_get_def)
  show "wf_tool (cacheEvent info t)" by (rule cacheEvent_wf [OF assms(1) ev])
qed

lemma cached_or_loaded_wf:
  assumes "wf_tool t" and "cached_or_loaded sv k t = (Some (cached, info), t')"
  shows "wf_tool t' \<and> map_option fst (info_core info) = Some (info_id info) \<and> isEventCached (info_id info) t'"
proof (cases "cachedEvent k t")
  case (Pair found t1)
  show ?thesis
  proof (cases found)
    case (Some i)
    with Pair cached_known [OF assms(1), of k i t1] assms(2) show ?thesis
      by (auto simp: cached_or_loaded_def isEventCached_def put_event_def)
  next
    case None
    then have t1: "t1 = t" using cachedEvent_none Pair by blast
    obtain ev where "getEventByID sv k = Some ev" and info: "info = loadAssociations (query sv) (load_event sv (query sv) (Some ev))"
        "t' = cacheEvent info t"
      using assms(2) Pair None t1 by (auto simp: cached_or_loaded_def Let_def load_event_event split: if_splits)
    show ?thesis using loaded_known [OF assms(1) info(1)] cacheEvent_cached by (simp add: info(2))
  qed
qed

lemma cached_or_loaded_none: "cached_or_loaded sv k t = (None, t') \<Longrightarrow> t' = t"
  by (auto simp: cached_or_loaded_def Let_def split: prod.splits option.splits if_splits dest: cachedEvent_none)

lemma event_source_wf:
  assumes "wf_tool t" and "event_source sv ev t = (info, t')"
  shows "wf_tool t' \<and> map_option fst (info_core info) = Some (info_id info)"
proof (cases "cachedEvent (ev_publicID ev) t")
  case (Pair found t1)
  show ?thesis
  proof (cases found)
    case (Some i)
    with Pair cached_known(1,2,4) [OF assms(1), of "ev_publicID ev" i t1] assms(2) show ?thesis by (auto simp: event_source_def)
  next
    case None
    then have t1: "t1 = t" using cachedEvent_none Pair by blast
    have info: "info = loadAssociations (query sv) (load_event sv (query sv) (Some ev))" "t' = cacheEvent info t"
      using assms(2) Pair None t1 by (auto simp: event_source_def Let_def)
    show ?thesis using loaded_known [OF assms(1) info(1)] by (simp add: info(2))
  qed
qed

lemma put_event_wf_id: "wf_tool t \<Longrightarrow> map_option fst (info_core info) = Some (info_id info) \<Longrightarrow> wf_tool (put_event (info_id info) info t)"
  by (rule put_event_wf)

lemma grab_into_wf:
  assumes wf: "wf_tool t" and env: "processors_keep_core (base (chooser sv))" and run: "grab_into sv k org fmIDs t = Some (t', out)"
  shows "wf_tool t'"
proof (cases "map_of (events t) k")
  case None
  with run wf show ?thesis by (simp add: grab_into_def)
next
  case (Some info)
  then have id: "map_option fst (info_core info) = Some k" using wf_tool_id [OF wf] map_of_SomeD by fast
  let ?i = "add_fms fmIDs (snd (info_associate (sv_cfg sv) (getPick sv) org info))"
  obtain i2 out2 where i2: "updatePreferredOrigin (base (chooser sv)) (getOrigin sv) ?i = (i2, out2)" by fastforce
  from run obtain i3 out3 b where i3: "updatePreferredFocalMechanism (chooser sv) (getFocalMechanism sv) i2 (delayEventBuffer t) = Some (i3, out3, b)"
      and t': "t' = put_event k i3 t\<lparr>delayEventBuffer := b\<rparr>"
    by (auto simp: grab_into_def Some i2 Let_def split: option.splits)
  have "info_core i3 = info_core ?i"
    using updatePreferredFocalMechanism_core [OF env i3] updatePreferredOrigin_core [OF env, of "getOrigin sv" ?i] i2 by simp
  moreover have "map_option fst (info_core ?i) = Some k"
    using add_fms_core [of fmIDs "snd (info_associate (sv_cfg sv) (getPick sv) org info)"] id
      associated(1) [of info k _ _ "sv_cfg sv" "getPick sv" org]
    by (fastforce split: prod.splits)
  ultimately show ?thesis using wf by (simp add: t' put_event_wf)
qed

lemma cmd_grabOrg_wf:
  assumes wf: "wf_tool t" and env: "processors_keep_core (base (chooser sv))" and run: "cmd_grabOrg sv e k t = Some (r, t', out)"
  shows "wf_tool t'"
proof (cases "getOrigin sv (je_parameters e)")
  case None
  with run wf show ?thesis by (simp add: cmd_grabOrg_def)
next
  case org: (Some org)
  obtain found where found: "getEventForOrigin sv (org_publicID org) t = Some found"
    using run by (auto simp: cmd_grabOrg_def org split: option.splits)
  show ?thesis
  proof (cases found)
    case None
    with run found grab_into_wf [OF wf env] show ?thesis by (auto simp: cmd_grabOrg_def org split: option.splits)
  next
    case (Some ev)
    obtain si t1 where si: "event_source sv ev t = (si, t1)" by fastforce
    note known = event_source_wf [OF wf si]
    show ?thesis
    proof (cases "length (ev_get originReferences [] si) < 2")
      case True
      with run found Some si known show ?thesis by (simp add: cmd_grabOrg_def org Let_def)
    next
      case False
      with run found Some si obtain fms si' out1 b out2 where
          det: "detach_origin sv (org_publicID org) si (delayEventBuffer t1) = Some (fms, si', out1, b)"
          and into: "grab_into sv k org fms (put_event (info_id si') si' t1\<lparr>delayEventBuffer := b\<rparr>) = Some (t', out2)"
        by (auto simp: cmd_grabOrg_def org Let_def split: option.splits prod.splits)
      have "map_option fst (info_core si') = Some (info_id si')"
        using detached_id [OF env det] known detached_refs(2) [OF env det] by simp
      with known show ?thesis using grab_into_wf [OF _ env into] by (simp add: put_event_wf)
    qed
  qed
qed

lemma createEvent_known:
  assumes "wf_tool t" and "createEvent sv org t = Some (Some info, t')"
  shows "wf_tool t'" and "info_core info = Some (info_id info, [], [])"
proof -
  obtain eventID where t': "t' = cacheEvent info t" and
      info: "info = EventInformation\<lparr>ei_event := Some (Event eventID), ei_created := True, dirtyPickSet := True\<rparr>"
    using createEvent_new [OF assms(2)] by blast
  show "wf_tool t'" unfolding t' by (rule cacheEvent_wf [OF assms(1)]) (simp add: info)
  show "info_core info = Some (info_id info, [], [])"
    by (simp add: info info_core_def ev_core_def info_id_def ev_get_def Event_def)
qed

lemma add_fms_id: "map_option fst (info_core (add_fms fmids info)) = map_option fst (info_core info)"
  using add_fms_core [of fmids info] by (cases "info_core info"; cases "info_core (add_fms fmids info)") auto

lemma cmd_splitOrg_wf:
  assumes wf: "wf_tool t" and env: "processors_keep_core (base (chooser sv))" and id: "map_option fst (info_core info) = Some k"
    and run: "cmd_splitOrg sv e k info t = Some (r, t', out)"
  shows "wf_tool t'"
proof (cases "getOrigin sv (je_parameters e)")
  case None
  with run wf show ?thesis by (simp add: cmd_splitOrg_def)
next
  case org: (Some org)
  show ?thesis
  proof (cases "org_publicID org \<in> set (ev_get originReferences [] info) \<and> \<not> length (ev_get originReferences [] info) < 2")
    case False
    with run wf show ?thesis by (auto simp: cmd_splitOrg_def org split: if_splits)
  next
    case split: True
    with run obtain ni t1 where create: "createEvent sv org t = Some (ni, t1)" by (auto simp: cmd_splitOrg_def org split: option.splits)
    show ?thesis
    proof (cases ni)
      case None
      with run split create createEvent_none [of sv org t t1] wf show ?thesis by (simp add: cmd_splitOrg_def org)
    next
      case (Some new)
      note known = createEvent_known [OF wf create [unfolded Some]]
      obtain fms i1 o1 b1 where det: "detach_origin sv (org_publicID org) (info\<lparr>dirtyPickSet := True\<rparr>) (delayEventBuffer t1) = Some (fms, i1, o1, b1)"
        using run split create Some by (auto simp: cmd_splitOrg_def org split: option.splits)
      define n1 where "n1 = add_fms fms (snd (info_associate (sv_cfg sv) (getPick sv) org new))"
      obtain n2 o2 where n2: "choosePreferred (base (chooser sv)) org None True n1 = (n2, o2)" by fastforce
      obtain n3 o3 b3 where n3: "updatePreferredFocalMechanism (chooser sv) (getFocalMechanism sv) n2 b1 = Some (n3, o3, b3)"
        using run split create Some det n2 unfolding n1_def by (auto simp: cmd_splitOrg_def org Let_def split: option.splits prod.splits)
      define n4 where "n4 = snd (addJournalEntry (createEntry (base (chooser sv)) (info_id n3) ''EvNewEventOK'' ''created by command'') n3)"
      have t': "t' = put_event (info_id n4) n4 (put_event k i1 t1)\<lparr>delayEventBuffer := b3\<rparr>"
        using run split create Some det n2 n3 unfolding n1_def n4_def by (auto simp: cmd_splitOrg_def org Let_def split: prod.splits)
      have "map_option fst (info_core i1) = Some k" using detached_id [OF env det] id by simp
      moreover have "map_option fst (info_core n1) = Some (info_id new)"
        using associated(1) [OF known(2), of "sv_cfg sv" "getPick sv" org] unfolding n1_def add_fms_id by auto
      then have "map_option fst (info_core n4) = Some (info_id new)"
        using updatePreferredFocalMechanism_core [OF env n3] choosePreferred_core [OF env, of org None True n1] n2
        by (simp add: n4_def)
      ultimately show ?thesis using known(1) by (simp add: t' put_event_wf put_known)
    qed
  qed
qed

lemma load_if_empty_event: "load_if_empty refs load sv info = Some info' \<Longrightarrow> (ei_event info' = None) = (ei_event info = None)"
  by (auto simp: load_if_empty_def ev_set_def split: if_splits option.splits)

lemma event_id: "ei_event info \<noteq> None \<Longrightarrow> map_option fst (info_core info) = Some (info_id info)"
  by (auto simp: info_core_def ev_core_def info_id_def ev_get_def)

lemma cmd_merge_wf:
  assumes wf: "wf_tool t" and env: "processors_keep_core (base (chooser sv))" and id: "map_option fst (info_core info) = Some k"
    and run: "cmd_merge sv e k info t = Some (r, t', out)"
  shows "wf_tool t'"
proof (cases "je_parameters e = [] \<or> info_id info = je_parameters e")
  case True
  with run wf show ?thesis by (auto simp: cmd_merge_def split: if_splits)
next
  case several: False
  obtain found t1 where found: "cached_or_loaded sv (je_parameters e) t = (found, t1)" by fastforce
  show ?thesis
  proof (cases found)
    case None
    with run several found cached_or_loaded_none wf show ?thesis by (auto simp: cmd_merge_def)
  next
    case (Some p)
    obtain c source where p: "p = (c, source)" by (cases p)
    note known = cached_or_loaded_wf [OF wf found [unfolded Some p]]
    obtain ok target' source' o1 b1 where merge: "mergeEvents sv info source (delayEventBuffer t1) = Some (ok, target', source', o1, b1)"
      using run several found Some p by (auto simp: cmd_merge_def split: option.splits)
    show ?thesis
    proof (cases ok)
      case False
      with run several found Some p merge known show ?thesis by (auto simp: cmd_merge_def)
    next
      case True
      define s2 where "s2 = snd (addJournalEntry (createEntry (base (chooser sv)) (info_id source') ''EvDeleteOK'' (''merged into '' @ info_id target')) source')"
      have t': "t' = put_event (info_id s2) s2 (put_event k target' t1)\<lparr>delayEventBuffer := b1\<rparr>"
        using run several found Some p merge True by (simp add: cmd_merge_def Let_def s2_def)
      obtain os fs where target: "info_core info = Some (k, os, fs)" using id by auto
      have "map_option fst (info_core target') = Some k \<and> ei_event source' \<noteq> None"
      proof (rule mergeEvents_core [OF env target])
        show "mergeEvents sv info source (delayEventBuffer t1) = Some (True, target', source', o1, b1)" using merge True by simp
      next
        fix s1 s3 os' fs'
        assume *: "load_if_empty originReferences loadOriginReferences sv source = Some s1"
          "load_if_empty focalMechanismReferences loadFocalMechanismReferences sv s1 = Some s3"
          "info_core target' = Some (k, os', fs')"
          "source' = (ev_set (\<lambda>ev. ev\<lparr>originReferences := [], focalMechanismReferences := []\<rparr>) s3)\<lparr>aboutToBeRemoved := True\<rparr>"
        have "ei_event source \<noteq> None" using known by (auto simp: info_core_def)
        then show "map_option fst (info_core target') = Some k \<and> ei_event source' \<noteq> None"
          using load_if_empty_event [OF *(1)] load_if_empty_event [OF *(2)] *(3,4) by (simp add: ev_set_def)
      qed
      moreover from this have "map_option fst (info_core s2) = Some (info_id s2)"
        by (intro event_id) (simp add: s2_def frame)
      ultimately show ?thesis using known by (simp add: t' put_event_wf)
    qed
  qed
qed

lemma run_command_wf:
  assumes wf: "wf_tool t" and env: "processors_keep_core (base (chooser sv))" and id: "map_option fst (info_core info) = Some k"
    and run: "run_command sv e k info t = Some (r, t', out)"
  shows "wf_tool t'"
proof (cases "one_event_command (je_action e)")
  case (Some cmd)
  then obtain response i1 o1 b1 where "cmd sv e info (delayEventBuffer t) = Some (response, i1, o1, b1)"
      and t': "t' = put_event k i1 t\<lparr>delayEventBuffer := b1\<rparr>"
    using run by (auto simp: run_command_def Let_def split: option.splits)
  then have "info_core i1 = info_core info" using keeps_coreD [OF one_event_core [OF env Some]] by blast
  with wf id show ?thesis by (simp add: t' put_event_wf)
next
  case None
  then consider (merge) r1 where "cmd_merge sv e k info t = Some (r1, t', out)" | (grab) r1 where "cmd_grabOrg sv e k t = Some (r1, t', out)"
    | (split) r1 where "cmd_splitOrg sv e k info t = Some (r1, t', out)" | "t' = t"
    using run by (auto simp: run_command_def Let_def split: if_splits)
  then show ?thesis
    by cases (use cmd_merge_wf [OF wf env id] cmd_grabOrg_wf [OF wf env] cmd_splitOrg_wf [OF wf env id] wf in blast)+
qed

lemma add_reply_wf: "wf_tool t \<Longrightarrow> wf_tool (add_reply sv e k response t)"
  by (auto simp: add_reply_def split: option.split intro!: put_event_wf dest!: map_of_SomeD) (auto dest: wf_tool_id)

lemma cmd_newEvent_wf:
  assumes wf: "wf_tool t" and env: "processors_keep_core (base (chooser sv))" and run: "cmd_newEvent sv e t = Some (b, t', out)"
  shows "wf_tool t'"
proof -
  obtain found where found: "getEventForOrigin sv (je_objectID e) t = Some found"
    using run by (auto simp: cmd_newEvent_def split: option.splits)
  show ?thesis
  proof (cases "found = None \<and> getOrigin sv (je_objectID e) \<noteq> None")
    case False
    with run found wf show ?thesis by (auto simp: cmd_newEvent_def split: option.splits)
  next
    case True
    then obtain org where org: "getOrigin sv (je_objectID e) = Some org" by auto
    obtain ni t1 where create: "createEvent sv org t = Some (ni, t1)"
      using run found True org by (auto simp: cmd_newEvent_def split: option.splits)
    show ?thesis
    proof (cases ni)
      case None
      with run found True org create createEvent_none [of sv org t t1] wf show ?thesis by (auto simp: cmd_newEvent_def)
    next
      case (Some new)
      note known = createEvent_known [OF wf create [unfolded Some]]
      then obtain ev where ev: "ei_event new = Some ev" "ev_publicID ev = info_id new" by (auto simp: info_core_def ev_core_def)
      obtain i1 o1 where i1: "associate_and_choose sv org new = (i1, o1)" by fastforce
      have "map_option fst (info_core i1) = Some (info_id new)"
        using associate_and_choose_core [OF env ev(1), of org] ev(2) i1 by (simp add: ev_core_def add_originReference_def)
      moreover have "\<exists>entry. t' = put_event (info_id (snd (addJournalEntry entry i1))) (snd (addJournalEntry entry i1)) t1"
        using run found True org create Some i1 by (auto simp: cmd_newEvent_def Let_def)
      ultimately show ?thesis using known(1) by (auto simp: put_known intro!: put_event_wf)
    qed
  qed
qed

lemma handleJournalEntry_wf:
  assumes wf: "wf_tool t" and env: "processors_keep_core (base (chooser sv))" and run: "handleJournalEntry sv e t = Some (b, t', out)"
  shows "wf_tool t'"
proof (cases "je_action e = ''EvNewEvent''")
  case True
  with run show ?thesis using cmd_newEvent_wf [OF wf env] by (auto simp: handleJournalEntry_def)
next
  case False
  obtain found t1 where found: "cached_or_loaded sv (je_objectID e) t = (found, t1)" by fastforce
  show ?thesis
  proof (cases found)
    case None
    with run False found cached_or_loaded_none wf show ?thesis by (auto simp: handleJournalEntry_def)
  next
    case (Some p)
    obtain c i0 where p: "p = (c, i0)" by (cases p)
    note known = cached_or_loaded_wf [OF wf found [unfolded Some p]]
    define info where "info = (if c then snd (addJournalEntry e i0) else i0)"
    have id: "map_option fst (info_core info) = Some (info_id info)" using known by (simp add: info_def id_core)
    have "(case run_command sv e (info_id info) info (put_event (info_id info) info t1) of
        None \<Rightarrow> None
      | Some (None, t, out) \<Rightarrow> Some (True, t, out)
      | Some (Some response, t, out) \<Rightarrow> Some (True, add_reply sv e (info_id info) response t, out @ journal_reply sv e response)) = Some (b, t', out)"
      using run by (simp only: handleJournalEntry_def False if_False found Some p Let_def info_def prod.case option.case)
    then obtain r t2 o1 where cmd: "run_command sv e (info_id info) info (put_event (info_id info) info t1) = Some (r, t2, o1)"
        and "t' = (case r of None \<Rightarrow> t2 | Some response \<Rightarrow> add_reply sv e (info_id info) response t2)"
      by (auto split: option.splits)
    then show ?thesis
      using run_command_wf [OF put_event_wf [OF _ id] env id cmd] known add_reply_wf by (auto split: option.splits)
  qed
qed

section \<open>Concrete commands\<close>

definition sample_command :: "string \<Rightarrow> string \<Rightarrow> string \<Rightarrow> journal_entry" where
  "sample_command ident action param = \<lparr>je_objectID = ident, je_action = action, je_parameters = param,
     je_sender = ''scolv@localhost'', je_created = Some (Timeval 2000 0)\<rparr>"

definition sample_origins :: "origin list" where
  "sample_origins = [(sample_located ''a'' 3)\<lparr>org_time := Timeval 5000 0\<rparr>, sample_located ''b'' 3, sample_located ''c'' 4]"

definition sample_source :: event_info where
  "sample_source = EventInformation\<lparr>ei_event := Some (Event ''gfz2019efgh''\<lparr>originReferences := [''b'', ''c''],
     focalMechanismReferences := [''f'']\<rparr>), preferredOrigin := Some (sample_located ''b'' 3)\<rparr>"

definition sample_target :: event_info where
  "sample_target = EventInformation\<lparr>ei_event := Some (Event ''gfz2019abcd''\<lparr>originReferences := [''a'']\<rparr>),
     preferredOrigin := Some ((sample_located ''a'' 3)\<lparr>org_time := Timeval 5000 0\<rparr>)\<rparr>"

definition two_events :: tool where
  "two_events = empty_tool\<lparr>events := [(''gfz2019abcd'', sample_target), (''gfz2019efgh'', sample_source)]\<rparr>"

abbreviation sample_sv :: services where
  "sample_sv \<equiv> sample_services sample_origins 0"

lemma sample_sv_core: "processors_keep_core (base (chooser sample_sv))"
  by (simp add: processors_keep_core_def sample_services_def sample_env_def)

lemma sample_cache_ok: "cache_ok sample_sv"
  by (auto simp: cache_ok_def sample_services_def sample_lookup_def find_Some_iff)

lemma wf_two_events: "wf_tool two_events"
proof (rule wf_toolI)
  show "keys_sorted (events two_events)" by code_simp
qed (auto simp: two_events_def empty_tool_def info_core_def ev_core_def sample_target_def sample_source_def Event_def)


lemma grabbed_origin_moves_witness:
  "\<exists>t out. cmd_grabOrg sample_sv (sample_command ''gfz2019abcd'' ''EvGrabOrg'' ''c'') ''gfz2019abcd'' two_events = Some (OK ''c'', t, out) \<and>
     holders ''c'' two_events = {''gfz2019efgh''} \<and> holders ''c'' t = {''gfz2019abcd''}"
proof -
  let ?e = "sample_command ''gfz2019abcd'' ''EvGrabOrg'' ''c''"
  have "map_option fst (cmd_grabOrg sample_sv ?e ''gfz2019abcd'' two_events) = Some (OK ''c'')" by code_simp
  then obtain t out where run: "cmd_grabOrg sample_sv ?e ''gfz2019abcd'' two_events = Some (OK ''c'', t, out)" by auto
  have org: "getOrigin sample_sv (je_parameters ?e) = Some (sample_located ''c'' 4)" and id: "org_publicID (sample_located ''c'' 4) = ''c''"
    and k: "isEventCached ''gfz2019abcd'' two_events" by code_simp+
  have before: "holders ''c'' two_events = {''gfz2019efgh''}"
    by (auto simp: holders_def two_events_def empty_tool_def sample_target_def sample_source_def ev_get_def Event_def split: if_splits)
  from grabbed_origin_moves [OF wf_two_events sample_sv_core k org _ run] before run show ?thesis by (simp add: id)
qed

lemma merge_collects_references_witness:
  "\<exists>target source out buffer. mergeEvents sample_sv sample_target sample_source [] = Some (True, target, source, out, buffer) \<and>
     refs_of target = ({''a'', ''b'', ''c''}, {''f''}) \<and> refs_of source = ({}, {}) \<and> aboutToBeRemoved source"
proof -
  have "map_option fst (mergeEvents sample_sv sample_target sample_source []) = Some True" by code_simp
  then obtain target source out buffer where
      run: "mergeEvents sample_sv sample_target sample_source [] = Some (True, target, source, out, buffer)" by auto
  have load: "load_if_empty originReferences loadOriginReferences sample_sv sample_source = Some sample_source"
    "load_if_empty focalMechanismReferences loadFocalMechanismReferences sample_sv sample_source = Some sample_source"
    by (simp_all add: load_if_empty_def sample_source_def ev_get_def)
  have refs: "refs_of sample_target = ({''a''}, {})" "refs_of sample_source = ({''b'', ''c''}, {''f''})"
    by (simp_all add: refs_of_def ev_get_def sample_target_def sample_source_def Event_def)
  from merge_collects_references [OF sample_sv_core sample_cache_ok load run] run show ?thesis by (simp add: refs insert_commute)
qed

text \<open>
  The source of a merge stays cached until the end of the message, with its preferred origin: until then an origin
  of the same message still matches it.
\<close>

lemma merged_event_still_matches:
  "case handleJournalEntry sample_sv (sample_command ''gfz2019abcd'' ''EvMerge'' ''gfz2019efgh'') two_events of
     Some (True, t, _) \<Rightarrow> map_option fst (findMatchingEvent sample_sv (sample_located ''d'' 0) t) = Some (Some ''gfz2019efgh'')
   | _ \<Rightarrow> False"
  by code_simp

text \<open>An origin that the event does not refer to is answered as a failure, but the choice is fixed nevertheless.\<close>

lemma unreferenced_origin_fixed:
  "case handleJournalEntry sample_sv (sample_command ''gfz2019abcd'' ''EvPrefOrgID'' ''zzz'') two_events of
     Some (True, t, [JournalAdded r]) \<Rightarrow> je_action r = ''EvPrefOrgIDFailed'' \<and>
       map_option (\<lambda>i. fixedOrigin (constr i)) (map_of (events t) ''gfz2019abcd'') = Some True
   | _ \<Rightarrow> False"
  by code_simp

text \<open>A constraint that the entry sets is answered as an unknown command.\<close>

lemma unknown_command_applied:
  "case handleJournalEntry sample_sv (sample_command ''gfz2019abcd'' ''EvPrefFocEvalMode'' ''manual'') two_events of
     Some (True, t, [JournalAdded r]) \<Rightarrow> je_action r = ''EvPrefFocEvalModeFailed'' \<and>
       map_option (\<lambda>i. preferredFocalMechanismEvaluationMode (constr i)) (map_of (events t) ''gfz2019abcd'') = Some (Some MANUAL)
   | _ \<Rightarrow> False"
  by code_simp

end
