(* ===== verification/EventMessages.thy ===== *)
theory EventMessages
  imports EventCommandFacts
begin

text \<open>
  How the event associator works on a message (src/src/trunk/apps/processing/scevent/eventtool.cpp, \<open>handleMessage\<close>,
  \<open>addObject\<close>, \<open>updateObject\<close>, \<open>removeObject\<close>): all changes are applied to the objects, then each is looked
  at, which fills lists of things to do, then the lists are worked off and the events that were marked leave
  the cache.

  Origins, magnitudes and focal mechanisms are values given by the lookups of \<open>services\<close>, as they are once all changes
  are applied; of the events the cached ones are part of the state, so that changes are applied to them here, and what
  they and the delayed objects hold is brought up to date first.  Two pointers are the same if the classes
  and the addresses of the objects are: two instances with one identifier are two objects.
\<close>

section \<open>Changes and things to do\<close>

datatype change =
    AddOrigin origin
  | AddMagnitude string
  | AddFocalMechanism focal_mechanism
  | AddMomentTensor string string
  | AddOriginReference string string
  | AddFocalMechanismReference string string
  | AddEvent event
  | AddJournalEntry journal_entry
  | UpdateOrigin origin
  | UpdateFocalMechanism focal_mechanism
  | UpdateMagnitude string magnitude
  | UpdateEvent event
  | RemoveOriginReference string string
  | RemoveFocalMechanismReference string string

text \<open>An entry: the object, which may be a null pointer, and what triggered it.\<close>

type_synonym todo_entry = "delayed_object option \<times> magnitude option"

fun object_id :: "delayed_object \<Rightarrow> bool \<times> nat" where
  "object_id (DelayedOrigin org) = (True, org_address org)"
| "object_id (DelayedFM fm) = (False, fm_address fm)"

definition same_object :: "delayed_object option \<Rightarrow> delayed_object option \<Rightarrow> bool" where
  "same_object a b \<longleftrightarrow> map_option object_id a = map_option object_id b"

definition todo_find :: "delayed_object option \<Rightarrow> todo_entry list \<Rightarrow> bool" where
  "todo_find obj l \<longleftrightarrow> (\<exists>e \<in> set l. same_object (fst e) obj)"

definition todo_insert :: "todo_entry \<Rightarrow> todo_entry list \<Rightarrow> todo_entry list" where
  "todo_insert e l = (if todo_find (fst e) l then l else l @ [e])"

definition todo_erase :: "delayed_object option \<Rightarrow> todo_entry list \<Rightarrow> todo_entry list" where
  "todo_erase obj l = filter (\<lambda>e. \<not> same_object (fst e) obj) l"

record todo =
  adds :: "todo_entry list"
  updates :: "todo_entry list"
  realUpdates :: "todo_entry list"
  blackList :: "string set"

definition no_todo :: todo where
  "no_todo = \<lparr>adds = [], updates = [], realUpdates = [], blackList = {}\<rparr>"

text \<open>The origins that the moment tensors of the message gave are not chosen.\<close>

definition with_blackList :: "string set \<Rightarrow> services \<Rightarrow> services" where
  "with_blackList bl sv = sv\<lparr>chooser := (chooser sv)\<lparr>base := (base (chooser sv))\<lparr>originBlackList := bl\<rparr>\<rparr>\<rparr>"

section \<open>Applying the changes\<close>

definition on_event :: "(event \<Rightarrow> event) \<Rightarrow> string \<Rightarrow> tool \<Rightarrow> tool" where
  "on_event f k t = (case map_of (events t) k of None \<Rightarrow> t | Some info \<Rightarrow> put_event k (ev_set f info) t)"

text \<open>The attributes of an event, without its children.\<close>

definition assign_event :: "event \<Rightarrow> event \<Rightarrow> event" where
  "assign_event new ev = ev\<lparr>ev_preferredOriginID := ev_preferredOriginID new, ev_preferredMagnitudeID := ev_preferredMagnitudeID new,
     ev_preferredFocalMechanismID := ev_preferredFocalMechanismID new, ev_type := ev_type new, ev_typeCertainty := ev_typeCertainty new\<rparr>"

fun apply_change :: "change \<Rightarrow> tool \<Rightarrow> tool" where
  "apply_change (AddOriginReference parentID originID) t = on_event (\<lambda>ev. snd (add_originReference originID ev)) parentID t"
| "apply_change (AddFocalMechanismReference parentID fmID) t = on_event (\<lambda>ev. snd (add_focalMechanismReference fmID ev)) parentID t"
| "apply_change (RemoveOriginReference parentID originID) t =
     on_event (\<lambda>ev. ev\<lparr>originReferences := removeAll originID (originReferences ev)\<rparr>) parentID t"
| "apply_change (RemoveFocalMechanismReference parentID fmID) t =
     on_event (\<lambda>ev. ev\<lparr>focalMechanismReferences := removeAll fmID (focalMechanismReferences ev)\<rparr>) parentID t"
| "apply_change (UpdateEvent ev) t = on_event (assign_event ev) (ev_publicID ev) t"
| "apply_change _ t = t"

section \<open>Receiving the changes\<close>

text \<open>
  A reference that another program added: the object is not associated in this turn any more, but
  counts as updated.
\<close>

definition preset :: "delayed_object option \<Rightarrow> todo \<Rightarrow> todo" where
  "preset obj l =
     (let l = (if todo_find obj (adds l)
               then l\<lparr>adds := todo_erase obj (adds l), realUpdates := todo_insert (obj, None) (realUpdates l)\<rparr> else l)
      in l\<lparr>updates := todo_insert (obj, None) (updates l)\<rparr>)"

definition receive_reference :: "services \<Rightarrow> string \<Rightarrow> string \<Rightarrow> delayed_object option \<Rightarrow> todo \<times> tool \<Rightarrow> todo \<times> tool" where
  "receive_reference sv parentID oid obj s =
     (case s of (l, t) \<Rightarrow>
        if oid = [] then (l, t)
        else
          case cached_or_loaded sv parentID t of
            (None, t) \<Rightarrow> (l, t)
          | (Some _, t) \<Rightarrow> (preset obj l, t))"

definition queue_update :: "delayed_object \<Rightarrow> magnitude option \<Rightarrow> bool \<Rightarrow> todo \<Rightarrow> todo" where
  "queue_update obj mag changed l =
     (let l = l\<lparr>updates := todo_insert (Some obj, mag) (updates l)\<rparr>
      in if changed then l\<lparr>realUpdates := todo_insert (Some obj, None) (realUpdates l)\<rparr> else l)"

text \<open>An event that is not cached yet is loaded, with its references if it is not new.\<close>

definition receive_event :: "services \<Rightarrow> bool \<Rightarrow> event \<Rightarrow> tool \<Rightarrow> tool" where
  "receive_event sv isNew ev t =
     (case cachedEvent (ev_publicID ev) t of
        (Some _, t) \<Rightarrow> t
      | (None, t) \<Rightarrow>
          let info = load_event sv (query sv) (Some ev)
          in cacheEvent (if isNew then info else loadAssociations (query sv) info) t)"

definition addObject :: "services \<Rightarrow> change \<Rightarrow> todo \<times> tool \<Rightarrow> (todo \<times> tool \<times> notice list) option" where
  "addObject sv c s =
     (case s of (l, t) \<Rightarrow>
      case c of
        AddOrigin org \<Rightarrow> Some (l\<lparr>adds := todo_insert (Some (DelayedOrigin org), None) (adds l)\<rparr>, t, [])
      | AddMagnitude parentID \<Rightarrow>
          (case getOrigin sv parentID of
             None \<Rightarrow> Some (l, t, [])
           | Some org \<Rightarrow> Some (queue_update (DelayedOrigin org) None False l, t, []))
      | AddFocalMechanism fm \<Rightarrow> Some (l\<lparr>adds := todo_insert (Some (DelayedFM fm), None) (adds l)\<rparr>, t, [])
      | AddMomentTensor parentID derivedOriginID \<Rightarrow>
          Some (if getFocalMechanism sv parentID \<noteq> None \<and> ignoreMTDerivedOrigins (sv_cfg sv)
                then l\<lparr>blackList := insert derivedOriginID (blackList l)\<rparr> else l, t, [])
      | AddOriginReference parentID originID \<Rightarrow>
          (case receive_reference sv parentID originID (map_option DelayedOrigin (getOrigin sv originID)) (l, t) of
             (l, t) \<Rightarrow> Some (l, t, []))
      | AddFocalMechanismReference parentID fmID \<Rightarrow>
          (case receive_reference sv parentID fmID (map_option DelayedFM (getFocalMechanism sv fmID)) (l, t) of
             (l, t) \<Rightarrow> Some (l, t, []))
      | AddEvent ev \<Rightarrow> Some (l, receive_event sv True ev t, [])
      | AddJournalEntry e \<Rightarrow>
          (case handleJournalEntry (with_blackList (blackList l) sv) e t of
             None \<Rightarrow> None
           | Some (_, t, out) \<Rightarrow> Some (l, t, out))
      | _ \<Rightarrow> Some (l, t, []))"

definition updateObject :: "services \<Rightarrow> change \<Rightarrow> todo \<times> tool \<Rightarrow> (todo \<times> tool \<times> notice list) option" where
  "updateObject sv c s =
     (case s of (l, t) \<Rightarrow>
      case c of
        UpdateOrigin org \<Rightarrow> Some (queue_update (DelayedOrigin org) None True l, t, [])
      | UpdateFocalMechanism fm \<Rightarrow> Some (queue_update (DelayedFM fm) None True l, t, [])
      | UpdateMagnitude parentID mag \<Rightarrow>
          (case getOrigin sv parentID of
             None \<Rightarrow> Some (l, t, [])
           | Some org \<Rightarrow> Some (queue_update (DelayedOrigin org) (Some mag) False l, t, []))
      | UpdateEvent ev \<Rightarrow> Some (l, receive_event sv False ev t, [])
      | _ \<Rightarrow> Some (l, t, []))"

text \<open>The removal of a reference to an origin, which is gone from the event already.\<close>

definition removeObject :: "services \<Rightarrow> change \<Rightarrow> todo \<times> tool \<Rightarrow> (todo \<times> tool \<times> notice list) option" where
  "removeObject sv c s =
     (case s of (l, t) \<Rightarrow>
      case c of
        RemoveOriginReference parentID originID \<Rightarrow>
          (case cached_or_loaded sv parentID t of
             (None, t) \<Rightarrow> Some (l, t, [])
           | (Some (_, info), t) \<Rightarrow>
               let info = info\<lparr>dirtyPickSet := True\<rparr> in
               if ev_get originReferences [] info = [] then Some (l, snd (removeCachedEvent (info_id info) t), [])
               else if ev_get ev_preferredOriginID [] info = originID then
                 (case updatePreferredOrigin (base (chooser (with_blackList (blackList l) sv))) (getOrigin sv) (reset_origin info) of
                    (info, out) \<Rightarrow> Some (l, put_event (info_id info) info t, out))
               else Some (l, put_event (info_id info) info t, []))
      | _ \<Rightarrow> Some (l, t, []))"

fun is_add :: "change \<Rightarrow> bool" where
  "is_add (AddOrigin _) = True" | "is_add (AddMagnitude _) = True" | "is_add (AddFocalMechanism _) = True"
| "is_add (AddMomentTensor _ _) = True" | "is_add (AddOriginReference _ _) = True" | "is_add (AddFocalMechanismReference _ _) = True"
| "is_add (AddEvent _) = True" | "is_add (AddJournalEntry _) = True" | "is_add _ = False"

fun is_remove :: "change \<Rightarrow> bool" where
  "is_remove (RemoveOriginReference _ _) = True" | "is_remove (RemoveFocalMechanismReference _ _) = True" | "is_remove _ = False"

definition handleNotifier :: "services \<Rightarrow> change \<Rightarrow> todo \<times> tool \<Rightarrow> (todo \<times> tool \<times> notice list) option" where
  "handleNotifier sv c = (if is_add c then addObject sv c else if is_remove c then removeObject sv c else updateObject sv c)"

fun receive :: "services \<Rightarrow> change list \<Rightarrow> todo \<times> tool \<Rightarrow> (todo \<times> tool \<times> notice list) option" where
  "receive sv [] (l, t) = Some (l, t, [])"
| "receive sv (c # cs) s =
     (case handleNotifier sv c s of
        None \<Rightarrow> None
      | Some (l, t, out) \<Rightarrow>
          (case receive sv cs (l, t) of
             None \<Rightarrow> None
           | Some (l, t, out') \<Rightarrow> Some (l, t, out @ out')))"

section \<open>Working off the lists\<close>

fun work_adds :: "services \<Rightarrow> string set \<Rightarrow> todo_entry list \<Rightarrow> tool \<Rightarrow> (tool \<times> notice list) option" where
  "work_adds sv bl [] t = Some (t, [])"
| "work_adds sv bl ((obj, mag) # es) t =
     (case (case obj of
              Some (DelayedOrigin org) \<Rightarrow>
                if org_publicID org \<notin> bl
                then map_option (\<lambda>(_, _, t, out). (t, out)) (associateOriginCheckDelay (with_blackList bl sv) org t) else Some (t, [])
            | Some (DelayedFM fm) \<Rightarrow> map_option snd (associateFocalMechanism (with_blackList bl sv) fm t)
            | None \<Rightarrow> Some (t, [])) of
        None \<Rightarrow> None
      | Some (t, out) \<Rightarrow>
          (case work_adds sv bl es t of
             None \<Rightarrow> None
           | Some (t, out') \<Rightarrow> Some (t, out @ out')))"

definition rework_fm :: "services \<Rightarrow> focal_mechanism \<Rightarrow> tool \<Rightarrow> (tool \<times> notice list) option" where
  "rework_fm sv fm t =
     (case loaded_event sv (findAssociatedEvent_fm fm t) (\<lambda>db. getEventForFM db (fm_publicID fm)) t of
        (None, t) \<Rightarrow> map_option snd (associateFocalMechanism sv fm t)
      | (Some k, t) \<Rightarrow>
          (case map_of (events t) k of
             None \<Rightarrow> Some (t, [])
           | Some info \<Rightarrow>
               (case choosePreferred_fm (chooser sv) fm info (delayEventBuffer t) of
                  None \<Rightarrow> None
                | Some (info, out, buffer) \<Rightarrow> Some (put_event k info t\<lparr>delayEventBuffer := buffer\<rparr>, out))))"

definition updatedFocalMechanism :: "services \<Rightarrow> focal_mechanism \<Rightarrow> tool \<Rightarrow> (tool \<times> notice list) option" where
  "updatedFocalMechanism sv fm t =
     (let fm = registered_fm sv fm; sv = with_fm fm sv in rework_fm sv fm (refresh sv t))"

definition work_update :: "services \<Rightarrow> todo \<Rightarrow> todo_entry \<Rightarrow> tool \<Rightarrow> (tool \<times> notice list) option" where
  "work_update sv l e t =
     (let delayed = (\<exists>d \<in> set (delayBuffer t). same_object (Some (fst d)) (fst e)); sv = with_blackList (blackList l) sv in
      if delayed \<or> todo_find (fst e) (adds l) then Some (t, [])
      else
        case fst e of
          Some (DelayedOrigin org) \<Rightarrow>
            if org_publicID org \<notin> blackList l then updatedOrigin sv org (snd e) (todo_find (fst e) (realUpdates l)) t
            else Some (t, [])
        | Some (DelayedFM fm) \<Rightarrow> updatedFocalMechanism sv fm t
        | None \<Rightarrow> Some (t, []))"

fun work_updates :: "services \<Rightarrow> todo \<Rightarrow> todo_entry list \<Rightarrow> tool \<Rightarrow> (tool \<times> notice list) option" where
  "work_updates sv l [] t = Some (t, [])"
| "work_updates sv l (e # es) t =
     (case work_update sv l e t of
        None \<Rightarrow> None
      | Some (t, out) \<Rightarrow>
          (case work_updates sv l es t of
             None \<Rightarrow> None
           | Some (t, out') \<Rightarrow> Some (t, out @ out')))"

definition handleMessage :: "services \<Rightarrow> change list \<Rightarrow> tool \<Rightarrow> (tool \<times> notice list) option" where
  "handleMessage sv cs t =
     (case receive sv cs (no_todo, fold apply_change cs (refresh sv t)) of
        None \<Rightarrow> None
      | Some (l, t, out1) \<Rightarrow>
          (case work_adds sv (blackList l) (adds l) t of
             None \<Rightarrow> None
           | Some (t, out2) \<Rightarrow>
               (case work_updates sv l (updates l) t of
                  None \<Rightarrow> None
                | Some (t, out3) \<Rightarrow> Some (cleanUpEventCache t, out1 @ out2 @ out3))))"

end
