(* ===== verification/EventMessageFacts.thy ===== *)
theory EventMessageFacts
  imports EventMessages
begin

text \<open>
  Messages and timeouts as steps of one machine: what can be reached keeps the cached events in order and the delays
  within the configured one, whatever the messages say, and in one message no object is worked on twice.  The
  lemmas follow the calls: one on the cached events and one on the delay buffer for every operation.
\<close>

section \<open>Working on objects keeps the cached events in order\<close>

lemma in_tool: "wf_tool t \<Longrightarrow> map_of (events t) k = Some info \<Longrightarrow> map_option fst (info_core info) = Some k"
  by (auto dest: map_of_SomeD wf_tool_id)

lemma with_blackList_core [simp]: "processors_keep_core (base (chooser (with_blackList bl sv))) = processors_keep_core (base (chooser sv))"
  by (simp add: processors_keep_core_def with_blackList_def)

lemma associateOrigin_wf:
  "wf_tool t \<Longrightarrow> processors_keep_core (base (chooser sv)) \<Longrightarrow> associateOrigin sv org ac t = Some (r, c, t', out) \<Longrightarrow> wf_tool t'"
  using associateOrigin_core by blast

lemma loaded_event_wf:
  assumes "wf_tool t" and "loaded_event sv found lookup t = (r, t')"
  shows "wf_tool t'"
proof (cases found)
  case None
  show ?thesis
  proof (cases "query sv")
    case (Some db)
    with assms None loaded_known(2) [OF assms(1)] show ?thesis
      by (auto simp: loaded_event_def Let_def split: option.splits)
  qed (use assms None in \<open>simp add: loaded_event_def\<close>)
qed (use assms in \<open>simp add: loaded_event_def\<close>)

lemma info_associate_fm_id: "map_option fst (info_core (snd (info_associate_fm fm info))) = map_option fst (info_core info)"
proof (cases "info_core info")
  case None
  then have "ei_event info = None" by (simp add: info_core_def)
  then show ?thesis by (simp add: info_associate_fm_def info_core_def)
next
  case (Some c)
  obtain i os fs where "c = (i, os, fs)" by (cases c)
  with Some associated(2) [of info i os fs fm] show ?thesis by auto
qed

lemma associateFocalMechanism_wf:
  assumes wf: "wf_tool t" and env: "processors_keep_core (base (chooser sv))"
    and run: "associateFocalMechanism sv fm t = Some (r, t', out)"
  shows "wf_tool t'"
proof (cases "getOrigin sv (fm_triggeringOriginID fm)")
  case None
  with run wf show ?thesis by (simp add: associateFocalMechanism_def)
next
  case (Some org)
  obtain k t1 where load: "loaded_event sv (findAssociatedEvent org t) (\<lambda>db. getEvent db (org_publicID org)) t = (k, t1)" by fastforce
  note t1 = loaded_event_wf [OF wf load]
  show ?thesis
  proof (cases "\<exists>k' info. k = Some k' \<and> map_of (events t1) k' = Some info")
    case False
    with run Some load t1 show ?thesis by (auto simp: associateFocalMechanism_def split: option.splits)
  next
    case True
    then obtain k' info where k: "k = Some k'" and info: "map_of (events t1) k' = Some info" by blast
    obtain b i1 where assoc: "info_associate_fm fm info = (b, i1)" by fastforce
    have id: "map_option fst (info_core i1) = Some k'"
      using info_associate_fm_id [of fm info] in_tool [OF t1 info] by (simp add: assoc)
    show ?thesis
    proof (cases b)
      case False
      with run Some load k info assoc put_event_wf [OF t1 id] show ?thesis by (auto simp: associateFocalMechanism_def)
    next
      case True
      then obtain i2 b2 where choice: "choosePreferred_fm (chooser sv) fm i1 (delayEventBuffer t1) = Some (i2, out, b2)"
          and t': "t' = put_event k' i2 t1\<lparr>delayEventBuffer := b2\<rparr>"
        using run Some load k info assoc by (auto simp: associateFocalMechanism_def split: option.splits)
      have "map_option fst (info_core i2) = Some k'" using choosePreferred_fm_core [OF env choice] id by simp
      with t1 show ?thesis by (simp add: t' put_event_wf)
    qed
  qed
qed

lemma rework_origin_wf:
  assumes wf: "wf_tool t" and env: "processors_keep_core (base (chooser sv))" and run: "rework_origin sv org mag b t = Some (t', out)"
  shows "wf_tool t'"
proof -
  obtain k t1 where load: "loaded_event sv (findAssociatedEvent org t) (\<lambda>db. getEvent db (org_publicID org)) t = (k, t1)" by fastforce
  note t1 = loaded_event_wf [OF wf load]
  show ?thesis
  proof (cases k)
    case None
    with run load associateOrigin_wf [OF t1 env] show ?thesis by (auto simp: rework_origin_def split: option.splits)
  next
    case (Some k')
    show ?thesis
    proof (cases "map_of (events t1) k'")
      case None
      with run load Some t1 show ?thesis by (simp add: rework_origin_def)
    next
      case info: (Some info)
      let ?c = "if b \<and> ev_get ev_preferredOriginID [] info = org_publicID org
                then updatePreferredOrigin (base (chooser sv)) (getOrigin sv) info
                else choosePreferred (base (chooser sv)) org mag b info"
      have "t' = put_event k' (fst ?c) t1" using run load Some info by (auto simp: rework_origin_def Let_def split_def)
      moreover have "info_core (fst ?c) = info_core info"
        using updatePreferredOrigin_core [OF env] choosePreferred_core [OF env] by simp
      ultimately show ?thesis using put_event_wf [OF t1] in_tool [OF t1 info] by simp
    qed
  qed
qed

lemma updatedOrigin_wf:
  assumes "wf_tool t" and "processors_keep_core (base (chooser sv))" and "updatedOrigin sv org mag b t = Some (t', out)"
  shows "wf_tool t'"
  using assms by (auto simp: updatedOrigin_def Let_def intro: rework_origin_wf [rotated 2])

lemma rework_fm_wf:
  assumes wf: "wf_tool t" and env: "processors_keep_core (base (chooser sv))" and run: "rework_fm sv fm t = Some (t', out)"
  shows "wf_tool t'"
proof -
  obtain k t1 where load: "loaded_event sv (findAssociatedEvent_fm fm t) (\<lambda>db. getEventForFM db (fm_publicID fm)) t = (k, t1)" by fastforce
  note t1 = loaded_event_wf [OF wf load]
  show ?thesis
  proof (cases k)
    case None
    with run load associateFocalMechanism_wf [OF t1 env] show ?thesis by (auto simp: rework_fm_def)
  next
    case (Some k')
    show ?thesis
    proof (cases "map_of (events t1) k'")
      case None
      with run load Some t1 show ?thesis by (simp add: rework_fm_def)
    next
      case info: (Some info)
      obtain i2 b2 where choice: "choosePreferred_fm (chooser sv) fm info (delayEventBuffer t1) = Some (i2, out, b2)"
          and t': "t' = put_event k' i2 t1\<lparr>delayEventBuffer := b2\<rparr>"
        using run load Some info by (auto simp: rework_fm_def split: option.splits)
      have "map_option fst (info_core i2) = Some k'"
        using choosePreferred_fm_core [OF env choice] in_tool [OF t1 info] by simp
      with t1 show ?thesis by (simp add: t' put_event_wf)
    qed
  qed
qed

section \<open>Timeouts\<close>

lemma updatedFocalMechanism_wf:
  assumes "wf_tool t" and "processors_keep_core (base (chooser sv))" and "updatedFocalMechanism sv fm t = Some (t', out)"
  shows "wf_tool t'"
  using assms by (auto simp: updatedFocalMechanism_def Let_def intro: rework_fm_wf [rotated 2])

lemma wf_tool_delay [simp]: "wf_tool (t\<lparr>delayBuffer := d\<rparr>) = wf_tool t"
  by (simp add: wf_tool_def)

lemma associate_delayed_wf:
  "wf_tool t \<Longrightarrow> processors_keep_core (base (chooser sv)) \<Longrightarrow> associate_delayed sv ac obj t = Some (d, t', out) \<Longrightarrow> wf_tool t'"
  by (auto simp: associate_delayed_def split: delayed_object.splits option.splits dest: associateOrigin_wf associateFocalMechanism_wf)

lemma first_pass_wf:
  "processors_keep_core (base (chooser sv)) \<Longrightarrow> first_pass sv b t = Some (b', t', out) \<Longrightarrow> wf_tool t \<Longrightarrow> wf_tool t'"
proof (induction b arbitrary: t b' out)
  case (Cons e b)
  obtain obj n where e: "e = (obj, n)" by (cases e)
  show ?case
  proof (cases "n - 1 \<le> -1")
    case True
    with Cons.prems obtain d t1 o1 o2 where "associate_delayed sv True obj t = Some (d, t1, o1)" "first_pass sv b t1 = Some (b', t', o2)"
      by (auto simp: e split: option.splits)
    with Cons show ?thesis using associate_delayed_wf by blast
  next
    case False
    with Cons show ?thesis by (auto simp: e split: option.splits)
  qed
qed simp

lemma second_pass_wf:
  "processors_keep_core (base (chooser sv)) \<Longrightarrow> second_pass sv b t = Some (b', t', out) \<Longrightarrow> wf_tool t \<Longrightarrow> wf_tool t'"
proof (induction b arbitrary: t b' out)
  case (Cons e b)
  obtain obj n where e: "e = (obj, n)" by (cases e)
  from Cons.prems obtain d t1 o1 b2 o2 where "associate_delayed sv False obj t = Some (d, t1, o1)" "second_pass sv b t1 = Some (b2, t', o2)"
    by (auto simp: e split: option.splits)
  with Cons show ?case using associate_delayed_wf by blast
qed simp

lemma cached_or_loaded_keeps:
  "wf_tool t \<Longrightarrow> cached_or_loaded sv k t = (found, t') \<Longrightarrow> wf_tool t'"
  by (cases found) (auto dest: cached_or_loaded_none cached_or_loaded_wf)

lemma third_pass_wf:
  "processors_keep_core (base (chooser sv)) \<Longrightarrow> third_pass sv b t kept = Some (t', out, kept') \<Longrightarrow> wf_tool t \<Longrightarrow> wf_tool t'"
proof (induction b arbitrary: t kept out)
  case (Cons e b)
  obtain ident n where e: "e = (ident, n)" by (cases e)
  obtain found t1 where find: "cached_or_loaded sv ident t = (found, t1)" by fastforce
  show ?case
  proof (cases "n - 1 \<le> -1")
    case True
    show ?thesis
    proof (cases found)
      case None
      with Cons True find show ?thesis by (auto simp: e dest: cached_or_loaded_none)
    next
      case (Some p)
      then obtain c info where p: "found = Some (c, info)" by (cases p) simp
      obtain i2 o2 b2 o3 where upd: "updatePreferredFocalMechanism (chooser sv) (getFocalMechanism sv) info (kept @ (ident, n - 1) # b) = Some (i2, o2, b2)"
          and rest: "third_pass sv b (put_event (info_id i2) i2 t1) kept = Some (t', o3, kept')"
        using Cons.prems(2) True find p by (auto simp: e Let_def split: option.splits)
      have "map_option fst (info_core i2) = Some (info_id i2)" and "wf_tool t1"
        using cached_or_loaded_wf [OF Cons.prems(3) find [unfolded p]] updatePreferredFocalMechanism_core [OF Cons.prems(1) upd]
        by (simp_all add: id_core)
      then show ?thesis using Cons.IH [OF Cons.prems(1) rest] put_event_wf_id by blast
    qed
  next
    case False
    with Cons show ?thesis by (simp add: e)
  qed
qed simp

text \<open>No event that is marked for removal stays cached.\<close>

definition none_marked :: "tool \<Rightarrow> bool" where
  "none_marked t \<longleftrightarrow> (\<forall>(_, info) \<in> set (events t). \<not> aboutToBeRemoved info)"

lemma cleanUp_wf: "wf_tool t \<Longrightarrow> wf_tool (cleanUpEventCache t)"
  by (rule wf_toolI) (auto simp: cleanUpEventCache_def wf_tool_def filter_keys_sorted)

lemma cleanUp_unmarked: "none_marked (cleanUpEventCache t)"
  by (auto simp: none_marked_def cleanUpEventCache_def)

lemma handleTimeout_wf:
  assumes "wf_tool t" and env: "processors_keep_core (base (chooser sv))" and run: "handleTimeout sv t = Some (t', out)"
  shows "wf_tool t' \<and> none_marked t'"
proof -
  obtain b1 t1 o1 b2 t2 o2 t3 o3 kept where pass: "first_pass sv (delayBuffer t) t = Some (b1, t1, o1)" "second_pass sv b1 t1 = Some (b2, t2, o2)"
      "third_pass sv (delayEventBuffer t2) t2 [] = Some (t3, o3, kept)"
      and t': "t' = cleanUpEventCache (t3\<lparr>delayBuffer := b2, delayEventBuffer := kept\<rparr>)"
    using run by (auto simp: handleTimeout_def split: option.splits)
  have "wf_tool t3" using first_pass_wf [OF env pass(1)] second_pass_wf [OF env pass(2)] third_pass_wf [OF env pass(3)] assms(1) by blast
  then show ?thesis by (simp add: t' cleanUp_wf cleanUp_unmarked)
qed

section \<open>Messages\<close>

lemma on_event_wf:
  assumes "\<And>ev. ev_publicID (f ev) = ev_publicID ev" and wf: "wf_tool t"
  shows "wf_tool (on_event f k t)"
proof (cases "map_of (events t) k")
  case (Some info)
  have "map_option fst (info_core (ev_set f info)) = map_option fst (info_core info)"
    by (cases "ei_event info") (simp_all add: info_core_def ev_core_def ev_set_def assms(1))
  with in_tool [OF wf Some] Some wf show ?thesis by (simp add: on_event_def put_event_wf)
qed (use wf in \<open>simp add: on_event_def\<close>)

lemma apply_change_wf: "wf_tool t \<Longrightarrow> wf_tool (apply_change c t)"
  by (cases c) (auto intro!: on_event_wf simp: add_originReference_def add_focalMechanismReference_def assign_event_def)

lemma apply_changes_wf: "wf_tool t \<Longrightarrow> wf_tool (fold apply_change cs t)"
  by (induction cs arbitrary: t) (simp_all add: apply_change_wf)

lemma receive_reference_wf: "wf_tool t \<Longrightarrow> receive_reference sv k oid obj (l, t) = (l', t') \<Longrightarrow> wf_tool t'"
  by (auto simp: receive_reference_def split: if_splits prod.splits option.splits dest: cached_or_loaded_keeps)

lemma receive_event_wf:
  assumes "wf_tool t"
  shows "wf_tool (receive_event sv isNew ev t)"
proof (cases "cachedEvent (ev_publicID ev) t")
  case (Pair found t1)
  show ?thesis
  proof (cases found)
    case None
    have "wf_tool (cacheEvent (load_event sv (query sv) (Some ev)) t)" by (rule cacheEvent_wf [OF assms]) (simp add: load_event_event)
    moreover have "wf_tool (cacheEvent (loadAssociations (query sv) (load_event sv (query sv) (Some ev))) t)"
      using loaded_known(2) [OF assms refl] .
    moreover have "t1 = t" using cachedEvent_none Pair None by blast
    ultimately show ?thesis by (simp add: receive_event_def Pair None Let_def)
  next
    case (Some info)
    with Pair cached_known(2) [OF assms] show ?thesis by (simp add: receive_event_def)
  qed
qed

lemma addObject_wf:
  assumes "wf_tool t" and "processors_keep_core (base (chooser sv))" and "addObject sv c (l, t) = Some (l', t', out)"
  shows "wf_tool t'"
proof (cases c)
  case (AddJournalEntry e)
  then obtain b where "handleJournalEntry (with_blackList (blackList l) sv) e t = Some (b, t', out)"
    using assms(3) by (auto simp: addObject_def split: option.splits)
  moreover have "processors_keep_core (base (chooser (with_blackList (blackList l) sv)))" using assms(2) by simp
  ultimately show ?thesis using handleJournalEntry_wf [OF assms(1)] by blast
qed (use assms receive_reference_wf receive_event_wf in \<open>auto simp: addObject_def split: option.splits prod.splits\<close>)

lemma updateObject_wf: "wf_tool t \<Longrightarrow> updateObject sv c (l, t) = Some (l', t', out) \<Longrightarrow> wf_tool t'"
  by (cases c) (auto simp: updateObject_def receive_event_wf split: option.splits)

lemma removeCachedEvent_wf: "wf_tool t \<Longrightarrow> wf_tool (snd (removeCachedEvent k t))"
  by (auto simp: removeCachedEvent_def wf_tool_def filter_keys_sorted)

lemma removeObject_wf:
  assumes wf: "wf_tool t" and env: "processors_keep_core (base (chooser sv))" and run: "removeObject sv c (l, t) = Some (l', t', out)"
  shows "wf_tool t'"
proof (cases "\<exists>k oid. c = RemoveOriginReference k oid")
  case False
  with run wf show ?thesis by (auto simp: removeObject_def split: change.splits)
next
  case True
  then obtain k oid where c: "c = RemoveOriginReference k oid" by blast
  obtain found t1 where find: "cached_or_loaded sv k t = (found, t1)" by fastforce
  show ?thesis
  proof (cases found)
    case None
    with run wf find show ?thesis by (auto simp: removeObject_def c dest: cached_or_loaded_none)
  next
    case (Some p)
    then obtain b info where p: "found = Some (b, info)" by (cases p) simp
    note known = cached_or_loaded_wf [OF wf find [unfolded p]]
    define i1 where "i1 = info\<lparr>dirtyPickSet := True\<rparr>"
    let ?env = "base (chooser (with_blackList (blackList l) sv))"
    define i2 where "i2 = fst (updatePreferredOrigin ?env (getOrigin sv) (reset_origin i1))"
    have core: "info_core i1 = info_core info" "info_core i2 = info_core info"
      using updatePreferredOrigin_core [of ?env] env by (simp_all add: i1_def i2_def)
    then have id: "info_id i1 = info_id info" "info_id i2 = info_id info" by (simp_all add: id_core)
    have "t' = snd (removeCachedEvent (info_id i1) t1) \<or> t' = put_event (info_id i2) i2 t1 \<or> t' = put_event (info_id i1) i1 t1"
      using run find p unfolding i1_def i2_def by (auto simp: removeObject_def c Let_def split: if_splits prod.splits)
    with known core id show ?thesis using removeCachedEvent_wf put_event_wf by auto
  qed
qed

lemma receive_wf:
  "processors_keep_core (base (chooser sv)) \<Longrightarrow> receive sv cs (l, t) = Some (l', t', out) \<Longrightarrow> wf_tool t \<Longrightarrow> wf_tool t'"
proof (induction cs arbitrary: l t out)
  case (Cons c cs)
  from Cons.prems(2) obtain l1 t1 o1 o2 where step: "handleNotifier sv c (l, t) = Some (l1, t1, o1)" and rest: "receive sv cs (l1, t1) = Some (l', t', o2)"
    by (auto split: option.splits)
  then consider "addObject sv c (l, t) = Some (l1, t1, o1)" | "removeObject sv c (l, t) = Some (l1, t1, o1)"
    | "updateObject sv c (l, t) = Some (l1, t1, o1)" by (auto simp: handleNotifier_def split: if_splits)
  then have "wf_tool t1"
    by cases (rule addObject_wf [OF Cons.prems(3,1)] removeObject_wf [OF Cons.prems(3,1)] updateObject_wf [OF Cons.prems(3)], assumption)+
  with Cons.IH [OF Cons.prems(1) rest] show ?case .
qed simp

lemma work_adds_wf:
  "processors_keep_core (base (chooser sv)) \<Longrightarrow> work_adds sv bl es t = Some (t', out) \<Longrightarrow> wf_tool t \<Longrightarrow> wf_tool t'"
proof (induction es arbitrary: t out)
  case (Cons e es)
  obtain obj mag where e: "e = (obj, mag)" by (cases e)
  let ?first = "case obj of
      Some (DelayedOrigin org) \<Rightarrow>
        if org_publicID org \<notin> bl
        then map_option (\<lambda>(_, _, t, out). (t, out)) (associateOriginCheckDelay (with_blackList bl sv) org t) else Some (t, [])
    | Some (DelayedFM fm) \<Rightarrow> map_option snd (associateFocalMechanism (with_blackList bl sv) fm t)
    | None \<Rightarrow> Some (t, [])"
  from Cons.prems(2) obtain t1 o1 o2 where first: "?first = Some (t1, o1)" and rest: "work_adds sv bl es t1 = Some (t', o2)"
    by (auto simp: e split: option.splits)
  have env: "processors_keep_core (base (chooser (with_blackList bl sv)))" using Cons.prems(1) by simp
  have "wf_tool t1"
    using first Cons.prems(3) associateOrigin_wf [OF Cons.prems(3) env] associateFocalMechanism_wf [OF Cons.prems(3) env]
    by (auto simp: associateOriginCheckDelay_def split: option.splits delayed_object.splits if_splits)
  with Cons.IH [OF Cons.prems(1) rest] show ?case .
qed simp

lemma work_updates_wf:
  "processors_keep_core (base (chooser sv)) \<Longrightarrow> work_updates sv l es t = Some (t', out) \<Longrightarrow> wf_tool t \<Longrightarrow> wf_tool t'"
proof (induction es arbitrary: t out)
  case (Cons e es)
  from Cons.prems(2) obtain t1 o1 o2 where first: "work_update sv l e t = Some (t1, o1)" and rest: "work_updates sv l es t1 = Some (t', o2)"
    by (auto split: option.splits)
  have env: "processors_keep_core (base (chooser (with_blackList (blackList l) sv)))" using Cons.prems(1) by simp
  have "wf_tool t1"
    using first Cons.prems(3) updatedOrigin_wf [OF Cons.prems(3) env] updatedFocalMechanism_wf [OF Cons.prems(3) env]
    by (auto simp: work_update_def Let_def split: option.splits delayed_object.splits if_splits)
  with Cons.IH [OF Cons.prems(1) rest] show ?case .
qed simp

lemma handleMessage_wf:
  assumes "wf_tool t" and env: "processors_keep_core (base (chooser sv))" and run: "handleMessage sv cs t = Some (t', out)"
  shows "wf_tool t' \<and> none_marked t'"
proof -
  obtain l t1 o1 t2 o2 t3 o3 where work: "receive sv cs (no_todo, fold apply_change cs (refresh sv t)) = Some (l, t1, o1)"
      "work_adds sv (blackList l) (adds l) t1 = Some (t2, o2)" "work_updates sv l (updates l) t2 = Some (t3, o3)"
      and t': "t' = cleanUpEventCache t3"
    using run by (auto simp: handleMessage_def split: option.splits)
  have "wf_tool t3"
    using receive_wf [OF env work(1)] work_adds_wf [OF env work(2)] work_updates_wf [OF env work(3)] apply_changes_wf [of "refresh sv t" cs] assms(1) by auto
  then show ?thesis by (simp add: t' cleanUp_wf cleanUp_unmarked)
qed

section \<open>The delay buffer\<close>

lemma delay_kept [simp]:
  "delayBuffer (put_event k info t) = delayBuffer t" "delayBuffer (cacheEvent info t) = delayBuffer t"
  "delayBuffer (snd (removeCachedEvent k t)) = delayBuffer t" "delayBuffer (cleanUpEventCache t) = delayBuffer t"
  "delayBuffer (add_reply sv e k response t) = delayBuffer t" "delayBuffer (on_event f k t) = delayBuffer t"
  by (simp_all add: put_event_def cacheEvent_def removeCachedEvent_def cleanUpEventCache_def add_reply_def on_event_def split: option.split)

lemma cachedEvent_delay: "cachedEvent k t = (r, t') \<Longrightarrow> delayBuffer t' = delayBuffer t"
  by (auto simp: cachedEvent_def Let_def split: option.splits)

lemma cached_or_loaded_delay: "cached_or_loaded sv k t = (r, t') \<Longrightarrow> delayBuffer t' = delayBuffer t"
  by (auto simp: cached_or_loaded_def Let_def split: prod.splits option.splits if_splits dest: cachedEvent_delay)

lemma loaded_event_delay: "loaded_event sv found lookup t = (r, t') \<Longrightarrow> delayBuffer t' = delayBuffer t"
  by (auto simp: loaded_event_def Let_def split: option.splits)

lemma event_source_delay: "event_source sv ev t = (r, t') \<Longrightarrow> delayBuffer t' = delayBuffer t"
  by (auto simp: event_source_def Let_def split: prod.splits option.splits dest: cachedEvent_delay)

lemma createEvent_delay: "createEvent sv org t = Some (r, t') \<Longrightarrow> delayBuffer t' = delayBuffer t"
  by (auto simp: createEvent_def Let_def split: option.splits if_splits)

lemma associateOrigin_delay: "associateOrigin sv org ac t = Some (r, c, t', out) \<Longrightarrow> delayBuffer t' = delayBuffer t"
  using associate_delayed_buffer [of sv ac "DelayedOrigin org" t] by (simp add: associate_delayed_def)

lemma associateFocalMechanism_delay: "associateFocalMechanism sv fm t = Some (r, t', out) \<Longrightarrow> delayBuffer t' = delayBuffer t"
  using associate_delayed_buffer [of sv True "DelayedFM fm" t] by (simp add: associate_delayed_def)

lemma grab_into_delay: "grab_into sv k org fmIDs t = Some (t', out) \<Longrightarrow> delayBuffer t' = delayBuffer t"
  by (auto simp: grab_into_def Let_def split: option.splits prod.splits)

lemma cmd_grabOrg_delay: "cmd_grabOrg sv e k t = Some (r, t', out) \<Longrightarrow> delayBuffer t' = delayBuffer t"
  by (auto simp: cmd_grabOrg_def Let_def split: option.splits prod.splits if_splits dest!: grab_into_delay event_source_delay)

lemma cmd_splitOrg_delay: "cmd_splitOrg sv e k info t = Some (r, t', out) \<Longrightarrow> delayBuffer t' = delayBuffer t"
  by (auto simp: cmd_splitOrg_def Let_def split: option.splits prod.splits if_splits dest!: createEvent_delay)

lemma cmd_merge_delay: "cmd_merge sv e k info t = Some (r, t', out) \<Longrightarrow> delayBuffer t' = delayBuffer t"
  by (auto simp: cmd_merge_def Let_def split: option.splits prod.splits if_splits bool.splits dest!: cached_or_loaded_delay)

lemma run_command_delay: "run_command sv e k info t = Some (r, t', out) \<Longrightarrow> delayBuffer t' = delayBuffer t"
  by (auto simp: run_command_def Let_def split: option.splits prod.splits if_splits
      dest: cmd_grabOrg_delay cmd_splitOrg_delay cmd_merge_delay)

lemma cmd_newEvent_delay: "cmd_newEvent sv e t = Some (r, t', out) \<Longrightarrow> delayBuffer t' = delayBuffer t"
  by (auto simp: cmd_newEvent_def Let_def split: option.splits prod.splits if_splits dest!: createEvent_delay)

lemma handleJournalEntry_delay: "handleJournalEntry sv e t = Some (r, t', out) \<Longrightarrow> delayBuffer t' = delayBuffer t"
  by (auto simp: handleJournalEntry_def Let_def split: option.splits prod.splits if_splits
      dest!: cmd_newEvent_delay run_command_delay cached_or_loaded_delay)

lemma apply_changes_delay: "delayBuffer (fold apply_change cs t) = delayBuffer t"
proof (induction cs arbitrary: t)
  case (Cons c cs)
  have "delayBuffer (apply_change c t) = delayBuffer t" by (cases c) simp_all
  with Cons show ?case by simp
qed simp

lemma receive_reference_delay: "receive_reference sv k oid obj s = (l', t') \<Longrightarrow> delayBuffer t' = delayBuffer (snd s)"
  by (auto simp: receive_reference_def split: if_splits prod.splits option.splits dest: cached_or_loaded_delay)

lemma receive_event_delay [simp]: "delayBuffer (receive_event sv isNew ev t) = delayBuffer t"
  by (auto simp: receive_event_def Let_def split: prod.split option.split dest: cachedEvent_delay)

lemma handleNotifier_delay:
  assumes "handleNotifier sv c (l, t) = Some (l', t', out)"
  shows "delayBuffer t' = delayBuffer t"
proof -
  have "addObject sv c (l, t) = Some (l', t', out) \<Longrightarrow> ?thesis"
    by (cases c) (auto simp: addObject_def split: option.splits prod.splits dest!: receive_reference_delay handleJournalEntry_delay)
  moreover have "updateObject sv c (l, t) = Some (l', t', out) \<Longrightarrow> ?thesis"
    by (cases c) (auto simp: updateObject_def split: option.splits)
  moreover have "removeObject sv c (l, t) = Some (l', t', out) \<Longrightarrow> ?thesis"
    by (cases c) (auto simp: removeObject_def Let_def split: option.splits prod.splits if_splits dest!: cached_or_loaded_delay)
  ultimately show ?thesis using assms by (simp add: handleNotifier_def split: if_splits)
qed

lemma receive_delay: "receive sv cs s = Some (l', t', out) \<Longrightarrow> delayBuffer t' = delayBuffer (snd s)"
proof (induction cs arbitrary: s out)
  case Nil
  then show ?case by (cases s) simp
next
  case (Cons c cs)
  obtain l t where s: "s = (l, t)" by (cases s)
  from Cons.prems obtain l1 t1 o1 o2 where step: "handleNotifier sv c (l, t) = Some (l1, t1, o1)" and rest: "receive sv cs (l1, t1) = Some (l', t', o2)"
    by (auto simp: s split: option.splits)
  from handleNotifier_delay [OF step] Cons.IH [OF rest] show ?case by (simp add: s)
qed

lemma rework_origin_delay: "rework_origin sv org mag b t = Some (t', out) \<Longrightarrow> delayBuffer t' = delayBuffer t"
  by (auto simp: rework_origin_def Let_def split: option.splits prod.splits dest!: loaded_event_delay associateOrigin_delay)

lemma rework_fm_delay: "rework_fm sv fm t = Some (t', out) \<Longrightarrow> delayBuffer t' = delayBuffer t"
  by (auto simp: rework_fm_def split: option.splits prod.splits dest!: loaded_event_delay associateFocalMechanism_delay)

text \<open>An update in place changes what waits, not how long it has to.\<close>

lemma refresh_delay [simp]: "map snd (delayBuffer (refresh sv t)) = map snd (delayBuffer t)"
  by (simp add: refresh_def comp_def case_prod_beta)

lemma updatedOrigin_delay: "updatedOrigin sv org mag b t = Some (t', out) \<Longrightarrow> map snd (delayBuffer t') = map snd (delayBuffer t)"
  by (auto simp: updatedOrigin_def Let_def dest!: rework_origin_delay)

lemma updatedFocalMechanism_delay: "updatedFocalMechanism sv fm t = Some (t', out) \<Longrightarrow> map snd (delayBuffer t') = map snd (delayBuffer t)"
  by (auto simp: updatedFocalMechanism_def Let_def dest!: rework_fm_delay)

lemma work_updates_delay: "work_updates sv l es t = Some (t', out) \<Longrightarrow> map snd (delayBuffer t') = map snd (delayBuffer t)"
proof (induction es arbitrary: t out)
  case (Cons e es)
  from Cons.prems obtain t1 o1 o2 where first: "work_update sv l e t = Some (t1, o1)" and rest: "work_updates sv l es t1 = Some (t', o2)"
    by (auto split: option.splits)
  have "map snd (delayBuffer t1) = map snd (delayBuffer t)"
    using first by (auto simp: work_update_def Let_def split: option.splits delayed_object.splits if_splits
        dest: updatedOrigin_delay updatedFocalMechanism_delay)
  with Cons.IH [OF rest] show ?case by simp
qed simp

text \<open>An object that is delayed has a whole delay before it, so that all delays stay within the configured one.\<close>

definition delays_within :: "int \<Rightarrow> tool \<Rightarrow> bool" where
  "delays_within d t \<longleftrightarrow> (\<forall>(_, n) \<in> set (delayBuffer t). 0 \<le> n \<and> n \<le> d)"

lemma delays_within_counts: "delays_within d t \<longleftrightarrow> (\<forall>n \<in> set (map snd (delayBuffer t)). 0 \<le> n \<and> n \<le> d)"
  by (auto simp: delays_within_def)

lemma work_adds_delay:
  "work_adds sv bl es t = Some (t', out) \<Longrightarrow> delayTimeSpan (sv_cfg sv) \<le> d \<Longrightarrow> delays_within d t \<Longrightarrow> delays_within d t'"
proof (induction es arbitrary: t out)
  case (Cons e es)
  obtain obj mag where e: "e = (obj, mag)" by (cases e)
  let ?first = "case obj of
      Some (DelayedOrigin org) \<Rightarrow>
        if org_publicID org \<notin> bl
        then map_option (\<lambda>(_, _, t, out). (t, out)) (associateOriginCheckDelay (with_blackList bl sv) org t) else Some (t, [])
    | Some (DelayedFM fm) \<Rightarrow> map_option snd (associateFocalMechanism (with_blackList bl sv) fm t)
    | None \<Rightarrow> Some (t, [])"
  from Cons.prems(1) obtain t1 o1 o2 where first: "?first = Some (t1, o1)" and rest: "work_adds sv bl es t1 = Some (t', o2)"
    by (auto simp: e split: option.splits)
  have "delays_within d t1"
    using first Cons.prems(2,3)
    by (auto simp: associateOriginCheckDelay_def delays_within_def with_blackList_def
        split: option.splits delayed_object.splits if_splits dest!: associateOrigin_delay associateFocalMechanism_delay)
  with Cons.IH [OF rest Cons.prems(2)] show ?case .
qed simp

lemma handleMessage_delay:
  assumes "handleMessage sv cs t = Some (t', out)" and "delayTimeSpan (sv_cfg sv) \<le> d" and "delays_within d t"
  shows "delays_within d t'"
proof -
  obtain l t1 o1 t2 o2 t3 o3 where work: "receive sv cs (no_todo, fold apply_change cs (refresh sv t)) = Some (l, t1, o1)"
      "work_adds sv (blackList l) (adds l) t1 = Some (t2, o2)" "work_updates sv l (updates l) t2 = Some (t3, o3)"
      and t': "t' = cleanUpEventCache t3"
    using assms(1) by (auto simp: handleMessage_def split: option.splits)
  have "map snd (delayBuffer t1) = map snd (delayBuffer t)"
    unfolding receive_delay [OF work(1)] snd_conv apply_changes_delay by simp
  then have "delays_within d t1" using assms(3) by (simp only: delays_within_counts)
  with work_adds_delay [OF work(2) assms(2)] have "delays_within d t2" .
  then show ?thesis using work_updates_delay [OF work(3)] by (simp only: t' delays_within_counts delay_kept)
qed

lemma handleTimeout_delay: "handleTimeout sv t = Some (t', out) \<Longrightarrow> delays_within d t \<Longrightarrow> delays_within d t'"
  using handleTimeout_counts by (fastforce simp: delays_within_def)

section \<open>Everything that can happen\<close>

text \<open>
  The states of the event associator: it starts without events and works on messages and on the timeouts of
  its timer, and the cache of objects may drop an event.  The surroundings differ from step to step, but the
  event processors keep the identifier and the references of an event, and the delay is at most \<open>d\<close>.
\<close>

inductive reachable :: "int \<Rightarrow> tool \<Rightarrow> bool" for d :: int where
  start: "reachable d empty_tool"
| message: "reachable d t \<Longrightarrow> processors_keep_core (base (chooser sv)) \<Longrightarrow> delayTimeSpan (sv_cfg sv) \<le> d \<Longrightarrow>
    handleMessage sv cs t = Some (t', out) \<Longrightarrow> reachable d t'"
| timeout: "reachable d t \<Longrightarrow> processors_keep_core (base (chooser sv)) \<Longrightarrow> handleTimeout sv t = Some (t', out) \<Longrightarrow> reachable d t'"
| dropped: "reachable d t \<Longrightarrow> reachable d (removedFromCache publicID t)"

lemma removedFromCache_wf: "wf_tool t \<Longrightarrow> wf_tool (removedFromCache k t)"
proof (cases "map_of (events t) k")
  case (Some info)
  assume "wf_tool t"
  then have "wf_tool (put_event k (info\<lparr>aboutToBeRemoved := True\<rparr>) t)" using in_tool [OF _ Some] by (simp add: put_event_wf)
  with Some show ?thesis by (simp add: removedFromCache_def put_event_def)
qed (simp add: removedFromCache_def)

lemma removedFromCache_delay: "delays_within d (removedFromCache k t) = delays_within d t"
  by (simp add: removedFromCache_def delays_within_def split: option.split)

lemma reachable_inv:
  "reachable d t \<Longrightarrow> wf_tool t \<and> delays_within d t"
proof (induction rule: reachable.induct)
  case start
  show ?case by (simp add: delays_within_def empty_tool_def [symmetric]) (simp add: empty_tool_def)
next
  case (message t sv cs t' out)
  then show ?case using handleMessage_wf handleMessage_delay by blast
next
  case (timeout t sv t' out)
  then show ?case using handleTimeout_wf handleTimeout_delay by blast
next
  case (dropped t publicID)
  then show ?case by (simp add: removedFromCache_wf removedFromCache_delay)
qed

text \<open>
  C34: whatever messages arrive, whatever time passes and whatever the cache of objects drops, every cached event stands
  under its identifier, once and in the order of the identifiers, and the counter of every delayed object, which
  a timeout decreases by one second, is never negative and at most the configured delay \<open>d\<close>.  (An object leaves
  the buffer when its counter falls below zero, at the latest with timeout number \<open>d + 1\<close>.)  It is assumed
  that the event processors keep the identifier and the references of an event (\<open>processors_keep_core\<close>).
\<close>

theorem reachable_in_order:
  assumes "reachable d t"
  shows "wf_tool t \<and> (\<forall>(k, info) \<in> set (events t). info_id info = k) \<and> (\<forall>(_, n) \<in> set (delayBuffer t). 0 \<le> n \<and> n \<le> d)"
proof -
  note inv = reachable_inv [OF assms]
  then have "\<forall>(k, info) \<in> set (events t). info_id info = k" using wf_tool_id info_core_id by blast
  with inv show ?thesis by (simp add: delays_within_def)
qed

text \<open>
  C35: no object waits for ever: in any state that can be reached, however the messages came, once there have been more
  timeouts than the configured delay has seconds, every object that was delayed has left the buffer.
\<close>

theorem delays_end:
  assumes reach: "reachable d t" and run: "run_timeouts svs t = Some (t', out)" and enough: "d < int (length svs)" and some: "svs \<noteq> []"
  shows "delayBuffer t' = []"
proof (rule ccontr)
  have within: "delays_within d t" using reachable_inv [OF reach] by blast
  assume "delayBuffer t' \<noteq> []"
  then obtain obj n where "(obj, n) \<in> set (delayBuffer t')" by (cases "delayBuffer t'") auto
  from run_timeouts_counts [OF run this] some enough within show False by (force simp: delays_within_def)
qed

section \<open>Requests\<close>

text \<open>The objects of a list of things to do: a list without duplicates, in the order in which they came first.\<close>

definition todo_ids :: "todo_entry list \<Rightarrow> (bool \<times> nat) option list" where
  "todo_ids l = map (\<lambda>e. map_option object_id (fst e)) l"













definition requested :: "todo \<Rightarrow> (bool \<times> nat) option set" where
  "requested l = set (todo_ids (adds l)) \<union> set (todo_ids (realUpdates l))"





lemma blackList_requested [simp]: "requested (l\<lparr>blackList := b\<rparr>) = requested l"
  by (simp add: requested_def)



section \<open>A concrete message\<close>

text \<open>An origin is reported, twice, with a delay of one second: it is delayed once, and associated two seconds later.\<close>

definition sample_message :: "change list" where
  "sample_message = [AddOrigin (sample_located ''o'' 12), AddMagnitude ''o'', UpdateOrigin (sample_located ''o'' 12), AddOrigin (sample_located ''o'' 12)]"

abbreviation delaying :: services where
  "delaying \<equiv> sample_services [sample_located ''o'' 12] 1"

lemma delaying_core: "processors_keep_core (base (chooser delaying))" and delaying_span: "delayTimeSpan (sv_cfg delaying) \<le> 1"
  by (simp_all add: processors_keep_core_def sample_services_def sample_env_def)

lemma sample_message_handled:
  obtains t out where "handleMessage delaying sample_message empty_tool = Some (t, out)" and "reachable 1 t"
    and "delayBuffer t = [(DelayedOrigin (sample_located ''o'' 12), 1)]"
proof -
  have "map_option (\<lambda>(t, _). delayBuffer t) (handleMessage delaying sample_message empty_tool) = Some [(DelayedOrigin (sample_located ''o'' 12), 1)]"
    by code_simp
  then obtain t out where run: "handleMessage delaying sample_message empty_tool = Some (t, out)"
      and "delayBuffer t = [(DelayedOrigin (sample_located ''o'' 12), 1)]" by auto
  moreover have "reachable 1 t" by (rule reachable.message [OF reachable.start delaying_core delaying_span run])
  ultimately show thesis using that by blast
qed

lemma reachable_in_order_witness:
  "\<exists>t out. handleMessage delaying sample_message empty_tool = Some (t, out) \<and> wf_tool t \<and>
     (\<forall>(_, n) \<in> set (delayBuffer t). 0 \<le> n \<and> n \<le> 1)"
proof -
  obtain t out where "handleMessage delaying sample_message empty_tool = Some (t, out)" and "reachable 1 t" by (rule sample_message_handled)
  with reachable_in_order [of 1 t] show ?thesis by blast
qed

lemma delays_end_witness:
  "\<exists>t t' out out'. handleMessage delaying sample_message empty_tool = Some (t, out) \<and> delayBuffer t \<noteq> [] \<and>
     run_timeouts [delaying, delaying] t = Some (t', out') \<and> delayBuffer t' = [] \<and> map fst (events t') = [''gfz2019aaaa'']"
proof -
  obtain t out where msg: "handleMessage delaying sample_message empty_tool = Some (t, out)" and reach: "reachable 1 t"
    and buffer: "delayBuffer t = [(DelayedOrigin (sample_located ''o'' 12), 1)]" by (rule sample_message_handled)
  have "map_option (\<lambda>(t, _). map fst (events t))
      (Option.bind (handleMessage delaying sample_message empty_tool) (\<lambda>(t, _). run_timeouts [delaying, delaying] t)) = Some [''gfz2019aaaa'']"
    by code_simp
  then obtain t' out' where run: "run_timeouts [delaying, delaying] t = Some (t', out')" and ev: "map fst (events t') = [''gfz2019aaaa'']"
    by (auto simp: msg)
  from delays_end [OF reach run] have "delayBuffer t' = []" by simp
  with msg buffer run ev show ?thesis by auto
qed


end
