(* ===== verification/Spec2Isabelle.thy ===== *)
theory Spec2Isabelle
  imports Tokenizer Base64 Firewall Substitution KeyValues Timewindow Config DmContainers Steim1 Steim2
    ThreadedQueue SequenceQueries Criteria BinObjects BinExact TreeDiff CacheFacts EventMessageFacts
begin

text \<open>
  A verification library for SeisComP3, a distributed system for the acquisition, processing and
  exchange of seismological data.  Its programs share the libraries under src/src/trunk/libs/seiscomp3 (in the
  following: the library) and src/src/system/libs/seiscomp3/config; waveforms are served by SeedLink
  (src/src/seedlink).

  Parts of the program and theories

    \<^item> Text handling.  \<open>Strings\<close> has the conversion and comparison functions of core/strings.cpp,
      \<open>Wildcards\<close> its matcher \<open>wildcmp\<close>, \<open>Tokenizer\<close> its two tokenizers and \<open>splitExt\<close>.  On them stand
      \<open>Firewall\<close> (utils/stringfirewall.cpp, which matches with wildcards and caches verdicts), \<open>Substitution\<close>
      (utils/replace.cpp) and \<open>KeyValues\<close> (utils/keyvalues.cpp).  \<open>Base64\<close> is utils/base64.cpp.

    \<^item> Logical expressions.  \<open>LeParser\<close> has the tokenizer and the parser of utils/leparser, \<open>Criteria\<close> the
      criteria of scimex (src/src/trunk/apps/tools/scimex) built with it.

    \<^item> Configuration.  \<open>SymbolTable\<close> is symboltable.cpp, \<open>ConfigText\<close> the text level of config.cpp (tokens,
      right-hand sides, references, writing), \<open>Config\<close> the files, includes, namespaces and typed accessors.

    \<^item> Time.  \<open>Datetime\<close> and \<open>Timewindow\<close> are the time spans and windows of core/datetime.cpp and
      core/timewindow.cpp.

    \<^item> Waveforms.  \<open>Records\<close> and \<open>RecordSequence\<close> are records and the two record buffers of
      core/recordsequence.cpp, \<open>SequenceQueries\<close> the questions about a sequence (windows, gaps, availability,
      amplitudes, one record of all data).  \<open>Steim\<close>, \<open>Steim1\<close> and \<open>Steim2\<close> are the two encoders of SeedLink with
      their decoders as the reference.

    \<^item> Data model.  \<open>DmObjects\<close> has the registry of public objects, the observers and the pool of
      notifiers of datamodel/publicobject.cpp, object.cpp and notifier.cpp; \<open>DmContainers\<close> the generated
      containers, on parameter sets, parameters and comments, and the application of notifiers.

    \<^item> Comparison of object trees.  \<open>ObjectTrees\<close> is datamodel/diff.cpp (\<open>Diff2\<close>, \<open>Diff3\<close>) on objects of any class, as
      a class describes its properties, with the visitor of datamodel/notifier.h that makes the notifiers of a subtree.
      \<open>TreeStores\<close> is what a receiver makes of notifiers: a row for every object; \<open>TreePairs\<close> and \<open>TreeDiff\<close> show that the
      notifiers of a comparison turn the rows of the one tree into those of the other.

    \<^item> Cache of public objects.  \<open>ObjectCache\<close> is datamodel/publicobjectcache.cpp: a doubly linked list of items on a heap
      with a table, and the two buffers built on it.  \<open>CacheLists\<close> shows what each operation makes of the entries, \<open>CacheFacts\<close>
      that whole histories keep what the buffers promise.

    \<^item> Exchange.  \<open>BinStream\<close>, \<open>BinArchive\<close> and \<open>BinObjects\<close> are the binary archives of
      io/archive/binarchive.cpp, with \<open>BinCodec\<close> as the interface all its types keep and \<open>BinExact\<close> on
      what a successful read took from the stream.  \<open>ThreadedQueue\<close> is the queue
      of client/queue.ipp between the threads of an application.

    \<^item> Event association, the program scevent (src/src/trunk/apps/processing/scevent).  Origins and focal mechanisms
      that arrive are associated with events, which are created where none matches, and the best of each becomes
      the preferred one.  \<open>EventModel\<close> has the attributes that scevent reads and the ranks and filters of util.cpp and
      constraints.cpp, \<open>EventId\<close> the identifiers of events (util.cpp), \<open>EventInfo\<close> what is known about an event
      (eventinfo.cpp: journal, picks, references).  The rest is eventtool.cpp: \<open>Contest\<close> and \<open>EventPreferred\<close> choose the
      preferred origin and magnitude, \<open>EventFocal\<close> the preferred focal mechanism, \<open>EventAssociation\<close> matches, creates,
      associates and delays, \<open>EventCommands\<close> are the commands of operators, \<open>EventMessages\<close> the handling of a
      message.  \<open>EventCommandFacts\<close> and \<open>EventMessageFacts\<close> hold what is shown of the last two.  The state is \<open>tool\<close>: the cached
      events (\<open>_events\<close>), the delayed objects (\<open>_delayBuffer\<close>) and the pending choices (\<open>_delayEventBuffer\<close>); what the
      program asks its surroundings (cache of objects, database, travel distance, event processors, time) is the
      record \<open>services\<close>.  Events and delayed objects hold pointers in the code and values here: an origin or focal mechanism has
      an address, which tells instances apart, and \<open>refresh\<close> brings the values held up to date where the code changes
      the object in place.

    \<^item> \<open>Prelude\<close>, \<open>Dictionary\<close> and \<open>StringMap\<close> hold what they share: integers cut to a width, C characters, lists
      searched from an index, the laws of a map, and the map with strings as keys.

  How the code is modelled

    A class is a record of its members, an operation a function from the state to its result and the
    new state, with the guards and early returns of the code.  An exception or an error is a
    value (\<open>Inl\<close> or \<open>None\<close>, as each theory says); undefined behaviour is a value too, so that a theorem
    that an operation yields \<open>Some\<close> shows that there is none.  Integers are \<open>int\<close> with the width written out
    where it matters (\<open>cast_s\<close>), words in the Steim encoders; \<open>double\<close> is \<open>rat\<close> without rounding, in a binary
    archive its bit pattern.  Threads are an inductive step relation in which every critical section is
    one step (\<open>ThreadedQueue\<close>).  What lies outside of the sources is a parameter: environment, files and
    working directory (a record in \<open>Config\<close>), host and user name, the class factory, the factory of
    expressions, the objects and the database of scevent, and variables read before they are set.  The
    event processors of scevent are plugins: functions that keep the identifier and the references of an event.

  Loops and bounds

    Loops are recursive functions with a measure.  Where the code may not end they are
    \<open>partial_function (option)\<close> and the theorem says that they return (\<open>replace_with\<close>, \<open>init\<close> of the key-value sets,
    \<open>parse\<close>, \<open>read_objects\<close>).  Includes of configuration files recurse with fuel, and \<open>readConfig_returns\<close> shows that
    the number of files plus one is enough: reading never ends for want of fuel, only where the code has undefined behaviour.  The archive theorems hold for containers below 2 GB.

  What the lemmas show

    Invariants kept by every operation: symbol table, registry, object tree, namespaces, ring of the
    queue, order of the records, table of class names.  Equivalence with a reference: wildcard matching,
    verdicts with and without cache, windows against gaps, pool of notifiers against the net effect, ring buffer
    against the sorted set of records, notifiers of a comparison against the rows of the two trees, the linked list of the cache
    against a list of entries.  Round
    trips: configuration entries, tokens, Base64, Steim compression, archives, typed accessors, added and removed
    subtrees.  Errors: truncated archives, expressions that are rejected or
    misread.  Safety and liveness of the queue: no lost wake-up, and a thread that can proceed does.
    Event association: the preferred origin and magnitude are the best by the configured rules, identifiers are
    distinct and the first free ones, an origin is referred to by the event it is associated with, events are
    created only if allowed, commands on one event are answered, those on several move references as a whole, no request of a
    message is lost or worked on twice, and in every state that can be reached the cached events are in order and no delayed object is kept for ever.
    Where the code does not do what it means to, a theorem states what it does.

    Interfaces are locales, interpreted on the model where the provider is defined: maps (\<open>Dictionary\<close>), the
    bounded queue (\<open>ThreadedQueue\<close>), the Steim word formats (\<open>Steim\<close>), storable types and codecs of fixed
    size (\<open>BinCodec\<close>), readers that take nothing but what is stored (\<open>BinExact\<close>), the alphabets of identifiers (\<open>EventId\<close>), the choice of a best one by comparing in turn
    (\<open>Contest\<close>), the map with strings as keys, which is a dictionary (\<open>StringMap\<close>), and what a buffer drops (\<open>CacheFacts\<close>).

  Not modelled

    The generated classes of the data model other than the three containers, as all are generated
    by the same rules; databases, messaging over the network, graphical interfaces and wrappers, which
    are input and output over third-party libraries; floating point signal processing, where the rounding
    is the point; conversion of times to and from text and calendar, which call the C library.  Of the
    modelled parts each theory names what it leaves out; of scevent these are the configuration, the start and its
    modes on the command line, sending, and log output.  Not modelled yet, but within reach, are the messaging
    protocol and the text of the log of a comparison.
\<close>

end
